(* ===== verification/Prelude.thy ===== *)
theory Prelude
  imports Main
begin

text \<open>
  What every component shares: the exceptions Python code raises, results as a sum of an
  exception and a value, decimal printing of integers, and list facts used by several
  components. The collections \<open>inv_intros\<close> and \<open>frame\<close> gather, component by component, the
  preservation lemmas and the facts about fields an operation does not touch.
\<close>

named_theorems inv_intros \<open>operations preserve their component's invariant\<close>
named_theorems frame \<open>fields an operation leaves alone\<close>

subsection \<open>Exceptions and results\<close>

datatype py_error =
    ValueError string
  | OverflowError
  | ConflictError string
  | NotFoundError string
  | IntegrityError
  | InvalidRequestError
  | TypeError

type_synonym 'a result = "py_error + 'a"

definition bind_r :: "'a result \<Rightarrow> ('a \<Rightarrow> 'b result) \<Rightarrow> 'b result" where
  "bind_r r f = (case r of Inl e \<Rightarrow> Inl e | Inr a \<Rightarrow> f a)"

lemma bind_r_simps [simp]: "bind_r (Inl e) f = Inl e" "bind_r (Inr a) f = f a"
  by (simp_all add: bind_r_def)

lemma bind_r_eq_Inr [simp]: "bind_r r f = Inr b \<longleftrightarrow> (\<exists>a. r = Inr a \<and> f a = Inr b)"
  by (cases r) auto

lemma bind_r_eq_Inl: "bind_r r f = Inl e \<longleftrightarrow> r = Inl e \<or> (\<exists>a. r = Inr a \<and> f a = Inl e)"
  by (cases r) auto

lemma case2_Inr [simp]:
  "((case x of (a, b) \<Rightarrow> Inr (f a b)) = Inr y) = (\<exists>a b. x = (a, b) \<and> f a b = y)"
  by (cases x) auto

lemma case3_Inr [simp]:
  "((case x of (a, b, c) \<Rightarrow> Inr (f a b c)) = Inr y) = (\<exists>a b c. x = (a, b, c) \<and> f a b c = y)"
  by (cases x) auto

lemma case_tuple_Inl [simp]:
  "(case x of (a, b) \<Rightarrow> Inr (f a b)) \<noteq> Inl e" "(case y of (a, b, c) \<Rightarrow> Inr (h a b c)) \<noteq> Inl e"
  by (simp_all split: prod.splits)

text \<open>Takes a chain of \<open>elif\<close>s apart one test at a time, without rewriting with the tests.\<close>

lemma if_elim:
  assumes "(if c then a else b) = v" and "c \<Longrightarrow> a = v \<Longrightarrow> P" and "\<not> c \<Longrightarrow> b = v \<Longrightarrow> P"
  shows P
  using assms by (cases c) auto

subsection \<open>Decimal integers\<close>

definition digit_char :: "nat \<Rightarrow> char" where
  "digit_char d = ''0123456789'' ! d"

fun show_nat :: "nat \<Rightarrow> string" where
  "show_nat n = (if n < 10 then [digit_char n] else show_nat (n div 10) @ [digit_char (n mod 10)])"

declare show_nat.simps [simp del]

definition show_int :: "int \<Rightarrow> string" where
  "show_int i = (if i < 0 then CHR ''-'' # show_nat (nat (- i)) else show_nat (nat i))"

lemma digit_char_inj: "a < 10 \<Longrightarrow> b < 10 \<Longrightarrow> digit_char a = digit_char b \<Longrightarrow> a = b"
  using nth_eq_iff_index_eq [of "''0123456789''" a b] by (simp add: digit_char_def)

lemma digit_char_set: "d < 10 \<Longrightarrow> digit_char d \<in> set ''0123456789''"
  using nth_mem [of d "''0123456789''"] by (simp add: digit_char_def)

lemma show_nat_nonempty [simp]: "show_nat n \<noteq> []"
  by (subst show_nat.simps) simp

lemma show_nat_digits: "set (show_nat n) \<subseteq> set ''0123456789''"
proof (induction n rule: show_nat.induct)
  case (1 n)
  then show ?case by (subst show_nat.simps) (use digit_char_set in auto)
qed

lemma show_nat_inj: "show_nat m = show_nat n \<Longrightarrow> m = n"
proof (induction m arbitrary: n rule: show_nat.induct)
  case (1 m)
  consider "m < 10" "n < 10" | "m < 10" "\<not> n < 10" | "\<not> m < 10" "n < 10" | "\<not> m < 10" "\<not> n < 10"
    by blast
  then show ?case
  proof cases
    case 4
    with "1.prems" have "show_nat (m div 10) = show_nat (n div 10)"
      and "digit_char (m mod 10) = digit_char (n mod 10)"
      by (simp_all add: show_nat.simps [of m] show_nat.simps [of n])
    with "1.IH" 4 have "m div 10 = n div 10" and "m mod 10 = n mod 10"
      by (auto dest: digit_char_inj [rotated 2])
    then show ?thesis by (metis div_mult_mod_eq)
  qed (use "1.prems" digit_char_inj in \<open>auto simp: show_nat.simps [of m] show_nat.simps [of n]
        append_eq_Cons_conv Cons_eq_append_conv\<close>)
qed

lemma show_int_inj: "show_int i = show_int j \<Longrightarrow> i = j"
proof -
  have neg: "show_nat n \<noteq> CHR ''-'' # xs" for n xs
    using show_nat_digits [of n] by auto
  assume "show_int i = show_int j"
  then show ?thesis
    using show_nat_inj [of "nat i" "nat j"] show_nat_inj [of "nat (- i)" "nat (- j)"] neg neg [symmetric]
    by (auto simp: show_int_def split: if_splits)
qed

lemma colon_notin_show_int [simp]: "CHR '':'' \<notin> set (show_int i)"
  using show_nat_digits [of "nat i"] show_nat_digits [of "nat (- i)"] by (auto simp: show_int_def)

text \<open>A separator that does not occur in the first part splits a string in one way only.\<close>

lemma sep_unique:
  assumes "c \<notin> set a" "c \<notin> set a'" "a @ c # b = a' @ c # b'"
  shows "a = a' \<and> b = b'"
  using assms
proof (induction a arbitrary: a')
  case Nil
  then show ?case by (cases a') auto
next
  case (Cons x xs)
  then show ?case by (cases a') auto
qed

definition quoted :: "string \<Rightarrow> string" where
  "quoted s = CHR 0x27 # s @ [CHR 0x27]"

subsection \<open>Lists\<close>

text \<open>\<open>next((x for x in xs if p(x)), None)\<close> with the position of the hit, since the code goes
  on to mutate the row it found.\<close>

fun find_idx :: "('a \<Rightarrow> bool) \<Rightarrow> 'a list \<Rightarrow> nat option" where
  "find_idx p [] = None"
| "find_idx p (x # xs) = (if p x then Some 0 else map_option Suc (find_idx p xs))"

lemma find_idx_None [simp]: "find_idx p xs = None \<longleftrightarrow> (\<forall>x \<in> set xs. \<not> p x)"
  by (induction xs) auto

lemma find_idx_Some: "find_idx p xs = Some i \<Longrightarrow> i < length xs \<and> p (xs ! i) \<and> (\<forall>j < i. \<not> p (xs ! j))"
proof (induction xs arbitrary: i)
  case Nil
  then show ?case by simp
next
  case (Cons x xs)
  then show ?case by (auto simp: nth_Cons split: if_splits nat.splits)
qed

lemma find_idx_SomeD:
  assumes "find_idx p xs = Some i" shows "i < length xs" "p (xs ! i)"
  using find_idx_Some [OF assms] by auto

end
