(* ===== verification/PyFloat.thy ===== *)
theory PyFloat
  imports Prelude "HOL-Library.Log_Nat"
begin

text \<open>
  Python floats. A \<open>float\<close> is a binary64 number, modelled by the rational it denotes;
  \<open>b64\<close> rounds a rational to the nearest binary64 number, ties to even, with 53 bits of
  precision and subnormals down to \<open>2 powi (- 1074)\<close>. The operations \<open>fadd\<close>, \<open>fsub\<close>,
  \<open>fmul\<close> and \<open>fdiv\<close> convert both operands (an \<open>int\<close> operand is coerced, a float operand is
  unchanged because rounding is idempotent), compute exactly and round once, which is what
  IEEE 754 asks of the hardware and what CPython relies on. Infinities, NaN and the overflow
  above \<open>2 ^ 1024\<close> are not values of the arithmetic: the code rejects them at its borders
  (\<open>math.isfinite\<close>), and those rejections are modelled where they happen.

  Everything is executable, so \<open>code_simp\<close> computes the very bits Python would.
  The locale \<open>rounding\<close> is the interface the scoring proofs rest on (monotone, exact on the
  integers up to \<open>2 ^ 53\<close>, idempotent); it is interpreted on \<open>b64\<close> itself.
\<close>

subsection \<open>Rounding to nearest, ties to even\<close>

definition round_even :: "rat \<Rightarrow> int" where
  "round_even y =
     (let f = \<lfloor>y\<rfloor>; d = y - of_int f
      in if d < 1 / 2 then f
         else if d > 1 / 2 then f + 1
         else if even f then f else f + 1)"

definition ilog2 :: "rat \<Rightarrow> int" where
  "ilog2 x = (if 1 \<le> x then bitlen \<lfloor>x\<rfloor> - 1 else - bitlen (\<lceil>1 / x\<rceil> - 1))"

definition ulp_exp :: "rat \<Rightarrow> int" where
  "ulp_exp x = max (ilog2 \<bar>x\<bar> - 52) (- 1074)"

definition b64 :: "rat \<Rightarrow> rat" where
  "b64 x = (if x = 0 then 0
     else of_int (round_even (x / 2 powi ulp_exp x)) * 2 powi ulp_exp x)"

lemma round_even_floor: "round_even y = \<lfloor>y\<rfloor> \<or> round_even y = \<lfloor>y\<rfloor> + 1"
  by (simp add: round_even_def Let_def)

lemma round_even_of_int [simp]: "round_even (of_int n) = n"
  by (simp add: round_even_def)

lemma round_even_mono:
  assumes "x \<le> y" shows "round_even x \<le> round_even y"
proof (cases "\<lfloor>x\<rfloor> = \<lfloor>y\<rfloor>")
  case True
  with assms show ?thesis by (auto simp: round_even_def Let_def)
next
  case False
  with floor_mono [OF assms] have "\<lfloor>x\<rfloor> + 1 \<le> \<lfloor>y\<rfloor>" by linarith
  then show ?thesis using round_even_floor [of x] round_even_floor [of y] by linarith
qed

lemma round_even_minus: "round_even (- y) = - round_even y"
proof (cases "y \<in> \<int>")
  case True
  then obtain n where "y = of_int n" by (auto elim: Ints_cases)
  moreover have "round_even (of_int (- n)) = - n" by (rule round_even_of_int)
  ultimately show ?thesis by simp
next
  case False
  then have c: "\<lfloor>- y\<rfloor> = - \<lfloor>y\<rfloor> - 1"
    by (simp add: floor_minus ceiling_altdef) (metis Ints_of_int)
  show ?thesis
    unfolding round_even_def Let_def c by auto
qed

lemma round_even_err: "\<bar>of_int (round_even y) - y\<bar> \<le> 1 / 2"
proof -
  have "of_int \<lfloor>y\<rfloor> \<le> y" "y < of_int \<lfloor>y\<rfloor> + 1" by (rule of_int_floor_le) linarith
  then show ?thesis unfolding round_even_def Let_def by (simp add: abs_le_iff not_less)
qed

subsection \<open>The binary exponent\<close>

lemma ilog2_bounds:
  assumes "0 < x"
  shows "2 powi ilog2 x \<le> x" "x < 2 powi (ilog2 x + 1)"
proof -
  have "2 powi ilog2 x \<le> x \<and> x < 2 powi (ilog2 x + 1)"
  proof (cases "1 \<le> x")
    case True
    let ?n = "\<lfloor>x\<rfloor>"
    have n: "0 < ?n" using True by simp
    have p: "0 < bitlen ?n" using n bitlen_nonneg [of ?n] bitlen_eq_zero_iff [of ?n] by linarith
    have b: "2 ^ nat (bitlen ?n - 1) \<le> ?n" "?n < 2 ^ nat (bitlen ?n)"
      using bitlen_bounds [OF n] by auto
    have "rat_of_int (2 ^ nat (bitlen ?n - 1)) \<le> of_int ?n" using b(1) by (simp only: of_int_le_iff)
    moreover have "of_int ?n \<le> x" by (rule of_int_floor_le)
    ultimately have "rat_of_int (2 ^ nat (bitlen ?n - 1)) \<le> x" by (rule order_trans)
    then have "2 powi (bitlen ?n - 1) \<le> x"
      using p by (simp add: power_int_def)
    moreover have "x < 2 powi (bitlen ?n)"
    proof -
      have "of_int (?n + 1) \<le> rat_of_int (2 ^ nat (bitlen ?n))" using b(2) by (simp only: of_int_le_iff)
      moreover have "x < of_int (?n + 1)" by linarith
      ultimately have "x < rat_of_int (2 ^ nat (bitlen ?n))" by (rule less_le_trans [rotated])
      then show ?thesis using p by (simp add: power_int_def)
    qed
    ultimately show ?thesis using True by (simp add: ilog2_def)
  next
    case False
    let ?m = "\<lceil>1 / x\<rceil> - 1"
    have "1 < 1 / x" using False assms by simp
    then have m: "0 < ?m" by linarith
    have p: "0 < bitlen ?m" using m bitlen_nonneg [of ?m] bitlen_eq_zero_iff [of ?m] by linarith
    have b: "2 ^ nat (bitlen ?m - 1) \<le> ?m" "?m < 2 ^ nat (bitlen ?m)"
      using bitlen_bounds [OF m] by auto
    have "rat_of_int (2 ^ nat (bitlen ?m - 1)) \<le> of_int ?m" using b(1) by (simp only: of_int_le_iff)
    moreover have "of_int ?m < 1 / x" by linarith
    ultimately have "rat_of_int (2 ^ nat (bitlen ?m - 1)) < 1 / x" by (rule le_less_trans)
    then have lo: "2 powi (bitlen ?m - 1) < 1 / x"
      using p by (simp add: power_int_def)
    have "of_int (?m + 1) \<le> rat_of_int (2 ^ nat (bitlen ?m))" using b(2) by (simp only: of_int_le_iff)
    moreover have "1 / x \<le> of_int (?m + 1)" by linarith
    ultimately have "1 / x \<le> rat_of_int (2 ^ nat (bitlen ?m))" by (rule order_trans [rotated])
    then have hi: "1 / x \<le> 2 powi (bitlen ?m)"
      using p by (simp add: power_int_def)
    have "2 powi (- bitlen ?m) \<le> x"
      using hi assms by (simp add: power_int_minus field_simps)
    moreover have "x < 2 powi (- bitlen ?m + 1)"
    proof -
      have "2 powi (- bitlen ?m + 1) = inverse (2 powi (bitlen ?m - 1) :: rat)"
        by (simp add: power_int_minus [symmetric])
      moreover have "x < inverse a" if "0 < a" "a < 1 / x" for a
        using that assms by (simp add: field_simps)
      ultimately show ?thesis using lo by simp
    qed
    ultimately show ?thesis using False by (simp add: ilog2_def)
  qed
  then show "2 powi ilog2 x \<le> x" "x < 2 powi (ilog2 x + 1)" by auto
qed


subsection \<open>Monotonicity\<close>

lemma powi_le_iff: "(2::rat) powi a \<le> 2 powi b \<longleftrightarrow> a \<le> b"
  by (meson linorder_not_le one_less_numeral_iff power_int_increasing power_int_strict_increasing
      semiring_norm(76) less_imp_le)

lemma powi_less_iff: "(2::rat) powi a < 2 powi b \<longleftrightarrow> a < b"
  using powi_le_iff by (simp only: linorder_not_le [symmetric])

lemma powi_split: "(2::rat) powi (a + b) = 2 powi a * 2 powi b"
  by (simp add: power_int_add)

lemma ilog2_mono:
  assumes "0 < x" "x \<le> y" shows "ilog2 x \<le> ilog2 y"
proof -
  from assms have "0 < y" by simp
  have "2 powi ilog2 x \<le> x" using ilog2_bounds(1) [OF assms(1)] .
  also note assms(2)
  also have "y < 2 powi (ilog2 y + 1)" using ilog2_bounds(2) [OF \<open>0 < y\<close>] .
  finally show ?thesis by (simp add: powi_less_iff)
qed

lemma ulp_exp_mono: "0 < x \<Longrightarrow> x \<le> y \<Longrightarrow> ulp_exp x \<le> ulp_exp y"
  using ilog2_mono by (fastforce simp: ulp_exp_def)

lemma ulp_exp_minus [simp]: "ulp_exp (- x) = ulp_exp x"
  by (simp add: ulp_exp_def)

lemma ulp_exp_ge: "- 1074 \<le> ulp_exp x"
  by (simp add: ulp_exp_def)

lemma mantissa_less:
  assumes "0 < x" shows "x < 2 powi (ulp_exp x + 53)"
proof -
  have "x < 2 powi (ilog2 x + 1)" by (rule ilog2_bounds(2) [OF assms])
  also have "\<dots> \<le> 2 powi (ulp_exp x + 53)"
    using assms by (simp add: powi_le_iff ulp_exp_def)
  finally show ?thesis .
qed

lemma b64_0 [simp]: "b64 0 = 0"
  by (simp add: b64_def)

lemma b64_minus: "b64 (- x) = - b64 x"
  by (simp add: b64_def round_even_minus)

lemma b64_pos: "0 < x \<Longrightarrow> b64 x = of_int (round_even (x / 2 powi ulp_exp x)) * 2 powi ulp_exp x"
  by (simp add: b64_def)

lemma b64_nonneg: "0 \<le> x \<Longrightarrow> 0 \<le> b64 x"
proof -
  assume "0 \<le> x"
  then have "0 \<le> x / 2 powi ulp_exp x" by simp
  then have "round_even (of_int 0) \<le> round_even (x / 2 powi ulp_exp x)"
    by (intro round_even_mono) simp
  then show ?thesis by (simp add: b64_def del: of_int_0)
qed

lemma b64_le_powi:
  assumes "0 < x" shows "b64 x \<le> 2 powi (ulp_exp x + 53)"
proof -
  let ?u = "ulp_exp x"
  have "x \<le> 2 powi 53 * 2 powi ?u"
    using mantissa_less [OF assms] by (simp add: powi_split mult.commute)
  then have "x / 2 powi ?u \<le> of_int (2 ^ 53)" by (simp add: field_simps)
  then have "round_even (x / 2 powi ?u) \<le> 2 ^ 53"
    using round_even_mono [of _ "of_int (2 ^ 53)"] by (metis round_even_of_int)
  then have "rat_of_int (round_even (x / 2 powi ?u)) \<le> of_int (2 ^ 53)" by (simp only: of_int_le_iff)
  then show ?thesis using assms by (simp add: b64_pos powi_split mult.commute)
qed

lemma b64_ge_powi:
  assumes "0 < y" "2 powi (ulp_exp y + 52) \<le> y" shows "2 powi (ulp_exp y + 52) \<le> b64 y"
proof -
  let ?u = "ulp_exp y"
  have "of_int (2 ^ 52) \<le> y / 2 powi ?u" using assms(2) by (simp add: powi_split field_simps)
  then have "2 ^ 52 \<le> round_even (y / 2 powi ?u)"
    using round_even_mono [of "of_int (2 ^ 52)"] by (metis round_even_of_int)
  then have "of_int (2 ^ 52) \<le> rat_of_int (round_even (y / 2 powi ?u))" by (simp only: of_int_le_iff)
  then show ?thesis using assms(1) by (simp add: b64_pos powi_split mult.commute)
qed

lemma b64_mono_pos:
  assumes "0 < x" "x \<le> y" shows "b64 x \<le> b64 y"
proof (cases "ulp_exp x = ulp_exp y")
  case True
  have "x / 2 powi ulp_exp y \<le> y / 2 powi ulp_exp y" using assms(2) by (simp add: divide_right_mono)
  then have "round_even (x / 2 powi ulp_exp y) \<le> round_even (y / 2 powi ulp_exp y)"
    by (rule round_even_mono)
  then show ?thesis using assms True by (simp add: b64_pos mult_right_mono)
next
  case False
  have y: "0 < y" using assms by simp
  have lt: "ulp_exp x < ulp_exp y" using ulp_exp_mono [OF assms] False by simp
  then have "ulp_exp y = ilog2 y - 52" using ulp_exp_ge [of x] y by (auto simp: ulp_exp_def max_def split: if_splits)
  then have "2 powi (ulp_exp y + 52) \<le> y" using ilog2_bounds(1) [OF y] by simp
  then have "2 powi (ulp_exp y + 52) \<le> b64 y" by (rule b64_ge_powi [OF y])
  moreover have "b64 x \<le> 2 powi (ulp_exp x + 53)" by (rule b64_le_powi [OF assms(1)])
  moreover have "(2::rat) powi (ulp_exp x + 53) \<le> 2 powi (ulp_exp y + 52)" using lt by (simp add: powi_le_iff)
  ultimately show ?thesis by linarith
qed

lemma b64_nonpos: "x \<le> 0 \<Longrightarrow> b64 x \<le> 0"
  using b64_nonneg [of "- x"] by (simp add: b64_minus)

lemma b64_mono:
  assumes "x \<le> y" shows "b64 x \<le> b64 y"
proof (cases "0 < x")
  case True
  then show ?thesis using assms by (rule b64_mono_pos)
next
  case False
  show ?thesis
  proof (cases "y < 0")
    case True
    then have "b64 (- y) \<le> b64 (- x)" using assms by (intro b64_mono_pos) auto
    then show ?thesis by (simp add: b64_minus)
  next
    case F: False
    then show ?thesis using False b64_nonpos [of x] b64_nonneg [of y] by linarith
  qed
qed


subsection \<open>Exactly representable numbers\<close>

lemma b64_exact_pos:
  assumes n: "0 < n" "n \<le> 2 ^ 53" and e: "- 1074 \<le> e"
  shows "b64 (of_int n * 2 powi e) = of_int n * 2 powi e"
proof -
  define x :: rat where "x = of_int n * 2 powi e"
  define u where "u = ulp_exp x"
  have x: "0 < x" using n by (simp add: x_def)
  have int: "x / 2 powi u \<in> \<int>"
  proof (cases "u \<le> e")
    case True
    have "x / 2 powi u = of_int n * 2 powi (e - u)" by (simp add: x_def power_int_diff)
    also have "\<dots> = of_int (n * 2 ^ nat (e - u))" using True by (simp add: power_int_def)
    finally show ?thesis by (metis Ints_of_int)
  next
    case False
    have "rat_of_int n \<le> of_int (2 ^ 53)" using n(2) by (simp only: of_int_le_iff)
    then have "x \<le> 2 powi (53 + e)" by (simp add: x_def powi_split mult_right_mono)
    moreover have "2 powi ilog2 x \<le> x" by (rule ilog2_bounds(1) [OF x])
    ultimately have "(2::rat) powi ilog2 x \<le> 2 powi (53 + e)" by (rule order_trans [rotated])
    then have i: "ilog2 x \<le> 53 + e" by (simp add: powi_le_iff)
    from False e x have "u = ilog2 x - 52" by (auto simp: u_def ulp_exp_def max_def split: if_splits)
    with i False have eq: "u = e + 1" "ilog2 x = 53 + e" by auto
    then have "2 powi (53 + e) \<le> x" using ilog2_bounds(1) [OF x] by simp
    then have "x = 2 powi (53 + e)" using \<open>x \<le> 2 powi (53 + e)\<close> by simp
    then have "x / 2 powi u = 2 powi 52" by (simp add: eq power_int_diff [symmetric] algebra_simps)
    also have "\<dots> = of_int (2 ^ 52)" by (simp add: power_int_def)
    finally show ?thesis by (metis Ints_of_int)
  qed
  then obtain m where "x / 2 powi u = of_int m" by (auto elim: Ints_cases)
  then show ?thesis using x by (simp add: b64_pos u_def [symmetric] x_def [symmetric])
      (simp add: field_simps)
qed

lemma b64_exact:
  assumes "\<bar>n\<bar> \<le> 2 ^ 53" "- 1074 \<le> e"
  shows "b64 (of_int n * 2 powi e) = of_int n * 2 powi e"
proof (cases n "0::int" rule: linorder_cases)
  case less
  then have "b64 (of_int (- n) * 2 powi e) = of_int (- n) * 2 powi e"
    using assms by (intro b64_exact_pos) auto
  then show ?thesis using b64_minus [of "of_int n * 2 powi e"] by simp
qed (use assms b64_exact_pos in auto)

lemma b64_of_int: "\<bar>n\<bar> \<le> 2 ^ 53 \<Longrightarrow> b64 (of_int n) = of_int n"
  using b64_exact [of n 0] by simp

lemma b64_mantissa:
  "\<exists>m e. b64 x = of_int m * 2 powi e \<and> \<bar>m\<bar> \<le> 2 ^ 53 \<and> - 1074 \<le> e"
proof -
  have *: "\<exists>m e. b64 x = of_int m * 2 powi e \<and> \<bar>m\<bar> \<le> 2 ^ 53 \<and> - 1074 \<le> e" if "0 < x" for x
  proof -
    let ?m = "round_even (x / 2 powi ulp_exp x)"
    have b: "b64 x = of_int ?m * 2 powi ulp_exp x" using that by (rule b64_pos)
    have "0 \<le> b64 x" using that by (simp add: b64_nonneg)
    moreover have "0 < (2::rat) powi ulp_exp x" by simp
    ultimately have "0 \<le> ?m" by (auto simp: b zero_le_mult_iff)
    moreover have "rat_of_int ?m * 2 powi ulp_exp x \<le> 2 powi 53 * 2 powi ulp_exp x"
      using b64_le_powi [OF that] by (simp add: b powi_split mult.commute)
    then have "rat_of_int ?m \<le> of_int (2 ^ 53)" by simp
    then have "?m \<le> 2 ^ 53" by (simp only: of_int_le_iff)
    ultimately show ?thesis using b ulp_exp_ge by (metis abs_of_nonneg)
  qed
  show ?thesis
  proof (cases x "0::rat" rule: linorder_cases)
    case less
    then obtain m e where "b64 (- x) = of_int m * 2 powi e" "\<bar>m\<bar> \<le> 2 ^ 53" "- 1074 \<le> e"
      using * [of "- x"] by auto
    then have "b64 x = of_int (- m) * 2 powi e" by (simp add: b64_minus minus_equation_iff)
    then show ?thesis using \<open>\<bar>m\<bar> \<le> 2 ^ 53\<close> \<open>- 1074 \<le> e\<close> by (metis abs_minus_cancel)
  next
    case equal
    then show ?thesis by (intro exI [of _ 0] exI [of _ "0::int"]) simp
  qed (use * in auto)
qed

lemma b64_idem [simp]: "b64 (b64 x) = b64 x"
proof -
  obtain m e where "b64 x = of_int m * 2 powi e" "\<bar>m\<bar> \<le> 2 ^ 53" "- 1074 \<le> e"
    using b64_mantissa by blast
  then show ?thesis using b64_exact by simp
qed

lemma b64_err: "\<bar>b64 x - x\<bar> \<le> 2 powi ulp_exp x / 2"
proof (cases "x = 0")
  case False
  let ?u = "2 powi ulp_exp x :: rat"
  have "b64 x - x = (of_int (round_even (x / ?u)) - x / ?u) * ?u" using False by (simp add: b64_def field_simps)
  then have "\<bar>b64 x - x\<bar> = \<bar>of_int (round_even (x / ?u)) - x / ?u\<bar> * ?u" by (simp add: abs_mult)
  also have "\<dots> \<le> 1 / 2 * ?u" by (rule mult_right_mono [OF round_even_err]) simp
  finally show ?thesis by simp
qed simp

lemma b64_dyadic:
  assumes "\<bar>n\<bar> \<le> 2 ^ 53" "k \<le> 1074"
  shows "b64 (of_int n / 2 ^ k) = of_int n / 2 ^ k"
proof -
  have "(2::rat) powi (- int k) = 1 / 2 ^ k" by (simp add: power_int_minus divide_inverse)
  then show ?thesis using b64_exact [of n "- int k"] assms by simp
qed


lemma b64_gt_0: "1 / 1048576 \<le> x \<Longrightarrow> 0 < b64 x"
proof -
  assume "1 / 1048576 \<le> x"
  then have "b64 (1 / 1048576) \<le> b64 x" by (rule b64_mono)
  moreover have "b64 (1 / 1048576) = 1 / 1048576" using b64_dyadic [of 1 20] by simp
  ultimately show ?thesis by simp
qed

lemma b64_numeral [simp]:
  "(numeral k :: int) \<le> 9007199254740992 \<Longrightarrow> b64 (numeral k) = numeral k"
  using b64_of_int [of "numeral k"] by simp

lemma b64_neg_numeral [simp]:
  "(numeral k :: int) \<le> 9007199254740992 \<Longrightarrow> b64 (- numeral k) = - numeral k"
  by (simp add: b64_minus)

lemma b64_1 [simp]: "b64 1 = 1"
  using b64_of_int [of 1] by simp

subsection \<open>Arithmetic\<close>

definition is_b64 :: "rat \<Rightarrow> bool" where
  "is_b64 x \<longleftrightarrow> b64 x = x"

definition fadd :: "rat \<Rightarrow> rat \<Rightarrow> rat" where "fadd x y = b64 (b64 x + b64 y)"
definition fsub :: "rat \<Rightarrow> rat \<Rightarrow> rat" where "fsub x y = b64 (b64 x - b64 y)"
definition fmul :: "rat \<Rightarrow> rat \<Rightarrow> rat" where "fmul x y = b64 (b64 x * b64 y)"
definition fdiv :: "rat \<Rightarrow> rat \<Rightarrow> rat" where "fdiv x y = b64 (b64 x / b64 y)"

locale rounding =
  fixes rnd :: "rat \<Rightarrow> rat"
  assumes rnd_mono: "x \<le> y \<Longrightarrow> rnd x \<le> rnd y"
    and rnd_int: "\<bar>n\<bar> \<le> 2 ^ 53 \<Longrightarrow> rnd (of_int n) = of_int n"
    and rnd_idem: "rnd (rnd x) = rnd x"
begin

lemma rnd_ge_int: "\<bar>n\<bar> \<le> 2 ^ 53 \<Longrightarrow> of_int n \<le> x \<Longrightarrow> of_int n \<le> rnd x"
  using rnd_mono [of "of_int n" x] rnd_int [of n] by simp

lemma rnd_le_int: "\<bar>n\<bar> \<le> 2 ^ 53 \<Longrightarrow> x \<le> of_int n \<Longrightarrow> rnd x \<le> of_int n"
  using rnd_mono [of x "of_int n"] rnd_int [of n] by simp

lemma rnd_nonneg: "0 \<le> x \<Longrightarrow> 0 \<le> rnd x"
  using rnd_ge_int [of 0 x] by simp

lemma rnd_le_0: "x \<le> 0 \<Longrightarrow> rnd x \<le> 0"
  using rnd_le_int [of 0 x] by simp

text \<open>What rounding does to an accumulator: adding a nonnegative amount never lowers it,
  subtracting one never raises it.\<close>

lemma rnd_add_ge: "rnd x = x \<Longrightarrow> 0 \<le> y \<Longrightarrow> x \<le> rnd (x + rnd y)"
  using rnd_mono [of x "x + rnd y"] rnd_nonneg [of y] by simp

lemma rnd_sub_le: "rnd x = x \<Longrightarrow> 0 \<le> y \<Longrightarrow> rnd (x - rnd y) \<le> x"
  using rnd_mono [of "x - rnd y" x] rnd_nonneg [of y] by simp

end

interpretation dbl: rounding b64
  by unfold_locales (simp_all add: b64_mono b64_of_int)

lemma is_b64_b64 [simp]: "is_b64 (b64 x)" by (simp add: is_b64_def)
lemma is_b64_fadd [simp]: "is_b64 (fadd x y)" by (simp add: fadd_def)
lemma is_b64_fsub [simp]: "is_b64 (fsub x y)" by (simp add: fsub_def)
lemma is_b64_fmul [simp]: "is_b64 (fmul x y)" by (simp add: fmul_def)
lemma is_b64_fdiv [simp]: "is_b64 (fdiv x y)" by (simp add: fdiv_def)
lemma is_b64_0 [simp]: "is_b64 0" by (simp add: is_b64_def)
lemma is_b64_1 [simp]: "is_b64 1" by (simp add: is_b64_def)

lemma is_b64_numeral [simp]: "(numeral k :: int) \<le> 9007199254740992 \<Longrightarrow> is_b64 (numeral k)"
  by (simp add: is_b64_def)

lemma is_b64_of_int: "\<bar>n\<bar> \<le> 2 ^ 53 \<Longrightarrow> is_b64 (of_int n)"
  by (simp add: is_b64_def b64_of_int)

lemma is_b64_minmax [simp]: "is_b64 x \<Longrightarrow> is_b64 y \<Longrightarrow> is_b64 (min x y)"
    "is_b64 x \<Longrightarrow> is_b64 y \<Longrightarrow> is_b64 (max x y)"
  by (auto simp: min_def max_def)

lemma fadd_nonneg: "0 \<le> x \<Longrightarrow> 0 \<le> y \<Longrightarrow> 0 \<le> fadd x y"
  by (simp add: fadd_def dbl.rnd_nonneg)

lemma fmul_nonneg: "0 \<le> x \<Longrightarrow> 0 \<le> y \<Longrightarrow> 0 \<le> fmul x y"
  by (simp add: fmul_def dbl.rnd_nonneg)

lemma fdiv_nonneg: "0 \<le> x \<Longrightarrow> 0 \<le> y \<Longrightarrow> 0 \<le> fdiv x y"
  by (simp add: fdiv_def dbl.rnd_nonneg)

lemma fadd_ge: "is_b64 x \<Longrightarrow> 0 \<le> y \<Longrightarrow> x \<le> fadd x y"
  by (simp add: fadd_def is_b64_def dbl.rnd_add_ge)

lemma fsub_le: "is_b64 x \<Longrightarrow> 0 \<le> y \<Longrightarrow> fsub x y \<le> x"
  by (simp add: fsub_def is_b64_def dbl.rnd_sub_le)

lemma fsub_nonneg: "y \<le> x \<Longrightarrow> 0 \<le> fsub x y"
  by (simp add: fsub_def dbl.rnd_nonneg b64_mono)

lemma fadd_mono: "x \<le> x' \<Longrightarrow> y \<le> y' \<Longrightarrow> fadd x y \<le> fadd x' y'"
  by (simp add: fadd_def b64_mono add_mono)

lemma fsub_mono: "x \<le> x' \<Longrightarrow> y' \<le> y \<Longrightarrow> fsub x y \<le> fsub x' y'"
  by (simp add: fsub_def b64_mono diff_mono)

lemma fmul_mono: "0 \<le> x \<Longrightarrow> x \<le> x' \<Longrightarrow> 0 \<le> y \<Longrightarrow> y \<le> y' \<Longrightarrow> fmul x y \<le> fmul x' y'"
  unfolding fmul_def by (intro b64_mono mult_mono) (auto simp: b64_mono dbl.rnd_nonneg)

lemma fmul_1 [simp]: "fmul x 1 = b64 x" "fmul 1 x = b64 x"
  by (simp_all add: fmul_def)

lemma fadd_0 [simp]: "fadd x 0 = b64 x" "fadd 0 x = b64 x"
  by (simp_all add: fadd_def)

lemmas fops = fadd_def fsub_def fmul_def fdiv_def

end
