(* ===== verification/PyJson.thy ===== *)
theory PyJson
  imports PyFloat
begin

text \<open>
  JSON values as \<open>json.loads\<close> produces them (which accepts \<open>NaN\<close> and \<open>Infinity\<close>), dicts as
  association lists with the insertion order Python keeps, and the library predicates the code
  applies to untrusted values. \<open>math.isfinite\<close> raises \<open>OverflowError\<close> on an \<open>int\<close> that does
  not fit a double, so it is a result. \<open>str\<close> of a float, a list or a dict is not
  modelled: a \<open>platform\<close> carries it, together with the C library's \<open>pow\<close>, as parameters.
\<close>

datatype json =
    JNull | JBool bool | JInt int | JFloat rat | JNaN | JInf bool
  | JStr string | JArr "json list" | JObj "(string \<times> json) list"

type_synonym dict = "(string \<times> json) list"

definition dict_get :: "dict \<Rightarrow> string \<Rightarrow> json option" where
  "dict_get d k = map_of d k"

definition dict_get_or :: "dict \<Rightarrow> string \<Rightarrow> json \<Rightarrow> json" where
  "dict_get_or d k v = (case map_of d k of None \<Rightarrow> v | Some w \<Rightarrow> w)"

definition dict_set :: "(string \<times> 'a) list \<Rightarrow> string \<Rightarrow> 'a \<Rightarrow> (string \<times> 'a) list" where
  "dict_set d k v = (if k \<in> fst ` set d then map (\<lambda>(k', w). (k', if k' = k then v else w)) d
     else d @ [(k, v)])"

definition dict_merge :: "(string \<times> 'a) list \<Rightarrow> (string \<times> 'a) list \<Rightarrow> (string \<times> 'a) list" where
  "dict_merge a b = foldl (\<lambda>d (k, v). dict_set d k v) a b"

lemma map_of_set_existing:
  "map_of (map (\<lambda>(k', w). (k', if k' = k then v else w)) d) =
     (if k \<in> fst ` set d then (map_of d)(k \<mapsto> v) else map_of d)"
  by (induction d) (auto simp: fun_eq_iff)

lemma map_of_append_fresh: "k \<notin> fst ` set d \<Longrightarrow> map_of (d @ [(k, v)]) = (map_of d)(k \<mapsto> v)"
  by (induction d) (auto simp: fun_upd_twist simp del: map_of_append)

lemma map_of_dict_set [simp]: "map_of (dict_set d k v) = (map_of d)(k \<mapsto> v)"
  by (simp add: dict_set_def map_of_set_existing map_of_append_fresh del: map_of_append)

lemma map_of_dict_merge: "map_of (dict_merge a b) = foldl (\<lambda>m (k, v). m(k \<mapsto> v)) (map_of a) b"
  by (induction b arbitrary: a) (auto simp: dict_merge_def)

text \<open>\<open>isinstance(v, (int, float)) and not isinstance(v, bool)\<close>.\<close>

definition is_num :: "json \<Rightarrow> bool" where
  "is_num v = (case v of JInt _ \<Rightarrow> True | JFloat _ \<Rightarrow> True | JNaN \<Rightarrow> True | JInf _ \<Rightarrow> True | _ \<Rightarrow> False)"

text \<open>The least positive \<open>int\<close> that \<open>float()\<close> refuses: half an ulp above the largest double.\<close>

definition float_overflow :: int where
  "float_overflow = 2 ^ 1024 - 2 ^ 970"

definition isfinite :: "json \<Rightarrow> bool result" where
  "isfinite v = (case v of JInt n \<Rightarrow> if \<bar>n\<bar> \<ge> float_overflow then Inl OverflowError else Inr True
     | JFloat _ \<Rightarrow> Inr True | _ \<Rightarrow> Inr False)"

text \<open>
  The guard \<open>isinstance(v, (int, float)) and not isinstance(v, bool) and math.isfinite(v)\<close>,
  evaluated left to right.
\<close>

definition num_guard :: "json \<Rightarrow> bool result" where
  "num_guard v = (if is_num v then isfinite v else Inr False)"

definition huge_int :: "json \<Rightarrow> bool" where
  "huge_int v = (case v of JInt n \<Rightarrow> \<bar>n\<bar> \<ge> float_overflow | _ \<Rightarrow> False)"

definition finite_num :: "json \<Rightarrow> bool" where
  "finite_num v = (case v of JInt n \<Rightarrow> \<bar>n\<bar> < float_overflow | JFloat _ \<Rightarrow> True | _ \<Rightarrow> False)"

lemma num_guard_eq: "num_guard v = (if huge_int v then Inl OverflowError else Inr (finite_num v))"
  by (cases v) (auto simp: num_guard_def is_num_def isfinite_def huge_int_def finite_num_def)

lemma finite_num_cases: "finite_num v \<Longrightarrow> (\<exists>n. v = JInt n) \<or> (\<exists>r. v = JFloat r)"
  by (cases v) (auto simp: finite_num_def)

text \<open>The number a finite numeric value denotes.\<close>

definition num_val :: "json \<Rightarrow> rat" where
  "num_val v = (case v of JInt n \<Rightarrow> of_int n | JFloat r \<Rightarrow> r | _ \<Rightarrow> 0)"

text \<open>\<open>float(v)\<close>: an \<open>int\<close> is rounded, a float is already one.\<close>

definition py_float :: "json \<Rightarrow> rat" where
  "py_float v = (case v of JInt n \<Rightarrow> b64 (of_int n) | JFloat r \<Rightarrow> r | _ \<Rightarrow> 0)"

text \<open>The comparisons \<open>v <= c\<close> and \<open>v > c\<close> of a numeric value with a constant; every comparison
  with \<open>NaN\<close> is false.\<close>

definition num_le :: "json \<Rightarrow> rat \<Rightarrow> bool" where
  "num_le v c = (case v of JInf neg \<Rightarrow> neg | JNaN \<Rightarrow> False | _ \<Rightarrow> num_val v \<le> c)"

definition num_gt :: "json \<Rightarrow> rat \<Rightarrow> bool" where
  "num_gt v c = (case v of JInf neg \<Rightarrow> \<not> neg | JNaN \<Rightarrow> False | _ \<Rightarrow> num_val v > c)"

definition num_abs_gt :: "json \<Rightarrow> rat \<Rightarrow> bool" where
  "num_abs_gt v c = (case v of JInf _ \<Rightarrow> True | JNaN \<Rightarrow> False | _ \<Rightarrow> \<bar>num_val v\<bar> > c)"

text \<open>\<open>bool(v)\<close>.\<close>

definition truthy :: "json \<Rightarrow> bool" where
  "truthy v = (case v of JNull \<Rightarrow> False | JBool b \<Rightarrow> b | JInt n \<Rightarrow> n \<noteq> 0 | JFloat x \<Rightarrow> x \<noteq> 0
     | JNaN \<Rightarrow> True | JInf _ \<Rightarrow> True | JStr s \<Rightarrow> s \<noteq> [] | JArr xs \<Rightarrow> xs \<noteq> [] | JObj d \<Rightarrow> d \<noteq> [])"

text \<open>\<open>int(x)\<close> of a finite float truncates towards zero.\<close>

definition py_int :: "rat \<Rightarrow> int" where
  "py_int x = (if 0 \<le> x then \<lfloor>x\<rfloor> else \<lceil>x\<rceil>)"

lemma py_int_of_int [simp]: "py_int (of_int n) = n"
  by (simp add: py_int_def)

lemma py_int_nonneg: "0 \<le> x \<Longrightarrow> 0 \<le> py_int x"
  by (simp add: py_int_def)

lemma py_int_mono: "x \<le> y \<Longrightarrow> py_int x \<le> py_int y"
proof -
  assume "x \<le> y"
  moreover have "\<lceil>x\<rceil> \<le> \<lfloor>y\<rfloor>" if "x < 0" "0 \<le> y"
  proof -
    have "\<lceil>x\<rceil> \<le> 0" using that(1) by simp
    also have "0 \<le> \<lfloor>y\<rfloor>" using that(2) by simp
    finally show ?thesis .
  qed
  ultimately show ?thesis by (auto simp: py_int_def floor_mono ceiling_mono)
qed

definition is_integer :: "rat \<Rightarrow> bool" where
  "is_integer x \<longleftrightarrow> of_int \<lfloor>x\<rfloor> = x"

lemma is_integer_of_int [simp]: "is_integer (of_int n)"
  by (simp add: is_integer_def)

lemma is_integer_numeral [simp]: "is_integer (numeral n)" "is_integer 0" "is_integer 1"
  by (simp_all add: is_integer_def)

text \<open>What the model takes from the C library and from \<open>repr\<close>. \<open>x ** y\<close> on floats raises when the
  result is out of range.\<close>

record platform =
  pow_fn :: "rat \<Rightarrow> rat \<Rightarrow> rat result"
  repr_fn :: "json \<Rightarrow> string"

definition py_str :: "platform \<Rightarrow> json \<Rightarrow> string" where
  "py_str pf v = (case v of JStr s \<Rightarrow> s | JNull \<Rightarrow> ''None''
     | JBool b \<Rightarrow> (if b then ''True'' else ''False'')
     | JInt n \<Rightarrow> show_int n | _ \<Rightarrow> repr_fn pf v)"

lemma py_str_JStr [simp]: "py_str pf (JStr s) = s"
  by (simp add: py_str_def)

lemma py_float_pos:
  assumes "num_gt v 0" "finite_num v" shows "0 < py_float v"
proof (cases v)
  case (JInt n)
  with assms have "1 \<le> rat_of_int n" by (simp add: num_gt_def num_val_def)
  then have "1 \<le> b64 (of_int n)" using dbl.rnd_ge_int [of 1 "of_int n"] by simp
  with JInt show ?thesis by (simp add: py_float_def)
qed (use assms in \<open>auto simp: num_gt_def num_val_def py_float_def finite_num_def\<close>)

subsection \<open>Random draws\<close>

text \<open>
  A generator is the sequence of uniform draws and of choice indices it will yield, with its
  position: \<open>random()\<close> and \<open>choice()\<close> consume one entry each. Theorems hold for every
  sequence.
\<close>

record rng =
  rng_roll :: "nat \<Rightarrow> rat"
  rng_pick :: "nat \<Rightarrow> nat"
  rng_pos :: nat

definition rng_random :: "rng \<Rightarrow> rat \<times> rng" where
  "rng_random g = (rng_roll g (rng_pos g), g\<lparr>rng_pos := Suc (rng_pos g)\<rparr>)"

definition rng_choice :: "rng \<Rightarrow> 'a list \<Rightarrow> 'a \<times> rng" where
  "rng_choice g xs = (xs ! (rng_pick g (rng_pos g) mod length xs), g\<lparr>rng_pos := Suc (rng_pos g)\<rparr>)"

lemma rng_choice_mem: "xs \<noteq> [] \<Longrightarrow> fst (rng_choice g xs) \<in> set xs"
  by (simp add: rng_choice_def)

end
