(* ===== verification/GameRates.thy ===== *)
theory GameRates
  imports PyJson
begin

text \<open>
  The economy tunables of \<open>app/game/engine.py\<close>: the dataclass \<open>GameRates\<close> with its defaults
  and \<open>from_dict\<close>, which overlays the \<open>economy\<close> row of \<open>game_config\<close> on them, dropping every
  value that could crash or invert scoring. The last section shows that whatever JSON the row
  holds, the rates that come out are usable (\<open>rates_ok\<close>), and when it raises instead.
\<close>

subsection \<open>The dataclass\<close>

record game_rates =
  xp_per_minute :: rat
  gold_per_minute :: rat
  int_xp_pct :: rat
  per_gold_pct :: rat
  con_shield_divisor :: rat
  con_shield_floor :: rat
  crit_base_chance :: rat
  crit_str_chance_scale :: rat
  crit_mult_base :: rat
  crit_mult_span :: rat
  crit_mult_soft :: rat
  hp_loss_base :: rat
  habit_drift_base :: rat
  habit_value_min :: rat
  habit_value_max :: rat
  habit_xp_factor :: rat
  daily_xp_cap :: int
  daily_gold_cap :: rat
  stopwatch_milestone_xp :: rat
  speedrun_win_xp_bonus :: rat
  respec_gold_cost :: rat
  lvl_curve_early :: rat
  lvl_curve_lvl5 :: rat
  lvl_curve_quad_a :: rat
  lvl_curve_quad_b :: rat
  lvl_curve_quad_c :: rat
  lvl_curve_round :: rat
  crit_mult_max :: rat
  difficulty :: "string \<rightharpoonup> rat"

definition default_difficulty :: "string \<rightharpoonup> rat" where
  "default_difficulty = map_of
     [(''trivial'', b64 (1 / 10)), (''easy'', 1), (''medium'', 3 / 2), (''hard'', 2)]"

definition default_rates :: game_rates where
  "default_rates = \<lparr>
     xp_per_minute = 1,
     gold_per_minute = b64 (2 / 10),
     int_xp_pct = b64 (25 / 1000),
     per_gold_pct = b64 (2 / 100),
     con_shield_divisor = 250,
     con_shield_floor = b64 (1 / 10),
     crit_base_chance = b64 (3 / 100),
     crit_str_chance_scale = 100,
     crit_mult_base = 3 / 2,
     crit_mult_span = 4,
     crit_mult_soft = 200,
     hp_loss_base = 2,
     habit_drift_base = b64 (9747 / 10000),
     habit_value_min = b64 (- 4727 / 100),
     habit_value_max = b64 (2127 / 100),
     habit_xp_factor = 6,
     daily_xp_cap = 500,
     daily_gold_cap = 150,
     stopwatch_milestone_xp = 25,
     speedrun_win_xp_bonus = 25,
     respec_gold_cost = 100,
     lvl_curve_early = 25,
     lvl_curve_lvl5 = 150,
     lvl_curve_quad_a = 1 / 4,
     lvl_curve_quad_b = 10,
     lvl_curve_quad_c = 559 / 4,
     lvl_curve_round = 10,
     crit_mult_max = 3,
     difficulty = default_difficulty\<rparr>"

subsection \<open>The config overlay\<close>

definition positive_fields :: "string list" where
  "positive_fields = [''con_shield_divisor'', ''crit_str_chance_scale'', ''crit_mult_soft'',
     ''lvl_curve_round'', ''lvl_curve_early'', ''lvl_curve_lvl5'', ''habit_drift_base'']"

definition nonnegative_fields :: "string list" where
  "nonnegative_fields = [''stopwatch_milestone_xp'', ''respec_gold_cost'', ''speedrun_win_xp_bonus'']"

definition int_fields :: "string list" where
  "int_fields = [''daily_xp_cap'', ''lvl_curve_round'']"

text \<open>\<open>__dataclass_fields__\<close>, each with the keyword argument it sets (\<open>difficulty\<close> apart).\<close>

definition rate_fields :: "(string \<times> (rat \<Rightarrow> game_rates \<Rightarrow> game_rates)) list" where
  "rate_fields = [
     (''xp_per_minute'', \<lambda>v. xp_per_minute_update (\<lambda>_. v)),
     (''gold_per_minute'', \<lambda>v. gold_per_minute_update (\<lambda>_. v)),
     (''int_xp_pct'', \<lambda>v. int_xp_pct_update (\<lambda>_. v)),
     (''per_gold_pct'', \<lambda>v. per_gold_pct_update (\<lambda>_. v)),
     (''con_shield_divisor'', \<lambda>v. con_shield_divisor_update (\<lambda>_. v)),
     (''con_shield_floor'', \<lambda>v. con_shield_floor_update (\<lambda>_. v)),
     (''crit_base_chance'', \<lambda>v. crit_base_chance_update (\<lambda>_. v)),
     (''crit_str_chance_scale'', \<lambda>v. crit_str_chance_scale_update (\<lambda>_. v)),
     (''crit_mult_base'', \<lambda>v. crit_mult_base_update (\<lambda>_. v)),
     (''crit_mult_span'', \<lambda>v. crit_mult_span_update (\<lambda>_. v)),
     (''crit_mult_soft'', \<lambda>v. crit_mult_soft_update (\<lambda>_. v)),
     (''hp_loss_base'', \<lambda>v. hp_loss_base_update (\<lambda>_. v)),
     (''habit_drift_base'', \<lambda>v. habit_drift_base_update (\<lambda>_. v)),
     (''habit_value_min'', \<lambda>v. habit_value_min_update (\<lambda>_. v)),
     (''habit_value_max'', \<lambda>v. habit_value_max_update (\<lambda>_. v)),
     (''habit_xp_factor'', \<lambda>v. habit_xp_factor_update (\<lambda>_. v)),
     (''daily_xp_cap'', \<lambda>v. daily_xp_cap_update (\<lambda>_. py_int v)),
     (''daily_gold_cap'', \<lambda>v. daily_gold_cap_update (\<lambda>_. v)),
     (''stopwatch_milestone_xp'', \<lambda>v. stopwatch_milestone_xp_update (\<lambda>_. v)),
     (''speedrun_win_xp_bonus'', \<lambda>v. speedrun_win_xp_bonus_update (\<lambda>_. v)),
     (''respec_gold_cost'', \<lambda>v. respec_gold_cost_update (\<lambda>_. v)),
     (''lvl_curve_early'', \<lambda>v. lvl_curve_early_update (\<lambda>_. v)),
     (''lvl_curve_lvl5'', \<lambda>v. lvl_curve_lvl5_update (\<lambda>_. v)),
     (''lvl_curve_quad_a'', \<lambda>v. lvl_curve_quad_a_update (\<lambda>_. v)),
     (''lvl_curve_quad_b'', \<lambda>v. lvl_curve_quad_b_update (\<lambda>_. v)),
     (''lvl_curve_quad_c'', \<lambda>v. lvl_curve_quad_c_update (\<lambda>_. v)),
     (''lvl_curve_round'', \<lambda>v. lvl_curve_round_update (\<lambda>_. of_int (py_int v))),
     (''crit_mult_max'', \<lambda>v. crit_mult_max_update (\<lambda>_. v))]"

text \<open>The comprehension over a difficulty override: the finite positive multipliers.\<close>

fun clean_difficulty :: "dict \<Rightarrow> (string \<times> rat) list result" where
  "clean_difficulty [] = Inr []"
| "clean_difficulty ((name, mult) # rest) =
     bind_r (num_guard mult) (\<lambda>fin.
     bind_r (clean_difficulty rest) (\<lambda>clean.
       Inr (if fin \<and> num_gt mult 0 then (name, py_float mult) # clean else clean)))"

text \<open>One turn of the loop over \<open>data.items()\<close>.\<close>

definition override :: "game_rates \<Rightarrow> string \<times> json \<Rightarrow> game_rates result" where
  "override r = (\<lambda>(key, v).
     if key = ''difficulty'' then
       (case v of
          JObj items \<Rightarrow> bind_r (clean_difficulty items) (\<lambda>clean.
            Inr (if clean \<noteq> [] then r\<lparr>difficulty := default_difficulty ++ map_of clean\<rparr> else r))
        | _ \<Rightarrow> Inr r)
     else
       (case map_of rate_fields key of
          None \<Rightarrow> Inr r
        | Some put \<Rightarrow>
            bind_r (num_guard v) (\<lambda>fin.
              if \<not> fin
                 \<or> (key \<in> set positive_fields \<and> num_le v 0)
                 \<or> (key \<in> set nonnegative_fields \<and> \<not> num_val v \<ge> 0)
                 \<or> (key \<in> set int_fields \<and> \<not> is_integer (py_float v))
              then Inr r else Inr (put (num_val v) r))))"

fun override_all :: "game_rates \<Rightarrow> dict \<Rightarrow> game_rates result" where
  "override_all r [] = Inr r"
| "override_all r (kv # rest) = bind_r (override r kv) (\<lambda>r'. override_all r' rest)"

definition from_dict :: "json \<Rightarrow> game_rates result" where
  "from_dict data = (case data of JObj items \<Rightarrow> override_all default_rates items
     | _ \<Rightarrow> Inr default_rates)"

subsection \<open>The rates scoring relies on\<close>

definition rates_ok :: "game_rates \<Rightarrow> bool" where
  "rates_ok r \<longleftrightarrow>
     0 < con_shield_divisor r \<and> 0 < crit_str_chance_scale r \<and> 0 < crit_mult_soft r \<and>
     1 \<le> lvl_curve_round r \<and> is_integer (lvl_curve_round r) \<and>
     0 < lvl_curve_early r \<and> 0 < lvl_curve_lvl5 r \<and> 0 < habit_drift_base r \<and>
     0 \<le> stopwatch_milestone_xp r \<and> 0 \<le> respec_gold_cost r \<and> 0 \<le> speedrun_win_xp_bonus r \<and>
     dom default_difficulty \<subseteq> dom (difficulty r) \<and> (\<forall>m \<in> ran (difficulty r). 0 < m)"

lemma default_difficulty_pos: "m \<in> ran default_difficulty \<Longrightarrow> 0 < m"
  by (auto simp: default_difficulty_def ran_def b64_gt_0 split: if_splits)

lemma rates_ok_default [simp]: "rates_ok default_rates"
  by (auto simp: rates_ok_def default_rates_def b64_gt_0 default_difficulty_pos)

lemma clean_difficulty_pos:
  "clean_difficulty items = Inr clean \<Longrightarrow> (k, m) \<in> set clean \<Longrightarrow>
     \<exists>v. (k, v) \<in> set items \<and> num_gt v 0 \<and> finite_num v \<and> m = py_float v"
proof (induction items arbitrary: clean)
  case Nil
  then show ?case by simp
next
  case (Cons kv rest)
  then show ?case by (cases kv) (fastforce simp: num_guard_eq split: if_splits)
qed

definition put_safe :: "string \<Rightarrow> (rat \<Rightarrow> game_rates \<Rightarrow> game_rates) \<Rightarrow> bool" where
  "put_safe key put \<longleftrightarrow> (\<forall>r x. rates_ok r \<longrightarrow>
     (key \<in> set positive_fields \<longrightarrow> 0 < x) \<longrightarrow> (key \<in> set nonnegative_fields \<longrightarrow> 0 \<le> x) \<longrightarrow>
     (key \<in> set int_fields \<longrightarrow> 0 < x \<longrightarrow> 1 \<le> py_int x) \<longrightarrow> rates_ok (put x r))"

lemma put_safe_all: "list_all (\<lambda>(key, put). put_safe key put) rate_fields"
  by (simp add: rate_fields_def put_safe_def positive_fields_def nonnegative_fields_def
      int_fields_def rates_ok_def)

lemma put_rates_ok:
  assumes "map_of rate_fields key = Some put" "rates_ok r"
    and "key \<in> set positive_fields \<Longrightarrow> 0 < x"
    and "key \<in> set nonnegative_fields \<Longrightarrow> 0 \<le> x"
    and "key \<in> set int_fields \<Longrightarrow> 0 < x \<Longrightarrow> 1 \<le> py_int x"
  shows "rates_ok (put x r)"
proof -
  have "put_safe key put" using put_safe_all map_of_SomeD [OF assms(1)] by (auto simp: list_all_iff)
  then show ?thesis using assms(2-) unfolding put_safe_def by blast
qed

lemma merged_difficulty_ok:
  assumes "rates_ok r" and "clean_difficulty items = Inr clean"
  shows "rates_ok (r\<lparr>difficulty := default_difficulty ++ map_of clean\<rparr>)"
proof -
  have "0 < m" if "m \<in> ran (default_difficulty ++ map_of clean)" for m
  proof -
    from that obtain k where "default_difficulty k = Some m \<or> (k, m) \<in> set clean"
      by (auto simp: ran_def dest: map_of_SomeD)
    then show ?thesis
      using default_difficulty_pos [of m] clean_difficulty_pos [OF assms(2), of k m] py_float_pos
      by (auto simp: ran_def)
  qed
  with assms(1) show ?thesis by (auto simp: rates_ok_def)
qed

lemma override_rates_ok:
  assumes "rates_ok r" and "override r kv = Inr r'"
  shows "rates_ok r'"
proof -
  obtain key v where kv: "kv = (key, v)" by (cases kv)
  show ?thesis
  proof (cases "key = ''difficulty''")
    case True
    then show ?thesis using assms kv
      by (auto simp: override_def split: json.splits if_splits dest: merged_difficulty_ok)
  next
    case False
    show ?thesis
    proof (cases "r' = r")
      case diff: False
      with False assms(2) kv obtain put where
          put: "map_of rate_fields key = Some put" "r' = put (num_val v) r"
          and num: "finite_num v"
          and pos: "key \<in> set positive_fields \<Longrightarrow> \<not> num_le v 0"
          and nn: "key \<in> set nonnegative_fields \<Longrightarrow> 0 \<le> num_val v"
          and int: "key \<in> set int_fields \<Longrightarrow> is_integer (py_float v)"
        by (auto simp: override_def num_guard_eq split: option.splits if_splits)
      have fin: "(\<exists>n. v = JInt n) \<or> (\<exists>x. v = JFloat x)" using finite_num_cases [OF num] .
      show ?thesis unfolding put(2)
      proof (rule put_rates_ok [OF put(1) assms(1)])
        show "0 < num_val v" if "key \<in> set positive_fields"
          using pos [OF that] fin by (auto simp: num_le_def num_val_def)
        show "1 \<le> py_int (num_val v)" if "key \<in> set int_fields" "0 < num_val v"
          using int [OF that(1)] that(2) fin
          by (auto simp: num_val_def py_float_def is_integer_def py_int_def)
      qed (use nn in auto)
    qed (use assms(1) in simp)
  qed
qed

lemma override_all_rates_ok: "rates_ok r \<Longrightarrow> override_all r items = Inr r' \<Longrightarrow> rates_ok r'"
  by (induction items arbitrary: r) (auto dest: override_rates_ok)

lemma from_dict_rates_ok: "from_dict data = Inr r \<Longrightarrow> rates_ok r"
  by (auto simp: from_dict_def split: json.splits intro: override_all_rates_ok [OF rates_ok_default])

text \<open>When the overlay raises: an integer too large for a double under a known key.\<close>

definition has_huge :: "string \<times> json \<Rightarrow> bool" where
  "has_huge = (\<lambda>(key, v).
     if key = ''difficulty'' then (case v of JObj items \<Rightarrow> \<exists>(_, m) \<in> set items. huge_int m | _ \<Rightarrow> False)
     else key \<in> fst ` set rate_fields \<and> huge_int v)"

lemma clean_difficulty_huge:
  "clean_difficulty items = (if \<exists>(_, m) \<in> set items. huge_int m then Inl OverflowError
     else Inr [(k, py_float m). (k, m) \<leftarrow> items, finite_num m \<and> num_gt m 0])"
proof (induction items)
  case Nil
  then show ?case by simp
next
  case (Cons kv rest)
  then show ?case
    by (cases kv) (auto simp: num_guard_eq)
qed

lemma override_raises: "override r kv = Inl e \<longleftrightarrow> e = OverflowError \<and> has_huge kv"
proof -
  obtain key v where kv: "kv = (key, v)" by (cases kv)
  show ?thesis
  proof (cases "key = ''difficulty''")
    case True
    then show ?thesis using kv
      by (cases v) (auto simp: override_def has_huge_def clean_difficulty_huge)
  next
    case False
    then show ?thesis using kv map_of_eq_None_iff [of rate_fields key]
      by (auto simp: override_def has_huge_def num_guard_eq split: option.splits)
  qed
qed

lemma override_all_raises:
  "override_all r items = Inl e \<longleftrightarrow> e = OverflowError \<and> (\<exists>kv \<in> set items. has_huge kv)"
proof (induction items arbitrary: r)
  case Nil
  then show ?case by simp
next
  case (Cons kv items)
  show ?case
  proof (cases "override r kv")
    case (Inl e')
    then show ?thesis using override_raises [of r kv e'] by auto
  next
    case (Inr r')
    then have "\<not> has_huge kv" using override_raises [of r kv OverflowError] by auto
    with Inr Cons.IH [of r'] show ?thesis by auto
  qed
qed

end
