(* ===== verification/PyTime.thy ===== *)
theory PyTime
  imports Prelude
begin

text \<open>
  Calendar days and instants. A \<open>date\<close> is the number of days since 1970-01-01 and a
  \<open>datetime\<close> the number of microseconds since that day's midnight, both on the UTC axis: the
  code compares and subtracts aware datetimes only (\<open>_aware\<close>, \<open>utc_aware\<close> label what SQLite
  hands back naive as UTC), so an instant is all there is to them. The years 1 to 9999 that
  Python's types stop at are not enforced.
\<close>

type_synonym date = int
type_synonym datetime = int

definition us_per_second :: int where "us_per_second = 1000000"
definition us_per_day :: int where "us_per_day = 86400000000"

definition seconds :: "int \<Rightarrow> int" where
  "seconds s = s * us_per_second"

text \<open>\<open>dt.date()\<close>, \<open>datetime.combine(d, time(0))\<close> and \<open>d.weekday()\<close> (Monday is 0).\<close>

definition date_of :: "datetime \<Rightarrow> date" where
  "date_of t = t div us_per_day"

definition midnight :: "date \<Rightarrow> datetime" where
  "midnight d = d * us_per_day"

definition weekday :: "date \<Rightarrow> int" where
  "weekday d = (d + 3) mod 7"

text \<open>\<open>int(td.total_seconds())\<close>: whole seconds, truncated towards zero.\<close>

definition whole_seconds :: "int \<Rightarrow> int" where
  "whole_seconds us = (if 0 \<le> us then us div us_per_second else - (- us div us_per_second))"

lemma date_of_midnight [simp]: "date_of (midnight d) = d"
  by (simp add: date_of_def midnight_def us_per_day_def)

lemma midnight_le: "midnight (date_of t) \<le> t" "t < midnight (date_of t + 1)"
  unfolding midnight_def date_of_def us_per_day_def by presburger+

lemma date_of_mono: "s \<le> t \<Longrightarrow> date_of s \<le> date_of t"
  by (simp add: date_of_def us_per_day_def zdiv_mono1)

lemma weekday_range: "0 \<le> weekday d" "weekday d \<le> 6"
  using pos_mod_bound [of 7 "d + 3"] by (simp_all add: weekday_def)

lemma weekday_add_7: "weekday (d + 7 * k) = weekday d"
proof -
  have "d + 7 * k + 3 = d + 3 + 7 * k" by simp
  then show ?thesis by (simp only: weekday_def mod_mult_self2)
qed

lemma whole_seconds_seconds [simp]: "whole_seconds (seconds s) = s"
  by (auto simp: whole_seconds_def seconds_def us_per_second_def)

lemma whole_seconds_nonneg: "0 \<le> us \<Longrightarrow> 0 \<le> whole_seconds us"
  by (simp add: whole_seconds_def us_per_second_def)

lemma whole_seconds_nonpos: "us \<le> 0 \<Longrightarrow> whole_seconds us \<le> 0"
  by (auto simp: whole_seconds_def us_per_second_def)

lemma whole_seconds_le: "0 \<le> us \<Longrightarrow> seconds (whole_seconds us) \<le> us"
  unfolding whole_seconds_def seconds_def us_per_second_def by simp

lemma whole_seconds_mono: "us \<le> us' \<Longrightarrow> whole_seconds us \<le> whole_seconds us'"
  unfolding whole_seconds_def us_per_second_def
  by (auto simp: zdiv_mono1 intro: order_trans [of _ 0])

lemma whole_seconds_ge: "0 \<le> s \<Longrightarrow> s \<le> whole_seconds us \<longleftrightarrow> seconds s \<le> us \<or> (s = 0 \<and> - us_per_second < us)"
  unfolding whole_seconds_def seconds_def us_per_second_def by auto

end
