(* ===== verification/Engine.thy ===== *)
theory Engine
  imports GameRates PyTime
begin

text \<open>
  The scoring engine, \<open>app/game/engine.py\<close>: the profile row it mutates, the level curve, crits,
  the shield, the habit drift, the death cascade, the daily caps, the guards on JSON payloads and
  one definition per event type, dispatched by \<open>apply_event\<close>.

  A handler takes the profile and returns the new one with its outcome dict and the generator, or
  the exception: every \<open>raise\<close> of the handlers happens before the first write to the profile,
  so an exception carries no profile. An outcome dict is a record with one optional field per key
  the code ever puts in it (\<open>None\<close>: the key is absent).
\<close>

subsection \<open>The profile row\<close>

record profile =
  level :: int
  xp :: int
  hp :: rat
  max_hp :: rat
  gold :: rat
  str_stat :: int
  int_stat :: int
  con_stat :: int
  per_stat :: int
  unspent_stat_points :: int
  game_class :: "string option"
  class_unlocked :: bool
  auto_allocate :: bool
  xp_today :: int
  gold_today :: rat
  totals_day :: "date option"

definition new_profile :: profile where
  "new_profile = \<lparr>level = 1, xp = 0, hp = 50, max_hp = 50, gold = 0, str_stat = 0, int_stat = 0,
     con_stat = 0, per_stat = 0, unspent_stat_points = 0, game_class = None,
     class_unlocked = False, auto_allocate = False, xp_today = 0, gold_today = 0,
     totals_day = None\<rparr>"

datatype stat = StrStat | IntStat | ConStat | PerStat

definition STAT_KEYS :: "string list" where
  "STAT_KEYS = [''str'', ''int'', ''con'', ''per'']"

text \<open>\<open>STAT_COLUMN\<close> and \<open>_COLUMN_STAT\<close>: a column is its \<open>stat\<close>, \<open>stat_key\<close> its short key.\<close>

definition stat_key :: "stat \<Rightarrow> string" where
  "stat_key s = (case s of StrStat \<Rightarrow> ''str'' | IntStat \<Rightarrow> ''int'' | ConStat \<Rightarrow> ''con'' | PerStat \<Rightarrow> ''per'')"

definition column_name :: "stat \<Rightarrow> string" where
  "column_name s = stat_key s @ ''_stat''"

definition stat_columns :: "stat list" where
  "stat_columns = [StrStat, IntStat, ConStat, PerStat]"

definition get_stat :: "profile \<Rightarrow> stat \<Rightarrow> int" where
  "get_stat p s = (case s of StrStat \<Rightarrow> str_stat p | IntStat \<Rightarrow> int_stat p | ConStat \<Rightarrow> con_stat p | PerStat \<Rightarrow> per_stat p)"

definition set_stat :: "stat \<Rightarrow> int \<Rightarrow> profile \<Rightarrow> profile" where
  "set_stat s n p = (case s of StrStat \<Rightarrow> p\<lparr>str_stat := n\<rparr> | IntStat \<Rightarrow> p\<lparr>int_stat := n\<rparr>
     | ConStat \<Rightarrow> p\<lparr>con_stat := n\<rparr> | PerStat \<Rightarrow> p\<lparr>per_stat := n\<rparr>)"

definition STAT_POINT_CAP :: int where "STAT_POINT_CAP = 100"
definition CLASS_MIN_LEVEL :: int where "CLASS_MIN_LEVEL = 10"

definition CLASSES :: "(string \<times> stat list) list" where
  "CLASSES = [(''warrior'', [StrStat, ConStat]), (''mage'', [IntStat, PerStat]), (''healer'', [ConStat, IntStat]),
     (''rogue'', [PerStat, StrStat])]"

definition level_stat_bonus :: "int \<Rightarrow> int" where
  "level_stat_bonus lv = min lv 100 div 2"

type_synonym bonus = "string \<rightharpoonup> int"

definition effective_stat :: "profile \<Rightarrow> stat \<Rightarrow> bonus \<Rightarrow> int" where
  "effective_stat p c bs = get_stat p c + (case bs (stat_key c) of None \<Rightarrow> 0 | Some n \<Rightarrow> n)"

subsection \<open>Outcome dicts\<close>

record outcome =
  o_scored :: "bool option"
  o_crit :: "bool option"
  o_xp :: "int option"
  o_levels_gained :: "int option"
  o_gold :: "rat option"
  o_hp_lost :: "rat option"
  o_died :: "bool option"
  o_stat_lost :: "stat option option"
  o_gear_lost :: "bool option"
  o_gear_lost_key :: "string option option"
  o_delta :: "rat option"
  o_new_value :: "rat option"
  o_share :: "rat option"
  o_streak :: "int option"
  o_type :: "string option"
  o_reason :: "string option"
  o_uncheck :: "bool option"
  o_frozen :: "bool option"
  o_streak_before :: "int option"
  o_streak_after :: "int option"

definition no_outcome :: outcome where
  "no_outcome = \<lparr>o_scored = None, o_crit = None, o_xp = None, o_levels_gained = None, o_gold = None,
     o_hp_lost = None, o_died = None, o_stat_lost = None, o_gear_lost = None,
     o_gear_lost_key = None, o_delta = None, o_new_value = None, o_share = None, o_streak = None,
     o_type = None, o_reason = None, o_uncheck = None, o_frozen = None, o_streak_before = None,
     o_streak_after = None\<rparr>"

text \<open>\<open>outcome.get("scored")\<close> used as a condition.\<close>

definition scored :: "outcome \<Rightarrow> bool" where
  "scored oc \<longleftrightarrow> o_scored oc = Some True"

definition unscored :: "string \<Rightarrow> outcome" where
  "unscored why = no_outcome\<lparr>o_scored := Some False, o_reason := Some why\<rparr>"

subsection \<open>The curve, crits and drift\<close>

definition xp_to_next_level :: "int \<Rightarrow> game_rates \<Rightarrow> int" where
  "xp_to_next_level lv r =
     (if lv < 5 then max 1 (py_int (fmul (lvl_curve_early r) (of_int lv)))
      else if lv = 5 then max 1 (py_int (lvl_curve_lvl5 r))
      else
        let quadratic = fadd (fadd (fmul (of_int (lv ^ 2)) (lvl_curve_quad_a r))
                                   (fmul (of_int lv) (lvl_curve_quad_b r)))
                             (lvl_curve_quad_c r)
        in max 1 (round_even (fdiv quadratic (lvl_curve_round r)) * py_int (lvl_curve_round r)))"

definition crit_roll :: "rat \<Rightarrow> int \<Rightarrow> game_rates \<Rightarrow> rat" where
  "crit_roll roll st r =
     (let chance = fmul (crit_base_chance r) (fadd 1 (fdiv (of_int st) (crit_str_chance_scale r)))
      in if roll < chance then
           let mult = fadd (crit_mult_base r)
                        (fdiv (fmul (crit_mult_span r) (of_int st)) (fadd (of_int st) (crit_mult_soft r)))
           in min mult (crit_mult_max r)
         else 1)"

definition habit_delta :: "platform \<Rightarrow> rat \<Rightarrow> game_rates \<Rightarrow> rat result" where
  "habit_delta pf v r = pow_fn pf (habit_drift_base r) v"

definition clamp_habit_value :: "rat \<Rightarrow> game_rates \<Rightarrow> rat" where
  "clamp_habit_value v r = max (habit_value_min r) (min (habit_value_max r) v)"

definition difficulty_mult :: "platform \<Rightarrow> json \<Rightarrow> game_rates \<Rightarrow> rat result" where
  "difficulty_mult pf name r =
     (case difficulty r (py_str pf name) of
        Some m \<Rightarrow> Inr m
      | None \<Rightarrow> Inl (ValueError (''unknown difficulty: '' @ py_str pf name)))"

definition round_half_up :: "rat \<Rightarrow> int" where
  "round_half_up x = \<lfloor>fadd x (1 / 2)\<rfloor>"

subsection \<open>Awards and losses\<close>

definition sync_today :: "profile \<Rightarrow> date \<Rightarrow> profile" where
  "sync_today p today =
     (if totals_day p \<noteq> Some today
      then p\<lparr>totals_day := Some today, xp_today := 0, gold_today := 0\<rparr> else p)"

lemma xp_to_next_level_pos: "1 \<le> xp_to_next_level lv r"
  by (simp add: xp_to_next_level_def Let_def)

text \<open>The level-up loop of \<open>award_xp\<close>; the threshold is at least 1, so the XP runs out.\<close>

function level_up :: "profile \<Rightarrow> game_rates \<Rightarrow> int \<Rightarrow> profile \<times> int" where
  "level_up p r gained =
     (if xp p \<ge> xp_to_next_level (level p) r then
        level_up (p\<lparr>xp := xp p - xp_to_next_level (level p) r, level := level p + 1,
                    hp := max_hp p, unspent_stat_points := unspent_stat_points p + 1\<rparr>)
                 r (gained + 1)
      else (p, gained))"
  by pat_completeness auto
termination
proof (relation "measure (\<lambda>(p, r, gained). nat (xp p))", goal_cases)
  case (2 p r gained)
  then show ?case using xp_to_next_level_pos [of "level p" r] by simp
qed simp

declare level_up.simps [simp del]

definition award_xp :: "profile \<Rightarrow> int \<Rightarrow> game_rates \<Rightarrow> date \<Rightarrow> profile \<times> int \<times> int" where
  "award_xp p amount r today =
     (let p1 = sync_today p today;
          applied = max 0 (min amount (daily_xp_cap r - xp_today p1));
          p2 = p1\<lparr>xp := xp p1 + applied, xp_today := xp_today p1 + applied\<rparr>;
          (p3, levels_gained) = level_up p2 r 0
      in (p3, applied, levels_gained))"

definition award_gold :: "profile \<Rightarrow> rat \<Rightarrow> game_rates \<Rightarrow> date \<Rightarrow> profile \<times> rat" where
  "award_gold p amount r today =
     (let p1 = sync_today p today;
          applied = max 0 (min amount (fsub (daily_gold_cap r) (gold_today p1)))
      in (p1\<lparr>gold := fadd (gold p1) applied, gold_today := fadd (gold_today p1) applied\<rparr>, applied))"

definition death :: "profile \<Rightarrow> rng \<Rightarrow> profile \<times> stat option \<times> rng" where
  "death p g =
     (let p1 = p\<lparr>level := max 1 (level p - 1), xp := 0, gold := 0, hp := max_hp p\<rparr>;
          allocated = filter (\<lambda>s. get_stat p1 s > 0) stat_columns
      in if allocated \<noteq> [] then
           let (stat_lost, g') = rng_choice g allocated
           in (set_stat stat_lost (get_stat p1 stat_lost - 1) p1, Some stat_lost, g')
         else (p1, None, g))"

definition apply_hp_loss ::
  "profile \<Rightarrow> rat \<Rightarrow> game_rates \<Rightarrow> rng \<Rightarrow> bonus \<Rightarrow> profile \<times> outcome \<times> rng" where
  "apply_hp_loss p amount r g bs =
     (let shield = max (con_shield_floor r)
            (fsub 1 (fdiv (of_int (effective_stat p ConStat bs)) (con_shield_divisor r)));
          loss = max 1 (b64 (of_int \<lfloor>fmul amount shield\<rfloor>));
          p1 = p\<lparr>hp := fsub (hp p) loss\<rparr>;
          oc = no_outcome\<lparr>o_hp_lost := Some loss, o_died := Some False\<rparr>
      in if hp p1 \<le> 0 then
           let (p2, stat_lost, g') = death p1 g
           in (p2, oc\<lparr>o_died := Some True, o_stat_lost := Some stat_lost, o_gear_lost := Some False\<rparr>, g')
         else (p1, oc, g))"

subsection \<open>Guards on payload numbers\<close>

definition finite_positive :: "json \<Rightarrow> string \<Rightarrow> rat result" where
  "finite_positive v name =
     (if \<not> is_num v \<or> num_le v 0 \<or> num_gt v 1000000
      then Inl (ValueError (name @ '' must be a finite number in (0, 1e6]''))
      else bind_r (isfinite v) (\<lambda>fin.
        if \<not> fin then Inl (ValueError (name @ '' must be a finite number in (0, 1e6]''))
        else Inr (py_float v)))"

definition fraction :: "json \<Rightarrow> string \<Rightarrow> rat result" where
  "fraction v name =
     bind_r (num_guard v) (\<lambda>fin.
       if \<not> fin \<or> num_le v 0 \<or> num_gt v 1
       then Inl (ValueError (name @ '' must be a finite number in (0, 1]''))
       else Inr (py_float v))"

definition streak_days :: "json \<Rightarrow> int result" where
  "streak_days v = (case v of
       JInt n \<Rightarrow> if n < 0 then Inl (ValueError ''daily_check streak must be an integer >= 0'')
                 else Inr (min n 10000)
     | _ \<Rightarrow> Inl (ValueError ''daily_check streak must be an integer >= 0''))"

definition nonnegative :: "json \<Rightarrow> string \<Rightarrow> rat result" where
  "nonnegative v name =
     bind_r (num_guard v) (\<lambda>fin.
       if \<not> fin \<or> \<not> num_val v \<ge> 0
       then Inl (ValueError (name @ '' must be a finite number >= 0''))
       else Inr (py_float v))"

subsection \<open>The event handlers\<close>

definition focus_payout ::
  "platform \<Rightarrow> profile \<Rightarrow> rat \<Rightarrow> dict \<Rightarrow> game_rates \<Rightarrow> rat \<Rightarrow> bonus \<Rightarrow> (int \<times> int \<times> rat) result" where
  "focus_payout pf p minutes payload r roll bs =
     bind_r (difficulty_mult pf (dict_get_or payload ''difficulty'' (JStr ''easy'')) r) (\<lambda>d.
       let mult = crit_roll roll (effective_stat p StrStat bs) r;
           xp_amount = round_half_up
             (fmul (fmul (fmul (fmul minutes (xp_per_minute r)) d)
               (fadd 1 (fmul (int_xp_pct r) (of_int (effective_stat p IntStat bs))))) mult);
           gold_amount = \<lceil>fmul (fmul (fmul (fmul minutes (gold_per_minute r)) d)
               (fadd 1 (fmul (per_gold_pct r) (of_int (effective_stat p PerStat bs))))) mult\<rceil>
       in Inr (xp_amount, gold_amount, mult))"

text \<open>\<open>outcome.update(award_xp(...)); outcome.update(award_gold(...))\<close>.\<close>

definition award_both ::
  "profile \<Rightarrow> int \<Rightarrow> rat \<Rightarrow> game_rates \<Rightarrow> date \<Rightarrow> outcome \<Rightarrow> profile \<times> outcome" where
  "award_both p xp_amount gold_amount r today oc =
     (let (p1, applied, levels_gained) = award_xp p xp_amount r today;
          (p2, paid) = award_gold p1 gold_amount r today
      in (p2, oc\<lparr>o_xp := Some applied, o_levels_gained := Some levels_gained, o_gold := Some paid\<rparr>))"

definition apply_focus_phase ::
  "platform \<Rightarrow> profile \<Rightarrow> dict \<Rightarrow> game_rates \<Rightarrow> rat \<Rightarrow> date \<Rightarrow> bonus \<Rightarrow> (profile \<times> outcome) result" where
  "apply_focus_phase pf p payload r roll today bs =
     bind_r (finite_positive (dict_get_or payload ''minutes'' JNull) ''focus_phase_completed minutes'')
       (\<lambda>minutes.
     bind_r (focus_payout pf p minutes payload r roll bs) (\<lambda>(xp_amount, gold_amount, mult).
       Inr (award_both p xp_amount (of_int gold_amount) r today
         (no_outcome\<lparr>o_scored := Some True, o_crit := Some (mult > 1)\<rparr>))))"

definition apply_speedrun_completed ::
  "platform \<Rightarrow> profile \<Rightarrow> dict \<Rightarrow> game_rates \<Rightarrow> rat \<Rightarrow> date \<Rightarrow> bonus \<Rightarrow> (profile \<times> outcome) result" where
  "apply_speedrun_completed pf p payload r roll today bs =
     bind_r (finite_positive (dict_get_or payload ''minutes'' JNull) ''speedrun_completed minutes'')
       (\<lambda>minutes.
     bind_r (focus_payout pf p minutes payload r roll bs) (\<lambda>(xp_amount, gold_amount, mult).
       let xp_amount = (if dict_get payload ''win_bonus'' = Some (JBool True)
                        then xp_amount + round_half_up (speedrun_win_xp_bonus r) else xp_amount)
       in Inr (award_both p xp_amount (of_int gold_amount) r today
         (no_outcome\<lparr>o_scored := Some True, o_crit := Some (mult > 1)\<rparr>))))"

text \<open>The guard on the click's \<open>value\<close>: the bounds are tested before \<open>math.isfinite\<close>.\<close>

definition click_value :: "json \<Rightarrow> rat result" where
  "click_value v =
     (if \<not> is_num v \<or> num_abs_gt v 1000000
      then Inl (ValueError ''habit_click value must be a finite number'')
      else bind_r (isfinite v) (\<lambda>fin.
        if \<not> fin then Inl (ValueError ''habit_click value must be a finite number'')
        else Inr (py_float v)))"

definition bad_direction :: py_error where
  "bad_direction = ValueError (''habit_click requires direction '' @ quoted ''positive''
     @ '' or '' @ quoted ''negative'')"

definition apply_habit_click ::
  "platform \<Rightarrow> profile \<Rightarrow> dict \<Rightarrow> game_rates \<Rightarrow> rat \<Rightarrow> rng \<Rightarrow> date \<Rightarrow> bonus
     \<Rightarrow> (profile \<times> outcome \<times> rng) result" where
  "apply_habit_click pf p payload r roll g today bs =
     (let direction = dict_get payload ''direction'' in
      if direction \<noteq> Some (JStr ''positive'') \<and> direction \<noteq> Some (JStr ''negative'')
      then Inl bad_direction
      else
        bind_r (click_value (dict_get_or payload ''value'' (JFloat 0))) (\<lambda>raw.
        let val = clamp_habit_value raw r in
        bind_r (habit_delta pf val r) (\<lambda>delta.
        bind_r (difficulty_mult pf (dict_get_or payload ''difficulty'' (JStr ''easy'')) r) (\<lambda>d.
          if direction = Some (JStr ''negative'') then
            let (p', oc, g') = apply_hp_loss p (fmul (fmul delta d) (hp_loss_base r)) r g bs
            in Inr (p', oc\<lparr>o_scored := Some True, o_delta := Some (- delta),
                           o_new_value := Some (clamp_habit_value (fsub val delta) r)\<rparr>, g')
          else
            let mult = crit_roll roll (effective_stat p StrStat bs) r;
                xp_amount = round_half_up
                  (fmul (fmul (fmul (fmul delta
                     (fadd 1 (fmul (int_xp_pct r) (of_int (effective_stat p IntStat bs))))) d) mult)
                     (habit_xp_factor r));
                gold_amount = \<lceil>fmul (fmul (fmul delta d) mult)
                     (fadd 1 (fmul (per_gold_pct r) (of_int (effective_stat p PerStat bs))))\<rceil>;
                (p', oc) = award_both p xp_amount (of_int gold_amount) r today
                  (no_outcome\<lparr>o_scored := Some True, o_crit := Some (mult > 1), o_delta := Some delta,
                     o_new_value := Some (clamp_habit_value (fadd val delta) r)\<rparr>)
            in Inr (p', oc, g)))))"

definition apply_damage ::
  "platform \<Rightarrow> profile \<Rightarrow> dict \<Rightarrow> game_rates \<Rightarrow> rng \<Rightarrow> bonus \<Rightarrow> (profile \<times> outcome \<times> rng) result" where
  "apply_damage pf p payload r g bs =
     bind_r (case dict_get payload ''amount'' of
               Some v \<Rightarrow> finite_positive v ''damage amount''
             | None \<Rightarrow>
                 bind_r (difficulty_mult pf (dict_get_or payload ''difficulty'' (JStr ''easy'')) r)
                   (\<lambda>d. Inr (fmul (hp_loss_base r) d)))
       (\<lambda>base. let (p', oc, g') = apply_hp_loss p base r g bs
               in Inr (p', oc\<lparr>o_scored := Some True\<rparr>, g'))"

definition apply_stopwatch_milestone ::
  "profile \<Rightarrow> dict \<Rightarrow> game_rates \<Rightarrow> rat \<Rightarrow> date \<Rightarrow> bonus \<Rightarrow> (profile \<times> outcome) result" where
  "apply_stopwatch_milestone p payload r roll today bs =
     (case dict_get_or payload ''milestones'' (JInt 1) of
        JInt milestones \<Rightarrow>
          if milestones < 1 \<or> milestones > 100
          then Inl (ValueError ''stopwatch_milestone requires integer milestones in [1, 100]'')
          else
            let mult = crit_roll roll (effective_stat p StrStat bs) r;
                xp_amount = round_half_up (fmul (fmul (of_int milestones) (stopwatch_milestone_xp r)) mult);
                (p', applied, levels_gained) = award_xp p xp_amount r today
            in Inr (p', no_outcome\<lparr>o_scored := Some True, o_type := Some ''stopwatch_milestone'',
                 o_crit := Some (mult > 1), o_xp := Some applied,
                 o_levels_gained := Some levels_gained\<rparr>)
      | _ \<Rightarrow> Inl (ValueError ''stopwatch_milestone requires integer milestones in [1, 100]''))"

text \<open>The unrounded whole-check reward of a daily check, XP and gold.\<close>

definition daily_base :: "profile \<Rightarrow> rat \<Rightarrow> game_rates \<Rightarrow> rat \<Rightarrow> int \<Rightarrow> bonus \<Rightarrow> rat \<times> rat" where
  "daily_base p d r mult streak bs =
     (fmul (fmul (fmul (fadd 1 (fmul (int_xp_pct r) (of_int (effective_stat p IntStat bs)))) d) mult)
        (habit_xp_factor r),
      fmul (fmul (fmul d mult) (fadd 1 (fmul (per_gold_pct r) (of_int (effective_stat p PerStat bs)))))
        (fadd 1 (fmul (b64 (1 / 100)) (of_int streak))))"

definition apply_daily_check ::
  "platform \<Rightarrow> profile \<Rightarrow> dict \<Rightarrow> game_rates \<Rightarrow> rat \<Rightarrow> date \<Rightarrow> bonus \<Rightarrow> (profile \<times> outcome) result" where
  "apply_daily_check pf p payload r roll today bs =
     bind_r (fraction (dict_get_or payload ''share'' JNull) ''daily_check share'') (\<lambda>share0.
     bind_r (streak_days (dict_get_or payload ''streak'' (JInt 0))) (\<lambda>streak.
     bind_r (nonnegative (dict_get_or payload ''paid_share'' (JInt 0)) ''daily_check paid_share'') (\<lambda>paid_share.
     bind_r (nonnegative (dict_get_or payload ''paid_xp'' (JInt 0)) ''daily_check paid_xp'') (\<lambda>paid_xp.
     bind_r (nonnegative (dict_get_or payload ''paid_gold'' (JInt 0)) ''daily_check paid_gold'') (\<lambda>paid_gold.
     let share = min share0 (max 0 (fsub 1 paid_share)) in
     bind_r (difficulty_mult pf (dict_get_or payload ''difficulty'' (JStr ''easy'')) r) (\<lambda>d.
       let mult = crit_roll roll (effective_stat p StrStat bs) r;
           (xp_base, gold_base) = daily_base p d r mult streak bs;
           xp_whole = round_half_up xp_base;
           gold_whole = \<lceil>gold_base\<rceil>;
           xp_amount = py_int (min (of_int (round_half_up (fmul xp_base share)))
                                   (max 0 (fsub (of_int xp_whole) paid_xp)));
           gold_amount = min (of_int \<lceil>fmul gold_base share\<rceil>) (max 0 (fsub (of_int gold_whole) paid_gold))
       in Inr (award_both p xp_amount gold_amount r today
         (no_outcome\<lparr>o_scored := Some True, o_crit := Some (mult > 1), o_share := Some share,
            o_streak := Some streak\<rparr>))))))))"

definition apply_daily_missed ::
  "platform \<Rightarrow> profile \<Rightarrow> dict \<Rightarrow> game_rates \<Rightarrow> rng \<Rightarrow> bonus \<Rightarrow> (profile \<times> outcome \<times> rng) result" where
  "apply_daily_missed pf p payload r g bs =
     bind_r (difficulty_mult pf (dict_get_or payload ''difficulty'' (JStr ''easy'')) r) (\<lambda>d.
       let (p', oc, g') = apply_hp_loss p (fmul (hp_loss_base r) d) r g bs
       in Inr (p', oc\<lparr>o_scored := Some True\<rparr>, g'))"

subsection \<open>Dispatch\<close>

definition SERVER_EVENT_TYPES :: "string list" where
  "SERVER_EVENT_TYPES = [''session_started'', ''session_ended'', ''session_abandoned'',
     ''stopwatch_milestone'', ''phase_completed'', ''phase_started'', ''phase_paused'',
     ''phase_resumed'', ''phase_skipped'', ''phase_abandoned'', ''daily_missed'',
     ''speedrun_completed'', ''speedrun_failed'', ''record_set'']"

text \<open>A handler that draws nothing hands the generator back as it was.\<close>

definition keep_rng :: "rng \<Rightarrow> (profile \<times> outcome) result \<Rightarrow> (profile \<times> outcome \<times> rng) result" where
  "keep_rng g res = bind_r res (\<lambda>(p, oc). Inr (p, oc, g))"

text \<open>\<open>today or datetime.now(timezone.utc).date()\<close>: \<open>utc_today\<close> is the clock's day.\<close>

definition apply_event ::
  "platform \<Rightarrow> date \<Rightarrow> profile \<Rightarrow> string \<Rightarrow> dict \<Rightarrow> game_rates \<Rightarrow> rat \<Rightarrow> rng \<Rightarrow> date option \<Rightarrow> bonus
     \<Rightarrow> (profile \<times> outcome \<times> rng) result" where
  "apply_event pf utc_today p event_type payload r roll g today bs =
     (let day = (case today of Some d \<Rightarrow> d | None \<Rightarrow> utc_today) in
      if event_type = ''focus_phase_completed''
        then keep_rng g (apply_focus_phase pf p payload r roll day bs)
      else if event_type = ''habit_click''
        then apply_habit_click pf p payload r roll g day bs
      else if event_type = ''damage'' then apply_damage pf p payload r g bs
      else if event_type = ''session_abandoned'' \<or> event_type = ''speedrun_failed''
        then apply_damage pf p payload r g bs
      else if event_type = ''stopwatch_milestone''
        then keep_rng g (apply_stopwatch_milestone p payload r roll day bs)
      else if event_type = ''daily_check''
        then keep_rng g (apply_daily_check pf p payload r roll day bs)
      else if event_type = ''daily_missed'' then apply_daily_missed pf p payload r g bs
      else if event_type = ''speedrun_completed''
        then keep_rng g (apply_speedrun_completed pf p payload r roll day bs)
      else if event_type = ''record_set'' then Inr (p, no_outcome\<lparr>o_scored := Some True\<rparr>, g)
      else Inr (p, no_outcome\<lparr>o_scored := Some False\<rparr>, g))"

end
