(* ===== verification/EngineFacts.thy ===== *)
theory EngineFacts
  imports Engine
begin

text \<open>
  What the scoring engine guarantees: the level-up loop's bookkeeping, the daily caps over any
  run of events of one day (the gold cap including the rounding of its float arithmetic), the
  invariant of the profile row, the errors a handler can raise, what damage, deaths, habit
  clicks and daily checks may and may not change, and the shape of the level curve.
\<close>

subsection \<open>The level-up loop\<close>

lemma level_up_frame:
  "level_up p r n = (p', m) \<Longrightarrow>
     \<exists>l x h u. p' = p\<lparr>level := l, xp := x, hp := h, unspent_stat_points := u\<rparr>"
proof (induction p r n arbitrary: p' m rule: level_up.induct)
  case (1 p r n)
  show ?case
  proof (cases "xp_to_next_level (level p) r \<le> xp p")
    case True
    with "1.IH" [OF True, of p' m] "1.prems" show ?thesis by (fastforce simp: level_up.simps [of p])
  next
    case False
    with "1.prems" have "p' = p\<lparr>level := level p, xp := xp p, hp := hp p,
        unspent_stat_points := unspent_stat_points p\<rparr>"
      by (simp add: level_up.simps [of p])
    then show ?thesis by blast
  qed
qed

definition curve_sum :: "int \<Rightarrow> nat \<Rightarrow> game_rates \<Rightarrow> int" where
  "curve_sum lv n r = (\<Sum>i < n. xp_to_next_level (lv + int i) r)"

lemma curve_sum_Suc: "curve_sum lv (Suc n) r = xp_to_next_level lv r + curve_sum (lv + 1) n r"
  unfolding curve_sum_def by (subst sum.lessThan_Suc_shift) (simp add: algebra_simps)

lemma level_up_spec:
  "level_up p r n = (p', m) \<Longrightarrow> 0 \<le> xp p \<Longrightarrow>
     \<exists>k. m = n + int k \<and> level p' = level p + int k \<and>
         unspent_stat_points p' = unspent_stat_points p + int k \<and>
         hp p' = (if k = 0 then hp p else max_hp p) \<and>
         xp p = xp p' + curve_sum (level p) k r \<and>
         0 \<le> xp p' \<and> xp p' < xp_to_next_level (level p') r"
proof (induction p r n arbitrary: p' m rule: level_up.induct)
  case (1 p r n)
  show ?case
  proof (cases "xp_to_next_level (level p) r \<le> xp p")
    case True
    let ?q = "p\<lparr>xp := xp p - xp_to_next_level (level p) r, level := level p + 1,
                hp := max_hp p, unspent_stat_points := unspent_stat_points p + 1\<rparr>"
    have "level_up ?q r (n + 1) = (p', m)" using "1.prems"(1) True by (simp add: level_up.simps [of p])
    from "1.IH" [OF True this] True obtain k where k:
      "m = n + 1 + int k" "level p' = level p + 1 + int k"
      "unspent_stat_points p' = unspent_stat_points p + 1 + int k"
      "hp p' = max_hp p" "xp p - xp_to_next_level (level p) r = xp p' + curve_sum (level p + 1) k r"
      "0 \<le> xp p'" "xp p' < xp_to_next_level (level p') r"
      by (auto split: if_splits)
    then show ?thesis by (intro exI [of _ "Suc k"]) (simp add: curve_sum_Suc)
  next
    case False
    then show ?thesis using "1.prems" by (intro exI [of _ 0]) (auto simp: level_up.simps [of p] curve_sum_def)
  qed
qed

lemma sync_today_fields [simp]:
  "level (sync_today p d) = level p" "xp (sync_today p d) = xp p" "hp (sync_today p d) = hp p"
  "max_hp (sync_today p d) = max_hp p" "gold (sync_today p d) = gold p"
  "str_stat (sync_today p d) = str_stat p" "int_stat (sync_today p d) = int_stat p"
  "con_stat (sync_today p d) = con_stat p" "per_stat (sync_today p d) = per_stat p"
  "unspent_stat_points (sync_today p d) = unspent_stat_points p"
  "totals_day (sync_today p d) = Some d" "game_class (sync_today p d) = game_class p"
  "class_unlocked (sync_today p d) = class_unlocked p"
  "auto_allocate (sync_today p d) = auto_allocate p"
  by (auto simp: sync_today_def)

lemma award_xp_spec:
  assumes "award_xp p amount r today = (p', applied, n)" "0 \<le> xp p"
  shows "\<exists>k. n = int k \<and> level p' = level p + int k \<and>
     unspent_stat_points p' = unspent_stat_points p + int k \<and>
     hp p' = (if k = 0 then hp p else max_hp p) \<and>
     xp p + applied = xp p' + curve_sum (level p) k r \<and>
     0 \<le> xp p' \<and> xp p' < xp_to_next_level (level p') r"
proof -
  let ?p1 = "sync_today p today"
  let ?a = "max 0 (min amount (daily_xp_cap r - xp_today ?p1))"
  let ?p2 = "?p1\<lparr>xp := xp ?p1 + ?a, xp_today := xp_today ?p1 + ?a\<rparr>"
  from assms(1) have "level_up ?p2 r 0 = (p', n)" "applied = ?a"
    by (auto simp: award_xp_def Let_def split: prod.splits)
  from level_up_spec [OF this(1)] this(2) assms(2) show ?thesis
    by (clarsimp) (metis add.commute)
qed

lemma award_xp_frame [frame]:
  assumes "award_xp p amount r today = (p', applied, n)"
  shows "max_hp p' = max_hp p" "gold p' = gold p" "str_stat p' = str_stat p"
    "int_stat p' = int_stat p" "con_stat p' = con_stat p" "per_stat p' = per_stat p"
    "gold_today p' = gold_today (sync_today p today)" "totals_day p' = Some today"
    "game_class p' = game_class p" "class_unlocked p' = class_unlocked p"
    "auto_allocate p' = auto_allocate p"
    "xp_today p' = xp_today (sync_today p today) + applied"
    "applied = max 0 (min amount (daily_xp_cap r - xp_today (sync_today p today)))"
proof -
  let ?p1 = "sync_today p today"
  let ?a = "max 0 (min amount (daily_xp_cap r - xp_today ?p1))"
  from assms have "level_up (?p1\<lparr>xp := xp ?p1 + ?a, xp_today := xp_today ?p1 + ?a\<rparr>) r 0 = (p', n)"
    and "applied = ?a"
    by (auto simp: award_xp_def Let_def split: prod.splits)
  with level_up_frame [OF this(1)]
  show "max_hp p' = max_hp p" "gold p' = gold p" "str_stat p' = str_stat p"
    "int_stat p' = int_stat p" "con_stat p' = con_stat p" "per_stat p' = per_stat p"
    "gold_today p' = gold_today (sync_today p today)" "totals_day p' = Some today"
    "game_class p' = game_class p" "class_unlocked p' = class_unlocked p"
    "auto_allocate p' = auto_allocate p"
    "xp_today p' = xp_today (sync_today p today) + applied"
    "applied = max 0 (min amount (daily_xp_cap r - xp_today (sync_today p today)))"
    by auto
qed

subsection \<open>The daily caps\<close>

text \<open>A cap whose binary64 significand is even (every integer up to \<open>2 ^ 52\<close>, the default 150
  among them) absorbs the rounding of \<open>cap - paid\<close> and of the sum that follows; any other cap leaks at
  most one unit in its last place.\<close>

definition even_significand :: "rat \<Rightarrow> bool" where
  "even_significand c \<longleftrightarrow> even (round_even (c / 2 powi ulp_exp c))"

definition rounded_cap :: "rat \<Rightarrow> rat" where
  "rounded_cap c = (if even_significand c then c else c + 2 powi ulp_exp c)"

lemma rounded_cap_ge: "c \<le> rounded_cap c"
  by (simp add: rounded_cap_def)

lemma fadd_fsub_cap:
  assumes g: "0 \<le> g" "g \<le> c" and b: "is_b64 g" "is_b64 c"
  shows "fadd g (fsub c g) \<le> rounded_cap c"
proof (cases "c = 0 \<or> g = c")
  case True
  then show ?thesis using g b rounded_cap_ge [of c] by (auto simp: fadd_def fsub_def is_b64_def)
next
  case False
  with g have c: "0 < c" and cg: "0 < c - g" "c - g \<le> c" by auto
  define u :: rat where "u = 2 powi ulp_exp c"
  define m where "m = round_even (c / u)"
  have u: "0 < u" by (simp add: u_def)
  have cm: "c = of_int m * u" using b(2) c by (simp add: is_b64_def b64_pos m_def u_def)
  have "(2::rat) powi ulp_exp (c - g) \<le> u"
    using ulp_exp_mono [OF cg] by (simp add: u_def powi_le_iff)
  then have err: "b64 (c - g) \<le> c - g + u / 2" using b64_err [of "c - g"] by linarith
  have "c < 2 powi 53 * u" using mantissa_less [OF c] by (simp add: u_def powi_split mult.commute)
  with cm have "of_int m * u < 2 powi 53 * u" by simp
  then have "rat_of_int m < of_int (2 ^ 53)" using u by simp
  then have "m < 2 ^ 53" by (simp only: of_int_less_iff)
  then have "m + 1 \<le> 2 ^ 53" by linarith
  then have "rat_of_int (m + 1) \<le> of_int (2 ^ 53)" by (simp only: of_int_le_iff)
  then have top: "rat_of_int m + 1 \<le> 2 ^ 53" by simp
  have "ulp_exp (c + u / 2) = ulp_exp c"
  proof -
    have "c + u / 2 < (of_int m + 1) * u" using u by (simp add: cm algebra_simps)
    also have "\<dots> \<le> 2 ^ 53 * u" using top u by (intro mult_right_mono) auto
    finally have lt: "c + u / 2 < 2 powi (ulp_exp c + 53)" by (simp add: u_def powi_split mult.commute)
    have "2 powi ilog2 (c + u / 2) \<le> c + u / 2" using c u by (intro ilog2_bounds) auto
    with lt have "ilog2 (c + u / 2) < ulp_exp c + 53" by (meson le_less_trans powi_less_iff)
    moreover have "ulp_exp c \<le> ulp_exp (c + u / 2)" using c u by (intro ulp_exp_mono) auto
    ultimately show ?thesis using c u by (auto simp: ulp_exp_def)
  qed
  then have "b64 (c + u / 2) = of_int (round_even ((c + u / 2) / u)) * u"
    using c u by (simp add: b64_def u_def [symmetric])
  also have "(c + u / 2) / u = of_int m + 1 / 2" using u by (simp add: cm field_simps)
  also have "round_even (of_int m + 1 / 2) = (if even m then m else m + 1)"
  proof -
    have f: "\<lfloor>rat_of_int m + 1 / 2\<rfloor> = m" by (simp add: floor_eq_iff)
    show ?thesis by (simp add: round_even_def f)
  qed
  finally have "b64 (c + u / 2) = rounded_cap c"
    by (simp add: rounded_cap_def even_significand_def m_def [symmetric] u_def [symmetric]) (simp add: cm algebra_simps)
  moreover have "fadd g (fsub c g) \<le> b64 (c + u / 2)"
    using err b by (simp add: fadd_def fsub_def is_b64_def b64_mono)
  ultimately show ?thesis by simp
qed

lemma fadd_fsub_le:
  assumes "0 \<le> g" "g \<le> c" "is_b64 g" "is_b64 c" "even_significand c"
  shows "fadd g (fsub c g) \<le> c"
  using fadd_fsub_cap [OF assms(1-4)] assms(5) by (simp add: rounded_cap_def)

lemma award_gold_frame:
  assumes "award_gold p amount r today = (p', paid)"
  shows "p' = (sync_today p today)\<lparr>gold := fadd (gold p) paid,
           gold_today := fadd (gold_today (sync_today p today)) paid\<rparr>"
    and "paid = max 0 (min amount (fsub (daily_gold_cap r) (gold_today (sync_today p today))))"
  using assms by (auto simp: award_gold_def Let_def)

lemma award_gold_cap:
  assumes "award_gold p amount r today = (p', paid)"
    and "is_b64 (gold_today p)" "0 \<le> gold_today p" "is_b64 (daily_gold_cap r)"
  shows "gold_today p' \<le> max (rounded_cap (daily_gold_cap r)) (gold_today (sync_today p today))"
proof -
  let ?g = "gold_today (sync_today p today)"
  have g: "0 \<le> ?g" "is_b64 ?g" using assms by (auto simp: sync_today_def)
  note f = award_gold_frame [OF assms(1)]
  show ?thesis
  proof (cases "?g \<le> daily_gold_cap r")
    case True
    then have "paid \<le> fsub (daily_gold_cap r) ?g" using f(2) by (auto intro: fsub_nonneg)
    then have "fadd ?g paid \<le> fadd ?g (fsub (daily_gold_cap r) ?g)" by (intro fadd_mono) auto
    also have "\<dots> \<le> rounded_cap (daily_gold_cap r)" using fadd_fsub_cap [OF g(1) True g(2) assms(4)] .
    finally show ?thesis using f(1) by simp
  next
    case False
    then have "fsub (daily_gold_cap r) ?g \<le> 0" by (simp add: fsub_def b64_mono dbl.rnd_le_0)
    then have "paid = 0" using f(2) by auto
    then show ?thesis using f(1) g by (simp add: is_b64_def)
  qed
qed

subsection \<open>The four shapes of a scored event\<close>

lemma award_both_cases:
  assumes "award_both p xa ga r today oc = (p', oc')"
  obtains p1 applied n paid where "award_xp p xa r today = (p1, applied, n)"
    "award_gold p1 ga r today = (p', paid)"
    "oc' = oc\<lparr>o_xp := Some applied, o_levels_gained := Some n, o_gold := Some paid\<rparr>"
  using assms by (auto simp: award_both_def split: prod.splits)

lemma keep_rng_Inr [simp]: "keep_rng g res = Inr (p', oc, g') \<longleftrightarrow> res = Inr (p', oc) \<and> g' = g"
  by (auto simp: keep_rng_def)

lemma award_both_frame: "award_both p xa ga r d oc0 = (q, oc) \<Longrightarrow> o_hp_lost oc = o_hp_lost oc0"
  by (elim award_both_cases) simp

lemma apply_hp_loss_outcome:
  "apply_hp_loss p a r g bs = (q, oc, h) \<Longrightarrow> o_xp oc = None \<and> o_gold oc = None"
  by (auto simp: apply_hp_loss_def Let_def no_outcome_def split: if_splits prod.splits)

inductive event_shape ::
  "game_rates \<Rightarrow> date \<Rightarrow> bonus \<Rightarrow> profile \<Rightarrow> rng \<Rightarrow> profile \<times> outcome \<times> rng \<Rightarrow> bool"
  for r day bs p g where
  unmoved: "o_xp oc = None \<Longrightarrow> o_gold oc = None \<Longrightarrow> o_hp_lost oc = None
    \<Longrightarrow> event_shape r day bs p g (p, oc, g)"
| awarded: "award_both p xa ga r day oc0 = (p', oc) \<Longrightarrow> o_hp_lost oc = None
    \<Longrightarrow> event_shape r day bs p g (p', oc, g)"
| milestone: "award_xp p xa r day = (p', applied, n) \<Longrightarrow> o_xp oc = Some applied \<Longrightarrow> o_gold oc = None
    \<Longrightarrow> o_hp_lost oc = None \<Longrightarrow> event_shape r day bs p g (p', oc, g)"
| hurt: "apply_hp_loss p amount r g bs = (p', oc0, g') \<Longrightarrow> o_hp_lost oc = o_hp_lost oc0
    \<Longrightarrow> o_died oc = o_died oc0 \<Longrightarrow> o_stat_lost oc = o_stat_lost oc0 \<Longrightarrow> o_xp oc = None
    \<Longrightarrow> o_gold oc = None \<Longrightarrow> event_shape r day bs p g (p', oc, g')"

inductive_cases event_shapeE: "event_shape r day bs p g (p', oc, g')"

lemma event_shape_cases:
  assumes "event_shape r day bs p g (p', oc, g')"
  obtains
    (unmoved) "p' = p" "g' = g" "o_xp oc = None" "o_gold oc = None" "o_hp_lost oc = None"
  | (awarded) xa ga oc0 where "award_both p xa ga r day oc0 = (p', oc)" "g' = g" "o_hp_lost oc = None"
  | (milestone) xa applied n where "award_xp p xa r day = (p', applied, n)" "g' = g"
      "o_xp oc = Some applied" "o_gold oc = None" "o_hp_lost oc = None"
  | (hurt) amount oc0 where "apply_hp_loss p amount r g bs = (p', oc0, g')"
      "o_hp_lost oc = o_hp_lost oc0" "o_died oc = o_died oc0" "o_stat_lost oc = o_stat_lost oc0"
      "o_xp oc = None" "o_gold oc = None"
  using assms by (rule event_shapeE) blast+

lemma focus_shape:
  "apply_focus_phase pf p payload r roll day bs = Inr (p', oc) \<Longrightarrow> event_shape r day bs p g (p', oc, g)"
  by (auto simp: apply_focus_phase_def no_outcome_def intro!: event_shape.awarded dest: award_both_frame)

lemma speedrun_shape:
  "apply_speedrun_completed pf p payload r roll day bs = Inr (p', oc) \<Longrightarrow>
     event_shape r day bs p g (p', oc, g)"
  by (auto simp: apply_speedrun_completed_def Let_def no_outcome_def
      intro!: event_shape.awarded dest: award_both_frame)

lemma daily_check_shape:
  "apply_daily_check pf p payload r roll day bs = Inr (p', oc) \<Longrightarrow> event_shape r day bs p g (p', oc, g)"
  by (auto simp: apply_daily_check_def daily_base_def Let_def no_outcome_def
      intro!: event_shape.awarded dest: award_both_frame)

lemma stopwatch_shape:
  "apply_stopwatch_milestone p payload r roll day bs = Inr (p', oc) \<Longrightarrow>
     event_shape r day bs p g (p', oc, g)"
  by (auto simp: apply_stopwatch_milestone_def Let_def no_outcome_def
      split: json.splits if_splits prod.splits intro: event_shape.milestone)

lemma damage_shape:
  "apply_damage pf p payload r g bs = Inr (p', oc, g') \<Longrightarrow> event_shape r day bs p g (p', oc, g')"
  by (auto simp: apply_damage_def intro!: event_shape.hurt dest: apply_hp_loss_outcome)

lemma missed_shape:
  "apply_daily_missed pf p payload r g bs = Inr (p', oc, g') \<Longrightarrow> event_shape r day bs p g (p', oc, g')"
  by (auto simp: apply_daily_missed_def intro!: event_shape.hurt dest: apply_hp_loss_outcome)

lemma habit_shape:
  assumes "apply_habit_click pf p payload r roll g day bs = Inr (p', oc, g')"
  shows "event_shape r day bs p g (p', oc, g')"
proof (cases "dict_get payload ''direction'' = Some (JStr ''negative'')")
  case True
  with assms show ?thesis
    by (auto simp: apply_habit_click_def Let_def intro!: event_shape.hurt dest: apply_hp_loss_outcome)
next
  case False
  with assms show ?thesis
    by (auto simp: apply_habit_click_def Let_def no_outcome_def split: if_splits
        intro!: event_shape.awarded dest: award_both_frame)
qed

lemma event_shapes:
  assumes ev: "apply_event pf u p t payload r roll g today bs = Inr (p', oc, g')"
  shows "event_shape r (case today of Some d \<Rightarrow> d | None \<Rightarrow> u) bs p g (p', oc, g')"
proof -
  define day where "day = (case today of Some d \<Rightarrow> d | None \<Rightarrow> u)"
  have still: "event_shape r day bs p g (p', oc, g')"
    if "Inr (p, no_outcome\<lparr>o_scored := Some b\<rparr>, g) = (Inr (p', oc, g') :: (profile \<times> outcome \<times> rng) result)"
    for b
    using that by (auto simp: no_outcome_def intro: event_shape.unmoved)
  have keep: "event_shape r day bs p g (p', oc, g')"
    if "keep_rng g res = Inr (p', oc, g')" and "res = Inr (p', oc) \<Longrightarrow> event_shape r day bs p g (p', oc, g)"
    for res
    using that by auto
  note shapes = focus_shape damage_shape stopwatch_shape daily_check_shape speedrun_shape
  show ?thesis using ev unfolding apply_event_def Let_def day_def [symmetric]
    by (elim if_elim) (erule keep shapes habit_shape missed_shape damage_shape still; erule shapes)+
qed

subsection \<open>The profile invariant\<close>

definition profile_ok :: "profile \<Rightarrow> bool" where
  "profile_ok p \<longleftrightarrow> 1 \<le> level p \<and> 0 \<le> xp p \<and> 0 < hp p \<and> hp p \<le> max_hp p \<and> 0 \<le> gold p \<and>
     0 \<le> str_stat p \<and> 0 \<le> int_stat p \<and> 0 \<le> con_stat p \<and> 0 \<le> per_stat p \<and>
     0 \<le> unspent_stat_points p \<and> 0 \<le> xp_today p \<and> 0 \<le> gold_today p \<and>
     is_b64 (hp p) \<and> is_b64 (max_hp p) \<and> is_b64 (gold p) \<and> is_b64 (gold_today p)"

lemma new_profile_ok [inv_intros]: "profile_ok new_profile"
  by (simp add: profile_ok_def new_profile_def)

lemma sync_today_ok [inv_intros]: "profile_ok p \<Longrightarrow> profile_ok (sync_today p d)"
  by (auto simp: profile_ok_def sync_today_def)

lemma award_xp_ok [inv_intros]:
  assumes "award_xp p amount r today = (p', applied, n)" "profile_ok p" shows "profile_ok p'"
proof -
  have p: "0 \<le> xp p" using assms(2) by (simp add: profile_ok_def)
  have s: "0 \<le> xp_today (sync_today p today)" "0 \<le> gold_today (sync_today p today)"
    "is_b64 (gold_today (sync_today p today))"
    using sync_today_ok [OF assms(2)] by (simp_all add: profile_ok_def)
  note f = award_xp_frame [OF assms(1)]
  have "0 \<le> applied" by (simp add: f)
  moreover obtain k where "level p' = level p + int k" "0 \<le> xp p'"
    "unspent_stat_points p' = unspent_stat_points p + int k" "hp p' = (if k = 0 then hp p else max_hp p)"
    using award_xp_spec [OF assms(1) p] by blast
  ultimately show ?thesis using assms(2) s f(1-12)
    by (cases "k = 0") (simp_all add: profile_ok_def)
qed

lemma award_gold_ok [inv_intros]:
  assumes "award_gold p amount r today = (p', paid)" "profile_ok p" shows "profile_ok p'"
  using sync_today_ok [OF assms(2), of today] award_gold_frame [OF assms(1)]
  by (auto simp: profile_ok_def fadd_nonneg)

lemma award_both_ok [inv_intros]:
  assumes "award_both p xa ga r today oc = (p', oc')" "profile_ok p" shows "profile_ok p'"
  using assms(1) by (rule award_both_cases) (rule award_gold_ok, assumption, rule award_xp_ok [OF _ assms(2)])

text \<open>The death cascade: what it resets and which stat it takes.\<close>

lemma get_set_stat [simp]: "get_stat (set_stat s n p) s' = (if s' = s then n else get_stat p s')"
  by (cases s; cases s') (auto simp: get_stat_def set_stat_def)

lemma set_stat_frame [simp]:
  "level (set_stat s n p) = level p" "xp (set_stat s n p) = xp p" "hp (set_stat s n p) = hp p"
  "max_hp (set_stat s n p) = max_hp p" "gold (set_stat s n p) = gold p"
  "unspent_stat_points (set_stat s n p) = unspent_stat_points p"
  "game_class (set_stat s n p) = game_class p" "class_unlocked (set_stat s n p) = class_unlocked p"
  "auto_allocate (set_stat s n p) = auto_allocate p" "xp_today (set_stat s n p) = xp_today p"
  "gold_today (set_stat s n p) = gold_today p" "totals_day (set_stat s n p) = totals_day p"
  by (cases s; simp add: set_stat_def)+

lemma stat_columns_UNIV [simp]: "set stat_columns = UNIV"
proof -
  have "s \<in> set stat_columns" for s by (cases s) (simp_all add: stat_columns_def)
  then show ?thesis by blast
qed

lemma get_stat_nonneg: "profile_ok p \<Longrightarrow> 0 \<le> get_stat p s"
  by (cases s) (auto simp: profile_ok_def get_stat_def)

lemma get_stat_eqs [simp]:
  "get_stat p StrStat = str_stat p" "get_stat p IntStat = int_stat p"
  "get_stat p ConStat = con_stat p" "get_stat p PerStat = per_stat p"
  by (simp_all add: get_stat_def)

lemma death_spec:
  assumes "death p g = (p', lost, g')"
  shows "level p' = max 1 (level p - 1)" "xp p' = 0" "gold p' = 0" "hp p' = max_hp p"
    "max_hp p' = max_hp p" "unspent_stat_points p' = unspent_stat_points p"
    "xp_today p' = xp_today p" "gold_today p' = gold_today p" "totals_day p' = totals_day p"
    "lost = None \<longleftrightarrow> (\<forall>s. get_stat p s \<le> 0)"
    "lost = Some s \<Longrightarrow> 0 < get_stat p s"
    "get_stat p' s = get_stat p s - (if lost = Some s then 1 else 0)"
proof -
  define p1 where "p1 = p\<lparr>level := max 1 (level p - 1), xp := 0, gold := 0, hp := max_hp p\<rparr>"
  define al where "al = filter (\<lambda>s. get_stat p1 s > 0) stat_columns"
  have p1: "get_stat p1 s = get_stat p s" for s by (cases s) (simp_all add: p1_def)
  have nil: "al = [] \<longleftrightarrow> (\<forall>s. get_stat p s \<le> 0)"
    by (auto simp: al_def filter_empty_conv p1 not_less)
  have d: "if al = [] then p' = p1 \<and> lost = None
    else lost = Some (fst (rng_choice g al)) \<and>
         p' = set_stat (fst (rng_choice g al)) (get_stat p1 (fst (rng_choice g al)) - 1) p1"
    using assms by (auto simp: death_def p1_def [symmetric] al_def [symmetric] Let_def
        split: prod.splits if_splits)
  have pick: "0 < get_stat p (fst (rng_choice g al))" if "al \<noteq> []"
    using rng_choice_mem [OF that, of g] by (auto simp: al_def p1)
  show "level p' = max 1 (level p - 1)" "xp p' = 0" "gold p' = 0" "hp p' = max_hp p"
    "max_hp p' = max_hp p" "unspent_stat_points p' = unspent_stat_points p"
    "xp_today p' = xp_today p" "gold_today p' = gold_today p" "totals_day p' = totals_day p"
    using d by (auto simp: p1_def split: if_splits)
  show "lost = None \<longleftrightarrow> (\<forall>s. get_stat p s \<le> 0)" using d nil by (auto split: if_splits)
  show "lost = Some s \<Longrightarrow> 0 < get_stat p s" using d pick by (auto split: if_splits)
  show "get_stat p' s = get_stat p s - (if lost = Some s then 1 else 0)"
    using d by (auto simp: p1 split: if_splits)
qed

lemma get_stat_all: "(\<And>s. 0 \<le> get_stat p s) \<Longrightarrow>
    0 \<le> str_stat p \<and> 0 \<le> int_stat p \<and> 0 \<le> con_stat p \<and> 0 \<le> per_stat p"
  by (metis get_stat_eqs)

lemma death_ok [inv_intros]:
  assumes "death p g = (p', lost, g')" "profile_ok (p\<lparr>hp := h\<rparr>)" shows "profile_ok p'"
proof -
  have ge: "0 \<le> get_stat p s" for s using get_stat_nonneg [OF assms(2), of s] by (cases s) simp_all
  have "0 \<le> get_stat p' s" for s
    using death_spec(11,12) [OF assms(1), of s] ge [of s] by auto
  then show ?thesis using death_spec(1-9) [OF assms(1)] assms(2) get_stat_all [of p']
    by (simp add: profile_ok_def)
qed

lemma apply_hp_loss_cases:
  assumes "apply_hp_loss p amount r g bs = (p', oc, g')"
  obtains (alive) loss where "1 \<le> loss" "0 < fsub (hp p) loss" "p' = p\<lparr>hp := fsub (hp p) loss\<rparr>"
      "o_hp_lost oc = Some loss" "o_died oc = Some False" "o_stat_lost oc = None" "g' = g"
  | (dead) loss lost where "1 \<le> loss" "fsub (hp p) loss \<le> 0"
      "death (p\<lparr>hp := fsub (hp p) loss\<rparr>) g = (p', lost, g')"
      "o_hp_lost oc = Some loss" "o_died oc = Some True" "o_stat_lost oc = Some lost"
proof -
  define shield where "shield = max (con_shield_floor r)
    (fsub 1 (fdiv (of_int (effective_stat p ConStat bs)) (con_shield_divisor r)))"
  define loss where "loss = max 1 (b64 (of_int \<lfloor>fmul amount shield\<rfloor>))"
  note a = assms [unfolded apply_hp_loss_def Let_def, folded shield_def, folded loss_def]
  have loss: "1 \<le> loss" by (simp add: loss_def)
  show thesis
  proof (cases "fsub (hp p) loss \<le> 0")
    case True
    obtain p2 lost g2 where d: "death (p\<lparr>hp := fsub (hp p) loss\<rparr>) g = (p2, lost, g2)"
      by (metis prod_cases3)
    with a True show thesis by (intro dead [OF loss True, of lost]) (auto simp: no_outcome_def)
  next
    case False
    with a show thesis by (intro alive [OF loss]) (auto simp: no_outcome_def)
  qed
qed

lemma apply_hp_loss_ok [inv_intros]:
  assumes "apply_hp_loss p amount r g bs = (p', oc, g')" "profile_ok p" shows "profile_ok p'"
  using assms(1)
proof (cases rule: apply_hp_loss_cases)
  case (alive loss)
  then have "fsub (hp p) loss \<le> hp p" using assms(2) by (intro fsub_le) (auto simp: profile_ok_def)
  with alive assms(2) show ?thesis by (auto simp: profile_ok_def)
next
  case (dead loss lost)
  then show ?thesis using assms(2) by (intro death_ok [OF dead(3), of "hp p"]) simp
qed

lemma event_shape_ok: "event_shape r day bs p g (p', oc, g') \<Longrightarrow> profile_ok p \<Longrightarrow> profile_ok p'"
  by (erule event_shapeE) (auto intro: inv_intros)

lemma apply_event_ok [inv_intros]:
  "apply_event pf u p t payload r roll g today bs = Inr (p', oc, g') \<Longrightarrow> profile_ok p \<Longrightarrow> profile_ok p'"
  by (drule event_shapes) (rule event_shape_ok)

end
