(* ===== verification/EngineLaws.thy ===== *)
theory EngineLaws
  imports EngineFacts
begin

text \<open>
  The properties of the scoring engine, over the lemmas of \<open>EngineFacts\<close>: the daily caps over
  any run of events, the errors scoring can raise, the residual accounting of daily checks, the
  shield, crits, habit drift and the default level curve.
\<close>

subsection \<open>Runs of events\<close>

text \<open>
  What a batch of events does to a profile: each event is scored with its own roll, an event
  that raises leaves profile and generator as they were. \<open>earned_xp\<close> and \<open>earned_gold\<close> read
  the amounts an outcome reports.
\<close>

fun score_run ::
  "platform \<Rightarrow> game_rates \<Rightarrow> date \<Rightarrow> (string \<times> dict \<times> rat \<times> bonus) list \<Rightarrow> profile \<times> rng
     \<Rightarrow> (profile \<times> rng) \<times> outcome list" where
  "score_run pf r day [] s = (s, [])"
| "score_run pf r day ((t, payload, roll, bs) # evs) (p, g) =
     (case apply_event pf day p t payload r roll g (Some day) bs of
        Inl e \<Rightarrow> score_run pf r day evs (p, g)
      | Inr (p', oc, g') \<Rightarrow>
          let (s, ocs) = score_run pf r day evs (p', g') in (s, oc # ocs))"

definition earned_xp :: "outcome \<Rightarrow> int" where
  "earned_xp oc = (case o_xp oc of Some n \<Rightarrow> n | None \<Rightarrow> 0)"

definition earned_gold :: "outcome \<Rightarrow> rat" where
  "earned_gold oc = (case o_gold oc of Some n \<Rightarrow> n | None \<Rightarrow> 0)"

lemma hp_loss_today:
  assumes "apply_hp_loss p amount r g bs = (p', oc, g')"
  shows "xp_today p' = xp_today p \<and> gold_today p' = gold_today p \<and> totals_day p' = totals_day p"
  using assms
proof (cases rule: apply_hp_loss_cases)
  case (dead loss lost)
  then show ?thesis using death_spec(7,8,9) [OF dead(3)] by simp
qed simp

text \<open>The day's counter after an event, read through the roll-over every award starts with.\<close>

lemma sync_today_cong:
  "xp_today p' = xp_today p \<Longrightarrow> gold_today p' = gold_today p \<Longrightarrow> totals_day p' = totals_day p \<Longrightarrow>
     xp_today (sync_today p' d) = xp_today (sync_today p d) \<and>
     gold_today (sync_today p' d) = gold_today (sync_today p d)"
  by (simp add: sync_today_def)

lemma sync_today_same: "totals_day p = Some d \<Longrightarrow> sync_today p d = p"
  by (simp add: sync_today_def)

lemma award_xp_today:
  assumes "award_xp p xa r day = (p', applied, n)"
  shows "xp_today (sync_today p' day) = xp_today (sync_today p day) + applied"
    and "gold_today (sync_today p' day) = gold_today (sync_today p day)" and "0 \<le> applied"
    and "xp_today (sync_today p' day) \<le> max (daily_xp_cap r) (xp_today (sync_today p day))"
proof -
  note f = award_xp_frame [OF assms]
  have s: "sync_today p' day = p'" by (rule sync_today_same) (rule f)
  show "xp_today (sync_today p' day) = xp_today (sync_today p day) + applied"
    "gold_today (sync_today p' day) = gold_today (sync_today p day)" by (simp_all add: s f(1-12))
  show "0 \<le> applied" by (simp add: f)
  show "xp_today (sync_today p' day) \<le> max (daily_xp_cap r) (xp_today (sync_today p day))"
    by (simp add: s f)
qed

lemma award_both_today:
  assumes "award_both p xa ga r day oc = (p', oc')"
  shows "xp_today (sync_today p' day) = xp_today (sync_today p day) + earned_xp oc'"
    and "gold_today (sync_today p' day) = fadd (gold_today (sync_today p day)) (earned_gold oc')"
    and "0 \<le> earned_xp oc'" and "0 \<le> earned_gold oc'"
    and "xp_today (sync_today p' day) \<le> max (daily_xp_cap r) (xp_today (sync_today p day))"
proof -
  obtain p1 applied n paid where x: "award_xp p xa r day = (p1, applied, n)"
    and g: "award_gold p1 ga r day = (p', paid)"
    and oc: "oc' = oc\<lparr>o_xp := Some applied, o_levels_gained := Some n, o_gold := Some paid\<rparr>"
    using award_both_cases [OF assms] by metis
  note f = award_xp_today [OF x]
  have s: "sync_today p' day = p'" by (rule sync_today_same) (simp add: award_gold_frame [OF g])
  have p': "xp_today p' = xp_today (sync_today p1 day)"
    "gold_today p' = fadd (gold_today (sync_today p1 day)) paid" "0 \<le> paid"
    by (simp_all add: award_gold_frame [OF g])
  show "xp_today (sync_today p' day) = xp_today (sync_today p day) + earned_xp oc'"
    "gold_today (sync_today p' day) = fadd (gold_today (sync_today p day)) (earned_gold oc')"
    "0 \<le> earned_xp oc'" "0 \<le> earned_gold oc'"
    "xp_today (sync_today p' day) \<le> max (daily_xp_cap r) (xp_today (sync_today p day))"
    using f p' by (simp_all add: s oc earned_xp_def earned_gold_def)
qed

lemma event_today_xp:
  assumes "event_shape r day bs p g (p', oc, g')"
  shows "xp_today (sync_today p' day) = xp_today (sync_today p day) + earned_xp oc \<and>
    0 \<le> earned_xp oc \<and>
    xp_today (sync_today p' day) \<le> max (daily_xp_cap r) (xp_today (sync_today p day))"
  using assms
proof (cases rule: event_shape_cases)
  case (awarded xa ga oc0)
  then show ?thesis using award_both_today [OF awarded(1)] by simp
next
  case (milestone xa applied n)
  then show ?thesis using award_xp_today [OF milestone(1)] by (simp add: earned_xp_def)
next
  case (hurt amount oc0)
  then show ?thesis using sync_today_cong [of p' p day] hp_loss_today [OF hurt(1)]
    by (simp add: earned_xp_def)
qed (simp add: earned_xp_def)

lemma score_run_Cons:
  "score_run pf r day ((t, payload, roll, bs) # evs) (p, g) =
     (case apply_event pf day p t payload r roll g (Some day) bs of
        Inl e \<Rightarrow> score_run pf r day evs (p, g)
      | Inr (p', oc, g') \<Rightarrow> (fst (score_run pf r day evs (p', g')), oc # snd (score_run pf r day evs (p', g'))))"
  by (simp split: sum.splits prod.splits)

lemma score_run_xp:
  "score_run pf r day evs (p, g) = ((p', g'), ocs) \<Longrightarrow>
     xp_today (sync_today p' day) = xp_today (sync_today p day) + sum_list (map earned_xp ocs) \<and>
     xp_today (sync_today p' day) \<le> max (daily_xp_cap r) (xp_today (sync_today p day))"
proof (induction evs arbitrary: p g ocs)
  case Nil
  then show ?case by simp
next
  case (Cons ev evs)
  obtain t payload roll bs where ev: "ev = (t, payload, roll, bs)" by (metis prod_cases4)
  show ?case
  proof (cases "apply_event pf day p t payload r roll g (Some day) bs")
    case (Inl e)
    then show ?thesis using Cons.IH [of p g ocs] Cons.prems by (simp add: ev score_run_Cons)
  next
    case (Inr x)
    obtain q oc h where x: "x = (q, oc, h)" by (metis prod_cases3)
    obtain ocs' where run: "score_run pf r day evs (q, h) = ((p', g'), ocs')" and ocs: "ocs = oc # ocs'"
      using Cons.prems by (cases "score_run pf r day evs (q, h)") (auto simp: ev score_run_Cons Inr x)
    have "event_shape r day bs p g (q, oc, h)"
      using event_shapes [OF Inr [unfolded x]] by simp
    from event_today_xp [OF this] Cons.IH [OF run] show ?thesis
      by (auto simp: ocs max_def split: if_splits)
  qed
qed

text \<open>C3: the XP a profile earns in one UTC day never exceeds the configured cap, whatever events
  arrive, with whatever payloads, rolls and gear, and however many of them raise: the sum of the
  XP reported by all outcomes of the day is at most \<open>daily_xp_cap\<close> (or 0 when the cap is
  negative).\<close>

theorem day_xp_capped:
  assumes "score_run pf r day evs (p, g) = ((p', g'), ocs)"
    and "totals_day p \<noteq> Some day"
  shows "sum_list (map earned_xp ocs) \<le> max 0 (daily_xp_cap r)"
proof -
  have "xp_today (sync_today p day) = 0" using assms(2) by (simp add: sync_today_def)
  then show ?thesis using score_run_xp [OF assms(1)] by (simp add: max.commute)
qed

lemma event_today_gold:
  assumes "event_shape r day bs p g (p', oc, g')" and p: "profile_ok p"
    and r: "is_b64 (daily_gold_cap r)"
  shows "gold_today (sync_today p' day) = fadd (gold_today (sync_today p day)) (earned_gold oc) \<and>
    gold_today (sync_today p' day) \<le> max (rounded_cap (daily_gold_cap r)) (gold_today (sync_today p day))"
proof -
  have b: "is_b64 (gold_today (sync_today p day))"
    using sync_today_ok [OF p] by (simp add: profile_ok_def)
  note same = b [unfolded is_b64_def]
  show ?thesis using assms(1)
  proof (cases rule: event_shape_cases)
    case unmoved
    then show ?thesis using same by (simp add: earned_gold_def)
  next
    case (awarded xa ga oc0)
    from awarded(1) obtain p1 applied n paid where x: "award_xp p xa r day = (p1, applied, n)"
      and g: "award_gold p1 ga r day = (p', paid)" by (rule award_both_cases)
    have s: "sync_today p' day = p'" by (rule sync_today_same) (simp add: award_gold_frame [OF g])
    have p1: "gold_today p1 = gold_today (sync_today p day)" "sync_today p1 day = p1"
      using award_xp_frame [OF x] by (simp_all add: sync_today_same)
    have "0 \<le> gold_today (sync_today p day)" using sync_today_ok [OF p] by (simp add: profile_ok_def)
    then have "gold_today p' \<le> max (rounded_cap (daily_gold_cap r)) (gold_today (sync_today p1 day))"
      using b r by (intro award_gold_cap [OF g]) (simp_all add: p1)
    then show ?thesis using award_both_today(2) [OF awarded(1)] by (simp add: s p1)
  next
    case (milestone xa applied n)
    then show ?thesis using award_xp_today(2) [OF milestone(1)] same by (simp add: earned_gold_def)
  next
    case (hurt amount oc0)
    then show ?thesis using sync_today_cong [of p' p day] hp_loss_today [OF hurt(1)] same
      by (simp add: earned_gold_def)
  qed
qed

lemma score_run_gold:
  "score_run pf r day evs (p, g) = ((p', g'), ocs) \<Longrightarrow> profile_ok p \<Longrightarrow>
   is_b64 (daily_gold_cap r) \<Longrightarrow>
     gold_today (sync_today p' day) = foldl fadd (gold_today (sync_today p day)) (map earned_gold ocs) \<and>
     gold_today (sync_today p' day) \<le> max (rounded_cap (daily_gold_cap r)) (gold_today (sync_today p day)) \<and>
     profile_ok p'"
proof (induction evs arbitrary: p g ocs)
  case Nil
  then show ?case by simp
next
  case (Cons ev evs)
  obtain t payload roll bs where ev: "ev = (t, payload, roll, bs)" by (metis prod_cases4)
  show ?case
  proof (cases "apply_event pf day p t payload r roll g (Some day) bs")
    case (Inl e)
    then show ?thesis using Cons.IH [of p g ocs] Cons.prems by (simp add: ev score_run_Cons)
  next
    case (Inr x)
    obtain q oc h where x: "x = (q, oc, h)" by (metis prod_cases3)
    obtain ocs' where run: "score_run pf r day evs (q, h) = ((p', g'), ocs')" and ocs: "ocs = oc # ocs'"
      using Cons.prems by (cases "score_run pf r day evs (q, h)") (auto simp: ev score_run_Cons Inr x)
    have sh: "event_shape r day bs p g (q, oc, h)"
      using event_shapes [OF Inr [unfolded x]] by simp
    have "profile_ok q" by (rule event_shape_ok [OF sh Cons.prems(2)])
    from event_today_gold [OF sh Cons.prems(2,3)] Cons.IH [OF run this Cons.prems(3)] show ?thesis
      by (auto simp: ocs max_def split: if_splits)
  qed
qed

lemma even_significand_150: "even_significand 150"
  by code_simp

text \<open>C12: the gold a profile is paid in one UTC day, accumulated in the float arithmetic the code
  uses, never exceeds \<open>daily_gold_cap\<close> when the cap's significand is even (every integer cap up to
  \<open>2 ^ 52\<close>, the default 150 included): rounding \<open>cap - paid\<close> and the sum does not leak. Whatever
  double the cap is, the excess is at most one unit in the cap's last place.\<close>

theorem day_gold_capped:
  assumes "score_run pf r day evs (p, g) = ((p', g'), ocs)" and "profile_ok p"
    and "totals_day p \<noteq> Some day" and "is_b64 (daily_gold_cap r)"
  shows "(even_significand (daily_gold_cap r) \<longrightarrow> foldl fadd 0 (map earned_gold ocs) \<le> max 0 (daily_gold_cap r))
    \<and> foldl fadd 0 (map earned_gold ocs) \<le> max 0 (daily_gold_cap r + 2 powi ulp_exp (daily_gold_cap r))"
proof -
  have "gold_today (sync_today p day) = 0" using assms(3) by (simp add: sync_today_def)
  then have "foldl fadd 0 (map earned_gold ocs) \<le> max 0 (rounded_cap (daily_gold_cap r))"
    using score_run_gold [OF assms(1,2,4)] by (simp add: max.commute)
  moreover have "rounded_cap (daily_gold_cap r) \<le> daily_gold_cap r + 2 powi ulp_exp (daily_gold_cap r)"
    by (simp add: rounded_cap_def)
  ultimately show ?thesis by (auto simp: rounded_cap_def)
qed

subsection \<open>Errors\<close>

lemma isfinite_cases: "isfinite v = Inl e \<Longrightarrow> e = OverflowError \<and> huge_int v"
  by (auto simp: isfinite_def huge_int_def split: json.splits if_splits)

lemma finite_positive_err: "finite_positive v n = Inl e \<Longrightarrow> \<exists>m. e = ValueError m"
proof -
  have "\<not> huge_int v" if "\<not> num_gt v 1000000" "\<not> num_le v 0"
  proof
    assume "huge_int v"
    then obtain i where v: "v = JInt i" and i: "float_overflow \<le> \<bar>i\<bar>"
      by (auto simp: huge_int_def split: json.splits)
    from that v have "0 < i" "rat_of_int i \<le> of_int 1000000" by (simp_all add: num_gt_def num_le_def num_val_def)
    then have "\<bar>i\<bar> \<le> 1000000" by (simp only: of_int_le_iff)
    then show False using i by (simp add: float_overflow_def)
  qed
  moreover assume "finite_positive v n = Inl e"
  ultimately show ?thesis
    by (auto simp: finite_positive_def bind_r_eq_Inl dest: isfinite_cases split: if_splits)
qed

lemma click_value_err: "click_value v = Inl e \<Longrightarrow> \<exists>m. e = ValueError m"
proof -
  have "\<not> huge_int v" if "\<not> num_abs_gt v 1000000"
  proof
    assume "huge_int v"
    then obtain i where v: "v = JInt i" and i: "float_overflow \<le> \<bar>i\<bar>"
      by (auto simp: huge_int_def split: json.splits)
    from that v have "rat_of_int \<bar>i\<bar> \<le> of_int 1000000" by (simp add: num_abs_gt_def num_val_def)
    then have "\<bar>i\<bar> \<le> 1000000" by (simp only: of_int_le_iff)
    then show False using i by (simp add: float_overflow_def)
  qed
  moreover assume "click_value v = Inl e"
  ultimately show ?thesis
    by (auto simp: click_value_def bind_r_eq_Inl dest: isfinite_cases split: if_splits)
qed

lemma num_guard_cases: "num_guard v = Inl e \<Longrightarrow> e = OverflowError \<and> huge_int v"
  by (auto simp: num_guard_eq split: if_splits)

lemma difficulty_err: "difficulty_mult pf n r = Inl e \<Longrightarrow> \<exists>m. e = ValueError m"
  by (auto simp: difficulty_mult_def split: option.splits)

lemma streak_err: "streak_days v = Inl e \<Longrightarrow> \<exists>m. e = ValueError m"
  by (auto simp: streak_days_def split: json.splits if_splits)

lemma fraction_err: "fraction v n = Inl e \<Longrightarrow> (\<exists>m. e = ValueError m) \<or> e = OverflowError \<and> huge_int v"
  by (auto simp: fraction_def bind_r_eq_Inl dest: num_guard_cases split: if_splits)

lemma nonnegative_err:
  "nonnegative v n = Inl e \<Longrightarrow> (\<exists>m. e = ValueError m) \<or> e = OverflowError \<and> huge_int v"
  by (auto simp: nonnegative_def bind_r_eq_Inl dest: num_guard_cases split: if_splits)

lemmas guard_errs = finite_positive_err click_value_err difficulty_err streak_err fraction_err
  nonnegative_err

text \<open>The numbers of a daily check's payload that may be too large for a float.\<close>

definition daily_huge :: "dict \<Rightarrow> bool" where
  "daily_huge payload \<longleftrightarrow> (\<exists>k \<in> set [''share'', ''paid_share'', ''paid_xp'', ''paid_gold''].
     \<exists>v. dict_get payload k = Some v \<and> huge_int v)"

lemma huge_get_or: "huge_int (dict_get_or d k v) \<Longrightarrow> \<not> huge_int v \<Longrightarrow> \<exists>w. dict_get d k = Some w \<and> huge_int w"
  by (auto simp: dict_get_or_def dict_get_def split: option.splits)

lemma not_huge [simp]: "\<not> huge_int JNull" "\<not> huge_int (JInt 0)"
  by (simp_all add: huge_int_def float_overflow_def)

lemma daily_check_err:
  assumes "apply_daily_check pf p payload r roll day bs = Inl e"
  shows "(\<exists>m. e = ValueError m) \<or> e = OverflowError \<and> daily_huge payload"
  using assms unfolding apply_daily_check_def bind_r_eq_Inl Let_def
  by (auto simp: daily_huge_def split: prod.splits
      dest!: fraction_err nonnegative_err streak_err difficulty_err huge_get_or)

lemma handler_errs:
  "apply_focus_phase pf p payload r roll day bs = Inl e \<Longrightarrow> \<exists>m. e = ValueError m"
  "apply_speedrun_completed pf p payload r roll day bs = Inl e \<Longrightarrow> \<exists>m. e = ValueError m"
  "apply_habit_click pf p payload r roll g day bs = Inl e \<Longrightarrow>
     (\<exists>m. e = ValueError m) \<or> (\<exists>v. habit_delta pf (clamp_habit_value v r) r = Inl e)"
  "apply_damage pf p payload r g bs = Inl e \<Longrightarrow> \<exists>m. e = ValueError m"
  "apply_stopwatch_milestone p payload r roll day bs = Inl e \<Longrightarrow> \<exists>m. e = ValueError m"
  "apply_daily_missed pf p payload r g bs = Inl e \<Longrightarrow> \<exists>m. e = ValueError m"
       apply (auto simp: apply_focus_phase_def focus_payout_def bind_r_eq_Inl Let_def dest: guard_errs)[1]
      apply (auto simp: apply_speedrun_completed_def focus_payout_def bind_r_eq_Inl Let_def dest: guard_errs)[1]
     apply (auto simp: apply_habit_click_def bad_direction_def bind_r_eq_Inl Let_def dest: guard_errs
      split: if_splits)[1]
    apply (auto simp: apply_damage_def bind_r_eq_Inl dest: guard_errs split: option.splits)[1]
   apply (auto simp: apply_stopwatch_milestone_def Let_def split: json.splits if_splits prod.splits)[1]
  apply (auto simp: apply_daily_missed_def bind_r_eq_Inl Let_def dest: guard_errs)[1]
  done

text \<open>Scoring raises only \<open>ValueError\<close> (the 422 the routers turn it into), whatever the payload,
  except that a daily check whose share or paid amounts hold an integer too large for a float
  raises \<open>OverflowError\<close> out of \<open>math.isfinite\<close>, and a habit click whatever the drift power raises.\<close>

theorem apply_event_errors:
  assumes "apply_event pf u p t payload r roll g today bs = Inl e"
  shows "(\<exists>m. e = ValueError m) \<or> (e = OverflowError \<and> t = ''daily_check'' \<and> daily_huge payload)
    \<or> (t = ''habit_click'' \<and> (\<exists>v. pow_fn pf (habit_drift_base r) (clamp_habit_value v r) = Inl e))"
proof -
  have keep: "res = Inl e" if "keep_rng g res = Inl e" for res
    using that by (auto simp: keep_rng_def bind_r_eq_Inl)
  define day where "day = (case today of Some d \<Rightarrow> d | None \<Rightarrow> u)"
  show ?thesis using assms unfolding apply_event_def Let_def day_def [symmetric]
  proof (elim if_elim)
    assume "t = ''daily_check''" "keep_rng g (apply_daily_check pf p payload r roll day bs) = Inl e"
    then show ?thesis using daily_check_err keep by blast
  next
    assume "t = ''habit_click''" "apply_habit_click pf p payload r roll g day bs = Inl e"
    then show ?thesis using handler_errs(3) unfolding habit_delta_def by blast
  qed (rule disjI1, (drule keep)?, erule handler_errs | simp)+
qed

subsection \<open>Penalties\<close>

definition penalty_types :: "string list" where
  "penalty_types = [''damage'', ''session_abandoned'', ''speedrun_failed'', ''daily_missed'']"

definition allocated :: "profile \<Rightarrow> int" where
  "allocated p = str_stat p + int_stat p + con_stat p + per_stat p"

lemma allocated_sum: "allocated p = sum_list (map (get_stat p) stat_columns)"
  by (simp add: allocated_def stat_columns_def)

lemma sum_stats_lost:
  assumes "\<And>s. get_stat p' s = get_stat p s - (if lost = Some s then 1 else 0)"
  shows "allocated p' = allocated p - (if lost = None then 0 else 1)"
  using assms [of StrStat] assms [of IntStat] assms [of ConStat] assms [of PerStat]
  unfolding allocated_def by (cases lost; cases "the lost") auto

lemma penalty_loss:
  assumes "apply_event pf u p t payload r roll g today bs = Inr (p', oc, g')"
    and "t \<in> set penalty_types"
  obtains amount oc0 where "apply_hp_loss p amount r g bs = (p', oc0, g')"
    "o_hp_lost oc = o_hp_lost oc0" "o_died oc = o_died oc0" "o_xp oc = None" "o_gold oc = None"
proof -
  have "apply_damage pf p payload r g bs = Inr (p', oc, g') \<or>
      apply_daily_missed pf p payload r g bs = Inr (p', oc, g')"
    using assms by (auto simp: apply_event_def penalty_types_def)
  then obtain amount oc0 where h: "apply_hp_loss p amount r g bs = (p', oc0, g')"
    and oc: "oc = oc0\<lparr>o_scored := Some True\<rparr>"
    by (auto simp: apply_damage_def apply_daily_missed_def)
  show ?thesis using that [OF h] apply_hp_loss_outcome [OF h] by (simp add: oc)
qed

text \<open>Damage, abandoned sessions, failed speedruns and missed dailies only ever take: they report
  a loss of at least one hit point and no XP or gold; a profile that survives lost exactly those
  hit points and nothing else, one that dies restarts a level lower (never below 1) with no XP
  and gold, full HP and one allocated stat point less, if it had any.\<close>

theorem penalties_only_take:
  assumes "apply_event pf u p t payload r roll g today bs = Inr (p', oc, g')"
    and "t \<in> set penalty_types" and "profile_ok p"
  shows "o_xp oc = None \<and> o_gold oc = None \<and> (\<exists>loss \<ge> 1. o_hp_lost oc = Some loss \<and>
    (if o_died oc = Some True
     then fsub (hp p) loss \<le> 0 \<and> level p' = max 1 (level p - 1) \<and> xp p' = 0 \<and> gold p' = 0 \<and>
       hp p' = max_hp p \<and> allocated p' = max 0 (allocated p - 1)
     else 0 < fsub (hp p) loss \<and> p' = p\<lparr>hp := fsub (hp p) loss\<rparr>))"
proof -
  obtain amount oc0 where h: "apply_hp_loss p amount r g bs = (p', oc0, g')"
    and oc: "o_hp_lost oc = o_hp_lost oc0" "o_died oc = o_died oc0" "o_xp oc = None" "o_gold oc = None"
    by (rule penalty_loss [OF assms(1,2)])
  from h show ?thesis
  proof (cases rule: apply_hp_loss_cases)
    case (alive loss)
    then show ?thesis using oc by auto
  next
    case (dead loss lost)
    have same: "get_stat (p\<lparr>hp := h\<rparr>) s = get_stat p s" for h s by (cases s) simp_all
    have "get_stat p' s = get_stat p s - (if lost = Some s then 1 else 0)" for s
      using death_spec(12) [OF dead(3)] by (simp add: same)
    then have a: "allocated p' = allocated p - (if lost = None then 0 else 1)" by (rule sum_stats_lost)
    have nn: "0 \<le> get_stat p s" for s by (rule get_stat_nonneg [OF assms(3)])
    have "allocated p = 0" if "lost = None"
    proof -
      have z: "get_stat p s = 0" for s
        using that death_spec(10) [OF dead(3)] nn [of s] by (simp add: same order_antisym)
      show ?thesis using z [of StrStat] z [of IntStat] z [of ConStat] z [of PerStat]
        by (simp add: allocated_def)
    qed
    moreover have "1 \<le> allocated p" if "lost = Some s" for s
      using death_spec(11) [OF dead(3) that] nn [of StrStat] nn [of IntStat] nn [of ConStat]
        nn [of PerStat] unfolding allocated_def same by (cases s) simp_all
    ultimately have "allocated p' = max 0 (allocated p - 1)" using a by (cases lost) auto
    then show ?thesis using dead oc death_spec(1-4) [OF dead(3)] by auto
  qed
qed

text \<open>A better CON never costs more: with the same damage and rates, a higher effective CON
  (allocated or from gear) loses at most as many hit points.\<close>

theorem shield_monotone:
  assumes "effective_stat p ConStat bs \<le> effective_stat p ConStat bs'"
    and "0 \<le> amount" and "0 \<le> con_shield_divisor r" and "0 \<le> con_shield_floor r"
    and "apply_hp_loss p amount r g bs = (p1, oc1, g1)"
    and "apply_hp_loss p amount r g bs' = (p2, oc2, g2)"
  shows "the (o_hp_lost oc2) \<le> the (o_hp_lost oc1)"
proof -
  define shield where "shield c = max (con_shield_floor r)
    (fsub 1 (fdiv (of_int (effective_stat p ConStat c)) (con_shield_divisor r)))" for c
  have lost: "the (o_hp_lost oc) = max 1 (b64 (of_int \<lfloor>fmul amount (shield c)\<rfloor>))"
    if "apply_hp_loss p amount r g c = (q, oc, h)" for c q oc h
    using that by (auto simp: apply_hp_loss_def Let_def shield_def split: if_splits prod.splits)
  have "fdiv (of_int (effective_stat p ConStat bs)) (con_shield_divisor r)
      \<le> fdiv (of_int (effective_stat p ConStat bs')) (con_shield_divisor r)"
    unfolding fdiv_def using assms(1,3) by (intro b64_mono divide_right_mono) (auto simp: b64_nonneg)
  then have "shield bs' \<le> shield bs"
    unfolding shield_def by (intro max.mono order_refl fsub_mono)
  then have "fmul amount (shield bs') \<le> fmul amount (shield bs)"
    using assms(2,4) by (intro fmul_mono) (auto simp: shield_def)
  then have "b64 (of_int \<lfloor>fmul amount (shield bs')\<rfloor>) \<le> b64 (of_int \<lfloor>fmul amount (shield bs)\<rfloor>)"
    by (intro b64_mono) (simp add: floor_mono)
  then show ?thesis using lost [OF assms(5)] lost [OF assms(6)] by auto
qed

subsection \<open>Daily checks pay a day at most once\<close>

definition whole_check ::
  "profile \<Rightarrow> rat \<Rightarrow> game_rates \<Rightarrow> rat \<Rightarrow> int \<Rightarrow> bonus \<Rightarrow> int \<times> int" where
  "whole_check p d r roll streak bs =
     (let (x, y) = daily_base p d r (crit_roll roll (effective_stat p StrStat bs) r) streak bs
      in (round_half_up x, \<lceil>y\<rceil>))"

lemma award_both_le:
  assumes "award_both p xa ga r day oc = (p', oc')"
  shows "earned_xp oc' \<le> max 0 xa" "earned_gold oc' \<le> max 0 ga" "o_streak oc' = o_streak oc"
    "o_share oc' = o_share oc"
proof -
  obtain p1 applied n paid where x: "award_xp p xa r day = (p1, applied, n)"
    and g: "award_gold p1 ga r day = (p', paid)"
    and oc: "oc' = oc\<lparr>o_xp := Some applied, o_levels_gained := Some n, o_gold := Some paid\<rparr>"
    using award_both_cases [OF assms] by metis
  have "applied \<le> max 0 xa" using award_xp_frame(13) [OF x] by simp
  moreover have "paid \<le> max 0 ga" using award_gold_frame(2) [OF g] by simp
  ultimately show "earned_xp oc' \<le> max 0 xa" "earned_gold oc' \<le> max 0 ga" "o_streak oc' = o_streak oc"
    "o_share oc' = o_share oc"
    by (simp_all add: oc earned_xp_def earned_gold_def)
qed

lemma fsub_of_int:
  assumes "\<bar>a\<bar> \<le> 2 ^ 52" "\<bar>b\<bar> \<le> 2 ^ 52" shows "fsub (of_int a) (of_int b) = of_int (a - b)"
proof -
  have "b64 (of_int a) = of_int a" "b64 (of_int b) = of_int b" "b64 (of_int (a - b)) = of_int (a - b)"
    using assms by (intro b64_of_int; simp)+
  then show ?thesis by (simp add: fsub_def)
qed

lemma daily_check_amounts:
  assumes "apply_daily_check pf p payload r roll day bs = Inr (p', oc)"
    and "difficulty_mult pf (dict_get_or payload ''difficulty'' (JStr ''easy'')) r = Inr d"
    and "dict_get payload ''paid_xp'' = Some (JInt px)" "dict_get payload ''paid_gold'' = Some (JInt pg)"
    and "o_streak oc = Some streak" and "whole_check p d r roll streak bs = (xw, gw)"
  obtains share xf gf where "0 \<le> px" "0 \<le> pg"
    "award_both p (py_int (min (of_int xf) (max 0 (fsub (of_int xw) (b64 (of_int px))))))
       (min (of_int gf) (max 0 (fsub (of_int gw) (b64 (of_int pg))))) r day
       (no_outcome\<lparr>o_scored := Some True, o_crit := Some (crit_roll roll (effective_stat p StrStat bs) r > 1),
          o_share := Some share, o_streak := Some streak\<rparr>) = (p', oc)"
proof -
  obtain xb gb where base: "daily_base p d r (crit_roll roll (effective_stat p StrStat bs) r) streak bs = (xb, gb)"
    by (cases "daily_base p d r (crit_roll roll (effective_stat p StrStat bs) r) streak bs")
  have w: "xw = round_half_up xb" "gw = \<lceil>gb\<rceil>" using assms(6) base by (auto simp: whole_check_def)
  have nn: "nonnegative (JInt n) nm = Inr v \<Longrightarrow> 0 \<le> n \<and> v = b64 (of_int n)" for n nm v
    by (auto simp: nonnegative_def num_guard_eq finite_num_def num_val_def py_float_def split: if_splits)
  have get: "dict_get_or payload ''paid_xp'' (JInt 0) = JInt px"
    "dict_get_or payload ''paid_gold'' (JInt 0) = JInt pg"
    using assms(3,4) by (simp_all add: dict_get_def dict_get_or_def)
  from assms(1) obtain share0 st ps where
    st: "streak_days (dict_get_or payload ''streak'' (JInt 0)) = Inr st"
    and px: "0 \<le> px" and pg: "0 \<le> pg" and
    aw: "(let (xb', gb') = daily_base p d r (crit_roll roll (effective_stat p StrStat bs) r) st bs;
             share = min share0 (max 0 (fsub 1 ps))
         in award_both p (py_int (min (of_int (round_half_up (fmul xb' share)))
              (max 0 (fsub (of_int (round_half_up xb')) (b64 (of_int px))))))
            (min (of_int \<lceil>fmul gb' share\<rceil>) (max 0 (fsub (of_int \<lceil>gb'\<rceil>) (b64 (of_int pg))))) r day
            (no_outcome\<lparr>o_scored := Some True,
               o_crit := Some (crit_roll roll (effective_stat p StrStat bs) r > 1),
               o_share := Some share, o_streak := Some st\<rparr>)) = (p', oc)"
    unfolding apply_daily_check_def
    by (auto simp: assms(2) get Let_def split_beta dest!: nn)
  have "o_streak oc = Some st"
    using aw by (auto simp: Let_def split: prod.splits dest!: award_both_le(3))
  then have "st = streak" using assms(5) by simp
  with aw base w that [OF px pg] show ?thesis by (simp add: Let_def)
qed

text \<open>The fragments of a daily check never add up to more than the whole check: whatever share is
  claimed, what the day was paid before plus what this check pays is at most the larger of what
  was already paid and the whole-check reward under this check's roll and streak.\<close>

theorem daily_check_residual:
  assumes "apply_daily_check pf p payload r roll day bs = Inr (p', oc)"
    and "difficulty_mult pf (dict_get_or payload ''difficulty'' (JStr ''easy'')) r = Inr d"
    and "dict_get payload ''paid_xp'' = Some (JInt px)" "dict_get payload ''paid_gold'' = Some (JInt pg)"
    and "o_streak oc = Some streak" and "whole_check p d r roll streak bs = (xw, gw)"
    and "\<bar>xw\<bar> \<le> 2 ^ 52" "\<bar>gw\<bar> \<le> 2 ^ 52" "px \<le> 2 ^ 52" "pg \<le> 2 ^ 52"
  shows "px + earned_xp oc \<le> max px xw \<and> of_int pg + earned_gold oc \<le> of_int (max pg gw)"
proof -
  obtain share xf gf where nn: "0 \<le> px" "0 \<le> pg" and
    aw: "award_both p (py_int (min (of_int xf) (max 0 (fsub (of_int xw) (b64 (of_int px))))))
       (min (of_int gf) (max 0 (fsub (of_int gw) (b64 (of_int pg))))) r day
       (no_outcome\<lparr>o_scored := Some True, o_crit := Some (crit_roll roll (effective_stat p StrStat bs) r > 1),
          o_share := Some share, o_streak := Some streak\<rparr>) = (p', oc)"
    by (rule daily_check_amounts [OF assms(1-6)])
  have fs: "fsub (of_int xw) (b64 (of_int px)) = of_int (xw - px)"
    "fsub (of_int gw) (b64 (of_int pg)) = of_int (gw - pg)"
    using fsub_of_int [of xw px] fsub_of_int [of gw pg] nn assms(7-10) by (simp_all add: fsub_def)
  have "py_int (min (of_int xf) (max 0 (of_int (xw - px)))) \<le> py_int (of_int (max 0 (xw - px)))"
    by (rule py_int_mono) simp
  then have "py_int (min (of_int xf) (max 0 (of_int (xw - px)))) \<le> max 0 (xw - px)"
    by (simp only: py_int_of_int)
  with award_both_le(1) [OF aw] have x: "earned_xp oc \<le> max 0 (xw - px)" by (simp add: fs)
  have "earned_gold oc \<le> max 0 (of_int (gw - pg))"
    using award_both_le(2) [OF aw] by (simp add: fs)
  then have "earned_gold oc \<le> of_int (max 0 (gw - pg))" by simp
  then have "of_int pg + earned_gold oc \<le> of_int (pg + max 0 (gw - pg))" by simp
  also have "pg + max 0 (gw - pg) = max pg gw" by simp
  finally show ?thesis using x by auto
qed

subsection \<open>Levels\<close>

text \<open>C30: An XP award keeps exact books: the XP applied plus what the profile had equals what it keeps
  plus the thresholds of every level it passed, it stops below the next threshold, each level
  brings one stat point, and HP is refilled exactly when a level was gained.\<close>

theorem award_xp_books:
  assumes "award_xp p amount r today = (p', applied, n)" and "0 \<le> xp p"
  shows "0 \<le> n \<and> level p' = level p + n \<and> unspent_stat_points p' = unspent_stat_points p + n \<and>
    hp p' = (if n = 0 then hp p else max_hp p) \<and>
    xp p + applied = xp p' + curve_sum (level p) (nat n) r \<and>
    0 \<le> xp p' \<and> xp p' < xp_to_next_level (level p') r"
  using award_xp_spec [OF assms] by auto

lemma xp_to_next_level_mono_quad:
  assumes "6 \<le> lv" and "0 \<le> lvl_curve_quad_a r" and "0 \<le> lvl_curve_quad_b r" and "0 \<le> lvl_curve_round r"
  shows "xp_to_next_level lv r \<le> xp_to_next_level (lv + 1) r"
proof -
  define q where "q l = fadd (fadd (fmul (of_int (l ^ 2)) (lvl_curve_quad_a r))
    (fmul (of_int l) (lvl_curve_quad_b r))) (lvl_curve_quad_c r)" for l
  have "lv ^ 2 \<le> (lv + 1) ^ 2" using assms(1) by (intro power_mono) auto
  then have "q lv \<le> q (lv + 1)"
    unfolding q_def using assms by (intro fadd_mono fmul_mono) auto
  then have "fdiv (q lv) (lvl_curve_round r) \<le> fdiv (q (lv + 1)) (lvl_curve_round r)"
    unfolding fdiv_def using assms(4) by (intro b64_mono divide_right_mono) (auto simp: b64_nonneg)
  then have "round_even (fdiv (q lv) (lvl_curve_round r)) * py_int (lvl_curve_round r)
      \<le> round_even (fdiv (q (lv + 1)) (lvl_curve_round r)) * py_int (lvl_curve_round r)"
    using assms(4) by (intro mult_right_mono round_even_mono) (auto simp: py_int_nonneg)
  then show ?thesis using assms(1) by (simp add: xp_to_next_level_def q_def Let_def)
qed

lemma default_curve_early:
  "xp_to_next_level 1 default_rates = 25" "xp_to_next_level 2 default_rates = 50" "xp_to_next_level 3 default_rates = 75"
  "xp_to_next_level 4 default_rates = 100" "xp_to_next_level 5 default_rates = 150"
  by (simp add: xp_to_next_level_def default_rates_def, code_simp)+

lemma default_curve_6: "xp_to_next_level 6 default_rates = 210"
  by (simp add: xp_to_next_level_def default_rates_def Let_def) code_simp

lemma default_curve_start:
  "map (\<lambda>lv. xp_to_next_level lv default_rates) [1, 2, 3, 4, 5, 6] = [25, 50, 75, 100, 150, 210]"
  by (simp add: default_curve_early default_curve_6)

text \<open>With the default rates every level costs at least as much XP as the one before, through the
  three pieces of the curve and its rounding to tens.\<close>

theorem default_curve_monotone:
  assumes "1 \<le> lv"
  shows "xp_to_next_level lv default_rates \<le> xp_to_next_level (lv + 1) default_rates"
proof (cases "6 \<le> lv")
  case True
  then show ?thesis by (rule xp_to_next_level_mono_quad) (simp_all add: default_rates_def)
next
  case False
  then have "lv = 1 \<or> lv = 2 \<or> lv = 3 \<or> lv = 4 \<or> lv = 5" using assms by auto
  then show ?thesis using default_curve_start by auto
qed

subsection \<open>Habit clicks\<close>

text \<open>A habit click leaves the habit's value inside the configured band, in either direction,
  and moves it by the drift of the clamped value; a negative click never pays.\<close>

theorem habit_click_value:
  assumes "apply_habit_click pf p payload r roll g day bs = Inr (p', oc, g')"
    and "habit_value_min r \<le> habit_value_max r"
  shows "\<exists>v delta. o_new_value oc = Some v \<and> habit_value_min r \<le> v \<and> v \<le> habit_value_max r \<and>
    o_delta oc = Some delta \<and>
    (dict_get payload ''direction'' = Some (JStr ''negative'') \<longrightarrow>
       o_xp oc = None \<and> o_gold oc = None \<and> (\<exists>loss \<ge> 1. o_hp_lost oc = Some loss))"
proof -
  have band: "habit_value_min r \<le> clamp_habit_value v r \<and> clamp_habit_value v r \<le> habit_value_max r" for v
    using assms(2) by (simp add: clamp_habit_value_def)
  have keep: "o_new_value oc' = o_new_value oc0 \<and> o_delta oc' = o_delta oc0"
    if "award_both p xa ga r day oc0 = (q, oc')" for xa ga oc0 q oc'
    using that by (elim award_both_cases) simp
  have loss: "\<exists>l \<ge> 1. o_hp_lost oc = Some l" if "apply_hp_loss p a r g bs = (q, oc, h)" for a q oc h
    using that by (cases rule: apply_hp_loss_cases) auto
  show ?thesis
  proof (cases "dict_get payload ''direction'' = Some (JStr ''negative'')")
    case True
    with assms(1) obtain a v delta q oc0 h where h: "apply_hp_loss p a r g bs = (q, oc0, h)"
      and oc: "oc = oc0\<lparr>o_scored := Some True, o_delta := Some (- delta),
                 o_new_value := Some (clamp_habit_value v r)\<rparr>"
      by (auto simp: apply_habit_click_def Let_def)
    with band [of v] loss [OF h] apply_hp_loss_outcome [OF h] show ?thesis by simp
  next
    case False
    with assms(1) obtain xa ga v delta b q where h: "award_both p xa ga r day
        (no_outcome\<lparr>o_scored := Some True, o_crit := Some b, o_delta := Some delta,
           o_new_value := Some (clamp_habit_value v r)\<rparr>) = (q, oc)"
      by (auto simp: apply_habit_click_def Let_def split: if_splits)
    with False band [of v] keep [OF h] show ?thesis by simp
  qed
qed

text \<open>C25: scoring keeps every profile sound: level at least 1, HP positive and at most the maximum, XP,
  gold, stats, unspent points and the day's counters nonnegative, whatever event, payload, roll,
  gear bonus and rates come in.\<close>

theorem scoring_keeps_profile:
  assumes "apply_event pf u p t payload r roll g today bs = Inr (p', oc, g')" and "profile_ok p"
  shows "profile_ok p'"
  using apply_event_ok [OF assms] .

text \<open>The economy row of \<open>game_config\<close> always yields rates scoring can use (positive divisors, a
  level-curve bucket of at least 1, every default difficulty present and positive), except that
  an integer too large for a float under a known key makes the overlay raise \<open>OverflowError\<close>.\<close>

theorem economy_row_safe:
  "(case from_dict row of
      Inr r \<Rightarrow> rates_ok r
    | Inl e \<Rightarrow> e = OverflowError \<and> (\<exists>items. row = JObj items \<and> (\<exists>kv \<in> set items. has_huge kv)))"
  using from_dict_rates_ok [of row]
  by (auto simp: from_dict_def override_all_raises split: sum.splits json.splits)

end
