(* ===== verification/EngineWitnesses.thy ===== *)
theory EngineWitnesses
  imports EngineLaws
begin

text \<open>
  Concrete inputs at which the properties of the scoring engine apply: a fresh profile scored
  with the default rates, the crits switched off and a whole coin per minute, so that every float
  of the computation is an integer the simplifier evaluates. \<open>sample_platform\<close> instantiates the
  platform parameters.
\<close>

definition sample_rates :: game_rates where
  "sample_rates = default_rates\<lparr>gold_per_minute := 1, crit_base_chance := 0\<rparr>"

definition sample_platform :: platform where
  "sample_platform = \<lparr>pow_fn = (\<lambda>b v. Inr (b64 (b powi \<lfloor>v\<rfloor>))), repr_fn = (\<lambda>_. ''?'')\<rparr>"

definition sample_rng :: rng where
  "sample_rng = \<lparr>rng_roll = (\<lambda>_. 1), rng_pick = (\<lambda>n. n), rng_pos = 0\<rparr>"

abbreviation no_gear :: bonus where "no_gear \<equiv> Map.empty"

subsection \<open>Evaluation\<close>

lemma fops_0 [simp]: "fmul x 0 = 0" "fmul 0 x = 0" "fdiv 0 x = 0" "fsub x 0 = b64 x"
  by (simp_all add: fops)

lemma new_profile_fields [simp]:
  "level new_profile = 1" "xp new_profile = 0" "hp new_profile = 50" "max_hp new_profile = 50"
  "gold new_profile = 0" "str_stat new_profile = 0" "int_stat new_profile = 0" "con_stat new_profile = 0"
  "per_stat new_profile = 0" "unspent_stat_points new_profile = 0" "totals_day new_profile = None"
  "xp_today new_profile = 0" "gold_today new_profile = 0"
  by (simp_all add: new_profile_def)

lemma sample_rates_fields [simp]:
  "xp_per_minute sample_rates = 1" "gold_per_minute sample_rates = 1" "habit_xp_factor sample_rates = 6"
  "daily_xp_cap sample_rates = 500" "daily_gold_cap sample_rates = 150" "hp_loss_base sample_rates = 2"
  "difficulty sample_rates ''easy'' = Some 1" "con_shield_divisor sample_rates = 250"
  "con_shield_floor sample_rates = b64 (1 / 10)" "habit_drift_base sample_rates = b64 (9747 / 10000)"
  "habit_value_min sample_rates = b64 (- 4727 / 100)" "habit_value_max sample_rates = b64 (2127 / 100)"
  by (simp_all add: sample_rates_def default_rates_def default_difficulty_def)

lemma sample_crit [simp]: "crit_roll 1 0 sample_rates = 1"
  by (simp add: crit_roll_def sample_rates_def Let_def)

lemma sample_curve [simp]: "xp_to_next_level 1 sample_rates = 25" "xp_to_next_level 2 sample_rates = 50"
  by (simp_all add: xp_to_next_level_def sample_rates_def default_rates_def fmul_def py_int_def)

lemma effective_new [simp]: "effective_stat new_profile s no_gear = 0"
  by (cases s) (simp_all add: effective_stat_def stat_key_def)

lemma easy_default [simp]:
  "dict_get_or [] ''difficulty'' (JStr ''easy'') = JStr ''easy''"
  "difficulty_mult sample_platform (JStr ''easy'') sample_rates = Inr 1"
  by (simp_all add: dict_get_or_def difficulty_mult_def)

lemma finite_positive_int: "0 < n \<Longrightarrow> n \<le> 1000000 \<Longrightarrow> finite_positive (JInt n) nm = Inr (of_int n)"
proof -
  assume n: "0 < n" "n \<le> 1000000"
  then have "rat_of_int n \<le> of_int 1000000" by (simp only: of_int_le_iff)
  moreover have "b64 (of_int n) = of_int n" using n by (intro b64_of_int) simp
  ultimately show ?thesis using n
    by (simp add: finite_positive_def is_num_def num_le_def num_gt_def num_val_def isfinite_def
        float_overflow_def py_float_def)
qed

lemma round_half_up_of_int:
  assumes "\<bar>n\<bar> \<le> 2 ^ 50" shows "round_half_up (of_int n) = n"
proof -
  have e: "b64 (of_int (2 * n + 1) / 2 ^ 1) = of_int (2 * n + 1) / 2 ^ 1"
    using assms by (intro b64_dyadic) auto
  have h: "b64 (1 / 2) = 1 / 2" using b64_dyadic [of 1 1] by simp
  have i: "b64 (of_int n) = of_int n" using assms by (intro b64_of_int) simp
  have "fadd (of_int n) (1 / 2) = of_int n + 1 / 2"
    unfolding fadd_def h i using e by (simp add: add_divide_distrib)
  then show ?thesis by (simp add: round_half_up_def floor_eq_iff)
qed

lemma round_half_up_numeral [simp]:
  "(numeral k :: int) \<le> 1125899906842624 \<Longrightarrow> round_half_up (numeral k) = numeral k"
  using round_half_up_of_int [of "numeral k"] by simp

lemma floor_shield [simp]: "max (b64 (1 / 10)) 1 = 1"
  using dbl.rnd_le_int [of 1 "1 / 10"] by simp

lemma sample_award:
  "award_xp new_profile 30 sample_rates 0 =
     (new_profile\<lparr>level := 2, xp := 5, unspent_stat_points := 1, xp_today := 30, totals_day := Some 0\<rparr>, 30, 1)"
  by (simp add: award_xp_def sync_today_def Let_def level_up.simps)

abbreviation after_focus :: profile where
  "after_focus \<equiv> new_profile\<lparr>level := 2, xp := 5, unspent_stat_points := 1, gold := 30, xp_today := 30,
     gold_today := 30, totals_day := Some 0\<rparr>"

abbreviation focus_outcome :: outcome where
  "focus_outcome \<equiv> no_outcome\<lparr>o_scored := Some True, o_crit := Some False, o_xp := Some 30,
     o_levels_gained := Some 1, o_gold := Some 30\<rparr>"

definition sample_event :: "string \<Rightarrow> dict \<Rightarrow> (profile \<times> outcome \<times> rng) result" where
  "sample_event t payload = apply_event sample_platform 0 new_profile t payload sample_rates 1 sample_rng
     (Some 0) no_gear"

lemma sample_focus:
  "sample_event ''focus_phase_completed'' [(''minutes'', JInt 30)] =
     Inr (after_focus, focus_outcome, sample_rng)"
proof -
  have "focus_payout sample_platform new_profile 30 [(''minutes'', JInt 30)] sample_rates 1 no_gear =
      Inr (30, 30, 1)"
    by (simp add: focus_payout_def dict_get_or_def Let_def fmul_def)
  moreover have "award_both new_profile 30 30 sample_rates 0 oc =
      (after_focus, oc\<lparr>o_xp := Some 30, o_levels_gained := Some 1, o_gold := Some 30\<rparr>)" for oc
    by (simp add: award_both_def sample_award award_gold_def sync_today_def)
  ultimately show ?thesis
    by (simp add: sample_event_def apply_event_def keep_rng_def apply_focus_phase_def
        finite_positive_int dict_get_or_def)
qed

subsection \<open>Witnesses\<close>

theorem award_xp_books_witness:
  "30 = 5 + curve_sum 1 1 sample_rates \<and> 5 < xp_to_next_level 2 sample_rates"
  using award_xp_books [OF sample_award] by simp

theorem scoring_keeps_profile_witness:
  "sample_event ''focus_phase_completed'' [(''minutes'', JInt 30)] = Inr (after_focus, focus_outcome, sample_rng)
     \<and> profile_ok after_focus"
  using sample_focus scoring_keeps_profile [OF sample_focus [unfolded sample_event_def] new_profile_ok] by blast

lemma sample_run:
  "score_run sample_platform sample_rates 0
     [(''focus_phase_completed'', [(''minutes'', JInt 30)], 1, no_gear),
      (''focus_phase_completed'', [(''minutes'', JStr ''x'')], 1, no_gear)]
     (new_profile, sample_rng) = ((after_focus, sample_rng), [focus_outcome])"
proof -
  have "apply_event sample_platform 0 p ''focus_phase_completed'' [(''minutes'', JStr ''x'')] r roll g d bs =
      Inl (ValueError ''focus_phase_completed minutes must be a finite number in (0, 1e6]'')" for p r roll g d bs
    by (simp add: apply_event_def keep_rng_def apply_focus_phase_def dict_get_or_def finite_positive_def is_num_def)
  then show ?thesis using sample_focus [unfolded sample_event_def] by simp
qed

theorem day_xp_capped_witness: "sum_list (map earned_xp [focus_outcome]) \<le> 500"
  using day_xp_capped [OF sample_run] by simp

theorem day_gold_capped_witness: "foldl fadd 0 (map earned_gold [focus_outcome]) \<le> 150"
  using day_gold_capped [OF sample_run new_profile_ok] even_significand_150 by simp

lemma sample_overflow:
  "sample_event ''daily_check'' [(''share'', JInt (2 ^ 1024))] = Inl OverflowError"
proof -
  have "num_guard (JInt (2 ^ 1024)) = Inl OverflowError"
    by (simp add: num_guard_def is_num_def isfinite_def float_overflow_def)
  then show ?thesis
    by (simp add: sample_event_def apply_event_def apply_daily_check_def fraction_def keep_rng_def
        dict_get_or_def)
qed

theorem apply_event_errors_witness: "daily_huge [(''share'', JInt (2 ^ 1024))]"
  using apply_event_errors [OF sample_overflow [unfolded sample_event_def]] by simp

lemma sample_damage:
  "\<exists>p' oc. sample_event ''damage'' [(''amount'', JInt 60)] = Inr (p', oc, sample_rng) \<and>
     o_hp_lost oc = Some 60 \<and> o_died oc = Some True"
  by (simp add: sample_event_def apply_event_def apply_damage_def dict_get_def finite_positive_int
      apply_hp_loss_def Let_def death_def stat_columns_def get_stat_def fsub_def fmul_def)

theorem penalties_only_take_witness:
  "\<exists>p' oc. sample_event ''damage'' [(''amount'', JInt 60)] = Inr (p', oc, sample_rng) \<and> o_xp oc = None \<and>
     level p' = 1 \<and> hp p' = 50"
proof -
  obtain p' oc where e: "sample_event ''damage'' [(''amount'', JInt 60)] = Inr (p', oc, sample_rng)"
    "o_died oc = Some True" using sample_damage by blast
  from penalties_only_take [OF e(1) [unfolded sample_event_def] _ new_profile_ok] e show ?thesis
    by (auto simp: penalty_types_def)
qed

theorem shield_monotone_witness:
  "\<exists>p1 oc1 g1 p2 oc2 g2. apply_hp_loss new_profile 10 sample_rates sample_rng no_gear = (p1, oc1, g1) \<and>
     apply_hp_loss new_profile 10 sample_rates sample_rng [''con'' \<mapsto> 50] = (p2, oc2, g2) \<and>
     the (o_hp_lost oc2) \<le> the (o_hp_lost oc1)"
proof -
  obtain p1 oc1 g1 where a: "apply_hp_loss new_profile 10 sample_rates sample_rng no_gear = (p1, oc1, g1)"
    by (metis prod_cases3)
  obtain p2 oc2 g2 where b: "apply_hp_loss new_profile 10 sample_rates sample_rng [''con'' \<mapsto> 50] = (p2, oc2, g2)"
    by (metis prod_cases3)
  have "the (o_hp_lost oc2) \<le> the (o_hp_lost oc1)"
    by (rule shield_monotone [OF _ _ _ _ a b]) (simp_all add: effective_stat_def stat_key_def b64_nonneg)
  then show ?thesis using a b by blast
qed

theorem default_curve_monotone_witness:
  "xp_to_next_level 5 default_rates = 150 \<and> xp_to_next_level 6 default_rates = 210 \<and>
   xp_to_next_level 5 default_rates \<le> xp_to_next_level (5 + 1) default_rates"
  using default_curve_start default_curve_monotone [of 5] by simp

text \<open>A second check of the same day: half the share was paid, the rest is what is left.\<close>

abbreviation check_payload :: dict where
  "check_payload \<equiv> [(''share'', JInt 1), (''streak'', JInt 0), (''paid_share'', JInt 1), (''paid_xp'', JInt 6),
     (''paid_gold'', JInt 1)]"

lemma sample_whole: "whole_check new_profile 1 sample_rates 1 0 no_gear = (6, 1)"
  by (simp add: whole_check_def daily_base_def fmul_def)

lemma sample_check:
  "\<exists>p' oc. apply_daily_check sample_platform new_profile check_payload sample_rates 1 0 no_gear = Inr (p', oc) \<and>
     o_streak oc = Some 0"
  by (simp add: apply_daily_check_def fraction_def nonnegative_def num_guard_def is_num_def isfinite_def
      float_overflow_def num_le_def num_gt_def num_val_def streak_days_def dict_get_or_def Let_def
      difficulty_mult_def award_both_def split_beta)

theorem daily_check_residual_witness:
  "\<exists>p' oc. apply_daily_check sample_platform new_profile check_payload sample_rates 1 0 no_gear = Inr (p', oc) \<and>
     6 + earned_xp oc \<le> 6 \<and> 1 + earned_gold oc \<le> 1"
proof -
  obtain p' oc where e: "apply_daily_check sample_platform new_profile check_payload sample_rates 1 0 no_gear = Inr (p', oc)"
    "o_streak oc = Some 0" using sample_check by blast
  have "6 + earned_xp oc \<le> max 6 6 \<and> of_int 1 + earned_gold oc \<le> of_int (max 1 1)"
    by (rule daily_check_residual [OF e(1) _ _ _ e(2) sample_whole])
      (simp_all add: dict_get_or_def difficulty_mult_def dict_get_def)
  then show ?thesis using e by auto
qed

text \<open>A neutral habit click: \<open>pow(b, 0) = 1\<close>.\<close>

lemma sample_click:
  "\<exists>p' oc g'. apply_habit_click sample_platform new_profile
     [(''direction'', JStr ''negative''), (''value'', JFloat 0)] sample_rates 1 sample_rng 0 no_gear = Inr (p', oc, g')"
  by (simp add: apply_habit_click_def habit_delta_def sample_platform_def [THEN arg_cong [of _ _ pow_fn]] dict_get_def
      click_value_def is_num_def num_abs_gt_def num_val_def isfinite_def dict_get_or_def difficulty_mult_def Let_def split_beta)

theorem habit_click_value_witness:
  "\<exists>p' oc g'. apply_habit_click sample_platform new_profile
     [(''direction'', JStr ''negative''), (''value'', JFloat 0)] sample_rates 1 sample_rng 0 no_gear = Inr (p', oc, g') \<and>
     o_xp oc = None \<and> (\<exists>loss \<ge> 1. o_hp_lost oc = Some loss)"
proof -
  obtain p' oc g' where e: "apply_habit_click sample_platform new_profile
     [(''direction'', JStr ''negative''), (''value'', JFloat 0)] sample_rates 1 sample_rng 0 no_gear = Inr (p', oc, g')"
    using sample_click by blast
  have "habit_value_min sample_rates \<le> habit_value_max sample_rates"
    by (simp add: b64_mono)
  from habit_click_value [OF e this] e show ?thesis by (auto simp: dict_get_def)
qed

end
