(* ===== verification/SessionEngine.thy ===== *)
theory SessionEngine
  imports PyJson PyTime
begin

text \<open>
  The wall-clock state machine of focus sessions, \<open>app/game/session_engine.py\<close>: the session and
  phase rows, \<open>evaluate\<close>, which replays every transition the clock has passed, and the verbs
  \<open>pause\<close>, \<open>resume\<close>, \<open>advance\<close>, \<open>stop\<close> and \<open>finish\<close> (\<open>done\<close> in the code, a word Isabelle
  reserves). The rows the code mutates through references are list elements updated by index;
  a verb returns the new session, the new phases and the transition steps, or the
  \<open>ValueError\<close> it raises before its first write.
\<close>

subsection \<open>Rows\<close>

definition GRACE_SECONDS :: int where "GRACE_SECONDS = 300"
definition MAX_MILESTONES :: int where "MAX_MILESTONES = 100"
definition MIN_RECORD_SECONDS :: int where "MIN_RECORD_SECONDS = 60"

datatype phase_status = PENDING | ACTIVE | PAUSED | COMPLETED | SKIPPED | ABANDONED
datatype session_status = S_ACTIVE | S_ENDED | S_ABANDONED
datatype phase_kind = FOCUS | BREAK | STOPWATCH | SPEEDRUN

record phase =
  ph_seq :: int
  ph_kind :: phase_kind
  ph_status :: phase_status
  planned_seconds :: int
  actual_seconds :: "int option"
  pause_count :: int
  paused_seconds :: int
  pause_started_at :: "datetime option"
  ph_started_at :: "datetime option"
  ph_ended_at :: "datetime option"

record session =
  s_id :: int
  s_user :: int
  s_task_id :: "int option"
  s_mode :: string
  s_status :: session_status
  activity_label :: "string option"
  preset :: "dict option"
  pause_budget_count :: int
  pause_budget_seconds :: int
  speedrun :: json
  s_started_at :: datetime
  s_ended_at :: "datetime option"

record step =
  st_kind :: string
  st_seq :: "int option"
  st_at :: datetime
  st_actual :: "int option"
  st_scored :: bool
  st_reason :: "string option"
  st_extra :: dict

text \<open>\<open>Step(kind, phase_seq=..., at=...)\<close> with the dataclass defaults.\<close>

definition Step :: "string \<Rightarrow> int option \<Rightarrow> datetime \<Rightarrow> step" where
  "Step k seq ts = \<lparr>st_kind = k, st_seq = seq, st_at = ts, st_actual = None, st_scored = False,
     st_reason = None, st_extra = []\<rparr>"

type_synonym verb_result = "(session \<times> phase list \<times> step list) result"

subsection \<open>Helpers\<close>

definition is_live :: "phase \<Rightarrow> bool" where
  "is_live p \<longleftrightarrow> ph_status p = ACTIVE \<or> ph_status p = PAUSED"

definition live_phase :: "phase list \<Rightarrow> nat option" where
  "live_phase phases = find_idx is_live phases"

definition next_pending :: "phase list \<Rightarrow> nat option" where
  "next_pending phases = find_idx (\<lambda>p. ph_status p = PENDING) phases"

definition completed_focus_count :: "phase list \<Rightarrow> nat" where
  "completed_focus_count phases = length (filter (\<lambda>p. ph_kind p = FOCUS \<and> ph_status p = COMPLETED) phases)"

text \<open>\<open>_aware(x) or now\<close>: the anchor of a row, or the clock when it has none.\<close>

definition or_now :: "datetime option \<Rightarrow> datetime \<Rightarrow> datetime" where
  "or_now t now = (case t of Some x \<Rightarrow> x | None \<Rightarrow> now)"

definition phase_end :: "phase \<Rightarrow> datetime \<Rightarrow> datetime" where
  "phase_end p now = or_now (ph_started_at p) now + seconds (planned_seconds p + paused_seconds p)"

definition skip_pending :: "phase list \<Rightarrow> datetime \<Rightarrow> phase list \<times> step list" where
  "skip_pending phases ts =
     (map (\<lambda>p. if ph_status p = PENDING then p\<lparr>ph_status := SKIPPED, ph_ended_at := Some ts\<rparr> else p) phases,
      map (\<lambda>p. Step ''phase_skipped'' (Some (ph_seq p)) ts) (filter (\<lambda>p. ph_status p = PENDING) phases))"

definition resolve_no_live ::
  "session \<Rightarrow> phase list \<Rightarrow> datetime \<Rightarrow> datetime \<Rightarrow> session \<times> phase list \<times> step list" where
  "resolve_no_live s phases last_end now =
     (if next_pending phases = None then
        (s\<lparr>s_status := S_ENDED, s_ended_at := Some last_end\<rparr>, phases,
         [Step ''session_ended'' None last_end])
      else if now < last_end + seconds GRACE_SECONDS then (s, phases, [])
      else
        let ts = last_end + seconds GRACE_SECONDS;
            (phases', skipped) = skip_pending phases ts
        in if completed_focus_count phases' = 0 then
             (s\<lparr>s_status := S_ABANDONED, s_ended_at := Some ts\<rparr>, phases',
              skipped @ [(Step ''session_abandoned'' None ts)\<lparr>st_reason := Some ''absence_grace''\<rparr>])
           else
             (s\<lparr>s_status := S_ENDED, s_ended_at := Some ts\<rparr>, phases',
              skipped @ [Step ''session_ended'' None ts]))"

definition check_pause_overflow ::
  "session \<Rightarrow> nat \<Rightarrow> phase list \<Rightarrow> datetime \<Rightarrow> session \<times> phase list \<times> step list" where
  "check_pause_overflow s i phases now =
     (let cur = phases ! i;
          banked = paused_seconds cur;
          pause_start = or_now (pause_started_at cur) now;
          extra = whole_seconds (now - pause_start)
      in if banked + extra \<le> pause_budget_seconds s then (s, phases, [])
         else
           let crossed_at = pause_start + seconds (pause_budget_seconds s - banked);
               cur' = cur\<lparr>ph_status := ABANDONED, ph_ended_at := Some crossed_at,
                          paused_seconds := banked + extra, pause_started_at := None\<rparr>;
               (phases', skipped) = skip_pending (phases[i := cur']) crossed_at
           in (s\<lparr>s_status := S_ABANDONED, s_ended_at := Some crossed_at\<rparr>, phases',
               skipped @ [(Step ''session_abandoned'' (Some (ph_seq cur)) crossed_at)
                            \<lparr>st_reason := Some ''pause_overflow''\<rparr>]))"

definition complete_phase ::
  "phase list \<Rightarrow> nat \<Rightarrow> datetime \<Rightarrow> bool \<Rightarrow> bool \<Rightarrow> phase list \<times> step list" where
  "complete_phase phases i ts auto_breaks auto_focus =
     (let cur = phases ! i;
          completed = (Step ''phase_completed'' (Some (ph_seq cur)) ts)
            \<lparr>st_actual := Some (planned_seconds cur), st_scored := (ph_kind cur = FOCUS)\<rparr>;
          phases' = phases[i := cur\<lparr>ph_status := COMPLETED,
                                   actual_seconds := Some (planned_seconds cur), ph_ended_at := Some ts\<rparr>]
      in case next_pending phases' of
           None \<Rightarrow> (phases', [completed])
         | Some j \<Rightarrow>
             let nxt = phases' ! j in
             if (if ph_kind nxt = BREAK then auto_breaks else auto_focus)
             then (phases'[j := nxt\<lparr>ph_status := ACTIVE, ph_started_at := Some ts\<rparr>],
                   [completed, Step ''phase_started'' (Some (ph_seq nxt)) ts])
             else (phases', [completed]))"

definition blob :: "session \<Rightarrow> dict" where
  "blob s = (case speedrun s of JObj d \<Rightarrow> d | _ \<Rightarrow> [])"

text \<open>\<open>str(blob.get("type"))\<close> equals one of the two names only for that very string.\<close>

definition speedrun_type :: "session \<Rightarrow> phase \<Rightarrow> string" where
  "speedrun_type s p =
     (if dict_get (blob s) ''type'' = Some (JStr ''time_boxed'') then ''time_boxed''
      else if dict_get (blob s) ''type'' = Some (JStr ''beat_best'') then ''beat_best''
      else if planned_seconds p > 0 then ''time_boxed'' else ''beat_best'')"

definition speedrun_result :: "session \<Rightarrow> string \<Rightarrow> int \<Rightarrow> dict \<Rightarrow> session" where
  "speedrun_result s outcome elapsed extra =
     s\<lparr>speedrun := JObj (dict_merge (blob s)
        ([(''result'', JStr outcome), (''elapsed_seconds'', JInt elapsed)] @ extra))\<rparr>"

definition bank_open_pause :: "phase \<Rightarrow> datetime \<Rightarrow> phase" where
  "bank_open_pause p now =
     (case pause_started_at p of
        Some t \<Rightarrow> if ph_status p = PAUSED
          then p\<lparr>paused_seconds := paused_seconds p + whole_seconds (now - t), pause_started_at := None\<rparr>
          else p
      | None \<Rightarrow> p)"

definition check_speedrun_deadline ::
  "session \<Rightarrow> nat \<Rightarrow> phase list \<Rightarrow> datetime \<Rightarrow> (session \<times> phase list \<times> step list) option" where
  "check_speedrun_deadline s i phases now =
     (let cur = phases ! i;
          started = or_now (ph_started_at cur) now;
          deadline = started + seconds (planned_seconds cur)
      in if speedrun_type s cur \<noteq> ''time_boxed'' then None
         else if now < deadline then None
         else
           let cur' = (bank_open_pause cur deadline)\<lparr>ph_status := ABANDONED, ph_ended_at := Some deadline\<rparr>;
               s' = speedrun_result (s\<lparr>s_status := S_ABANDONED, s_ended_at := Some deadline\<rparr>)
                      ''miss'' (planned_seconds cur) [(''reason'', JStr ''timeout'')];
               (phases', skipped) = skip_pending (phases[i := cur']) deadline
           in Some (s', phases', skipped @
                [Step ''phase_abandoned'' (Some (ph_seq cur)) deadline,
                 (Step ''speedrun_failed'' (Some (ph_seq cur)) deadline)\<lparr>st_scored := True,
                    st_reason := Some ''timeout'',
                    st_extra := [(''speedrun_type'', JStr ''time_boxed''),
                                 (''elapsed_seconds'', JInt (planned_seconds cur))]\<rparr>]))"

subsection \<open>The evaluation loop\<close>

definition preset_flag :: "session \<Rightarrow> string \<Rightarrow> bool \<Rightarrow> bool" where
  "preset_flag s k def = truthy (dict_get_or (case preset s of Some d \<Rightarrow> d | None \<Rightarrow> []) k (JBool def))"

definition unfinished :: "phase \<Rightarrow> bool" where
  "unfinished p \<longleftrightarrow> ph_status p = PENDING \<or> is_live p"

definition open_phases :: "phase list \<Rightarrow> nat" where
  "open_phases phases = length (filter unfinished phases)"

lemma filter_update_finish:
  "i < length xs \<Longrightarrow> P (xs ! i) \<Longrightarrow> \<not> P y \<Longrightarrow> Suc (length (filter P (xs[i := y]))) = length (filter P xs)"
proof (induction xs arbitrary: i)
  case Nil
  then show ?case by simp
next
  case (Cons x xs)
  then show ?case by (cases i) auto
qed

lemma filter_update_keep:
  "i < length xs \<Longrightarrow> P (xs ! i) \<Longrightarrow> P y \<Longrightarrow> length (filter P (xs[i := y])) = length (filter P xs)"
proof (induction xs arbitrary: i)
  case Nil
  then show ?case by simp
next
  case (Cons x xs)
  then show ?case by (cases i) auto
qed

lemma complete_phase_open:
  assumes "i < length phases" "is_live (phases ! i)"
  shows "open_phases (fst (complete_phase phases i ts ab af)) < open_phases phases"
proof -
  let ?c = "phases ! i"
  let ?q = "phases[i := ?c\<lparr>ph_status := COMPLETED, actual_seconds := Some (planned_seconds ?c),
      ph_ended_at := Some ts\<rparr>]"
  have q: "Suc (open_phases ?q) = open_phases phases"
    unfolding open_phases_def using assms
    by (intro filter_update_finish) (auto simp: unfinished_def is_live_def)
  show ?thesis
  proof (cases "next_pending ?q")
    case None
    then show ?thesis using q by (simp add: complete_phase_def Let_def)
  next
    case (Some j)
    note j = find_idx_SomeD [OF Some [unfolded next_pending_def]]
    have "open_phases (?q[j := (?q ! j)\<lparr>ph_status := ACTIVE, ph_started_at := Some ts\<rparr>]) = open_phases ?q"
      unfolding open_phases_def using j
      by (intro filter_update_keep) (auto simp: unfinished_def is_live_def)
    then show ?thesis using Some q by (simp add: complete_phase_def Let_def)
  qed
qed

text \<open>The \<open>while True\<close> of \<open>evaluate\<close>; every turn that loops closes a phase.\<close>

function eval_loop ::
  "bool \<Rightarrow> bool \<Rightarrow> datetime \<Rightarrow> session \<Rightarrow> phase list \<Rightarrow> datetime \<Rightarrow> step list
     \<Rightarrow> session \<times> phase list \<times> step list" where
  "eval_loop auto_breaks auto_focus now s phases last_end steps =
     (case live_phase phases of
        None \<Rightarrow>
          let (s', phases', more) = resolve_no_live s phases last_end now
          in (s', phases', steps @ more)
      | Some i \<Rightarrow>
          let cur = phases ! i in
          if ph_kind cur = STOPWATCH then (s, phases, steps)
          else if ph_kind cur = SPEEDRUN then
            (case check_speedrun_deadline s i phases now of
               Some (s', phases', failed) \<Rightarrow> (s', phases', steps @ failed)
             | None \<Rightarrow> (s, phases, steps))
          else if ph_status cur = PAUSED then
            let (s', phases', more) = check_pause_overflow s i phases now
            in (s', phases', steps @ more)
          else if now < phase_end cur now then (s, phases, steps)
          else
            eval_loop auto_breaks auto_focus now s
              (fst (complete_phase phases i (phase_end cur now) auto_breaks auto_focus))
              (phase_end cur now)
              (steps @ snd (complete_phase phases i (phase_end cur now) auto_breaks auto_focus)))"
  by pat_completeness auto
termination
proof (relation "measure (\<lambda>(ab, af, now, s, phases, le, st). open_phases phases)", goal_cases)
  case (2 ab af now s phases last_end steps i cur)
  then show ?case
    using complete_phase_open [of i phases] find_idx_SomeD [of is_live phases i]
    by (simp add: live_phase_def)
qed simp

declare eval_loop.simps [simp del]

definition last_end_of :: "session \<Rightarrow> phase list \<Rightarrow> datetime" where
  "last_end_of s phases =
     (case List.map_filter ph_ended_at phases of [] \<Rightarrow> s_started_at s | e # es \<Rightarrow> fold max es e)"

definition evaluate :: "session \<Rightarrow> phase list \<Rightarrow> datetime \<Rightarrow> session \<times> phase list \<times> step list" where
  "evaluate s phases now =
     (if s_status s \<noteq> S_ACTIVE then (s, phases, [])
      else eval_loop (preset_flag s ''auto_start_breaks'' True) (preset_flag s ''auto_start_focus'' False)
             now s phases (last_end_of s phases) [])"

subsection \<open>The verbs\<close>

definition pause :: "session \<Rightarrow> phase list \<Rightarrow> datetime \<Rightarrow> verb_result" where
  "pause s phases now =
     (case live_phase phases of
        None \<Rightarrow> Inl (ValueError ''no running phase to pause'')
      | Some i \<Rightarrow>
          let p = phases ! i in
          if ph_status p \<noteq> ACTIVE then Inl (ValueError ''no running phase to pause'')
          else if ph_kind p = BREAK then Inl (ValueError ''breaks cannot be paused'')
          else if ph_kind p = STOPWATCH \<or> ph_kind p = SPEEDRUN \<or> pause_count p + 1 \<le> pause_budget_count s then
            Inr (s, phases[i := p\<lparr>pause_count := pause_count p + 1, pause_started_at := Some now,
                                  ph_status := PAUSED\<rparr>],
                 [(Step ''phase_paused'' (Some (ph_seq p)) now)
                    \<lparr>st_extra := [(''n'', JInt (pause_count p + 1))]\<rparr>])
          else
            let (phases', skipped) = skip_pending
                  (phases[i := p\<lparr>ph_status := ABANDONED, ph_ended_at := Some now,
                                 pause_started_at := None\<rparr>]) now
            in Inr (s\<lparr>s_status := S_ABANDONED, s_ended_at := Some now\<rparr>, phases',
                 skipped @ [(Step ''session_abandoned'' (Some (ph_seq p)) now)
                              \<lparr>st_reason := Some ''pause_overflow''\<rparr>]))"

definition resume :: "session \<Rightarrow> phase list \<Rightarrow> datetime \<Rightarrow> verb_result" where
  "resume s phases now =
     (case live_phase phases of
        None \<Rightarrow> Inl (ValueError ''no paused phase to resume'')
      | Some i \<Rightarrow>
          let p = phases ! i in
          if ph_status p \<noteq> PAUSED then Inl (ValueError ''no paused phase to resume'')
          else
            let extra = whole_seconds (now - or_now (pause_started_at p) now) in
            if ph_kind p = FOCUS \<and> paused_seconds p + extra > pause_budget_seconds s then
              let (phases', skipped) = skip_pending
                    (phases[i := p\<lparr>ph_status := ABANDONED, ph_ended_at := Some now,
                                   paused_seconds := paused_seconds p + extra, pause_started_at := None\<rparr>]) now
              in Inr (s\<lparr>s_status := S_ABANDONED, s_ended_at := Some now\<rparr>, phases',
                   skipped @ [(Step ''session_abandoned'' (Some (ph_seq p)) now)
                                \<lparr>st_reason := Some ''pause_overflow''\<rparr>])
            else
              Inr (s, phases[i := p\<lparr>paused_seconds := paused_seconds p + extra,
                                    pause_started_at := None, ph_status := ACTIVE\<rparr>],
                   [(Step ''phase_resumed'' (Some (ph_seq p)) now)
                      \<lparr>st_extra := [(''n'', JInt (pause_count p))]\<rparr>]))"

definition start_phase :: "phase list \<Rightarrow> nat \<Rightarrow> datetime \<Rightarrow> phase list" where
  "start_phase phases j now = phases[j := (phases ! j)\<lparr>ph_status := ACTIVE, ph_started_at := Some now\<rparr>]"

definition advance :: "session \<Rightarrow> phase list \<Rightarrow> datetime \<Rightarrow> verb_result" where
  "advance s phases now =
     (case live_phase phases of
        Some i \<Rightarrow>
          let live = phases ! i in
          if ph_kind live = BREAK \<and> ph_status live = ACTIVE then
            let phases1 = phases[i := live\<lparr>ph_status := SKIPPED, ph_ended_at := Some now\<rparr>];
                skip = Step ''phase_skipped'' (Some (ph_seq live)) now
            in (case next_pending phases1 of
                  Some j \<Rightarrow> Inr (s, start_phase phases1 j now,
                    [skip, Step ''phase_started'' (Some (ph_seq (phases1 ! j))) now])
                | None \<Rightarrow> Inr (s\<lparr>s_status := S_ENDED, s_ended_at := Some now\<rparr>, phases1,
                    [skip, Step ''session_ended'' None now]))
          else Inl (ValueError ''a phase is still running'')
      | None \<Rightarrow>
          (case next_pending phases of
             None \<Rightarrow> Inl (ValueError ''no pending phase'')
           | Some j \<Rightarrow> Inr (s, start_phase phases j now,
               [Step ''phase_started'' (Some (ph_seq (phases ! j))) now])))"

definition abandon_speedrun ::
  "session \<Rightarrow> nat \<Rightarrow> phase list \<Rightarrow> datetime \<Rightarrow> int \<Rightarrow> string
     \<Rightarrow> session \<times> phase list \<times> step \<times> step list" where
  "abandon_speedrun s i phases now elapsed reason =
     (let live = (phases ! i)\<lparr>ph_status := ABANDONED, ph_ended_at := Some now\<rparr>;
          s1 = s\<lparr>s_status := S_ABANDONED, s_ended_at := Some now\<rparr>;
          stype = speedrun_type s1 live;
          s2 = speedrun_result s1 (if stype = ''time_boxed'' then ''miss'' else ''abandoned'') elapsed
                 [(''reason'', JStr reason)];
          (phases', skipped) = skip_pending (phases[i := live]) now
      in (s2, phases',
          (Step ''speedrun_failed'' (Some (ph_seq live)) now)\<lparr>st_scored := True,
             st_reason := Some reason,
             st_extra := [(''speedrun_type'', JStr stype), (''elapsed_seconds'', JInt elapsed)]\<rparr>,
          Step ''phase_abandoned'' (Some (ph_seq live)) now # skipped))"

text \<open>The milestones of a stopwatch stop: one per 25 minutes of focus, at most \<open>MAX_MILESTONES\<close>.\<close>

definition milestone_steps :: "int \<Rightarrow> int \<Rightarrow> datetime \<Rightarrow> int \<Rightarrow> step list" where
  "milestone_steps seq actual started paused =
     (let bound = min (actual div 60) (MAX_MILESTONES * 25)
      in map (\<lambda>i. (Step ''phase_completed'' (Some seq) (started + seconds (i * 25 * 60 + paused)))
           \<lparr>st_actual := Some (i * 25 * 60), st_scored := True,
            st_extra := [(''milestone_index'', JInt i)]\<rparr>) [1 .. bound div 25])"

definition stop :: "session \<Rightarrow> phase list \<Rightarrow> datetime \<Rightarrow> session \<times> phase list \<times> step \<times> step list" where
  "stop s phases now =
     (case live_phase phases of
        Some i \<Rightarrow>
          let live = phases ! i in
          if ph_kind live = SPEEDRUN then
            let started = or_now (ph_started_at live) now
            in abandon_speedrun s i (phases[i := bank_open_pause live now]) now
                 (max 0 (whole_seconds (now - started))) ''abandon''
          else if ph_kind live = STOPWATCH then
            let started = or_now (ph_started_at live) now;
                elapsed = whole_seconds (now - started);
                paused = (if ph_status live = PAUSED
                          then paused_seconds live + whole_seconds (now - or_now (pause_started_at live) now)
                          else paused_seconds live);
                actual = max 0 (elapsed - paused);
                live' = live\<lparr>actual_seconds := Some actual, paused_seconds := paused,
                             pause_started_at := None, ph_status := COMPLETED, ph_ended_at := Some now\<rparr>;
                (phases', skipped) = skip_pending (phases[i := live']) now
            in (s\<lparr>s_status := S_ENDED, s_ended_at := Some now\<rparr>, phases', Step ''session_ended'' None now,
                milestone_steps (ph_seq live) actual started paused @ skipped)
          else
            let live' = (bank_open_pause live now)\<lparr>
                  ph_status := (if ph_kind live = FOCUS then ABANDONED else SKIPPED), ph_ended_at := Some now\<rparr>;
                marker = Step (if ph_kind live = FOCUS then ''phase_abandoned'' else ''phase_skipped'')
                           (Some (ph_seq live)) now;
                phases1 = phases[i := live'];
                (phases', skipped) = skip_pending phases1 now
            in if completed_focus_count phases1 = 0 then
                 (s\<lparr>s_status := S_ABANDONED, s_ended_at := Some now\<rparr>, phases',
                  (Step ''session_abandoned'' (Some (ph_seq live)) now)\<lparr>st_reason := Some ''manual_stop''\<rparr>,
                  marker # skipped)
               else
                 (s\<lparr>s_status := S_ENDED, s_ended_at := Some now\<rparr>, phases',
                  Step ''session_ended'' None now, marker # skipped)
      | None \<Rightarrow>
          let (phases', skipped) = skip_pending phases now
          in if completed_focus_count phases = 0 then
               (s\<lparr>s_status := S_ABANDONED, s_ended_at := Some now\<rparr>, phases',
                (Step ''session_abandoned'' None now)\<lparr>st_reason := Some ''manual_stop''\<rparr>, skipped)
             else
               (s\<lparr>s_status := S_ENDED, s_ended_at := Some now\<rparr>, phases',
                Step ''session_ended'' None now, skipped))"

definition opt_int :: "int option \<Rightarrow> json" where
  "opt_int x = (case x of None \<Rightarrow> JNull | Some n \<Rightarrow> JInt n)"

definition opt_str :: "string option \<Rightarrow> json" where
  "opt_str x = (case x of None \<Rightarrow> JNull | Some n \<Rightarrow> JStr n)"

definition finish :: "session \<Rightarrow> phase list \<Rightarrow> datetime \<Rightarrow> int option \<Rightarrow> verb_result" where
  "finish s phases now prior =
     (case live_phase phases of
        None \<Rightarrow> Inl (ValueError ''no live speedrun phase to finish'')
      | Some i \<Rightarrow>
          let live = phases ! i in
          if ph_kind live \<noteq> SPEEDRUN then Inl (ValueError ''no live speedrun phase to finish'')
          else
            let elapsed = max 0 (whole_seconds (now - or_now (ph_started_at live) now)) in
            if elapsed < 1 then Inl (ValueError ''run too short'')
            else
              let banked = bank_open_pause live now;
                  stype = speedrun_type s banked in
              if stype = ''time_boxed'' \<and> elapsed \<ge> planned_seconds banked then
                let (s', phases', final, pre) =
                      abandon_speedrun s i (phases[i := banked]) now elapsed ''timeout''
                in Inr (s', phases', pre @ [final])
              else
                let phases' = phases[i := banked\<lparr>ph_status := COMPLETED, actual_seconds := Some elapsed,
                                                 ph_ended_at := Some now\<rparr>];
                    s1 = s\<lparr>s_status := S_ENDED, s_ended_at := Some now\<rparr>;
                    seq = Some (ph_seq live);
                    completed = (Step ''phase_completed'' seq now)\<lparr>st_actual := Some elapsed\<rparr>;
                    ended = Step ''session_ended'' None now;
                    margin = planned_seconds live - elapsed;
                    new_record = (elapsed \<ge> MIN_RECORD_SECONDS \<and>
                              (case prior of None \<Rightarrow> True | Some r \<Rightarrow> elapsed < r))
                in if stype = ''time_boxed'' then
                     Inr (speedrun_result s1 ''win'' elapsed [(''margin_seconds'', JInt margin)], phases',
                       [completed,
                        (Step ''speedrun_completed'' seq now)\<lparr>st_scored := True, st_extra :=
                          [(''speedrun_type'', JStr ''time_boxed''), (''elapsed_seconds'', JInt elapsed),
                           (''win_bonus'', JBool (elapsed \<ge> MIN_RECORD_SECONDS)),
                           (''under_budget'', JBool True), (''margin_seconds'', JInt margin)]\<rparr>,
                        ended])
                   else
                     Inr (speedrun_result s1 (if new_record then ''record'' else ''finished'') elapsed
                            [(''old_record_seconds'', opt_int prior)], phases',
                       [completed,
                        (Step ''speedrun_completed'' seq now)\<lparr>st_scored := True, st_extra :=
                          [(''speedrun_type'', JStr ''beat_best''), (''elapsed_seconds'', JInt elapsed),
                           (''win_bonus'', JBool new_record), (''record'', JBool new_record),
                           (''old_record_seconds'', opt_int prior)]\<rparr>] @
                       (if new_record then
                          [(Step ''record_set'' seq now)\<lparr>st_scored := True, st_extra :=
                             [(''activity_label'', opt_str (activity_label s)),
                              (''old_seconds'', opt_int prior), (''new_seconds'', JInt elapsed)]\<rparr>]
                        else []) @ [ended]))"

end
