(* ===== verification/SessionFacts.thy ===== *)
theory SessionFacts
  imports SessionEngine
begin

text \<open>
  The invariant of a session and its phases at a time of the clock (\<open>sess_ok\<close>), the four ways the
  code changes the phase list (close the live phase, start a pending one, skip the pending ones,
  change the live one in place) with what each does to the invariant and to the two counts the
  ledger depends on, and the contract every verb honours (\<open>honours\<close>): the invariant is kept, a
  session that dies emits exactly one terminal step, and a focus phase is paid exactly when it
  completes.
\<close>

subsection \<open>The invariant\<close>

definition phase_ok :: "datetime \<Rightarrow> session \<Rightarrow> phase \<Rightarrow> bool" where
  "phase_ok now s p \<longleftrightarrow>
     0 \<le> planned_seconds p \<and> (ph_kind p \<noteq> SPEEDRUN \<longrightarrow> 0 \<le> paused_seconds p) \<and>
     (is_live p \<longrightarrow> (\<exists>t. ph_started_at p = Some t \<and> t \<le> now)) \<and>
     (ph_status p = PAUSED \<longleftrightarrow> pause_started_at p \<noteq> None) \<and>
     (\<forall>t. pause_started_at p = Some t \<longrightarrow> t \<le> now) \<and>
     (unfinished p \<longleftrightarrow> ph_ended_at p = None) \<and>
     (\<forall>t. ph_ended_at p = Some t \<longrightarrow> t \<le> now) \<and>
     (ph_kind p = FOCUS \<and> ph_status p \<noteq> ABANDONED \<longrightarrow>
        pause_count p \<le> pause_budget_count s \<and> paused_seconds p \<le> pause_budget_seconds s) \<and>
     (ph_status p = PAUSED \<longrightarrow> ph_kind p \<noteq> BREAK) \<and>
     (ph_status p = COMPLETED \<and> (ph_kind p = FOCUS \<or> ph_kind p = BREAK) \<longrightarrow>
        actual_seconds p = Some (planned_seconds p) \<and>
        (\<exists>t. ph_started_at p = Some t \<and>
           ph_ended_at p = Some (t + seconds (planned_seconds p + paused_seconds p))))"

definition solo :: "phase list \<Rightarrow> bool" where
  "solo ps \<longleftrightarrow> (\<forall>p \<in> set ps. ph_kind p = STOPWATCH \<or> ph_kind p = SPEEDRUN \<longrightarrow> length ps = 1)"

definition ordered :: "phase list \<Rightarrow> bool" where
  "ordered ps \<longleftrightarrow> (\<forall>p \<in> set ps. \<forall>q \<in> set ps. \<forall>e t. ph_ended_at p = Some e \<longrightarrow> is_live q \<longrightarrow>
     ph_started_at q = Some t \<longrightarrow> e \<le> t)"

definition live_count :: "phase list \<Rightarrow> nat" where
  "live_count ps = length (filter is_live ps)"

definition phases_ok :: "datetime \<Rightarrow> session \<Rightarrow> phase list \<Rightarrow> bool" where
  "phases_ok now s ps \<longleftrightarrow> (\<forall>p \<in> set ps. phase_ok now s p) \<and> live_count ps \<le> 1 \<and> solo ps \<and> ordered ps"

definition sess_ok :: "datetime \<Rightarrow> session \<Rightarrow> phase list \<Rightarrow> bool" where
  "sess_ok now s ps \<longleftrightarrow> phases_ok now s ps \<and> 0 \<le> pause_budget_count s \<and> 0 \<le> pause_budget_seconds s \<and>
     s_started_at s \<le> now \<and>
     (s_status s = S_ACTIVE \<longleftrightarrow> s_ended_at s = None) \<and>
     (s_status s \<noteq> S_ACTIVE \<longrightarrow> (\<forall>p \<in> set ps. \<not> unfinished p))"

lemma phase_ok_cong:
  "pause_budget_count s' = pause_budget_count s \<Longrightarrow> pause_budget_seconds s' = pause_budget_seconds s \<Longrightarrow>
     phase_ok now s' = phase_ok now s"
  by (simp add: phase_ok_def fun_eq_iff)

lemma phases_ok_cong:
  "pause_budget_count s' = pause_budget_count s \<Longrightarrow> pause_budget_seconds s' = pause_budget_seconds s \<Longrightarrow>
     phases_ok now s' = phases_ok now s"
  using phase_ok_cong [of s' s now] by (simp add: phases_ok_def fun_eq_iff)

lemma phase_ok_later: "phase_ok t s p \<Longrightarrow> t \<le> now \<Longrightarrow> phase_ok now s p"
  unfolding phase_ok_def by (elim conjE, intro conjI) (assumption | force)+

lemma phases_ok_later: "phases_ok t s ps \<Longrightarrow> t \<le> now \<Longrightarrow> phases_ok now s ps"
  using phase_ok_later by (fastforce simp: phases_ok_def)

lemma sess_ok_later: "sess_ok t s ps \<Longrightarrow> t \<le> now \<Longrightarrow> sess_ok now s ps"
  using phases_ok_later by (fastforce simp: sess_ok_def)

lemma phases_okD:
  assumes "phases_ok now s ps" "i < length ps"
  shows "phase_ok now s (ps ! i)"
  using assms by (simp add: phases_ok_def)

lemma live_count_0: "live_count ps = 0 \<longleftrightarrow> live_phase ps = None"
  by (simp add: live_count_def live_phase_def filter_empty_conv)

lemma live_phase_Some:
  assumes "live_phase ps = Some i" shows "i < length ps" "is_live (ps ! i)"
  using find_idx_SomeD [OF assms [unfolded live_phase_def]] by simp_all

lemma next_pending_Some:
  assumes "next_pending ps = Some i" shows "i < length ps" "ph_status (ps ! i) = PENDING"
  using find_idx_SomeD [OF assms [unfolded next_pending_def]] by simp_all

lemma next_pending_None: "next_pending ps = None \<longleftrightarrow> (\<forall>p \<in> set ps. ph_status p \<noteq> PENDING)"
  by (simp add: next_pending_def)

lemma live_phase_None: "live_phase ps = None \<longleftrightarrow> (\<forall>p \<in> set ps. \<not> is_live p)"
  by (simp add: live_phase_def)

lemma unfinished_iff: "unfinished p \<longleftrightarrow> ph_status p = PENDING \<or> ph_status p = ACTIVE \<or> ph_status p = PAUSED"
  by (simp add: unfinished_def is_live_def)

lemmas status_defs = unfinished_def is_live_def

lemma solo_update: "solo ps \<Longrightarrow> i < length ps \<Longrightarrow> ph_kind q = ph_kind (ps ! i) \<Longrightarrow> solo (ps[i := q])"
  unfolding solo_def by (metis in_set_conv_nth length_list_update nth_list_update)

subsection \<open>Four ways to change the phases\<close>

lemma filter_update_start:
  "i < length xs \<Longrightarrow> \<not> P (xs ! i) \<Longrightarrow> P y \<Longrightarrow> length (filter P (xs[i := y])) = Suc (length (filter P xs))"
proof (induction xs arbitrary: i)
  case Nil
  then show ?case by simp
next
  case (Cons x xs)
  then show ?case by (cases i) auto
qed

lemma filter_update_out:
  "i < length xs \<Longrightarrow> \<not> P (xs ! i) \<Longrightarrow> \<not> P y \<Longrightarrow> length (filter P (xs[i := y])) = length (filter P xs)"
proof (induction xs arbitrary: i)
  case Nil
  then show ?case by simp
next
  case (Cons x xs)
  then show ?case by (cases i) auto
qed

lemma close_live:
  assumes ok: "phases_ok now s ps" and i: "live_phase ps = Some i"
    and q: "phase_ok now s q" "\<not> unfinished q" "ph_kind q = ph_kind (ps ! i)"
  shows "phases_ok now s (ps[i := q])" and "live_phase (ps[i := q]) = None"
proof -
  note l = live_phase_Some [OF i]
  have "\<not> is_live q" using q(2) by (simp add: unfinished_def)
  then have "Suc (live_count (ps[i := q])) = live_count ps"
    unfolding live_count_def using l by (intro filter_update_finish)
  with ok have "live_count (ps[i := q]) = 0" by (simp add: phases_ok_def)
  then show none: "live_phase (ps[i := q]) = None" by (simp add: live_count_0)
  then have "ordered (ps[i := q])" by (auto simp: ordered_def live_phase_None)
  then show "phases_ok now s (ps[i := q])"
    using ok q(1,3) l \<open>live_count (ps[i := q]) = 0\<close> set_update_subset_insert [of ps i q]
    by (auto simp: phases_ok_def intro!: solo_update)
qed

lemma start_ok:
  assumes ok: "phases_ok now s ps" and none: "live_phase ps = None" and j: "next_pending ps = Some j"
    and t: "t \<le> now" "\<And>p e. p \<in> set ps \<Longrightarrow> ph_ended_at p = Some e \<Longrightarrow> e \<le> t"
  shows "phases_ok now s (start_phase ps j t)"
proof -
  define q where "q = (ps ! j)\<lparr>ph_status := ACTIVE, ph_started_at := Some t\<rparr>"
  note p = next_pending_Some [OF j]
  have pj: "phase_ok now s (ps ! j)" by (rule phases_okD [OF ok p(1)])
  have ended: "ph_ended_at (ps ! j) = None" using pj p(2) by (simp add: phase_ok_def unfinished_def)
  have q: "phase_ok now s q" using pj p(2) t(1) by (auto simp: phase_ok_def q_def status_defs)
  have sub: "set (ps[j := q]) \<subseteq> insert q (set ps)" by (rule set_update_subset_insert)
  have "live_count (ps[j := q]) = Suc (live_count ps)"
    unfolding live_count_def using p by (intro filter_update_start) (auto simp: is_live_def q_def)
  then have one: "live_count (ps[j := q]) \<le> 1" using none live_count_0 [of ps] by simp
  have "ordered (ps[j := q])"
    unfolding ordered_def
  proof (intro ballI allI impI)
    fix a b e u assume ab: "a \<in> set (ps[j := q])" "b \<in> set (ps[j := q])" "ph_ended_at a = Some e"
      "is_live b" "ph_started_at b = Some u"
    have "b = q" using ab(2,4) sub none by (auto simp: live_phase_None)
    then have "u = t" using ab(5) by (simp add: q_def)
    moreover have "a \<in> set ps" using ab(1,3) sub ended by (auto simp: q_def)
    ultimately show "e \<le> u" using t(2) ab(3) by blast
  qed
  moreover have "solo (ps[j := q])" using ok p by (intro solo_update) (auto simp: phases_ok_def q_def)
  ultimately show ?thesis
    using ok q one sub unfolding start_phase_def q_def [symmetric] phases_ok_def by blast
qed

lemma skip_steps_kind: "st \<in> set (snd (skip_pending ps t)) \<Longrightarrow> st_kind st = ''phase_skipped''"
  by (auto simp: skip_pending_def Step_def)

lemma skip_ok:
  assumes ok: "phases_ok now s ps" and none: "live_phase ps = None" and t: "t \<le> now"
  shows "phases_ok now s (fst (skip_pending ps t))"
    and "\<forall>p \<in> set (fst (skip_pending ps t)). \<not> unfinished p"
proof -
  have live: "\<not> is_live p" if "p \<in> set ps" for p using none that by (simp add: live_phase_None)
  show closed: "\<forall>p \<in> set (fst (skip_pending ps t)). \<not> unfinished p"
    using live by (auto simp: skip_pending_def status_defs)
  have pk: "phase_ok now s p" if "p \<in> set (fst (skip_pending ps t))" for p
  proof -
    from that obtain p0 where p0: "p0 \<in> set ps"
      and p: "p = (if ph_status p0 = PENDING then p0\<lparr>ph_status := SKIPPED, ph_ended_at := Some t\<rparr> else p0)"
      by (auto simp: skip_pending_def)
    have "phase_ok now s p0" using ok p0 by (simp add: phases_ok_def)
    then show ?thesis using p t by (cases "ph_status p0") (auto simp: phase_ok_def status_defs)
  qed
  have "live_count (fst (skip_pending ps t)) = 0"
    using closed by (auto simp: live_count_def unfinished_def filter_empty_conv)
  moreover have "ordered (fst (skip_pending ps t))" using closed by (auto simp: ordered_def unfinished_def)
  moreover have "solo (fst (skip_pending ps t))"
    using ok by (auto simp: phases_ok_def solo_def skip_pending_def split: if_splits)
  ultimately show "phases_ok now s (fst (skip_pending ps t))" using pk by (simp add: phases_ok_def)
qed

lemma change_live:
  assumes ok: "phases_ok now s ps" and i: "live_phase ps = Some i"
    and q: "phase_ok now s q" "is_live q" "ph_kind q = ph_kind (ps ! i)"
      "ph_started_at q = ph_started_at (ps ! i)"
  shows "phases_ok now s (ps[i := q])"
proof -
  note l = live_phase_Some [OF i]
  have "live_count (ps[i := q]) = live_count ps"
    unfolding live_count_def using l q(2) by (intro filter_update_keep)
  moreover have "ordered (ps[i := q])"
    unfolding ordered_def
  proof (intro ballI allI impI)
    fix a b e u assume ab: "a \<in> set (ps[i := q])" "b \<in> set (ps[i := q])" "ph_ended_at a = Some e"
      "is_live b" "ph_started_at b = Some u"
    have "ph_ended_at q = None" using q(1,2) by (simp add: phase_ok_def unfinished_def)
    then have a: "a \<in> set ps" using ab(1,3) set_update_subset_insert [of ps i q] by auto
    obtain b' where "b' \<in> set ps" "is_live b'" "ph_started_at b' = Some u"
      using ab(2,4,5) set_update_subset_insert [of ps i q] l q(4) by (metis insertE nth_mem subsetD)
    with a ab(3) ok show "e \<le> u" by (auto simp: phases_ok_def ordered_def)
  qed
  ultimately show ?thesis
    using ok q(1,3) l set_update_subset_insert [of ps i q]
    by (auto simp: phases_ok_def intro!: solo_update)
qed

subsection \<open>Counting steps\<close>

definition is_terminal :: "step \<Rightarrow> bool" where
  "is_terminal st \<longleftrightarrow> st_kind st \<in> {''session_ended'', ''session_abandoned'', ''speedrun_failed''}"

text \<open>The step that pays a focus phase; a milestone of a stopwatch carries its index in \<open>extra\<close>.\<close>

definition focus_paid :: "step \<Rightarrow> bool" where
  "focus_paid st \<longleftrightarrow> st_kind st = ''phase_completed'' \<and> st_scored st \<and> st_extra st = []"

definition terminals :: "step list \<Rightarrow> nat" where
  "terminals steps = length (filter is_terminal steps)"

definition paid_focus :: "step list \<Rightarrow> nat" where
  "paid_focus steps = length (filter focus_paid steps)"

lemma Step_fields [simp]:
  "st_kind (Step k seq t) = k" "st_seq (Step k seq t) = seq" "st_at (Step k seq t) = t"
  "st_scored (Step k seq t) = False" "st_extra (Step k seq t) = []" "st_actual (Step k seq t) = None"
  "st_reason (Step k seq t) = None"
  by (simp_all add: Step_def)

lemma count_append [simp]:
  "terminals (xs @ ys) = terminals xs + terminals ys" "paid_focus (xs @ ys) = paid_focus xs + paid_focus ys"
  "terminals [] = 0" "paid_focus [] = 0"
  "terminals (x # xs) = (if is_terminal x then 1 else 0) + terminals xs"
  "paid_focus (x # xs) = (if focus_paid x then 1 else 0) + paid_focus xs"
  by (simp_all add: terminals_def paid_focus_def)

lemma skip_counts [simp]:
  "terminals (snd (skip_pending ps t)) = 0" "paid_focus (snd (skip_pending ps t)) = 0"
  by (auto simp: terminals_def paid_focus_def is_terminal_def focus_paid_def filter_empty_conv
      dest: skip_steps_kind)

lemma skip_at: "st \<in> set (snd (skip_pending ps t)) \<Longrightarrow> st_at st = t"
  by (auto simp: skip_pending_def)

lemma completed_skip [simp]: "completed_focus_count (fst (skip_pending ps t)) = completed_focus_count ps"
  unfolding completed_focus_count_def skip_pending_def by (induction ps) auto

lemma completed_update:
  assumes "i < length ps" "ph_status (ps ! i) \<noteq> COMPLETED" "ph_kind q = ph_kind (ps ! i)"
  shows "completed_focus_count (ps[i := q]) =
     completed_focus_count ps + (if ph_kind q = FOCUS \<and> ph_status q = COMPLETED then 1 else 0)"
  using assms filter_update_start [of i ps "\<lambda>p. ph_kind p = FOCUS \<and> ph_status p = COMPLETED" q]
    filter_update_out [of i ps "\<lambda>p. ph_kind p = FOCUS \<and> ph_status p = COMPLETED" q]
  by (auto simp: completed_focus_count_def)

lemma completed_start:
  assumes "next_pending ps = Some j"
  shows "completed_focus_count (start_phase ps j t) = completed_focus_count ps"
  unfolding start_phase_def using next_pending_Some [OF assms] by (subst completed_update) auto

subsection \<open>The contract of a verb\<close>

definition same_run :: "session \<Rightarrow> session \<Rightarrow> bool" where
  "same_run s s' \<longleftrightarrow> (\<exists>st en sp. s' = s\<lparr>s_status := st, s_ended_at := en, speedrun := sp\<rparr>)"

definition honours ::
  "datetime \<Rightarrow> session \<Rightarrow> phase list \<Rightarrow> session \<times> phase list \<times> step list \<Rightarrow> bool" where
  "honours now s ps = (\<lambda>(s', ps', steps).
     sess_ok now s' ps' \<and>
     terminals steps = (if s_status s' = S_ACTIVE then 0 else 1) \<and>
     completed_focus_count ps' = completed_focus_count ps + paid_focus steps \<and>
     same_run s s' \<and> (\<forall>st \<in> set steps. st_at st \<le> now))"

lemma same_run_refl [simp]: "same_run s s"
proof -
  have "s = s\<lparr>s_status := s_status s, s_ended_at := s_ended_at s, speedrun := speedrun s\<rparr>" by simp
  then show ?thesis unfolding same_run_def by blast
qed

lemma same_run_update [simp]:
  "same_run s (s\<lparr>s_status := st, s_ended_at := en\<rparr>)"
  "same_run s (speedrun_result (s\<lparr>s_status := st, s_ended_at := en\<rparr>) a b c)"
proof -
  have "s\<lparr>s_status := st, s_ended_at := en\<rparr> =
      s\<lparr>s_status := st, s_ended_at := en, speedrun := speedrun s\<rparr>" by simp
  then show "same_run s (s\<lparr>s_status := st, s_ended_at := en\<rparr>)" unfolding same_run_def by blast
  show "same_run s (speedrun_result (s\<lparr>s_status := st, s_ended_at := en\<rparr>) a b c)"
    unfolding same_run_def speedrun_result_def by auto
qed

lemma same_run_trans: "same_run a b \<Longrightarrow> same_run b c \<Longrightarrow> same_run a c"
  unfolding same_run_def by (elim exE) (simp, intro exI, rule refl)

lemma same_run_fields:
  assumes "same_run s s'"
  shows "pause_budget_count s' = pause_budget_count s" "pause_budget_seconds s' = pause_budget_seconds s"
    "s_started_at s' = s_started_at s" "s_id s' = s_id s" "s_user s' = s_user s" "preset s' = preset s"
    "s_mode s' = s_mode s" "s_task_id s' = s_task_id s" "activity_label s' = activity_label s"
  using assms by (auto simp: same_run_def)

lemma speedrun_result_fields [simp]:
  "s_status (speedrun_result s a b c) = s_status s" "s_ended_at (speedrun_result s a b c) = s_ended_at s"
  by (simp_all add: speedrun_result_def)

lemma honours_alive:
  assumes "sess_ok now s ps" "s_status s = S_ACTIVE" "phases_ok now s ps'"
    and "terminals steps = 0" "completed_focus_count ps' = completed_focus_count ps + paid_focus steps"
    and "\<forall>st \<in> set steps. st_at st \<le> now"
  shows "honours now s ps (s, ps', steps)"
  using assms by (simp add: honours_def sess_ok_def)

lemma honours_dead:
  assumes "sess_ok now s ps" "same_run s s'" "s_status s' \<noteq> S_ACTIVE" "s_ended_at s' \<noteq> None"
    and "phases_ok now s ps'" "\<forall>p \<in> set ps'. \<not> unfinished p"
    and "terminals steps = 1" "completed_focus_count ps' = completed_focus_count ps + paid_focus steps"
    and "\<forall>st \<in> set steps. st_at st \<le> now"
  shows "honours now s ps (s', ps', steps)"
proof -
  note f = same_run_fields [OF assms(2)]
  have "phases_ok now s' ps'" using assms(5) phases_ok_cong [of s' s now] f by simp
  then show ?thesis using assms f by (auto simp: honours_def sess_ok_def)
qed

text \<open>Closing the live phase and skipping the rest: how every verb kills a session.\<close>

lemma die_phases:
  assumes "phases_ok now s ps" "live_phase ps = Some i" "t \<le> now"
    and "phase_ok now s q" "\<not> unfinished q" "ph_kind q = ph_kind (ps ! i)"
    and "ph_status q \<noteq> COMPLETED \<or> ph_kind q \<noteq> FOCUS"
  shows "phases_ok now s (fst (skip_pending (ps[i := q]) t))"
    and "\<forall>p \<in> set (fst (skip_pending (ps[i := q]) t)). \<not> unfinished p"
    and "completed_focus_count (fst (skip_pending (ps[i := q]) t)) = completed_focus_count ps"
proof -
  note c = close_live [OF assms(1,2,4-6)]
  show "phases_ok now s (fst (skip_pending (ps[i := q]) t))"
    "\<forall>p \<in> set (fst (skip_pending (ps[i := q]) t)). \<not> unfinished p"
    using skip_ok [OF c assms(3)] by auto
  have "ph_status (ps ! i) \<noteq> COMPLETED" using live_phase_Some [OF assms(2)] by (auto simp: is_live_def)
  then show "completed_focus_count (fst (skip_pending (ps[i := q]) t)) = completed_focus_count ps"
    using live_phase_Some [OF assms(2)] assms(6,7) by (subst completed_skip, subst completed_update) auto
qed

end
