(* ===== verification/SessionVerbs.thy ===== *)
theory SessionVerbs
  imports SessionFacts
begin

text \<open>
  Every verb of the session engine honours the contract of \<open>SessionFacts\<close>. The contract is the
  locale \<open>session_verb\<close>, with what follows from it for any verb proved once inside; it is
  interpreted for \<open>pause\<close>, \<open>resume\<close>, \<open>advance\<close>, \<open>stop\<close>, \<open>finish\<close> and for \<open>evaluate\<close> itself.
\<close>

locale session_verb =
  fixes verb :: "session \<Rightarrow> phase list \<Rightarrow> datetime \<Rightarrow> verb_result"
  assumes honoured: "sess_ok now s ps \<Longrightarrow> s_status s = S_ACTIVE \<Longrightarrow> verb s ps now = Inr out \<Longrightarrow>
    honours now s ps out"
begin

lemma keeps_invariant:
  assumes "sess_ok t s ps" "t \<le> now" "s_status s = S_ACTIVE" "verb s ps now = Inr (s', ps', steps)"
  shows "sess_ok now s' ps'" "same_run s s'"
  using honoured [OF sess_ok_later [OF assms(1,2)] assms(3,4)] by (auto simp: honours_def)

lemma dead_sessions_are_closed:
  assumes "sess_ok t s ps" "t \<le> now" "s_status s = S_ACTIVE" "verb s ps now = Inr (s', ps', steps)"
    and "s_status s' \<noteq> S_ACTIVE" "p \<in> set ps'"
  shows "\<not> unfinished p"
  using keeps_invariant(1) [OF assms(1-4)] assms(5,6) by (simp add: sess_ok_def)

lemma one_terminal_step:
  assumes "sess_ok t s ps" "t \<le> now" "s_status s = S_ACTIVE" "verb s ps now = Inr (s', ps', steps)"
  shows "terminals steps = (if s_status s' = S_ACTIVE then 0 else 1)"
    "completed_focus_count ps' = completed_focus_count ps + paid_focus steps"
  using honoured [OF sess_ok_later [OF assms(1,2)] assms(3,4)] by (auto simp: honours_def)

end

subsection \<open>Pausing and resuming\<close>

lemma live_ok:
  assumes "sess_ok now s ps" "live_phase ps = Some i"
  shows "phases_ok now s ps" "phase_ok now s (ps ! i)" "is_live (ps ! i)" "i < length ps"
  using assms live_phase_Some [OF assms(2)] by (auto simp: sess_ok_def intro: phases_okD)

lemma completed_change:
  assumes "live_phase ps = Some i" "ph_status q \<noteq> COMPLETED" "ph_kind q = ph_kind (ps ! i)"
  shows "completed_focus_count (ps[i := q]) = completed_focus_count ps"
  using live_phase_Some [OF assms(1)] assms(2,3) by (subst completed_update) (auto simp: is_live_def)

lemma kill_honours:
  assumes ok: "sess_ok now s ps" and i: "live_phase ps = Some i" and t: "t \<le> now"
    and q: "phase_ok now s q" "\<not> unfinished q" "ph_kind q = ph_kind (ps ! i)"
      "ph_status q \<noteq> COMPLETED \<or> ph_kind q \<noteq> FOCUS"
    and s': "same_run s s'" "s_status s' \<noteq> S_ACTIVE" "s_ended_at s' \<noteq> None"
    and steps: "terminals steps = 1" "paid_focus steps = 0" "\<forall>st \<in> set steps. st_at st \<le> now"
    and ps': "ps' = fst (skip_pending (ps[i := q]) t)"
  shows "honours now s ps (s', ps', steps)"
  unfolding ps' using die_phases [OF live_ok(1) [OF ok i] i t q] steps
  by (intro honours_dead [OF ok s']) auto

lemma skip_pair: "skip_pending ps t = (fst (skip_pending ps t), snd (skip_pending ps t))"
  by simp

lemma abandon_step_counts [simp]:
  "is_terminal ((Step ''session_abandoned'' a b)\<lparr>st_reason := c\<rparr>)"
  "\<not> focus_paid ((Step ''session_abandoned'' a b)\<lparr>st_reason := c\<rparr>)"
  "is_terminal (Step ''session_ended'' a b)" "\<not> focus_paid (Step k a b)"
  by (simp_all add: is_terminal_def focus_paid_def)

lemma pause_honours:
  assumes ok: "sess_ok now s ps" and act: "s_status s = S_ACTIVE" and v: "pause s ps now = Inr out"
  shows "honours now s ps out"
proof -
  obtain i where i: "live_phase ps = Some i" using v by (auto simp: pause_def split: option.splits)
  define p where "p = ps ! i"
  note l = live_ok [OF ok i, folded p_def]
  from v i have st: "ph_status p = ACTIVE" "ph_kind p \<noteq> BREAK"
    by (auto simp: pause_def p_def [symmetric] Let_def split: if_splits)
  show ?thesis
  proof (cases "ph_kind p = STOPWATCH \<or> ph_kind p = SPEEDRUN \<or> pause_count p + 1 \<le> pause_budget_count s")
    case True
    define q where "q = p\<lparr>pause_count := pause_count p + 1, pause_started_at := Some now, ph_status := PAUSED\<rparr>"
    have out: "out = (s, ps[i := q], [(Step ''phase_paused'' (Some (ph_seq p)) now)
        \<lparr>st_extra := [(''n'', JInt (pause_count p + 1))]\<rparr>])"
      using v i st True by (auto simp: pause_def p_def [symmetric] q_def Let_def)
    have q: "phase_ok now s q" "is_live q"
      using l(2) st True by (auto simp: phase_ok_def q_def status_defs)
    then have "phases_ok now s (ps[i := q])"
      using l by (intro change_live [OF l(1) i]) (simp_all add: q_def p_def)
    then show ?thesis unfolding out
      by (intro honours_alive [OF ok act])
        (auto simp: is_terminal_def focus_paid_def q_def p_def completed_change [OF i])
  next
    case False
    define q where "q = p\<lparr>ph_status := ABANDONED, ph_ended_at := Some now, pause_started_at := None\<rparr>"
    have out: "out = (s\<lparr>s_status := S_ABANDONED, s_ended_at := Some now\<rparr>,
        fst (skip_pending (ps[i := q]) now), snd (skip_pending (ps[i := q]) now) @
        [(Step ''session_abandoned'' (Some (ph_seq p)) now)\<lparr>st_reason := Some ''pause_overflow''\<rparr>])"
      using v i st False by (auto simp: pause_def p_def [symmetric] q_def Let_def split_beta)
    have "phase_ok now s q" using l(2) st by (auto simp: phase_ok_def q_def status_defs)
    then show ?thesis unfolding out
      by (intro kill_honours [OF ok i, of now q])
        (auto simp: q_def p_def status_defs dest: skip_at)
  qed
qed

lemma resume_honours:
  assumes ok: "sess_ok now s ps" and act: "s_status s = S_ACTIVE" and v: "resume s ps now = Inr out"
  shows "honours now s ps out"
proof -
  obtain i where i: "live_phase ps = Some i" using v by (auto simp: resume_def split: option.splits)
  define p where "p = ps ! i"
  note l = live_ok [OF ok i, folded p_def]
  from v i have st: "ph_status p = PAUSED"
    by (auto simp: resume_def p_def [symmetric] Let_def split: if_splits)
  then obtain t where t: "pause_started_at p = Some t" "t \<le> now" using l(2) by (auto simp: phase_ok_def)
  define extra where "extra = whole_seconds (now - t)"
  have extra: "0 \<le> extra" using t(2) by (simp add: extra_def whole_seconds_nonneg)
  show ?thesis
  proof (cases "ph_kind p = FOCUS \<and> paused_seconds p + extra > pause_budget_seconds s")
    case False
    define q where "q = p\<lparr>paused_seconds := paused_seconds p + extra, pause_started_at := None, ph_status := ACTIVE\<rparr>"
    have out: "out = (s, ps[i := q], [(Step ''phase_resumed'' (Some (ph_seq p)) now)
        \<lparr>st_extra := [(''n'', JInt (pause_count p))]\<rparr>])"
      using v i st False t by (auto simp: resume_def p_def [symmetric] q_def Let_def or_now_def extra_def)
    have q: "phase_ok now s q" "is_live q"
      using l(2) st False extra by (auto simp: phase_ok_def q_def status_defs)
    then have "phases_ok now s (ps[i := q])"
      using l by (intro change_live [OF l(1) i]) (simp_all add: q_def p_def)
    then show ?thesis unfolding out
      by (intro honours_alive [OF ok act])
        (auto simp: is_terminal_def focus_paid_def q_def p_def completed_change [OF i])
  next
    case True
    define q where "q = p\<lparr>ph_status := ABANDONED, ph_ended_at := Some now,
        paused_seconds := paused_seconds p + extra, pause_started_at := None\<rparr>"
    have out: "out = (s\<lparr>s_status := S_ABANDONED, s_ended_at := Some now\<rparr>,
        fst (skip_pending (ps[i := q]) now), snd (skip_pending (ps[i := q]) now) @
        [(Step ''session_abandoned'' (Some (ph_seq p)) now)\<lparr>st_reason := Some ''pause_overflow''\<rparr>])"
      using v i st True t
      by (auto simp: resume_def p_def [symmetric] q_def Let_def split_beta or_now_def extra_def)
    have "phase_ok now s q" using l(2) st extra by (auto simp: phase_ok_def q_def status_defs)
    then show ?thesis unfolding out
      by (intro kill_honours [OF ok i, of now q])
        (auto simp: q_def p_def status_defs dest: skip_at)
  qed
qed

subsection \<open>Advancing\<close>

lemma ended_before:
  assumes "phases_ok now s ps" "p \<in> set ps" "ph_ended_at p = Some e" shows "e \<le> now"
  using assms by (auto simp: phases_ok_def phase_ok_def)

lemma all_closed: "live_phase ps = None \<Longrightarrow> next_pending ps = None \<Longrightarrow> p \<in> set ps \<Longrightarrow> \<not> unfinished p"
  by (auto simp: live_phase_None next_pending_None unfinished_def)

lemma advance_honours:
  assumes ok: "sess_ok now s ps" and act: "s_status s = S_ACTIVE" and v: "advance s ps now = Inr out"
  shows "honours now s ps out"
proof (cases "live_phase ps")
  case None
  then obtain j where j: "next_pending ps = Some j"
    and out: "out = (s, start_phase ps j now, [Step ''phase_started'' (Some (ph_seq (ps ! j))) now])"
    using v by (auto simp: advance_def split: option.splits)
  have p: "phases_ok now s ps" using ok by (simp add: sess_ok_def)
  have "phases_ok now s (start_phase ps j now)"
    by (rule start_ok [OF p None j order_refl]) (rule ended_before [OF p])
  then show ?thesis unfolding out
    by (intro honours_alive [OF ok act]) (auto simp: is_terminal_def focus_paid_def completed_start [OF j])
next
  case (Some i)
  define p where "p = ps ! i"
  define q where "q = p\<lparr>ph_status := SKIPPED, ph_ended_at := Some now\<rparr>"
  note l = live_ok [OF ok Some, folded p_def]
  from v Some have st: "ph_kind p = BREAK" "ph_status p = ACTIVE"
    by (auto simp: advance_def p_def [symmetric] Let_def split: if_splits)
  have q: "phase_ok now s q" "\<not> unfinished q" "ph_kind q = ph_kind (ps ! i)"
    using l(2) st by (auto simp: phase_ok_def q_def status_defs p_def)
  note c = close_live [OF l(1) Some q]
  have count: "completed_focus_count (ps[i := q]) = completed_focus_count ps"
    by (rule completed_change [OF Some]) (auto simp: q_def p_def)
  show ?thesis
  proof (cases "next_pending (ps[i := q])")
    case None
    then have out: "out = (s\<lparr>s_status := S_ENDED, s_ended_at := Some now\<rparr>, ps[i := q],
        [Step ''phase_skipped'' (Some (ph_seq p)) now, Step ''session_ended'' None now])"
      using v Some st by (auto simp: advance_def p_def [symmetric] q_def Let_def)
    show ?thesis unfolding out
      by (intro honours_dead [OF ok]) (auto simp: c count is_terminal_def focus_paid_def all_closed [OF c(2) None])
  next
    case (Some j)
    then have out: "out = (s, start_phase (ps[i := q]) j now,
        [Step ''phase_skipped'' (Some (ph_seq p)) now,
         Step ''phase_started'' (Some (ph_seq (ps[i := q] ! j))) now])"
      using v \<open>live_phase ps = Some i\<close> st by (auto simp: advance_def p_def [symmetric] q_def Let_def)
    have "phases_ok now s (start_phase (ps[i := q]) j now)"
      by (rule start_ok [OF c Some order_refl]) (rule ended_before [OF c(1)])
    then show ?thesis unfolding out
      by (intro honours_alive [OF ok act])
        (auto simp: is_terminal_def focus_paid_def completed_start [OF Some] count)
  qed
qed

subsection \<open>Stopping\<close>

text \<open>The closure \<open>session_service.stop\<close> hands to \<open>_action\<close>.\<close>

definition stop_verb :: "session \<Rightarrow> phase list \<Rightarrow> datetime \<Rightarrow> verb_result" where
  "stop_verb s phases now =
     (let (s', phases', final, scored) = stop s phases now in Inr (s', phases', scored @ [final]))"

lemma bank_fields [simp]:
  "ph_seq (bank_open_pause p t) = ph_seq p" "ph_kind (bank_open_pause p t) = ph_kind p"
  "ph_status (bank_open_pause p t) = ph_status p" "planned_seconds (bank_open_pause p t) = planned_seconds p"
  "ph_started_at (bank_open_pause p t) = ph_started_at p" "ph_ended_at (bank_open_pause p t) = ph_ended_at p"
  "pause_count (bank_open_pause p t) = pause_count p"
  by (simp_all add: bank_open_pause_def split: option.splits)

lemma bank_pause:
  assumes "phase_ok now s p" "is_live p"
  shows "pause_started_at (bank_open_pause p t) = None"
    and "now \<le> t \<Longrightarrow> paused_seconds p \<le> paused_seconds (bank_open_pause p t)"
proof -
  show "pause_started_at (bank_open_pause p t) = None"
    using assms by (auto simp: bank_open_pause_def phase_ok_def split: option.splits)
  show "now \<le> t \<Longrightarrow> paused_seconds p \<le> paused_seconds (bank_open_pause p t)"
    using assms by (fastforce simp: bank_open_pause_def phase_ok_def split: option.splits
        intro: whole_seconds_nonneg)
qed

text \<open>A closed row built from a live one is sound when its pause is banked.\<close>

lemma closed_ok:
  assumes "phase_ok now s p" "is_live p" "now' \<le> now" "now \<le> t \<or> ph_kind p = SPEEDRUN"
    and "st \<in> {ABANDONED, SKIPPED}" "st = SKIPPED \<longrightarrow> ph_kind p \<noteq> FOCUS"
  shows "phase_ok now s ((bank_open_pause p t)\<lparr>ph_status := st, ph_ended_at := Some now'\<rparr>)"
proof -
  have "ph_kind p \<noteq> SPEEDRUN \<Longrightarrow> 0 \<le> paused_seconds (bank_open_pause p t)"
    using bank_pause(2) [OF assms(1,2)] assms(1,4) by (fastforce simp: phase_ok_def)
  then show ?thesis using assms bank_pause(1) [OF assms(1,2), of t]
    by (auto simp: phase_ok_def status_defs)
qed

lemma abandon_speedrun_shape:
  assumes "abandon_speedrun s i ps now elapsed reason = (s', ps', final, pre)"
  shows "ps' = fst (skip_pending (ps[i := (ps ! i)\<lparr>ph_status := ABANDONED, ph_ended_at := Some now\<rparr>]) now)"
    "same_run s s'" "s_status s' = S_ABANDONED" "s_ended_at s' = Some now"
    "terminals (pre @ [final]) = 1" "paid_focus (pre @ [final]) = 0"
    "\<forall>st \<in> set (pre @ [final]). st_at st = now"
  using assms by (auto simp: abandon_speedrun_def Let_def split_beta is_terminal_def focus_paid_def dest: skip_at)

lemma abandon_speedrun_honours:
  assumes ok: "sess_ok now s ps" and i: "live_phase ps = Some i" and k: "ph_kind (ps ! i) = SPEEDRUN"
    and a: "abandon_speedrun s i (ps[i := bank_open_pause (ps ! i) now]) now elapsed reason = (s', ps', final, pre)"
  shows "honours now s ps (s', ps', pre @ [final])"
proof -
  note l = live_ok [OF ok i] and sh = abandon_speedrun_shape [OF a]
  let ?q = "(bank_open_pause (ps ! i) now)\<lparr>ph_status := ABANDONED, ph_ended_at := Some now\<rparr>"
  have ps': "ps' = fst (skip_pending (ps[i := ?q]) now)" using sh(1) l(4) by simp
  have "phase_ok now s ?q" by (rule closed_ok [OF l(2,3) order_refl]) simp_all
  then show ?thesis using sh(2-7)
    by (intro kill_honours [OF ok i order_refl, of ?q] ps') (auto simp: status_defs)
qed

lemma milestone_times:
  assumes "0 \<le> paused" "actual = max 0 (whole_seconds (now - started) - paused)" "started \<le> now"
    and "st \<in> set (milestone_steps sq actual started paused)"
  shows "st_at st \<le> now" "\<not> is_terminal st" "\<not> focus_paid st"
proof -
  obtain i where i: "1 \<le> i" "i \<le> min (actual div 60) 2500 div 25"
    and st: "st_at st = started + seconds (i * 25 * 60 + paused)" "st_kind st = ''phase_completed''"
      "st_extra st \<noteq> []"
    using assms(4) by (auto simp: milestone_steps_def Let_def MAX_MILESTONES_def)
  from i have "i * 25 \<le> actual div 60" by linarith
  then have le: "i * 25 * 60 \<le> actual" by linarith
  with i assms(2) have "i * 25 * 60 + paused \<le> whole_seconds (now - started)" by linarith
  then have "seconds (i * 25 * 60 + paused) \<le> seconds (whole_seconds (now - started))"
    by (simp add: seconds_def us_per_second_def)
  also have "\<dots> \<le> now - started" using assms(3) by (intro whole_seconds_le) simp
  finally show "st_at st \<le> now" using st by simp
  show "\<not> is_terminal st" "\<not> focus_paid st" using st by (auto simp: is_terminal_def focus_paid_def)
qed

lemma milestone_counts:
  assumes "0 \<le> paused" "actual = max 0 (whole_seconds (now - started) - paused)" "started \<le> now"
  shows "terminals (milestone_steps sq actual started paused) = 0"
    "paid_focus (milestone_steps sq actual started paused) = 0"
  using milestone_times [OF assms] by (auto simp: terminals_def paid_focus_def filter_empty_conv)

lemma stop_speedrun_honours:
  assumes ok: "sess_ok now s ps" and i: "live_phase ps = Some i" and k: "ph_kind (ps ! i) = SPEEDRUN"
    and v: "stop_verb s ps now = Inr out"
  shows "honours now s ps out"
proof -
  obtain s' ps' final pre where a: "abandon_speedrun s i (ps[i := bank_open_pause (ps ! i) now]) now
      (max 0 (whole_seconds (now - or_now (ph_started_at (ps ! i)) now))) ''abandon'' = (s', ps', final, pre)"
    by (metis prod_cases4)
  then have "out = (s', ps', pre @ [final])" using v i k by (simp add: stop_verb_def stop_def Let_def)
  then show ?thesis using abandon_speedrun_honours [OF ok i k a] by simp
qed

lemma stop_stopwatch_honours:
  assumes ok: "sess_ok now s ps" and i: "live_phase ps = Some i" and k: "ph_kind (ps ! i) = STOPWATCH"
    and v: "stop_verb s ps now = Inr out"
  shows "honours now s ps out"
proof -
  define p where "p = ps ! i"
  note l = live_ok [OF ok i, folded p_def]
  obtain t0 where t0: "ph_started_at p = Some t0" "t0 \<le> now" using l(2,3) by (auto simp: phase_ok_def)
  have start: "or_now (ph_started_at p) now = t0" using t0(1) by (simp add: or_now_def)
  define paused where "paused = (if ph_status p = PAUSED
    then paused_seconds p + whole_seconds (now - or_now (pause_started_at p) now) else paused_seconds p)"
  define actual where "actual = max 0 (whole_seconds (now - t0) - paused)"
  define q where "q = p\<lparr>actual_seconds := Some actual, paused_seconds := paused, pause_started_at := None,
      ph_status := COMPLETED, ph_ended_at := Some now\<rparr>"
  have paused: "0 \<le> paused"
    using l(2,3) k by (auto simp: paused_def phase_ok_def p_def or_now_def whole_seconds_nonneg is_live_def)
  note m = milestone_counts [OF paused actual_def t0(2)] milestone_times(1) [OF paused actual_def t0(2)]
  have out: "out = (s\<lparr>s_status := S_ENDED, s_ended_at := Some now\<rparr>, fst (skip_pending (ps[i := q]) now),
      (milestone_steps (ph_seq p) actual t0 paused @ snd (skip_pending (ps[i := q]) now)) @
      [Step ''session_ended'' None now])"
    using v i k start by (auto simp: stop_verb_def stop_def Let_def split_beta p_def [symmetric]
        q_def actual_def paused_def)
  have "phase_ok now s q" using l(2) k paused by (auto simp: phase_ok_def q_def status_defs p_def)
  then show ?thesis unfolding out using k m
    by (intro kill_honours [OF ok i order_refl, of q]) (auto simp: q_def p_def status_defs dest: skip_at)
qed

lemma stop_timer_honours:
  assumes ok: "sess_ok now s ps" and i: "live_phase ps = Some i"
    and k: "ph_kind (ps ! i) \<noteq> SPEEDRUN" "ph_kind (ps ! i) \<noteq> STOPWATCH"
    and v: "stop_verb s ps now = Inr out"
  shows "honours now s ps out"
proof -
  define p where "p = ps ! i"
  note l = live_ok [OF ok i, folded p_def]
  define q where "q = (bank_open_pause p now)\<lparr>
      ph_status := (if ph_kind p = FOCUS then ABANDONED else SKIPPED), ph_ended_at := Some now\<rparr>"
  define marker where "marker = Step (if ph_kind p = FOCUS then ''phase_abandoned'' else ''phase_skipped'')
      (Some (ph_seq p)) now"
  have out: "\<exists>s' final. out = (s', fst (skip_pending (ps[i := q]) now),
        (marker # snd (skip_pending (ps[i := q]) now)) @ [final]) \<and>
      same_run s s' \<and> s_status s' \<noteq> S_ACTIVE \<and> s_ended_at s' \<noteq> None \<and> is_terminal final \<and>
      \<not> focus_paid final \<and> st_at final \<le> now"
  proof (cases "completed_focus_count (ps[i := q]) = 0")
    case True
    with v i k show ?thesis
      by (auto simp: stop_verb_def stop_def Let_def split_beta p_def [symmetric] q_def [symmetric]
          marker_def [symmetric])
  next
    case False
    with v i k show ?thesis
      by (auto simp: stop_verb_def stop_def Let_def split_beta p_def [symmetric] q_def [symmetric]
          marker_def [symmetric])
  qed
  have q: "phase_ok now s q"
    unfolding q_def by (rule closed_ok [OF l(2,3) order_refl]) auto
  have mk: "\<not> is_terminal marker" "\<not> focus_paid marker" "st_at marker = now"
    by (auto simp: marker_def is_terminal_def)
  from out obtain s' final where o: "out = (s', fst (skip_pending (ps[i := q]) now),
        (marker # snd (skip_pending (ps[i := q]) now)) @ [final])"
    and f: "same_run s s'" "s_status s' \<noteq> S_ACTIVE" "s_ended_at s' \<noteq> None" "is_terminal final"
      "\<not> focus_paid final" "st_at final \<le> now" by blast
  show ?thesis unfolding o
    by (rule kill_honours [OF ok i order_refl q _ _ _ f(1-3)])
      (use f mk in \<open>auto simp: q_def p_def status_defs dest: skip_at\<close>)
qed

lemma stop_idle_honours:
  assumes ok: "sess_ok now s ps" and i: "live_phase ps = None" and v: "stop_verb s ps now = Inr out"
  shows "honours now s ps out"
proof -
  have p: "phases_ok now s ps" using ok by (simp add: sess_ok_def)
  have "\<exists>s' final. out = (s', fst (skip_pending ps now), snd (skip_pending ps now) @ [final]) \<and>
      same_run s s' \<and> s_status s' \<noteq> S_ACTIVE \<and> s_ended_at s' \<noteq> None \<and> is_terminal final \<and>
      \<not> focus_paid final \<and> st_at final \<le> now"
    using v i by (cases "completed_focus_count ps = 0")
      (auto simp: stop_verb_def stop_def Let_def split_beta)
  then obtain s' final where o: "out = (s', fst (skip_pending ps now), snd (skip_pending ps now) @ [final])"
    and f: "same_run s s'" "s_status s' \<noteq> S_ACTIVE" "s_ended_at s' \<noteq> None" "is_terminal final"
      "\<not> focus_paid final" "st_at final \<le> now" by blast
  show ?thesis unfolding o using skip_ok [OF p i order_refl] f
    by (intro honours_dead [OF ok f(1-3)]) (auto dest: skip_at)
qed

lemma stop_honours:
  assumes "sess_ok now s ps" "s_status s = S_ACTIVE" "stop_verb s ps now = Inr out"
  shows "honours now s ps out"
proof (cases "live_phase ps")
  case None
  then show ?thesis using stop_idle_honours assms by blast
next
  case (Some i)
  then show ?thesis
    using stop_speedrun_honours stop_stopwatch_honours stop_timer_honours assms by blast
qed

subsection \<open>Finishing a speedrun\<close>

lemma solo_live:
  assumes "phases_ok now s ps" "live_phase ps = Some i" "ph_kind (ps ! i) = SPEEDRUN \<or> ph_kind (ps ! i) = STOPWATCH"
  shows "ps = [ps ! i]"
proof -
  have "length ps = 1" using assms live_phase_Some [OF assms(2)] by (auto simp: phases_ok_def solo_def)
  then show ?thesis using live_phase_Some(1) [OF assms(2)] by (cases ps) auto
qed

lemma finish_honours:
  assumes ok: "sess_ok now s ps" and act: "s_status s = S_ACTIVE" and v: "finish s ps now prior = Inr out"
  shows "honours now s ps out"
proof -
  obtain i where i: "live_phase ps = Some i" using v by (auto simp: finish_def split: option.splits)
  have k: "ph_kind (ps ! i) = SPEEDRUN" using v i by (auto simp: finish_def Let_def split: if_splits)
  note l = live_ok [OF ok i]
  define elapsed where "elapsed = max 0 (whole_seconds (now - or_now (ph_started_at (ps ! i)) now))"
  define b where "b = bank_open_pause (ps ! i) now"
  have e: "1 \<le> elapsed" using v i k by (auto simp: finish_def Let_def elapsed_def split: if_splits)
  show ?thesis
  proof (cases "speedrun_type s b = ''time_boxed'' \<and> planned_seconds b \<le> elapsed")
    case True
    obtain s' ps' final pre where a: "abandon_speedrun s i (ps[i := b]) now elapsed ''timeout'' = (s', ps', final, pre)"
      by (metis prod_cases4)
    have "out = (s', ps', pre @ [final])"
      using v i k e True a by (auto simp: finish_def Let_def elapsed_def [symmetric] b_def [symmetric])
    then show ?thesis using abandon_speedrun_honours [OF ok i k a [unfolded b_def]] by simp
  next
    case False
    define q where "q = b\<lparr>ph_status := COMPLETED, actual_seconds := Some elapsed, ph_ended_at := Some now\<rparr>"
    have "case out of (s', ps', steps) \<Rightarrow> ps' = ps[i := q] \<and> same_run s s' \<and> s_status s' \<noteq> S_ACTIVE \<and>
        s_ended_at s' \<noteq> None \<and> terminals steps = 1 \<and> paid_focus steps = 0 \<and> (\<forall>st \<in> set steps. st_at st \<le> now)"
    proof (cases "speedrun_type s b = ''time_boxed''")
      case True
      with v i k e False show ?thesis
        by (auto simp: finish_def Let_def elapsed_def [symmetric] b_def [symmetric] q_def [symmetric]
            is_terminal_def focus_paid_def)
    next
      case beat: False
      define won where "won \<longleftrightarrow> elapsed \<ge> MIN_RECORD_SECONDS \<and> (case prior of None \<Rightarrow> True | Some r \<Rightarrow> elapsed < r)"
      from v i k e beat show ?thesis
        by (cases won) (auto simp: finish_def Let_def elapsed_def [symmetric] b_def [symmetric]
            q_def [symmetric] won_def [symmetric] is_terminal_def focus_paid_def)
    qed
    then obtain s' steps where o: "out = (s', ps[i := q], steps)"
      and f: "same_run s s'" "s_status s' \<noteq> S_ACTIVE" "s_ended_at s' \<noteq> None" "terminals steps = 1"
        "paid_focus steps = 0" "\<forall>st \<in> set steps. st_at st \<le> now" by (cases out) auto
    have q: "phase_ok now s q" "\<not> unfinished q" "ph_kind q = ph_kind (ps ! i)"
      using l(2,3) k bank_pause(1) [OF l(2,3)] by (auto simp: phase_ok_def q_def b_def status_defs)
    note c = close_live [OF l(1) i q]
    have one: "ps = [ps ! i]" "i = 0" using solo_live [OF l(1) i] k l(4) by (auto dest: arg_cong [of _ _ length])
    then have "ps[i := q] = [q]" by (metis list_update_code(2))
    then have "\<forall>p \<in> set (ps[i := q]). \<not> unfinished p" using q(2) by simp
    moreover have "completed_focus_count (ps[i := q]) = completed_focus_count ps"
      using l(3,4) k q(3) by (subst completed_update) (auto simp: is_live_def)
    ultimately show ?thesis unfolding o
      using c f by (intro honours_dead [OF ok]) auto
  qed
qed

subsection \<open>Evaluation\<close>

lemma resolve_honours:
  assumes ok: "sess_ok now s ps" and none: "live_phase ps = None" and act: "s_status s = S_ACTIVE"
    and le: "last_end \<le> now"
  shows "honours now s ps (resolve_no_live s ps last_end now)"
proof -
  have p: "phases_ok now s ps" using ok by (simp add: sess_ok_def)
  show ?thesis
  proof (cases "next_pending ps = None")
    case True
    then show ?thesis using p all_closed [OF none True] le
      by (auto simp: resolve_no_live_def intro!: honours_dead [OF ok])
  next
    case pend: False
    show ?thesis
    proof (cases "now < last_end + seconds GRACE_SECONDS")
      case True
      then show ?thesis using pend p
        by (auto simp: resolve_no_live_def intro!: honours_alive [OF ok act])
    next
      case False
      then have "last_end + seconds GRACE_SECONDS \<le> now" by simp
      note sk = skip_ok [OF p none this]
      have at': "st_at st \<le> now" if "st \<in> set (snd (skip_pending ps (last_end + seconds GRACE_SECONDS)))" for st
        using skip_at [OF that] False by simp
      show ?thesis using pend False sk at'
        by (auto simp: resolve_no_live_def Let_def split_beta intro!: honours_dead [OF ok])
    qed
  qed
qed

lemma overflow_honours:
  assumes ok: "sess_ok now s ps" and i: "live_phase ps = Some i" and act: "s_status s = S_ACTIVE"
    and st: "ph_status (ps ! i) = PAUSED"
  shows "honours now s ps (check_pause_overflow s i ps now)"
proof -
  define p where "p = ps ! i"
  note l = live_ok [OF ok i, folded p_def]
  obtain t where t: "pause_started_at p = Some t" "t \<le> now" using l(2) st by (auto simp: phase_ok_def p_def)
  define extra where "extra = whole_seconds (now - t)"
  have extra: "0 \<le> extra" "seconds extra \<le> now - t"
    using t(2) by (simp_all add: extra_def whole_seconds_nonneg whole_seconds_le)
  show ?thesis
  proof (cases "paused_seconds p + extra \<le> pause_budget_seconds s")
    case True
    then have "check_pause_overflow s i ps now = (s, ps, [])"
      using t by (simp add: check_pause_overflow_def Let_def p_def [symmetric] or_now_def extra_def)
    then show ?thesis using l(1) by (auto intro!: honours_alive [OF ok act])
  next
    case False
    define at' where "at' = t + seconds (pause_budget_seconds s - paused_seconds p)"
    have "seconds (pause_budget_seconds s - paused_seconds p) \<le> seconds extra"
      using False by (simp add: seconds_def us_per_second_def)
    then have at': "at' \<le> now" using extra(2) by (simp add: at'_def)
    define q where "q = p\<lparr>ph_status := ABANDONED, ph_ended_at := Some at',
        paused_seconds := paused_seconds p + extra, pause_started_at := None\<rparr>"
    have out: "check_pause_overflow s i ps now = (s\<lparr>s_status := S_ABANDONED, s_ended_at := Some at'\<rparr>,
        fst (skip_pending (ps[i := q]) at'), snd (skip_pending (ps[i := q]) at') @
        [(Step ''session_abandoned'' (Some (ph_seq p)) at')\<lparr>st_reason := Some ''pause_overflow''\<rparr>])"
      using t False by (simp add: check_pause_overflow_def Let_def p_def [symmetric] or_now_def
          extra_def [symmetric] at'_def [symmetric] q_def split_beta)
    have "phase_ok now s q" using l(2) st extra(1) at' by (auto simp: phase_ok_def q_def status_defs p_def)
    then show ?thesis unfolding out using at'
      by (intro kill_honours [OF ok i at', of q]) (auto simp: q_def p_def status_defs dest: skip_at)
  qed
qed

lemma deadline_honours:
  assumes ok: "sess_ok now s ps" and i: "live_phase ps = Some i" and k: "ph_kind (ps ! i) = SPEEDRUN"
    and d: "check_speedrun_deadline s i ps now = Some out"
  shows "honours now s ps out"
proof -
  define p where "p = ps ! i"
  note l = live_ok [OF ok i, folded p_def]
  define dl where "dl = or_now (ph_started_at p) now + seconds (planned_seconds p)"
  have dl: "dl \<le> now" using d by (simp add: check_speedrun_deadline_def Let_def p_def [symmetric] dl_def split: if_splits)
  define q where "q = (bank_open_pause p dl)\<lparr>ph_status := ABANDONED, ph_ended_at := Some dl\<rparr>"
  have "\<exists>s' steps. out = (s', fst (skip_pending (ps[i := q]) dl), snd (skip_pending (ps[i := q]) dl) @ steps) \<and>
      same_run s s' \<and> s_status s' \<noteq> S_ACTIVE \<and> s_ended_at s' \<noteq> None \<and> terminals steps = 1 \<and>
      paid_focus steps = 0 \<and> (\<forall>st \<in> set steps. st_at st = dl)"
    using d by (auto simp: check_speedrun_deadline_def Let_def p_def [symmetric] dl_def [symmetric]
        q_def [symmetric] split_beta is_terminal_def focus_paid_def split: if_splits)
  then obtain s' steps where
    o: "out = (s', fst (skip_pending (ps[i := q]) dl), snd (skip_pending (ps[i := q]) dl) @ steps)"
    and f: "same_run s s'" "s_status s' \<noteq> S_ACTIVE" "s_ended_at s' \<noteq> None" "terminals steps = 1"
      "paid_focus steps = 0" "\<forall>st \<in> set steps. st_at st = dl" by blast
  have q: "phase_ok now s q" unfolding q_def using k
    by (intro closed_ok [OF l(2,3) dl]) (auto simp: p_def)
  show ?thesis unfolding o
    by (rule kill_honours [OF ok i dl q _ _ _ f(1-3)])
      (use f dl in \<open>auto simp: q_def p_def status_defs dest: skip_at\<close>)
qed

lemma honours_seq:
  assumes "honours now s ps1 (s', ps', rest)" "terminals steps = 0"
    and "completed_focus_count ps1 = completed_focus_count ps + paid_focus steps"
    and "\<forall>st \<in> set steps. st_at st \<le> now"
  shows "honours now s ps (s', ps', steps @ rest)"
  using assms by (auto simp: honours_def)

text \<open>One turn of the loop that closes a phase at its end.\<close>

lemma complete_phase_spec:
  assumes ok: "phases_ok now s ps" and i: "live_phase ps = Some i"
    and k: "ph_kind (ps ! i) \<noteq> STOPWATCH" "ph_kind (ps ! i) \<noteq> SPEEDRUN" and st: "ph_status (ps ! i) \<noteq> PAUSED"
    and due: "phase_end (ps ! i) now \<le> now"
  defines "ts \<equiv> phase_end (ps ! i) now"
  shows "phases_ok now s (fst (complete_phase ps i ts ab af))"
    and "\<forall>p \<in> set (fst (complete_phase ps i ts ab af)). \<forall>e. ph_ended_at p = Some e \<longrightarrow> e \<le> ts"
    and "completed_focus_count (fst (complete_phase ps i ts ab af)) =
      completed_focus_count ps + paid_focus (snd (complete_phase ps i ts ab af))"
    and "terminals (snd (complete_phase ps i ts ab af)) = 0"
    and "\<forall>stp \<in> set (snd (complete_phase ps i ts ab af)). st_at stp = ts"
proof -
  define p where "p = ps ! i"
  have l: "phase_ok now s p" "is_live p" "i < length ps"
    using live_phase_Some [OF i] phases_okD [OF ok] by (auto simp: p_def)
  obtain t0 where t0: "ph_started_at p = Some t0" using l by (auto simp: phase_ok_def)
  have "0 \<le> planned_seconds p + paused_seconds p" using l(1) k by (auto simp: phase_ok_def p_def)
  then have ts0: "t0 \<le> ts" using t0
    by (simp add: ts_def phase_end_def p_def [symmetric] or_now_def seconds_def us_per_second_def)
  define q where "q = p\<lparr>ph_status := COMPLETED, actual_seconds := Some (planned_seconds p), ph_ended_at := Some ts\<rparr>"
  have q: "phase_ok now s q" "\<not> unfinished q" "ph_kind q = ph_kind (ps ! i)"
    using l st due t0 by (auto simp: phase_ok_def q_def status_defs p_def ts_def phase_end_def or_now_def)
  note c = close_live [OF ok i q]
  have "e \<le> t0" if "a \<in> set ps" "ph_ended_at a = Some e" for a e
    using ok that l t0 unfolding phases_ok_def ordered_def p_def by (meson nth_mem)
  then have ended: "e \<le> ts" if "a \<in> set (ps[i := q])" "ph_ended_at a = Some e" for a e
    using that set_update_subset_insert [of ps i q] ts0 by (fastforce simp: q_def)
  have count: "completed_focus_count (ps[i := q]) = completed_focus_count ps + (if ph_kind p = FOCUS then 1 else 0)"
    using l q(3) by (subst completed_update) (auto simp: p_def is_live_def q_def)
  define steps1 where "steps1 = [(Step ''phase_completed'' (Some (ph_seq p)) ts)
      \<lparr>st_actual := Some (planned_seconds p), st_scored := (ph_kind p = FOCUS)\<rparr>]"
  have s1: "terminals steps1 = 0" "paid_focus steps1 = (if ph_kind p = FOCUS then 1 else 0)"
    "\<forall>stp \<in> set steps1. st_at stp = ts"
    by (simp_all add: steps1_def is_terminal_def focus_paid_def)
  have cases: "complete_phase ps i ts ab af = (ps[i := q], steps1) \<or>
      (\<exists>j. next_pending (ps[i := q]) = Some j \<and> complete_phase ps i ts ab af =
         (start_phase (ps[i := q]) j ts, steps1 @ [Step ''phase_started'' (Some (ph_seq (ps[i := q] ! j))) ts]))"
    by (auto simp: complete_phase_def Let_def p_def [symmetric] q_def steps1_def start_phase_def split: option.splits)
  have start: "phases_ok now s (start_phase (ps[i := q]) j ts)" if "next_pending (ps[i := q]) = Some j" for j
    using due ended by (intro start_ok [OF c that]) (auto simp: ts_def)
  have ended_start: "e \<le> ts" if "a \<in> set (start_phase (ps[i := q]) j ts)" "ph_ended_at a = Some e" "j < length (ps[i := q])" for a e j
    using that ended set_update_subset_insert [of "ps[i := q]" j] nth_mem [of j "ps[i := q]"]
    by (fastforce simp: start_phase_def)
  show "phases_ok now s (fst (complete_phase ps i ts ab af))" using cases c start by auto
  show "\<forall>p \<in> set (fst (complete_phase ps i ts ab af)). \<forall>e. ph_ended_at p = Some e \<longrightarrow> e \<le> ts"
    using cases ended ended_start by (fastforce dest: next_pending_Some)
  show "completed_focus_count (fst (complete_phase ps i ts ab af)) =
      completed_focus_count ps + paid_focus (snd (complete_phase ps i ts ab af))"
    using cases count s1 by (auto simp: completed_start)
  show "terminals (snd (complete_phase ps i ts ab af)) = 0"
    "\<forall>stp \<in> set (snd (complete_phase ps i ts ab af)). st_at stp = ts"
    using cases s1 by (auto simp: is_terminal_def)
qed

lemma eval_loop_honours:
  "sess_ok now s ps \<Longrightarrow> s_status s = S_ACTIVE \<Longrightarrow> last_end \<le> now \<Longrightarrow>
   \<exists>s' ps' tail. eval_loop ab af now s ps last_end steps = (s', ps', steps @ tail) \<and>
     honours now s ps (s', ps', tail)"
proof (induction ab af now s ps last_end steps rule: eval_loop.induct)
  case (1 ab af now s ps last_end steps)
  note ok = "1.prems"(1) and act = "1.prems"(2)
  have quiet: "honours now s ps (s, ps, [])"
    using ok act by (intro honours_alive) (auto simp: sess_ok_def)
  show ?case
  proof (cases "live_phase ps")
    case None
    obtain s' ps' tail where r: "resolve_no_live s ps last_end now = (s', ps', tail)" by (metis prod_cases3)
    then have "eval_loop ab af now s ps last_end steps = (s', ps', steps @ tail)"
      using None by (simp add: eval_loop.simps [of _ _ _ _ ps])
    then show ?thesis using resolve_honours [OF ok None act "1.prems"(3)] r by auto
  next
    case (Some i)
    define p where "p = ps ! i"
    note step = eval_loop.simps [of ab af now s ps last_end steps, simplified Some option.case Let_def, folded p_def]
    consider "ph_kind p = STOPWATCH" | "ph_kind p = SPEEDRUN"
      | "ph_kind p \<noteq> STOPWATCH" "ph_kind p \<noteq> SPEEDRUN" "ph_status p = PAUSED"
      | "ph_kind p \<noteq> STOPWATCH" "ph_kind p \<noteq> SPEEDRUN" "ph_status p \<noteq> PAUSED" "now < phase_end p now"
      | "ph_kind p \<noteq> STOPWATCH" "ph_kind p \<noteq> SPEEDRUN" "ph_status p \<noteq> PAUSED" "phase_end p now \<le> now"
      by fastforce
    then show ?thesis
    proof cases
      case 1
      then show ?thesis using step quiet by (intro exI [of _ s] exI [of _ ps] exI [of _ "[]"]) simp
    next
      case 2
      show ?thesis
      proof (cases "check_speedrun_deadline s i ps now")
        case None
        then show ?thesis using 2 step quiet by (intro exI [of _ s] exI [of _ ps] exI [of _ "[]"]) simp
      next
        case (Some out)
        obtain s' ps' tail where o: "out = (s', ps', tail)" by (metis prod_cases3)
        then show ?thesis
          using deadline_honours [OF ok \<open>live_phase ps = Some i\<close> _ Some] 2 step Some by (auto simp: p_def)
      qed
    next
      case 3
      obtain s' ps' tail where o: "check_pause_overflow s i ps now = (s', ps', tail)" by (metis prod_cases3)
      then show ?thesis using overflow_honours [OF ok Some act] 3 step by (auto simp: p_def)
    next
      case 4
      then show ?thesis using step quiet by (intro exI [of _ s] exI [of _ ps] exI [of _ "[]"]) simp
    next
      case 5
      define ts where "ts = phase_end p now"
      note c = complete_phase_spec [OF _ Some, folded p_def, OF _ 5, folded ts_def]
      have pk: "phases_ok now s ps" using ok by (simp add: sess_ok_def)
      have ok1: "sess_ok now s (fst (complete_phase ps i ts ab af))"
        using ok act c(1) [OF pk] by (simp add: sess_ok_def)
      have "\<exists>s' ps' tail. eval_loop ab af now s (fst (complete_phase ps i ts ab af)) ts
            (steps @ snd (complete_phase ps i ts ab af)) =
            (s', ps', (steps @ snd (complete_phase ps i ts ab af)) @ tail) \<and>
          honours now s (fst (complete_phase ps i ts ab af)) (s', ps', tail)"
        using "1.IH" [OF Some, of p] 5 ok1 act unfolding ts_def p_def by simp
      then obtain s' ps' tail where e: "eval_loop ab af now s (fst (complete_phase ps i ts ab af)) ts
            (steps @ snd (complete_phase ps i ts ab af)) =
            (s', ps', (steps @ snd (complete_phase ps i ts ab af)) @ tail)"
        and h: "honours now s (fst (complete_phase ps i ts ab af)) (s', ps', tail)" by blast
      have "honours now s ps (s', ps', snd (complete_phase ps i ts ab af) @ tail)"
        using 5(4) by (intro honours_seq [OF h c(4) [OF pk] c(3) [OF pk]])
          (simp add: c(5) [OF pk], simp add: ts_def)
      then show ?thesis using step 5 e unfolding ts_def by auto
    qed
  qed
qed

lemma fold_max_le: "(\<forall>x \<in> set xs. x \<le> b) \<Longrightarrow> a \<le> b \<Longrightarrow> fold max xs a \<le> (b :: int)"
  by (induction xs arbitrary: a) auto

lemma last_end_le:
  assumes "sess_ok now s ps" shows "last_end_of s ps \<le> now"
proof -
  have "e \<le> now" if "e \<in> set (List.map_filter ph_ended_at ps)" for e
    using that assms by (auto simp: List.map_filter_def sess_ok_def intro: ended_before)
  then show ?thesis using assms
    by (auto simp: last_end_of_def sess_ok_def split: list.splits intro: fold_max_le)
qed

definition evaluate_verb :: "session \<Rightarrow> phase list \<Rightarrow> datetime \<Rightarrow> verb_result" where
  "evaluate_verb s phases now = Inr (evaluate s phases now)"

lemma evaluate_honours:
  assumes "sess_ok now s ps" "s_status s = S_ACTIVE"
  shows "honours now s ps (evaluate s ps now)"
proof -
  obtain s' ps' tail where "evaluate s ps now = (s', ps', tail)" "honours now s ps (s', ps', tail)"
    using eval_loop_honours [OF assms last_end_le [OF assms(1)],
        of "preset_flag s ''auto_start_breaks'' True" "preset_flag s ''auto_start_focus'' False" "[]"] assms(2)
    by (auto simp: evaluate_def)
  then show ?thesis by simp
qed

interpretation pausing: session_verb pause
  by unfold_locales (rule pause_honours)

interpretation resuming: session_verb resume
  by unfold_locales (rule resume_honours)

interpretation advancing: session_verb advance
  by unfold_locales (rule advance_honours)

interpretation stopping: session_verb stop_verb
  by unfold_locales (rule stop_honours)

interpretation finishing: session_verb "\<lambda>s ps now. finish s ps now prior" for prior
  by unfold_locales (rule finish_honours)

interpretation evaluating: session_verb evaluate_verb
  by unfold_locales (auto simp: evaluate_verb_def dest: evaluate_honours)

end
