(* ===== verification/SessionClosing.thy ===== *)
theory SessionClosing
  imports SessionVerbs
begin

text \<open>
  The ledger closes each phase once. \<open>closes_as\<close> reads off a ledger step which phase it closes and how;
  \<open>closed_by\<close> says that the steps of an operation close exactly the phases whose row it closes, with the
  status the row ends in. The locale \<open>closing_verb\<close> is the contract, interpreted on every verb and on
  \<open>evaluate\<close>.
\<close>

subsection \<open>What a step closes\<close>

text \<open>A completed, skipped or abandoned phase has a step of its own, except the phase whose pause overran:
  there the step that abandons the session names it. A milestone of a stopwatch closes nothing.\<close>

definition closes_as :: "int \<Rightarrow> step \<Rightarrow> phase_status option" where
  "closes_as n st =
     (if st_seq st \<noteq> Some n then None
      else if st_kind st = ''phase_completed'' \<and> st_extra st = [] then Some COMPLETED
      else if st_kind st = ''phase_skipped'' then Some SKIPPED
      else if st_kind st = ''phase_abandoned'' \<or> st_kind st = ''session_abandoned'' \<and> st_reason st = Some ''pause_overflow''
      then Some ABANDONED
      else None)"

definition outcomes :: "int \<Rightarrow> step list \<Rightarrow> phase_status list" where
  "outcomes n steps = List.map_filter (closes_as n) steps"

text \<open>What the ledger owes a row that went from \<open>p\<close> to \<open>q\<close>; a stopped stopwatch is paid by its milestones.\<close>

definition owed :: "phase \<Rightarrow> phase \<Rightarrow> phase_status list" where
  "owed p q = (if unfinished p \<and> \<not> unfinished q \<and> \<not> (ph_kind q = STOPWATCH \<and> ph_status q = COMPLETED) then [ph_status q] else [])"

definition shape :: "phase list \<Rightarrow> (int \<times> phase_kind) list" where
  "shape ps = map (\<lambda>p. (ph_seq p, ph_kind p)) ps"

definition closed_by :: "phase list \<Rightarrow> phase list \<Rightarrow> step list \<Rightarrow> bool" where
  "closed_by ps ps' steps \<longleftrightarrow> shape ps' = shape ps \<and> (\<forall>i < length ps.
     outcomes (ph_seq (ps ! i)) steps = owed (ps ! i) (ps' ! i)
     \<and> (\<not> unfinished (ps ! i) \<longrightarrow> ph_status (ps' ! i) = ph_status (ps ! i)))
     \<and> (\<forall>n. n \<notin> ph_seq ` set ps \<longrightarrow> outcomes n steps = [])"

lemma outcomes_simps [simp]:
  "outcomes n [] = []" "outcomes n (xs @ ys) = outcomes n xs @ outcomes n ys"
  "outcomes n (x # xs) = (case closes_as n x of Some k \<Rightarrow> k # outcomes n xs | None \<Rightarrow> outcomes n xs)"
  by (simp_all add: outcomes_def List.map_filter_def split: option.split)

lemma shapeD:
  assumes "shape ps' = shape ps"
  shows "length ps' = length ps" "map ph_seq ps' = map ph_seq ps"
    "i < length ps \<Longrightarrow> ph_seq (ps' ! i) = ph_seq (ps ! i)" "i < length ps \<Longrightarrow> ph_kind (ps' ! i) = ph_kind (ps ! i)"
proof -
  show l: "length ps' = length ps" using assms unfolding shape_def by (metis length_map)
  have "map fst (shape ps') = map fst (shape ps)" using assms by simp
  then show "map ph_seq ps' = map ph_seq ps" by (simp add: shape_def comp_def)
  assume "i < length ps"
  then have "shape ps' ! i = shape ps ! i" "i < length ps'" using assms l by simp_all
  then show "ph_seq (ps' ! i) = ph_seq (ps ! i)" "ph_kind (ps' ! i) = ph_kind (ps ! i)"
    using \<open>i < length ps\<close> by (simp_all add: shape_def)
qed

lemma closed_refl [simp]: "closed_by ps ps []"
  by (auto simp: closed_by_def owed_def)

lemma closed_trans:
  assumes "closed_by a b x" "closed_by b c y"
    and "\<And>n. outcomes n z = outcomes n x @ outcomes n y \<or> outcomes n z = outcomes n y @ outcomes n x"
  shows "closed_by a c z"
proof -
  have "shape b = shape a" using assms(1) by (simp add: closed_by_def)
  note s = shapeD [OF this]
  have "shape c = shape a" using assms(1,2) by (simp add: closed_by_def)
  note t = shapeD [OF this]
  have "outcomes (ph_seq (a ! i)) z = owed (a ! i) (c ! i) \<and> (\<not> unfinished (a ! i) \<longrightarrow> ph_status (c ! i) = ph_status (a ! i))"
    if i: "i < length a" for i
  proof -
    have "outcomes (ph_seq (a ! i)) x = owed (a ! i) (b ! i)" "outcomes (ph_seq (a ! i)) y = owed (b ! i) (c ! i)"
      and keep: "\<not> unfinished (a ! i) \<Longrightarrow> ph_status (b ! i) = ph_status (a ! i)" "\<not> unfinished (b ! i) \<Longrightarrow> ph_status (c ! i) = ph_status (b ! i)"
      using assms(1,2) i s unfolding closed_by_def by (metis)+
    then have "outcomes (ph_seq (a ! i)) z \<in> {owed (a ! i) (b ! i) @ owed (b ! i) (c ! i), owed (b ! i) (c ! i) @ owed (a ! i) (b ! i)}"
      using assms(3) [of "ph_seq (a ! i)"] by simp
    moreover have kind: "ph_kind (b ! i) = ph_kind (a ! i)" "ph_kind (c ! i) = ph_kind (a ! i)" using s(4) t(4) i by auto
    have same: "unfinished p = unfinished q" if "ph_status p = ph_status q" for p q using that by (simp add: unfinished_iff)
    ultimately show ?thesis
    proof (cases "unfinished (a ! i)")
      case False
      note b = keep(1) [OF False]
      then have "\<not> unfinished (b ! i)" using same False by blast
      with \<open>outcomes _ z \<in> _\<close> False b keep(2) show ?thesis by (simp add: owed_def)
    next
      case True
      show ?thesis
      proof (cases "unfinished (b ! i)")
        case b: True
        with \<open>outcomes _ z \<in> _\<close> True show ?thesis by (simp add: owed_def)
      next
        case b: False
        note c = keep(2) [OF b]
        then have "\<not> unfinished (c ! i)" using same b by blast
        with \<open>outcomes _ z \<in> _\<close> True b c kind show ?thesis by (simp add: owed_def)
      qed
    qed
  qed
  moreover have "outcomes n z = []" if "n \<notin> ph_seq ` set a" for n
  proof -
    have "ph_seq ` set b = ph_seq ` set a" using s(2) by (metis set_map)
    then have "outcomes n x = []" "outcomes n y = []" using assms(1,2) that by (simp_all add: closed_by_def)
    then show ?thesis using assms(3) [of n] by simp
  qed
  ultimately show ?thesis using \<open>shape c = shape a\<close> by (simp add: closed_by_def)
qed

text \<open>Steps that close nothing may be added anywhere.\<close>

lemma closed_more: "closed_by a b x \<Longrightarrow> (\<And>n. outcomes n z = outcomes n x) \<Longrightarrow> closed_by a b z"
  by (simp add: closed_by_def)

lemma closed_shape: "closed_by a b x \<Longrightarrow> map ph_seq b = map ph_seq a"
  unfolding closed_by_def by (elim conjE) (rule shapeD(2))

subsection \<open>The ways to change a row\<close>

text \<open>One row is replaced, and the steps say so of that row only.\<close>

lemma closed_update:
  assumes "distinct (map ph_seq ps)" "i < length ps" "unfinished (ps ! i)" "ph_seq q = ph_seq (ps ! i)" "ph_kind q = ph_kind (ps ! i)"
    and "\<And>n. outcomes n steps = (if n = ph_seq (ps ! i) then owed (ps ! i) q else [])"
  shows "closed_by ps (ps[i := q]) steps"
proof -
  have "shape (ps[i := q]) = shape ps"
    by (rule nth_equalityI) (use assms(2,4,5) in \<open>auto simp: shape_def nth_list_update\<close>)
  moreover have "ph_seq (ps ! j) \<noteq> ph_seq (ps ! i)" if "j < length ps" "j \<noteq> i" for j
    using assms(1,2) that by (auto simp: distinct_conv_nth)
  ultimately show ?thesis using assms(2,3,6) by (auto simp: closed_by_def nth_list_update owed_def)
qed

lemma filter_key: "distinct (map f xs) \<Longrightarrow> i < length xs \<Longrightarrow>
  filter (\<lambda>x. P x \<and> f x = f (xs ! i)) xs = (if P (xs ! i) then [xs ! i] else [])"
proof (induction xs arbitrary: i)
  case Nil
  then show ?case by simp
next
  case (Cons x xs)
  show ?case
  proof (cases i)
    case 0
    have "f x \<notin> f ` set xs" using Cons.prems by simp
    then have "filter (\<lambda>y. P y \<and> f y = f x) xs = []" unfolding filter_empty_conv by (metis imageI)
    with 0 show ?thesis by simp
  next
    case (Suc j)
    with Cons.prems have "f x \<noteq> f (xs ! j)" by auto
    with Suc Cons show ?thesis by simp
  qed
qed

lemma skip_outcomes: "outcomes n (snd (skip_pending ps t)) = map (\<lambda>p. SKIPPED) (filter (\<lambda>p. ph_status p = PENDING \<and> ph_seq p = n) ps)"
  unfolding skip_pending_def snd_conv by (induction ps) (auto simp: closes_as_def)

lemma closed_skip:
  assumes "distinct (map ph_seq ps)"
  shows "closed_by ps (fst (skip_pending ps t)) (snd (skip_pending ps t))"
proof -
  have "shape (fst (skip_pending ps t)) = shape ps" by (auto simp: shape_def skip_pending_def)
  then show ?thesis
    using filter_key [OF assms, of _ "\<lambda>p. ph_status p = PENDING"]
    by (auto simp: closed_by_def skip_outcomes filter_empty_conv) (auto simp: skip_pending_def owed_def unfinished_iff is_live_def)
qed

text \<open>One row is closed and the pending ones are skipped: how a session dies.\<close>

lemma closed_die:
  assumes "distinct (map ph_seq ps)" "live_phase ps = Some i" "ph_seq q = ph_seq (ps ! i)" "ph_kind q = ph_kind (ps ! i)"
    and "\<And>n. outcomes n steps = (if n = ph_seq (ps ! i) then owed (ps ! i) q else [])"
    and "\<And>n. outcomes n z = outcomes n (snd (skip_pending (ps[i := q]) t)) @ outcomes n steps
           \<or> outcomes n z = outcomes n steps @ outcomes n (snd (skip_pending (ps[i := q]) t))"
  shows "closed_by ps (fst (skip_pending (ps[i := q]) t)) z"
proof -
  note l = live_phase_Some [OF assms(2)]
  have u: "closed_by ps (ps[i := q]) steps"
    by (rule closed_update [OF assms(1) l(1) _ assms(3,4,5)]) (simp add: unfinished_def l(2))
  have "distinct (map ph_seq (ps[i := q]))" using closed_shape [OF u] assms(1) by simp
  from closed_trans [OF u closed_skip [OF this]] assms(6) show ?thesis by blast
qed

text \<open>A pending row starts.\<close>

lemma closed_start:
  assumes "distinct (map ph_seq ps)" "next_pending ps = Some j" "\<And>n. outcomes n steps = []"
  shows "closed_by ps (ps[j := (ps ! j)\<lparr>ph_status := ACTIVE, ph_started_at := Some t\<rparr>]) steps"
  using next_pending_Some [OF assms(2)]
  by (intro closed_update assms) (auto simp: assms(3) owed_def unfinished_iff)

subsection \<open>Evaluation\<close>

lemma closed_complete:
  assumes "distinct (map ph_seq ps)" "live_phase ps = Some i" "ph_kind (ps ! i) \<noteq> STOPWATCH"
  shows "closed_by ps (fst (complete_phase ps i t ab af)) (snd (complete_phase ps i t ab af))"
proof -
  note l = live_phase_Some [OF assms(2)]
  define q where "q = (ps ! i)\<lparr>ph_status := COMPLETED, actual_seconds := Some (planned_seconds (ps ! i)), ph_ended_at := Some t\<rparr>"
  define st where "st = (Step ''phase_completed'' (Some (ph_seq (ps ! i))) t)
      \<lparr>st_actual := Some (planned_seconds (ps ! i)), st_scored := (ph_kind (ps ! i) = FOCUS)\<rparr>"
  have "outcomes n [st] = (if n = ph_seq (ps ! i) then owed (ps ! i) q else [])" for n
    using assms(3) l(2) by (auto simp: closes_as_def st_def owed_def q_def unfinished_iff is_live_def)
  then have u: "closed_by ps (ps[i := q]) [st]"
    using l assms(1) by (intro closed_update) (auto simp: q_def unfinished_def)
  have d: "distinct (map ph_seq (ps[i := q]))" using closed_shape [OF u] assms(1) by simp
  show ?thesis
  proof (cases "next_pending (ps[i := q])")
    case None
    with u show ?thesis by (simp add: complete_phase_def Let_def q_def st_def del: outcomes_simps)
  next
    case (Some j)
    have "closed_by (ps[i := q]) ((ps[i := q])[j := (ps[i := q] ! j)\<lparr>ph_status := ACTIVE, ph_started_at := Some t\<rparr>])
        [Step ''phase_started'' seq t]" for seq
      by (rule closed_start [OF d Some]) (simp add: closes_as_def)
    note two = closed_trans [OF u this]
    have "closed_by ps ((ps[i := q])[j := (ps[i := q] ! j)\<lparr>ph_status := ACTIVE, ph_started_at := Some t\<rparr>])
        [st, Step ''phase_started'' seq t]" for seq
      by (rule two) (simp add: closes_as_def split: option.split)
    with u Some show ?thesis by (simp add: complete_phase_def Let_def q_def [symmetric] st_def [symmetric] del: outcomes_simps)
  qed
qed

lemma closed_resolve:
  assumes "distinct (map ph_seq ps)" "resolve_no_live s ps le now = (s', ps', steps)"
  shows "closed_by ps ps' steps"
proof -
  let ?t = "le + seconds GRACE_SECONDS"
  have neutral: "closes_as n (Step ''session_ended'' None t) = None"
    "closes_as n ((Step ''session_abandoned'' None t)\<lparr>st_reason := Some r\<rparr>) = None" for n t r
    by (simp_all add: closes_as_def)
  have "closed_by ps (fst (skip_pending ps ?t)) (snd (skip_pending ps ?t) @ [st])" if "\<And>n. closes_as n st = None" for st
    by (rule closed_more [OF closed_skip [OF assms(1)]]) (simp add: that)
  moreover have "closed_by ps ps [st]" if "\<And>n. closes_as n st = None" for st
    by (rule closed_more [OF closed_refl]) (simp add: that)
  ultimately show ?thesis using assms(2) neutral
    by (auto simp: resolve_no_live_def Let_def split_beta split: if_splits)
qed

lemma closed_overflow:
  assumes "distinct (map ph_seq ps)" "live_phase ps = Some i" "check_pause_overflow s i ps now = (s', ps', steps)"
  shows "closed_by ps ps' steps"
proof (cases "paused_seconds (ps ! i) + whole_seconds (now - or_now (pause_started_at (ps ! i)) now) \<le> pause_budget_seconds s")
  case True
  with assms(3) show ?thesis by (simp add: check_pause_overflow_def Let_def)
next
  case False
  note l = live_phase_Some [OF assms(2)]
  let ?t = "or_now (pause_started_at (ps ! i)) now + seconds (pause_budget_seconds s - paused_seconds (ps ! i))"
  let ?q = "(ps ! i)\<lparr>ph_status := ABANDONED, ph_ended_at := Some ?t, paused_seconds := paused_seconds (ps ! i)
      + whole_seconds (now - or_now (pause_started_at (ps ! i)) now), pause_started_at := None\<rparr>"
  let ?st = "(Step ''session_abandoned'' (Some (ph_seq (ps ! i))) ?t)\<lparr>st_reason := Some ''pause_overflow''\<rparr>"
  have "closed_by ps (fst (skip_pending (ps[i := ?q]) ?t)) (snd (skip_pending (ps[i := ?q]) ?t) @ [?st])"
    by (rule closed_die [OF assms(1,2), where steps = "[?st]"])
      (use l(2) in \<open>auto simp: closes_as_def owed_def unfinished_iff is_live_def\<close>)
  with False assms(3) show ?thesis by (simp add: check_pause_overflow_def Let_def split_beta)
qed

lemma closed_deadline:
  assumes "distinct (map ph_seq ps)" "live_phase ps = Some i" "check_speedrun_deadline s i ps now = Some (s', ps', steps)"
  shows "closed_by ps ps' steps"
proof -
  note l = live_phase_Some [OF assms(2)]
  define t where "t = or_now (ph_started_at (ps ! i)) now + seconds (planned_seconds (ps ! i))"
  define q where "q = (bank_open_pause (ps ! i) t)\<lparr>ph_status := ABANDONED, ph_ended_at := Some t\<rparr>"
  have q: "ph_seq q = ph_seq (ps ! i)" "ph_kind q = ph_kind (ps ! i)"
    by (simp_all add: q_def bank_open_pause_def split: option.split)
  have own: "outcomes n (Step ''phase_abandoned'' (Some (ph_seq (ps ! i))) t # [st])
      = (if n = ph_seq (ps ! i) then owed (ps ! i) q else [])" if "st_kind st = ''speedrun_failed''" for n st
    using l(2) that by (auto simp: closes_as_def owed_def q_def unfinished_iff is_live_def)
  have "closed_by ps (fst (skip_pending (ps[i := q]) t))
      (snd (skip_pending (ps[i := q]) t) @ Step ''phase_abandoned'' (Some (ph_seq (ps ! i))) t # [st])"
    if "st_kind st = ''speedrun_failed''" for st
    by (rule closed_die [OF assms(1,2) q own [OF that]]) simp
  with assms(3) show ?thesis
    by (auto simp: check_speedrun_deadline_def Let_def split_beta t_def [symmetric] q_def [symmetric] simp del: outcomes_simps split: if_splits)
qed

lemma closed_loop:
  "distinct (map ph_seq ps) \<Longrightarrow> \<exists>s' ps' more. eval_loop ab af now s ps le steps = (s', ps', steps @ more) \<and> closed_by ps ps' more"
proof (induction ab af now s ps le steps rule: eval_loop.induct)
  case (1 ab af now s ps le steps)
  note unf = eval_loop.simps [of ab af now s ps le steps]
  show ?case
  proof (cases "live_phase ps")
    case None
    with closed_resolve [OF "1.prems"] show ?thesis by (cases "resolve_no_live s ps le now") (auto simp: unf Let_def)
  next
    case (Some i)
    let ?p = "ps ! i"
    consider (watch) "ph_kind ?p = STOPWATCH" | (run) "ph_kind ?p = SPEEDRUN"
      | (paused) "ph_kind ?p \<noteq> STOPWATCH" "ph_kind ?p \<noteq> SPEEDRUN" "ph_status ?p = PAUSED"
      | (still) "ph_kind ?p \<noteq> STOPWATCH" "ph_kind ?p \<noteq> SPEEDRUN" "ph_status ?p \<noteq> PAUSED" "now < phase_end ?p now"
      | (turn) "ph_kind ?p \<noteq> STOPWATCH" "ph_kind ?p \<noteq> SPEEDRUN" "ph_status ?p \<noteq> PAUSED" "\<not> now < phase_end ?p now" by blast
    then show ?thesis
    proof cases
      case watch
      with Some show ?thesis by (simp add: unf Let_def)
    next
      case run
      with Some closed_deadline [OF "1.prems" Some] show ?thesis
        by (cases "check_speedrun_deadline s i ps now") (auto simp: unf Let_def)
    next
      case paused
      with Some closed_overflow [OF "1.prems" Some] show ?thesis
        by (cases "check_pause_overflow s i ps now") (auto simp: unf Let_def)
    next
      case still
      with Some show ?thesis by (simp add: unf Let_def)
    next
      case turn
      let ?n = "complete_phase ps i (phase_end ?p now) ab af"
      have c: "closed_by ps (fst ?n) (snd ?n)" by (rule closed_complete [OF "1.prems" Some turn(1)])
      then have d: "distinct (map ph_seq (fst ?n))" using closed_shape "1.prems" by simp
      from "1.IH" [OF Some refl turn d] obtain s' ps' more where
        m: "eval_loop ab af now s (fst ?n) (phase_end ?p now) (steps @ snd ?n) = (s', ps', (steps @ snd ?n) @ more)"
          "closed_by (fst ?n) ps' more" by blast
      have "closed_by ps ps' (snd ?n @ more)" by (rule closed_trans [OF c m(2)]) simp
      with Some turn m(1) show ?thesis by (simp add: unf Let_def)
    qed
  qed
qed

lemma closed_evaluate:
  assumes "distinct (map ph_seq ps)" "evaluate s ps now = (s', ps', steps)"
  shows "closed_by ps ps' steps"
proof (cases "s_status s = S_ACTIVE")
  case True
  obtain s2 ps2 more where "eval_loop (preset_flag s ''auto_start_breaks'' True) (preset_flag s ''auto_start_focus'' False)
      now s ps (last_end_of s ps) [] = (s2, ps2, [] @ more)" "closed_by ps ps2 more"
    using closed_loop [OF assms(1)] by blast
  with True assms(2) show ?thesis by (simp add: evaluate_def)
next
  case False
  with assms(2) show ?thesis by (simp add: evaluate_def)
qed

subsection \<open>The verbs\<close>

text \<open>A live row is changed in place; the steps close nothing.\<close>

lemma closed_live:
  assumes "distinct (map ph_seq ps)" "live_phase ps = Some i" "is_live q" "ph_seq q = ph_seq (ps ! i)" "ph_kind q = ph_kind (ps ! i)"
    and "\<And>n. outcomes n steps = []"
  shows "closed_by ps (ps[i := q]) steps"
  using live_phase_Some [OF assms(2)] assms by (intro closed_update) (auto simp: unfinished_def owed_def)

lemma closed_pause:
  assumes "distinct (map ph_seq ps)" "pause s ps now = Inr (s', ps', steps)"
  shows "closed_by ps ps' steps"
proof -
  obtain i where i: "live_phase ps = Some i" using assms(2) by (auto simp: pause_def split: option.splits)
  note l = live_phase_Some [OF i]
  let ?q = "(ps ! i)\<lparr>ph_status := ABANDONED, ph_ended_at := Some now, pause_started_at := None\<rparr>"
  let ?st = "(Step ''session_abandoned'' (Some (ph_seq (ps ! i))) now)\<lparr>st_reason := Some ''pause_overflow''\<rparr>"
  have "closed_by ps (fst (skip_pending (ps[i := ?q]) now)) (snd (skip_pending (ps[i := ?q]) now) @ [?st])"
    by (rule closed_die [OF assms(1) i, where steps = "[?st]"])
      (use l(2) in \<open>auto simp: closes_as_def owed_def unfinished_iff is_live_def\<close>)
  moreover have "closed_by ps (ps[i := (ps ! i)\<lparr>pause_count := pause_count (ps ! i) + 1, pause_started_at := Some now, ph_status := PAUSED\<rparr>])
      [(Step ''phase_paused'' (Some (ph_seq (ps ! i))) now)\<lparr>st_extra := x\<rparr>]" for x
    by (rule closed_live [OF assms(1) i]) (simp_all add: is_live_def closes_as_def)
  ultimately show ?thesis using assms(2) i
    by (auto simp: pause_def Let_def split_beta simp del: outcomes_simps split: if_splits)
qed

lemma closed_resume:
  assumes "distinct (map ph_seq ps)" "resume s ps now = Inr (s', ps', steps)"
  shows "closed_by ps ps' steps"
proof -
  obtain i where i: "live_phase ps = Some i" using assms(2) by (auto simp: resume_def split: option.splits)
  note l = live_phase_Some [OF i]
  have "closed_by ps (fst (skip_pending (ps[i := q]) now)) (snd (skip_pending (ps[i := q]) now)
      @ [(Step ''session_abandoned'' (Some (ph_seq (ps ! i))) now)\<lparr>st_reason := Some ''pause_overflow''\<rparr>])"
    if "q = (ps ! i)\<lparr>ph_status := ABANDONED, ph_ended_at := Some now, paused_seconds := x, pause_started_at := None\<rparr>" for q x
    by (rule closed_die [OF assms(1) i, where steps = "[(Step ''session_abandoned'' (Some (ph_seq (ps ! i))) now)\<lparr>st_reason := Some ''pause_overflow''\<rparr>]"])
      (use l(2) that in \<open>auto simp: closes_as_def owed_def unfinished_iff is_live_def\<close>)
  moreover have "closed_by ps (ps[i := (ps ! i)\<lparr>paused_seconds := y, pause_started_at := None, ph_status := ACTIVE\<rparr>])
      [(Step ''phase_resumed'' (Some (ph_seq (ps ! i))) now)\<lparr>st_extra := x\<rparr>]" for x y
    by (rule closed_live [OF assms(1) i]) (simp_all add: is_live_def closes_as_def)
  ultimately show ?thesis using assms(2) i
    by (auto simp: resume_def Let_def split_beta simp del: outcomes_simps split: if_splits)
qed

lemma closed_advance:
  assumes "distinct (map ph_seq ps)" "advance s ps now = Inr (s', ps', steps)"
  shows "closed_by ps ps' steps"
proof (cases "live_phase ps")
  case None
  then obtain j where j: "next_pending ps = Some j" using assms(2) by (auto simp: advance_def split: option.splits)
  have "closed_by ps (start_phase ps j now) [Step ''phase_started'' (Some (ph_seq (ps ! j))) now]"
    unfolding start_phase_def by (rule closed_start [OF assms(1) j]) (simp add: closes_as_def)
  with None j assms(2) show ?thesis by (auto simp: advance_def)
next
  case (Some i)
  note l = live_phase_Some [OF Some]
  define q where "q = (ps ! i)\<lparr>ph_status := SKIPPED, ph_ended_at := Some now\<rparr>"
  define st where "st = Step ''phase_skipped'' (Some (ph_seq (ps ! i))) now"
  have "outcomes n [st] = (if n = ph_seq (ps ! i) then owed (ps ! i) q else [])" for n
    using l(2) by (auto simp: closes_as_def st_def owed_def q_def unfinished_iff is_live_def)
  then have u: "closed_by ps (ps[i := q]) [st]"
    using l assms(1) by (intro closed_update) (auto simp: q_def unfinished_def)
  have d: "distinct (map ph_seq (ps[i := q]))" using closed_shape [OF u] assms(1) by simp
  have started: "closed_by ps (start_phase (ps[i := q]) j now) [st, Step ''phase_started'' seq now]" if j: "next_pending (ps[i := q]) = Some j" for j seq
  proof -
    have "closed_by (ps[i := q]) (start_phase (ps[i := q]) j now) [Step ''phase_started'' seq now]"
      unfolding start_phase_def by (rule closed_start [OF d j]) (simp add: closes_as_def)
    from closed_trans [OF u this] show ?thesis by (simp add: closes_as_def split: option.split)
  qed
  have ended: "closed_by ps (ps[i := q]) [st, Step ''session_ended'' None now]"
    by (rule closed_more [OF u]) (simp add: closes_as_def)
  show ?thesis using assms(2) Some started ended
    by (auto simp: advance_def Let_def q_def [symmetric] st_def [symmetric] simp del: outcomes_simps split: if_splits option.splits)
qed

text \<open>An abandoned speedrun, whichever verb abandons it; the step that says so comes last.\<close>

lemma closed_abandon:
  assumes "distinct (map ph_seq ps)" "live_phase ps = Some i" "ph_seq b = ph_seq (ps ! i)" "ph_kind b = ph_kind (ps ! i)"
    and "abandon_speedrun s i (ps[i := b]) now elapsed reason = (s', ps', final, pre)"
  shows "closed_by ps ps' (pre @ [final])"
proof -
  note l = live_phase_Some [OF assms(2)]
  define q where "q = b\<lparr>ph_status := ABANDONED, ph_ended_at := Some now\<rparr>"
  have q: "ph_seq q = ph_seq (ps ! i)" "ph_kind q = ph_kind (ps ! i)" using assms(3,4) by (simp_all add: q_def)
  have own: "outcomes n [Step ''phase_abandoned'' (Some (ph_seq (ps ! i))) now] = (if n = ph_seq (ps ! i) then owed (ps ! i) q else [])" for n
    using l(2) by (auto simp: closes_as_def owed_def q_def unfinished_iff is_live_def)
  have "closed_by ps (fst (skip_pending (ps[i := q]) now))
      ((Step ''phase_abandoned'' (Some (ph_seq (ps ! i))) now # snd (skip_pending (ps[i := q]) now)) @ [st])"
    if "st_kind st = ''speedrun_failed''" for st
    by (rule closed_die [OF assms(1,2) q own]) (simp add: that closes_as_def)
  with assms(3,5) l(1) show ?thesis
    by (auto simp: abandon_speedrun_def Let_def split_beta q_def simp del: outcomes_simps)
qed

lemma milestones_close_nothing: "outcomes n (milestone_steps seq actual started paused) = []"
proof -
  have "List.map_filter (closes_as n) (map (\<lambda>i. (Step ''phase_completed'' (Some seq) (t i))
      \<lparr>st_actual := a i, st_scored := True, st_extra := [(''milestone_index'', JInt i)]\<rparr>) is) = []" for t a "is"
    by (induction "is") (simp_all add: closes_as_def List.map_filter_def)
  then show ?thesis by (simp add: milestone_steps_def Let_def outcomes_def)
qed

lemma bank_same [simp]: "ph_seq (bank_open_pause p t) = ph_seq p" "ph_kind (bank_open_pause p t) = ph_kind p"
  by (simp_all add: bank_open_pause_def split: option.split)

lemma closed_stop:
  assumes "distinct (map ph_seq ps)" "stop_verb s ps now = Inr (s', ps', steps)"
  shows "closed_by ps ps' steps"
proof (cases "live_phase ps")
  case None
  have "closed_by ps (fst (skip_pending ps now)) (snd (skip_pending ps now) @ [st])" if "st_seq st = None" for st
    by (rule closed_more [OF closed_skip [OF assms(1)]]) (simp add: that closes_as_def)
  with None assms(2) show ?thesis
    by (auto simp: stop_verb_def stop_def Let_def split_beta simp del: outcomes_simps split: if_splits)
next
  case (Some i)
  note l = live_phase_Some [OF Some]
  let ?p = "ps ! i"
  consider (run) "ph_kind ?p = SPEEDRUN" | (watch) "ph_kind ?p = STOPWATCH" | (timer) "ph_kind ?p \<noteq> SPEEDRUN" "ph_kind ?p \<noteq> STOPWATCH" by blast
  then show ?thesis
  proof cases
    case run
    obtain s2 ps2 final pre where a: "abandon_speedrun s i (ps[i := bank_open_pause ?p now]) now
        (max 0 (whole_seconds (now - or_now (ph_started_at ?p) now))) ''abandon'' = (s2, ps2, final, pre)" by (metis prod_cases4)
    from closed_abandon [OF assms(1) Some _ _ this] run Some a assms(2) show ?thesis
      by (simp add: stop_verb_def stop_def Let_def)
  next
    case watch
    have "closed_by ps (fst (skip_pending (ps[i := q]) now))
        (milestone_steps seq a st pz @ snd (skip_pending (ps[i := q]) now) @ [Step ''session_ended'' None now])"
      if "ph_status q = COMPLETED" "ph_kind q = STOPWATCH" "ph_seq q = ph_seq ?p" for q seq a st pz
      by (rule closed_die [OF assms(1) Some that(3), where steps = "[]"])
        (use that watch in \<open>simp_all add: owed_def milestones_close_nothing closes_as_def\<close>)
    with watch Some assms(2) show ?thesis
      by (auto simp: stop_verb_def stop_def Let_def split_beta simp del: outcomes_simps)
  next
    case timer
    define q where "q = (bank_open_pause ?p now)\<lparr>ph_status := (if ph_kind ?p = FOCUS then ABANDONED else SKIPPED), ph_ended_at := Some now\<rparr>"
    define st where "st = Step (if ph_kind ?p = FOCUS then ''phase_abandoned'' else ''phase_skipped'') (Some (ph_seq ?p)) now"
    have own: "outcomes n [st] = (if n = ph_seq ?p then owed ?p q else [])" for n
      using l(2) timer by (auto simp: closes_as_def st_def owed_def q_def unfinished_iff is_live_def)
    have "closed_by ps (fst (skip_pending (ps[i := q]) now)) ((st # snd (skip_pending (ps[i := q]) now)) @ [final])"
      if "\<And>n. closes_as n final = None" for final
      by (rule closed_die [OF assms(1) Some _ _ own]) (simp_all add: q_def that split: option.split)
    moreover have "closes_as n (Step ''session_ended'' None now) = None"
      "closes_as n ((Step ''session_abandoned'' seq now)\<lparr>st_reason := Some ''manual_stop''\<rparr>) = None" for n seq
      by (simp_all add: closes_as_def)
    ultimately show ?thesis using timer Some assms(2)
      by (auto simp: stop_verb_def stop_def Let_def split_beta q_def [symmetric] st_def [symmetric] simp del: outcomes_simps split: if_splits)
  qed
qed

lemma closed_finish:
  assumes "distinct (map ph_seq ps)" "finish s ps now prior = Inr (s', ps', steps)"
  shows "closed_by ps ps' steps"
proof -
  obtain i where i: "live_phase ps = Some i" "ph_kind (ps ! i) = SPEEDRUN"
    using assms(2) by (auto simp: finish_def Let_def split: option.splits if_splits)
  note l = live_phase_Some [OF i(1)]
  let ?b = "bank_open_pause (ps ! i) now"
  define elapsed where "elapsed = max 0 (whole_seconds (now - or_now (ph_started_at (ps ! i)) now))"
  define q where "q = ?b\<lparr>ph_status := COMPLETED, actual_seconds := Some elapsed, ph_ended_at := Some now\<rparr>"
  define st where "st = (Step ''phase_completed'' (Some (ph_seq (ps ! i))) now)\<lparr>st_actual := Some elapsed\<rparr>"
  have "outcomes n [st] = (if n = ph_seq (ps ! i) then owed (ps ! i) q else [])" for n
    using l(2) i(2) by (auto simp: closes_as_def st_def owed_def q_def unfinished_iff is_live_def)
  then have u: "closed_by ps (ps[i := q]) [st]"
    using l assms(1) by (intro closed_update) (auto simp: q_def unfinished_def)
  have won: "closed_by ps (ps[i := q]) (st # more)" if "\<And>n. outcomes n more = []" for more
    by (rule closed_more [OF u]) (simp add: that split: option.split)
  have quiet: "closes_as n ((Step ''speedrun_completed'' seq now)\<lparr>st_scored := True, st_extra := x\<rparr>) = None"
    "closes_as n ((Step ''record_set'' seq now)\<lparr>st_scored := True, st_extra := x\<rparr>) = None"
    "closes_as n (Step ''session_ended'' seq now) = None" for n seq x
    by (simp_all add: closes_as_def)
  have lost: "closed_by ps ps2 (pre @ [final])"
    if "abandon_speedrun s i (ps[i := ?b]) now elapsed ''timeout'' = (s2, ps2, final, pre)" for s2 ps2 final pre
    by (rule closed_abandon [OF assms(1) i(1) _ _ that]) simp_all
  obtain s2 ps2 final pre where a: "abandon_speedrun s i (ps[i := ?b]) now elapsed ''timeout'' = (s2, ps2, final, pre)"
    by (metis prod_cases4)
  show ?thesis using assms(2) i won lost [OF a] a quiet
    by (auto simp: finish_def Let_def elapsed_def [symmetric] q_def [symmetric] st_def [symmetric] split: if_splits prod.splits)
qed

subsection \<open>The contract\<close>

locale closing_verb = session_verb verb for verb +
  assumes closes: "distinct (map ph_seq ps) \<Longrightarrow> verb s ps now = Inr (s', ps', steps) \<Longrightarrow> closed_by ps ps' steps"
begin

lemma then_evaluate:
  assumes "distinct (map ph_seq ps)" "verb s ps now = Inr (s1, ps1, st1)" "evaluate s1 ps1 now = (s2, ps2, st2)"
  shows "closed_by ps ps2 (st2 @ st1)"
  by (rule closed_trans [OF closes [OF assms(1,2)] closed_evaluate [OF _ assms(3)]])
    (use closed_shape [OF closes [OF assms(1,2)]] assms(1) in simp_all)

end

interpretation pausing: closing_verb pause
  by unfold_locales (rule closed_pause)

interpretation resuming: closing_verb resume
  by unfold_locales (rule closed_resume)

interpretation advancing: closing_verb advance
  by unfold_locales (rule closed_advance)

interpretation stopping: closing_verb stop_verb
  by unfold_locales (rule closed_stop)

interpretation finishing: closing_verb "\<lambda>s ps now. finish s ps now prior" for prior
  by unfold_locales (rule closed_finish)

interpretation evaluating: closing_verb evaluate_verb
  by unfold_locales (auto simp: evaluate_verb_def intro: closed_evaluate)

end
