(* ===== verification/SessionLaws.thy ===== *)
theory SessionLaws
  imports SessionClosing
begin

text \<open>
  The properties of the session engine over a whole run: a session's life as a step relation
  (polls and verbs, each preceded by the evaluation the service makes), what its ledger of steps
  adds up to, evaluation as a replay of the clock that does not depend on when it is polled, the
  milestones of a stopwatch and the verdicts of a speedrun.
\<close>

subsection \<open>A session's life\<close>

datatype verb = Pause | Resume | Advance | Stop | Done "int option"

definition run_verb :: "verb \<Rightarrow> session \<Rightarrow> phase list \<Rightarrow> datetime \<Rightarrow> verb_result" where
  "run_verb v = (case v of Pause \<Rightarrow> pause | Resume \<Rightarrow> resume | Advance \<Rightarrow> advance | Stop \<Rightarrow> stop_verb
     | Done prior \<Rightarrow> (\<lambda>s ps now. finish s ps now prior))"

text \<open>What \<open>_action\<close> and \<open>done\<close> of \<open>session_service\<close> do to the rows: evaluate; if the clock did not
  end the session, apply the verb and evaluate once more, the verb's steps last.\<close>

definition action :: "verb \<Rightarrow> session \<Rightarrow> phase list \<Rightarrow> datetime \<Rightarrow> verb_result" where
  "action v s ps now =
     (if s_status s \<noteq> S_ACTIVE then Inl (ConflictError ''session is not active'')
      else
        let (s1, ps1, steps1) = evaluate s ps now in
        if s_status s1 \<noteq> S_ACTIVE then Inr (s1, ps1, steps1)
        else bind_r (run_verb v s1 ps1 now) (\<lambda>(s2, ps2, steps2).
          let (s3, ps3, steps3) = evaluate s2 ps2 now
          in Inr (s3, ps3, steps1 @ steps3 @ steps2)))"

inductive session_move ::
  "session \<times> phase list \<times> datetime \<Rightarrow> step list \<Rightarrow> session \<times> phase list \<times> datetime \<Rightarrow> bool" where
  poll: "t \<le> now \<Longrightarrow> evaluate s ps now = (s', ps', steps) \<Longrightarrow>
    session_move (s, ps, t) steps (s', ps', now)"
| act: "t \<le> now \<Longrightarrow> action v s ps now = Inr (s', ps', steps) \<Longrightarrow>
    session_move (s, ps, t) steps (s', ps', now)"

inductive lifetime ::
  "session \<times> phase list \<times> datetime \<Rightarrow> step list \<Rightarrow> session \<times> phase list \<times> datetime \<Rightarrow> bool" where
  born: "lifetime \<sigma> [] \<sigma>"
| move: "lifetime \<sigma> ledger \<sigma>' \<Longrightarrow> session_move \<sigma>' steps \<sigma>'' \<Longrightarrow> lifetime \<sigma> (ledger @ steps) \<sigma>''"

lemma run_verb_honours:
  assumes "sess_ok now s ps" "s_status s = S_ACTIVE" "run_verb v s ps now = Inr out"
  shows "honours now s ps out"
  using assms pause_honours resume_honours advance_honours stop_honours finish_honours
  by (cases v) (simp_all add: run_verb_def)

text \<open>Two honoured steps in a row, whichever order their ledger entries are written in.\<close>

definition in_step :: "session \<Rightarrow> session \<Rightarrow> phase list \<Rightarrow> phase list \<Rightarrow> step list \<Rightarrow> bool" where
  "in_step s s' ps ps' steps \<longleftrightarrow>
     terminals steps = (if s_status s' = S_ACTIVE then 0 else if s_status s = S_ACTIVE then 1 else 0) \<and>
     (s_status s \<noteq> S_ACTIVE \<longrightarrow> s_status s' \<noteq> S_ACTIVE) \<and>
     completed_focus_count ps' = completed_focus_count ps + paid_focus steps \<and> same_run s s'"

lemma honours_in_step: "honours now s ps (s', ps', steps) \<Longrightarrow> s_status s = S_ACTIVE \<Longrightarrow> in_step s s' ps ps' steps"
  by (simp add: honours_def in_step_def)

lemma in_step_refl: "in_step s s ps ps []"
  by (simp add: in_step_def)

lemma in_step_trans:
  assumes "in_step s1 s2 ps1 ps2 a" "in_step s2 s3 ps2 ps3 b"
    and "terminals c = terminals a + terminals b" "paid_focus c = paid_focus a + paid_focus b"
  shows "in_step s1 s3 ps1 ps3 c"
  using assms same_run_trans [of s1 s2 s3] by (auto simp: in_step_def split: if_splits)

lemma evaluate_in_step:
  assumes "sess_ok now s ps" "evaluate s ps now = (s', ps', steps)"
  shows "sess_ok now s' ps' \<and> in_step s s' ps ps' steps"
proof (cases "s_status s = S_ACTIVE")
  case True
  then show ?thesis using evaluate_honours [OF assms(1) True] assms(2) honours_in_step
    by (auto simp: honours_def)
next
  case False
  then show ?thesis using assms in_step_refl by (simp add: evaluate_def)
qed

lemma action_in_step:
  assumes "sess_ok now s ps" "action v s ps now = Inr (s', ps', steps)"
  shows "sess_ok now s' ps' \<and> in_step s s' ps ps' steps"
proof -
  obtain s1 ps1 st1 where e1: "evaluate s ps now = (s1, ps1, st1)" by (metis prod_cases3)
  note i1 = evaluate_in_step [OF assms(1) e1]
  show ?thesis
  proof (cases "s_status s1 = S_ACTIVE")
    case False
    then show ?thesis using assms(2) e1 i1 by (auto simp: action_def split: if_splits)
  next
    case True
    then obtain s2 ps2 st2 where v: "run_verb v s1 ps1 now = Inr (s2, ps2, st2)"
      using assms(2) e1 by (auto simp: action_def split: if_splits)
    obtain s3 ps3 st3 where e3: "evaluate s2 ps2 now = (s3, ps3, st3)" by (metis prod_cases3)
    have h: "honours now s1 ps1 (s2, ps2, st2)" using run_verb_honours i1 True v by blast
    then have ok2: "sess_ok now s2 ps2" by (simp add: honours_def)
    note i3 = evaluate_in_step [OF ok2 e3]
    have out: "s' = s3" "ps' = ps3" "steps = st1 @ st3 @ st2"
      using assms(2) e1 e3 v True by (auto simp: action_def split: if_splits)
    have "in_step s1 s3 ps1 ps3 (st3 @ st2)"
      by (rule in_step_trans [OF honours_in_step [OF h True]]) (use i3 in auto)
    then show ?thesis unfolding out using i1 i3 by (auto intro: in_step_trans)
  qed
qed

lemma session_move_in_step:
  assumes "session_move (s, ps, t) steps (s', ps', now)" "sess_ok t s ps"
  shows "sess_ok now s' ps' \<and> in_step s s' ps ps' steps"
  using assms(1)
proof (cases rule: session_move.cases)
  case poll
  then show ?thesis using evaluate_in_step sess_ok_later [OF assms(2)] by blast
next
  case (act v)
  then show ?thesis using action_in_step sess_ok_later [OF assms(2)] by blast
qed

lemma lifetime_in_step:
  "lifetime \<sigma> ledger \<sigma>' \<Longrightarrow> \<sigma> = (s0, ps0, t0) \<Longrightarrow> \<sigma>' = (s, ps, t) \<Longrightarrow> sess_ok t0 s0 ps0 \<Longrightarrow>
     sess_ok t s ps \<and> in_step s0 s ps0 ps ledger"
proof (induction arbitrary: s ps t rule: lifetime.induct)
  case (born \<sigma>)
  then show ?case using in_step_refl by simp
next
  case (move \<sigma> ledger \<sigma>' steps \<sigma>'')
  obtain s1 ps1 t1 where m: "\<sigma>' = (s1, ps1, t1)" by (metis prod_cases3)
  have a: "sess_ok t1 s1 ps1 \<and> in_step s0 s1 ps0 ps1 ledger"
    by (rule move.IH [OF move.prems(1) m move.prems(3)])
  have b: "sess_ok t s ps \<and> in_step s1 s ps1 ps steps"
    using session_move_in_step [of s1 ps1 t1 steps s ps t] move.hyps(2) m move.prems(2) a by simp
  from a b show ?case by (auto intro: in_step_trans)
qed

lemma run_verb_closes:
  assumes "distinct (map ph_seq ps)" "run_verb v s ps now = Inr (s1, ps1, st1)" "evaluate s1 ps1 now = (s2, ps2, st2)"
  shows "closed_by ps ps2 (st2 @ st1)"
  using assms pausing.then_evaluate resuming.then_evaluate advancing.then_evaluate stopping.then_evaluate finishing.then_evaluate
  by (cases v) (simp_all add: run_verb_def)

lemma session_move_closes:
  assumes "session_move (s, ps, t) steps (s', ps', now)" "distinct (map ph_seq ps)"
  shows "closed_by ps ps' steps"
  using assms(1)
proof (cases rule: session_move.cases)
  case poll
  then show ?thesis using closed_evaluate [OF assms(2)] by blast
next
  case (act v)
  obtain s1 ps1 st1 where e1: "evaluate s ps now = (s1, ps1, st1)" by (metis prod_cases3)
  note c1 = closed_evaluate [OF assms(2) e1]
  have d: "distinct (map ph_seq ps1)" using closed_shape [OF c1] assms(2) by simp
  show ?thesis
  proof (cases "s_status s1 = S_ACTIVE")
    case False
    then show ?thesis using act(2) e1 c1 by (auto simp: action_def split: if_splits)
  next
    case True
    then obtain s2 ps2 st2 where v: "run_verb v s1 ps1 now = Inr (s2, ps2, st2)"
      using act(2) e1 by (auto simp: action_def split: if_splits)
    obtain s3 ps3 st3 where e3: "evaluate s2 ps2 now = (s3, ps3, st3)" by (metis prod_cases3)
    have out: "ps' = ps3" "steps = st1 @ st3 @ st2" using act(2) e1 e3 v True by (auto simp: action_def split: if_splits)
    show ?thesis unfolding out by (rule closed_trans [OF c1 run_verb_closes [OF d v e3]]) simp
  qed
qed

lemma lifetime_closes:
  "lifetime \<sigma> ledger \<sigma>' \<Longrightarrow> distinct (map ph_seq (fst (snd \<sigma>))) \<Longrightarrow> closed_by (fst (snd \<sigma>)) (fst (snd \<sigma>')) ledger"
proof (induction rule: lifetime.induct)
  case (born \<sigma>)
  then show ?case by simp
next
  case (move \<sigma> ledger \<sigma>' steps \<sigma>'')
  have a: "closed_by (fst (snd \<sigma>)) (fst (snd \<sigma>')) ledger" by (rule move.IH [OF move.prems])
  have d: "distinct (map ph_seq (fst (snd \<sigma>')))" using closed_shape [OF a] move.prems by simp
  have "closed_by (fst (snd \<sigma>')) (fst (snd \<sigma>'')) steps"
    using session_move_closes [OF _ d] move.hyps(2) by (metis prod.collapse)
  from closed_trans [OF a this] show ?case by simp
qed

text \<open>C9: over a session's whole life, through any interleaving of polls and verbs on a clock that does
  not run backwards, the rows stay sound (at most one live phase, pause budgets respected, no
  open phase on a dead session) and the ledger closes each phase once: \<open>closed_by\<close> says that the
  steps which close phase \<open>n\<close> (completed, skipped, abandoned, or named by the step that abandons the
  session for its pause) are exactly one, with the status the row ends in, if the row was closed during
  the life, and none if it was closed before or is still open; that a closed row never changes its
  status again; and that no other phase is named. A stopped stopwatch is the one exception: it is paid by
  its milestones and has no closing step. Exactly one terminal step (end, abandon or failed speedrun,
  the ones that cost HP among them) is written if the session died and none while it lives, and the
  number of paid focus phases is the number of completed ones. The phases of a session are numbered
  apart, as the service numbers them.\<close>

theorem session_ledger:
  assumes "lifetime (s0, ps0, t0) ledger (s, ps, t)"
    and "sess_ok t0 s0 ps0" and "s_status s0 = S_ACTIVE" and "distinct (map ph_seq ps0)"
  shows "sess_ok t s ps \<and> closed_by ps0 ps ledger \<and> terminals ledger = (if s_status s = S_ACTIVE then 0 else 1) \<and>
    completed_focus_count ps = completed_focus_count ps0 + paid_focus ledger"
  using lifetime_in_step [OF assms(1) refl refl assms(2)] lifetime_closes [OF assms(1)] assms(3,4) by (auto simp: in_step_def)

subsection \<open>Evaluation replays the clock\<close>

text \<open>A paused phase abandoned for overrunning its budget banks the pause up to the evaluation, not
  up to the overflow: \<open>paused_seconds\<close> of an abandoned row is the one field a late poll changes.\<close>

definition settle :: "phase \<Rightarrow> phase" where
  "settle p = (if ph_status p = ABANDONED then p\<lparr>paused_seconds := 0\<rparr> else p)"

lemma eval_loop_steps:
  "eval_loop ab af now s ps le (pre @ steps) =
     (let (s', ps', tail) = eval_loop ab af now s ps le steps in (s', ps', pre @ tail))"
proof (induction ab af now s ps le steps rule: eval_loop.induct)
  case (1 ab af now s ps le steps)
  show ?case
  proof (cases "live_phase ps")
    case None
    then show ?thesis by (simp add: eval_loop.simps [of _ _ _ _ ps] Let_def split_beta)
  next
    case (Some i)
    define p where "p = ps ! i"
    define nxt where "nxt = complete_phase ps i (phase_end p now) ab af"
    note unf = eval_loop.simps [of ab af now s ps le, simplified Some option.case Let_def, folded p_def,
        folded nxt_def]
    show ?thesis
    proof (cases "ph_kind p = STOPWATCH \<or> ph_kind p = SPEEDRUN \<or> ph_status p = PAUSED \<or> now < phase_end p now")
      case True
      then show ?thesis by (auto simp: unf Let_def split_beta split: option.splits)
    next
      case False
      with "1.IH" [OF Some, of p] have "eval_loop ab af now s (fst nxt) (phase_end p now) (pre @ steps @ snd nxt) =
          (let (s', ps', tail) = eval_loop ab af now s (fst nxt) (phase_end p now) (steps @ snd nxt) in
             (s', ps', pre @ tail))"
        by (simp add: p_def nxt_def)
      with False show ?thesis by (simp add: unf)
    qed
  qed
qed

lemma last_end_of_greatest:
  assumes "p \<in> set ps" "ph_ended_at p = Some e"
    and "\<And>q e'. q \<in> set ps \<Longrightarrow> ph_ended_at q = Some e' \<Longrightarrow> e' \<le> e"
  shows "last_end_of s ps = e"
proof -
  have mem: "x \<in> set (List.map_filter ph_ended_at ps) \<longleftrightarrow> (\<exists>q \<in> set ps. ph_ended_at q = Some x)" for x
    by (force simp: List.map_filter_def)
  have fm: "fold max xs a = Max (set (a # xs))" for xs and a :: int
    by (rule Max.set_eq_fold [symmetric])
  obtain a as where l: "List.map_filter ph_ended_at ps = a # as"
    using mem [of e] assms(1,2) by (cases "List.map_filter ph_ended_at ps") auto
  have "Max (set (a # as)) = e"
    using mem assms unfolding l by (intro Max_eqI) auto
  then show ?thesis unfolding last_end_of_def l list.case fm .
qed

text \<open>Skipping pending rows does not look at the clock's other readings; only the abandoned row's
  banked pause differs.\<close>

lemma settle_skip:
  assumes "ph_status q = ABANDONED"
  shows "map settle (fst (skip_pending (ps[i := q\<lparr>paused_seconds := a\<rparr>]) t)) =
    map settle (fst (skip_pending (ps[i := q\<lparr>paused_seconds := b\<rparr>]) t))"
    and "i < length ps \<Longrightarrow> snd (skip_pending (ps[i := q\<lparr>paused_seconds := a\<rparr>]) t) =
      snd (skip_pending (ps[i := q\<lparr>paused_seconds := b\<rparr>]) t)"
proof -
  show "map settle (fst (skip_pending (ps[i := q\<lparr>paused_seconds := a\<rparr>]) t)) =
    map settle (fst (skip_pending (ps[i := q\<lparr>paused_seconds := b\<rparr>]) t))"
    by (simp add: skip_pending_def map_update settle_def assms)
  show "snd (skip_pending (ps[i := q\<lparr>paused_seconds := a\<rparr>]) t) =
      snd (skip_pending (ps[i := q\<lparr>paused_seconds := b\<rparr>]) t)" if "i < length ps"
    using that assms by (simp add: skip_pending_def upd_conv_take_nth_drop)
qed

lemma overflow_later:
  assumes "t1 \<le> t2" "pause_started_at (ps ! i) = Some t" "i < length ps"
    and "check_pause_overflow s i ps t1 = (s1, ps1, x)" "s_status s = S_ACTIVE" "s_status s1 \<noteq> S_ACTIVE"
  shows "\<exists>ps2. check_pause_overflow s i ps t2 = (s1, ps2, x) \<and> map settle ps2 = map settle ps1"
proof -
  define p where "p = ps ! i"
  define e where "e u = whole_seconds (u - t)" for u
  have "e t1 \<le> e t2" using assms(1) by (simp add: e_def whole_seconds_mono)
  moreover have over: "\<not> paused_seconds p + e t1 \<le> pause_budget_seconds s"
    using assms(2,4-6) by (auto simp: check_pause_overflow_def Let_def p_def or_now_def e_def split: if_splits)
  ultimately have over2: "\<not> paused_seconds p + e t2 \<le> pause_budget_seconds s" by linarith
  define at' where "at' = t + seconds (pause_budget_seconds s - paused_seconds p)"
  define q where "q = p\<lparr>ph_status := ABANDONED, ph_ended_at := Some at', pause_started_at := None\<rparr>"
  have c: "check_pause_overflow s i ps u = (s\<lparr>s_status := S_ABANDONED, s_ended_at := Some at'\<rparr>,
      fst (skip_pending (ps[i := q\<lparr>paused_seconds := paused_seconds p + e u\<rparr>]) at'),
      snd (skip_pending (ps[i := q\<lparr>paused_seconds := paused_seconds p + e u\<rparr>]) at') @
        [(Step ''session_abandoned'' (Some (ph_seq p)) at')\<lparr>st_reason := Some ''pause_overflow''\<rparr>])"
    if "\<not> paused_seconds p + e u \<le> pause_budget_seconds s" for u
  proof -
    have "p\<lparr>ph_status := ABANDONED, ph_ended_at := Some at', paused_seconds := paused_seconds p + e u,
        pause_started_at := None\<rparr> = q\<lparr>paused_seconds := paused_seconds p + e u\<rparr>"
      by (cases p) (simp add: q_def)
    then show ?thesis
      using that assms(2) by (simp add: check_pause_overflow_def Let_def p_def [symmetric] or_now_def
          e_def [symmetric] at'_def [symmetric] split_beta)
  qed
  have ab: "ph_status q = ABANDONED" by (simp add: q_def)
  show ?thesis using c [OF over] c [OF over2] assms(4) settle_skip(1) [OF ab]
      settle_skip(2) [OF ab assms(3)] by auto
qed

lemma deadline_later:
  assumes "t1 \<le> t2" "ph_started_at (ps ! i) = Some t"
    and "check_speedrun_deadline s i ps t1 = Some out"
  shows "check_speedrun_deadline s i ps t2 = Some out"
  using assms by (simp add: check_speedrun_deadline_def Let_def or_now_def split: if_splits)

lemma resolve_later:
  assumes "t1 \<le> t2" "resolve_no_live s ps le t1 = (s1, ps1, x)" "s_status s = S_ACTIVE" "s_status s1 \<noteq> S_ACTIVE"
  shows "resolve_no_live s ps le t2 = (s1, ps1, x)"
  using assms by (auto simp: resolve_no_live_def Let_def split_beta split: if_splits)

lemma resolve_quiet:
  assumes "resolve_no_live s ps le t1 = (s1, ps1, x)" "s_status s1 = S_ACTIVE"
  shows "s1 = s" "ps1 = ps" "x = []"
  using assms by (auto simp: resolve_no_live_def Let_def split_beta split: if_splits)

lemma overflow_quiet:
  assumes "check_pause_overflow s i ps t1 = (s1, ps1, x)" "s_status s1 = S_ACTIVE"
  shows "s1 = s" "ps1 = ps" "x = []"
  using assms by (auto simp: check_pause_overflow_def Let_def split_beta split: if_splits)

lemma evaluate_dead: "s_status s \<noteq> S_ACTIVE \<Longrightarrow> evaluate s ps now = (s, ps, [])"
  by (simp add: evaluate_def)

lemma evaluate_loop:
  "s_status s = S_ACTIVE \<Longrightarrow> evaluate s ps now =
     eval_loop (preset_flag s ''auto_start_breaks'' True) (preset_flag s ''auto_start_focus'' False)
       now s ps (last_end_of s ps) []"
  by (simp add: evaluate_def)

lemma deadline_dead:
  "check_speedrun_deadline s i ps now = Some (s', ps', x) \<Longrightarrow> s_status s' \<noteq> S_ACTIVE"
  by (auto simp: check_speedrun_deadline_def Let_def split_beta split: if_splits)

lemma complete_ended:
  assumes "live_phase ps = Some i" "ph_kind (ps ! i) = FOCUS \<or> ph_kind (ps ! i) = BREAK"
  shows "\<exists>p \<in> set (fst (complete_phase ps i ts ab af)). ph_ended_at p = Some ts"
proof -
  note l = live_phase_Some [OF assms(1)]
  define q where "q = (ps ! i)\<lparr>ph_status := COMPLETED, actual_seconds := Some (planned_seconds (ps ! i)),
      ph_ended_at := Some ts\<rparr>"
  have q: "q \<in> set (ps[i := q])" "ph_ended_at q = Some ts"
    using l(1) by (simp_all add: set_update_memI q_def)
  have "fst (complete_phase ps i ts ab af) = ps[i := q] \<or>
      (\<exists>j. next_pending (ps[i := q]) = Some j \<and> fst (complete_phase ps i ts ab af) =
         (ps[i := q])[j := (ps[i := q] ! j)\<lparr>ph_status := ACTIVE, ph_started_at := Some ts\<rparr>])"
    by (auto simp: complete_phase_def Let_def q_def split: option.splits)
  then show ?thesis
  proof (elim disjE exE conjE)
    fix j assume j: "next_pending (ps[i := q]) = Some j" and f: "fst (complete_phase ps i ts ab af) =
         (ps[i := q])[j := (ps[i := q] ! j)\<lparr>ph_status := ACTIVE, ph_started_at := Some ts\<rparr>]"
    have "j \<noteq> i" using next_pending_Some [OF j] by (auto simp: q_def)
    then have "(ps[i := q])[j := (ps[i := q] ! j)\<lparr>ph_status := ACTIVE, ph_started_at := Some ts\<rparr>] ! i = q"
      using l(1) by simp
    then have "q \<in> set (fst (complete_phase ps i ts ab af))"
      unfolding f using l(1) by (metis length_list_update nth_mem)
    then show ?thesis using q(2) by blast
  next
    assume "fst (complete_phase ps i ts ab af) = ps[i := q]"
    then show ?thesis using q by auto
  qed
qed

lemma evaluate_split_loop:
  assumes "t1 \<le> t2"
  shows "sess_ok t1 s ps \<Longrightarrow> s_status s = S_ACTIVE \<Longrightarrow> le = last_end_of s ps \<Longrightarrow>
   ab = preset_flag s ''auto_start_breaks'' True \<Longrightarrow> af = preset_flag s ''auto_start_focus'' False \<Longrightarrow>
   eval_loop ab af t1 s ps le [] = (s1, ps1, x1) \<Longrightarrow> evaluate s1 ps1 t2 = (s2, ps2, x2) \<Longrightarrow>
   \<exists>ps2'. eval_loop ab af t2 s ps le [] = (s2, ps2', x1 @ x2) \<and> map settle ps2' = map settle ps2"
proof (induction "open_phases ps" arbitrary: ps le x1 rule: less_induct)
  case less
  note ok = less.prems(1) and act = less.prems(2) and le = less.prems(3) and flags = less.prems(4,5)
    and run = less.prems(6) and ev = less.prems(7)
  have quiet: ?case if "s1 = s" "ps1 = ps" "x1 = []"
    using that ev le flags act by (auto simp: evaluate_loop)
  have dead: "s2 = s1 \<and> ps2 = ps1 \<and> x2 = []" if "s_status s1 \<noteq> S_ACTIVE"
    using ev evaluate_dead [OF that] by simp
  show ?case
  proof (cases "live_phase ps")
    case None
    have r: "resolve_no_live s ps le t1 = (s1, ps1, x1)"
      using run None by (simp add: eval_loop.simps [of _ _ _ _ ps] split_beta Let_def)
    show ?thesis
    proof (cases "s_status s1 = S_ACTIVE")
      case True
      then show ?thesis using quiet resolve_quiet [OF r] by blast
    next
      case False
      then show ?thesis using resolve_later [OF assms r act False] dead None
        by (simp add: eval_loop.simps [of _ _ _ _ ps])
    qed
  next
    case (Some i)
    define p where "p = ps ! i"
    note unf = eval_loop.simps [of ab af _ s ps le, simplified Some option.case Let_def, folded p_def]
    note l = live_ok [OF ok Some, folded p_def]
    obtain t where t: "ph_started_at p = Some t" using l(2,3) by (auto simp: phase_ok_def)
    consider "ph_kind p = STOPWATCH" | "ph_kind p = SPEEDRUN"
      | "ph_kind p \<noteq> STOPWATCH" "ph_kind p \<noteq> SPEEDRUN" "ph_status p = PAUSED"
      | "ph_kind p \<noteq> STOPWATCH" "ph_kind p \<noteq> SPEEDRUN" "ph_status p \<noteq> PAUSED" "t1 < phase_end p t1"
      | "ph_kind p \<noteq> STOPWATCH" "ph_kind p \<noteq> SPEEDRUN" "ph_status p \<noteq> PAUSED" "phase_end p t1 \<le> t1"
      by fastforce
    then show ?thesis
    proof cases
      case 1
      then show ?thesis using run quiet by (simp add: unf)
    next
      case 2
      show ?thesis
      proof (cases "check_speedrun_deadline s i ps t1")
        case None
        then show ?thesis using 2 run quiet by (simp add: unf)
      next
        case (Some out)
        then have o: "out = (s1, ps1, x1)" using 2 run by (cases out) (simp add: unf)
        have "check_speedrun_deadline s i ps t2 = Some out"
          by (rule deadline_later [OF assms _ Some]) (use t in \<open>simp add: p_def\<close>)
        moreover have "s_status s1 \<noteq> S_ACTIVE" using deadline_dead Some o by blast
        ultimately show ?thesis using 2 o dead by (simp add: unf)
      qed
    next
      case 3
      have c: "check_pause_overflow s i ps t1 = (s1, ps1, x1)" using 3 run by (simp add: unf split_beta)
      show ?thesis
      proof (cases "s_status s1 = S_ACTIVE")
        case True
        then show ?thesis using quiet overflow_quiet [OF c] by blast
      next
        case False
        obtain pt where "pause_started_at p = Some pt" using l(2) 3 by (auto simp: phase_ok_def)
        then obtain ps2' where "check_pause_overflow s i ps t2 = (s1, ps2', x1)" "map settle ps2' = map settle ps1"
          using overflow_later [OF assms _ l(4) c act False] by (auto simp: p_def)
        then show ?thesis using 3 dead [OF False] by (simp add: unf)
      qed
    next
      case 4
      then show ?thesis using run quiet by (simp add: unf)
    next
      case 5
      define e where "e = phase_end p t1"
      have e2: "phase_end p t2 = e" using t by (simp add: e_def phase_end_def or_now_def)
      define nx where "nx = complete_phase ps i e ab af"
      note c = complete_phase_spec [OF l(1) Some, folded p_def, OF 5, folded e_def, of ab af, folded nx_def]
      have k: "ph_kind p = FOCUS \<or> ph_kind p = BREAK" using 5 by (cases "ph_kind p") auto
      have ok1: "sess_ok t1 s (fst nx)" using ok act c(1) by (simp add: sess_ok_def)
      obtain q where "q \<in> set (fst nx)" "ph_ended_at q = Some e"
        using complete_ended [OF Some, of e ab af] k by (auto simp: nx_def p_def)
      then have le1: "e = last_end_of s (fst nx)" using c(2) by (auto intro!: last_end_of_greatest [symmetric])
      obtain y1 where y1: "eval_loop ab af t1 s (fst nx) e [] = (s1, ps1, y1)" "x1 = snd nx @ y1"
        using run 5 eval_loop_steps [of ab af t1 s "fst nx" e "snd nx" "[]"]
        by (auto simp: unf e_def [symmetric] nx_def [symmetric] split: prod.splits)
      have "open_phases (fst nx) < open_phases ps"
        unfolding nx_def using l(3,4) by (intro complete_phase_open) (auto simp: p_def)
      from less.hyps [OF this ok1 act le1 flags y1(1) ev] obtain ps2' where
        r: "eval_loop ab af t2 s (fst nx) e [] = (s2, ps2', y1 @ x2)" "map settle ps2' = map settle ps2" by blast
      have "eval_loop ab af t2 s ps le [] = eval_loop ab af t2 s (fst nx) e (snd nx)"
        using 5 e2 assms by (simp add: unf nx_def e_def [symmetric])
      also have "\<dots> = (s2, ps2', x1 @ x2)"
        using eval_loop_steps [of ab af t2 s "fst nx" e "snd nx" "[]"] r(1) y1(2) by simp
      finally show ?thesis using r(2) by blast
    qed
  qed
qed

text \<open>C11: evaluation replays the wall clock and not the polls: evaluating at one instant and again at a
  later one writes the same steps in the same order, ends in the same session row and in the same
  phases as one evaluation at the later instant (but for the pause seconds banked on an abandoned
  phase), so how often a client polls changes neither rewards nor verdicts.\<close>

theorem evaluate_split:
  assumes "sess_ok t1 s ps" and "t1 \<le> t2"
    and "evaluate s ps t1 = (s1, ps1, x1)" and "evaluate s1 ps1 t2 = (s2, ps2, x2)"
  shows "\<exists>ps2'. evaluate s ps t2 = (s2, ps2', x1 @ x2) \<and> map settle ps2' = map settle ps2"
proof (cases "s_status s = S_ACTIVE")
  case True
  show ?thesis
    using evaluate_split_loop [OF assms(2,1) True refl refl refl _ assms(4)] assms(3) True
    by (simp add: evaluate_loop)
next
  case False
  then show ?thesis using assms(3,4) by (auto simp: evaluate_def)
qed

subsection \<open>Stopwatch milestones\<close>

definition is_milestone :: "step \<Rightarrow> bool" where
  "is_milestone st \<longleftrightarrow> st_kind st = ''phase_completed'' \<and> st_scored st"

lemma milestone_skip [simp]: "filter is_milestone (snd (skip_pending ps t)) = []"
  by (auto simp: filter_empty_conv is_milestone_def dest: skip_steps_kind)

lemma milestone_all [simp]: "filter is_milestone (milestone_steps sq a t b) = milestone_steps sq a t b"
  by (auto simp: filter_id_conv milestone_steps_def Let_def is_milestone_def)


subsection \<open>Speedrun verdicts\<close>

definition step_extra :: "string \<Rightarrow> string \<Rightarrow> step list \<Rightarrow> json option" where
  "step_extra kind key steps =
     (case filter (\<lambda>st. st_kind st = kind) steps of [] \<Rightarrow> None | st # _ \<Rightarrow> dict_get (st_extra st) key)"

lemma blob_result [simp]:
  assumes "''result'' \<notin> fst ` set extra"
  shows "dict_get (blob (speedrun_result s r e extra)) ''result'' = Some (JStr r)"
proof -
  have fold: "foldl (\<lambda>m (k, v). m(k \<mapsto> v)) m kvs x =
      (case map_of (rev kvs) x of None \<Rightarrow> m x | Some v \<Rightarrow> Some v)" for m kvs and x :: string
    by (induction kvs arbitrary: m) (auto split: option.splits)
  have "map_of (rev extra) ''result'' = None" using assms by (simp add: map_of_eq_None_iff)
  then show ?thesis by (simp add: speedrun_result_def blob_def dict_get_def map_of_dict_merge fold)
qed

lemma dict_get_simps [simp]:
  "dict_get [] k = None" "dict_get ((k', v) # d) k = (if k = k' then Some v else dict_get d k)"
  by (simp_all add: dict_get_def)

lemma blob_update [simp]: "blob (s\<lparr>s_status := st, s_ended_at := en\<rparr>) = blob s"
  by (simp add: blob_def)

definition run_elapsed :: "phase \<Rightarrow> datetime \<Rightarrow> int" where
  "run_elapsed p now = max 0 (whole_seconds (now - or_now (ph_started_at p) now))"

lemma abandon_verdict:
  assumes "abandon_speedrun s i (ps[i := b]) now elapsed why = (s', ps', final, pre)" "i < length ps"
    and "speedrun_type s b = ''time_boxed''"
  shows "dict_get (blob s') ''result'' = Some (JStr ''miss'')"
    "filter (\<lambda>st. st_kind st = ''speedrun_completed'') (pre @ [final]) = []"
proof -
  have "speedrun_type (s\<lparr>s_status := S_ABANDONED, s_ended_at := Some now\<rparr>)
      (b\<lparr>ph_status := ABANDONED, ph_ended_at := Some now\<rparr>) = ''time_boxed''"
    using assms(3) by (auto simp: speedrun_type_def split: if_splits)
  then show "dict_get (blob s') ''result'' = Some (JStr ''miss'')"
    using assms(1,2) by (auto simp: abandon_speedrun_def Let_def split_beta)
  show "filter (\<lambda>st. st_kind st = ''speedrun_completed'') (pre @ [final]) = []"
    using assms(1) by (auto simp: abandon_speedrun_def Let_def split_beta filter_empty_conv dest!: skip_steps_kind)
qed

text \<open>C33: finishing a speedrun is judged exactly: a time-boxed run at or past its budget is a miss and
  pays nothing, one inside it is a win; an open run is a record when it lasted at least
  \<open>MIN_RECORD_SECONDS\<close> and beat the prior record (if any), else merely finished; the win bonus is
  granted on records and on wins of at least a minute only, and a run of less than a second is
  refused.\<close>

theorem finish_verdict:
  assumes "live_phase ps = Some i" and "ph_kind (ps ! i) = SPEEDRUN"
    and "elapsed = run_elapsed (ps ! i) now"
  shows "(case finish s ps now prior of
      Inl e \<Rightarrow> elapsed < 1 \<and> e = ValueError ''run too short''
    | Inr (s', ps', steps) \<Rightarrow> 1 \<le> elapsed \<and>
       (if speedrun_type s (ps ! i) = ''time_boxed'' then
          (if planned_seconds (ps ! i) \<le> elapsed then
             dict_get (blob s') ''result'' = Some (JStr ''miss'') \<and>
             step_extra ''speedrun_completed'' ''win_bonus'' steps = None
           else
             dict_get (blob s') ''result'' = Some (JStr ''win'') \<and>
             step_extra ''speedrun_completed'' ''win_bonus'' steps = Some (JBool (60 \<le> elapsed)))
        else
          (let won = (60 \<le> elapsed \<and> (\<forall>r. prior = Some r \<longrightarrow> elapsed < r)) in
             dict_get (blob s') ''result'' = Some (JStr (if won then ''record'' else ''finished'')) \<and>
             step_extra ''speedrun_completed'' ''win_bonus'' steps = Some (JBool won) \<and>
             (step_extra ''record_set'' ''new_seconds'' steps = (if won then Some (JInt elapsed) else None)))))"
proof -
  define b where "b = bank_open_pause (ps ! i) now"
  have ty: "speedrun_type s b = speedrun_type s (ps ! i)" "planned_seconds b = planned_seconds (ps ! i)"
    by (simp_all add: speedrun_type_def b_def)
  define won where "won \<longleftrightarrow> 60 \<le> elapsed \<and> (case prior of None \<Rightarrow> True | Some r \<Rightarrow> elapsed < r)"
  have won: "won \<longleftrightarrow> 60 \<le> elapsed \<and> (\<forall>r. prior = Some r \<longrightarrow> elapsed < r)"
    by (auto simp: won_def split: option.splits)
  have type2: "speedrun_type s q = ''time_boxed'' \<or> speedrun_type s q = ''beat_best''" for q
    by (simp add: speedrun_type_def)
  show ?thesis
  proof (cases "elapsed < 1")
    case True
    then show ?thesis using assms by (simp add: finish_def Let_def run_elapsed_def)
  next
    case False
    note fin = finish_def [of s ps now prior, simplified assms(1) option.case Let_def, folded run_elapsed_def, folded assms(3) b_def]
    show ?thesis
    proof (cases "speedrun_type s (ps ! i) = ''time_boxed''")
      case True
      note tb = True
      show ?thesis
      proof (cases "planned_seconds (ps ! i) \<le> elapsed")
        case True
        obtain s' ps' final pre where a: "abandon_speedrun s i (ps[i := b]) now elapsed ''timeout'' = (s', ps', final, pre)"
          by (metis prod_cases4)
        note v = abandon_verdict [OF a live_phase_Some(1) [OF assms(1)]]
        show ?thesis using True tb assms(2) False a v
          by (simp add: fin ty Let_def step_extra_def)
      next
        case False2: False
        then show ?thesis using tb assms(2) False
          by (simp add: fin ty Let_def MIN_RECORD_SECONDS_def step_extra_def)
      qed
    next
      case False3: False
      show ?thesis using False False3 assms(2)
        by (cases won) (simp_all add: fin ty Let_def MIN_RECORD_SECONDS_def step_extra_def won_def [symmetric] won [symmetric])
    qed
  qed
qed

end
