(* ===== verification/SessionWitnesses.thy ===== *)
theory SessionWitnesses
  imports SessionLaws
begin

text \<open>
  Concrete sessions at which the properties of the session engine apply: a 25-minute focus phase
  with a 5-minute break, a stopwatch and a beat-best speedrun, all started at time 0.
\<close>

definition fresh_phase :: "int \<Rightarrow> phase_kind \<Rightarrow> phase_status \<Rightarrow> int \<Rightarrow> phase" where
  "fresh_phase sq k st planned = \<lparr>ph_seq = sq, ph_kind = k, ph_status = st, planned_seconds = planned,
     actual_seconds = None, pause_count = 0, paused_seconds = 0, pause_started_at = None,
     ph_started_at = (if st = ACTIVE then Some 0 else None), ph_ended_at = None\<rparr>"

definition sample_session :: "string \<Rightarrow> session" where
  "sample_session m = \<lparr>s_id = 7, s_user = 1, s_task_id = None, s_mode = m, s_status = S_ACTIVE,
     activity_label = None, preset = None, pause_budget_count = 3, pause_budget_seconds = 300,
     speedrun = JNull, s_started_at = 0, s_ended_at = None\<rparr>"

abbreviation pomodoro :: session where "pomodoro \<equiv> sample_session ''timer''"

abbreviation pomodoro_phases :: "phase list" where
  "pomodoro_phases \<equiv> [fresh_phase 0 FOCUS ACTIVE 1500, fresh_phase 1 BREAK PENDING 300]"

lemma pomodoro_ok: "sess_ok 0 pomodoro pomodoro_phases"
  by (simp add: sess_ok_def phases_ok_def phase_ok_def solo_def ordered_def live_count_def
      sample_session_def fresh_phase_def is_live_def unfinished_def)

lemma pomodoro_active: "s_status pomodoro = S_ACTIVE"
  by (simp add: sample_session_def)

abbreviation on_break :: "phase list" where
  "on_break \<equiv> [(fresh_phase 0 FOCUS ACTIVE 1500)\<lparr>ph_status := COMPLETED, actual_seconds := Some 1500,
        ph_ended_at := Some (seconds 1500)\<rparr>,
     (fresh_phase 1 BREAK PENDING 300)\<lparr>ph_status := ACTIVE, ph_started_at := Some (seconds 1500)\<rparr>]"

abbreviation break_steps :: "step list" where
  "break_steps \<equiv> [(Step ''phase_completed'' (Some 0) (seconds 1500))\<lparr>st_actual := Some 1500, st_scored := True\<rparr>,
     Step ''phase_started'' (Some 1) (seconds 1500)]"

lemma poll_early: "evaluate pomodoro pomodoro_phases (seconds 600) = (pomodoro, pomodoro_phases, [])"
  by code_simp

lemma poll_break: "evaluate pomodoro pomodoro_phases (seconds 1600) = (pomodoro, on_break, break_steps)"
  by code_simp

abbreviation break_over :: "phase list" where
  "break_over \<equiv> [(fresh_phase 0 FOCUS ACTIVE 1500)\<lparr>ph_status := COMPLETED, actual_seconds := Some 1500,
        ph_ended_at := Some (seconds 1500)\<rparr>,
     (fresh_phase 1 BREAK PENDING 300)\<lparr>ph_status := SKIPPED, ph_started_at := Some (seconds 1500),
        ph_ended_at := Some (seconds 1650)\<rparr>]"

lemma stop_break:
  "action Stop pomodoro on_break (seconds 1650) =
     Inr (pomodoro\<lparr>s_status := S_ENDED, s_ended_at := Some (seconds 1650)\<rparr>, break_over,
       [Step ''phase_skipped'' (Some 1) (seconds 1650), Step ''session_ended'' None (seconds 1650)])"
  by code_simp

lemma break_over_closed:
  assumes "closed_by pomodoro_phases break_over ledger"
  shows "outcomes 0 ledger = [COMPLETED]" "outcomes 1 ledger = [SKIPPED]"
proof -
  have c: "outcomes (ph_seq (pomodoro_phases ! i)) ledger = owed (pomodoro_phases ! i) (break_over ! i)" if "i < 2" for i
    using assms that by (simp add: closed_by_def)
  show "outcomes 0 ledger = [COMPLETED]" "outcomes 1 ledger = [SKIPPED]"
    using c [of 0] c [of 1] by (simp_all add: fresh_phase_def owed_def unfinished_iff is_live_def)
qed

theorem session_ledger_witness:
  "\<exists>ledger s ps. lifetime (pomodoro, pomodoro_phases, 0) ledger (s, ps, seconds 1650) \<and>
     s_status s = S_ENDED \<and> outcomes 0 ledger = [COMPLETED] \<and> outcomes 1 ledger = [SKIPPED] \<and>
     terminals ledger = 1 \<and> paid_focus ledger = 1 \<and> completed_focus_count ps = 1"
proof -
  let ?s = "pomodoro\<lparr>s_status := S_ENDED, s_ended_at := Some (seconds 1650)\<rparr>"
  have "lifetime (pomodoro, pomodoro_phases, 0) ([] @ break_steps) (pomodoro, on_break, seconds 1600)"
    by (rule lifetime.move [OF lifetime.born session_move.poll [OF _ poll_break]]) (simp add: seconds_def us_per_second_def)
  then have l: "lifetime (pomodoro, pomodoro_phases, 0) (([] @ break_steps) @
      [Step ''phase_skipped'' (Some 1) (seconds 1650), Step ''session_ended'' None (seconds 1650)])
      (?s, break_over, seconds 1650)"
    by (rule lifetime.move [OF _ session_move.act [OF _ stop_break]]) (simp add: seconds_def us_per_second_def)
  have "completed_focus_count break_over = 1" by (simp add: completed_focus_count_def fresh_phase_def)
  moreover have "completed_focus_count pomodoro_phases = 0" by (simp add: completed_focus_count_def fresh_phase_def)
  moreover have "distinct (map ph_seq pomodoro_phases)" by (simp add: fresh_phase_def)
  ultimately show ?thesis using l session_ledger [OF l pomodoro_ok pomodoro_active] break_over_closed by fastforce
qed

theorem evaluate_split_witness:
  "\<exists>ps'. evaluate pomodoro pomodoro_phases (seconds 1600) = (pomodoro, ps', [] @ break_steps) \<and>
     map settle ps' = map settle on_break"
  using evaluate_split [OF sess_ok_later [OF pomodoro_ok] _ poll_early poll_break]
  by (simp add: seconds_def us_per_second_def)




abbreviation run :: "phase list" where "run \<equiv> [fresh_phase 0 SPEEDRUN ACTIVE 0]"

theorem finish_verdict_witness:
  "\<exists>s' ps' steps. finish (sample_session ''speedrun'') run (seconds 90) (Some 120) = Inr (s', ps', steps) \<and>
     dict_get (blob s') ''result'' = Some (JStr ''record'')"
proof -
  have l: "live_phase run = Some 0" by (simp add: live_phase_def fresh_phase_def is_live_def)
  have e: "90 = run_elapsed (run ! 0) (seconds 90)"
    by (simp add: run_elapsed_def or_now_def fresh_phase_def)
  have t: "speedrun_type (sample_session ''speedrun'') (run ! 0) = ''beat_best''"
    by (simp add: speedrun_type_def blob_def sample_session_def fresh_phase_def)
  from finish_verdict [OF l _ e, of "sample_session ''speedrun''" "Some 120"] t show ?thesis
    by (auto simp: fresh_phase_def Let_def split: sum.splits)
qed

end
