(* ===== verification/PyDate.thy ===== *)
theory PyDate
  imports PyTime
begin

text \<open>
  The proleptic Gregorian calendar of Python's \<open>datetime.date\<close>, as far as the code uses it:
  \<open>isoformat\<close>, which prints a day as \<open>YYYY-MM-DD\<close>, and \<open>fromisoformat\<close>, which reads that
  form, the basic form \<open>YYYYMMDD\<close> and the ISO week forms (Python 3.11 and later), and raises a
  \<open>ValueError\<close> (here \<open>None\<close>) otherwise. The last section shows that reading what was printed
  gives the day back, hence that \<open>isoformat\<close> is injective on the years 1 to 9999.
\<close>

subsection \<open>Year, month and day\<close>

definition is_leap :: "int \<Rightarrow> bool" where
  "is_leap y \<longleftrightarrow> y mod 4 = 0 \<and> (y mod 100 \<noteq> 0 \<or> y mod 400 = 0)"

definition days_before_year :: "int \<Rightarrow> int" where
  "days_before_year y = (y - 1) * 365 + (y - 1) div 4 - (y - 1) div 100 + (y - 1) div 400"

definition month_starts :: "int list" where
  "month_starts = [0, 31, 59, 90, 120, 151, 181, 212, 243, 273, 304, 334, 365]"

definition days_before_month :: "int \<Rightarrow> int \<Rightarrow> int" where
  "days_before_month y m = month_starts ! nat (m - 1) + (if m > 2 \<and> is_leap y then 1 else 0)"

definition days_in_month :: "int \<Rightarrow> int \<Rightarrow> int" where
  "days_in_month y m = days_before_month y (m + 1) - days_before_month y m"

text \<open>The day number of 1970-01-01 counted from 0001-01-01 as day 0.\<close>

definition epoch_days :: int where "epoch_days = 719162"

definition MAXYEAR :: int where "MAXYEAR = 9999"

definition ymd_valid :: "int \<Rightarrow> int \<Rightarrow> int \<Rightarrow> bool" where
  "ymd_valid y m d \<longleftrightarrow> 1 \<le> y \<and> y \<le> MAXYEAR \<and> 1 \<le> m \<and> m \<le> 12 \<and> 1 \<le> d \<and> d \<le> days_in_month y m"

definition date_of_ymd :: "int \<Rightarrow> int \<Rightarrow> int \<Rightarrow> date" where
  "date_of_ymd y m d = days_before_year y + days_before_month y m + (d - 1) - epoch_days"

text \<open>The year of a day: the mean year length gives it or the year before.\<close>

definition year_of :: "date \<Rightarrow> int" where
  "year_of t = (let n = t + epoch_days; y = (400 * n) div 146097 + 1
     in if days_before_year (y + 1) \<le> n then y + 1 else y)"

definition day_of_year :: "date \<Rightarrow> int" where
  "day_of_year t = t + epoch_days - days_before_year (year_of t)"

text \<open>The last month, from \<open>m\<close> on, that starts no later than day \<open>k\<close> of the year.\<close>

function month_from :: "int \<Rightarrow> int \<Rightarrow> int \<Rightarrow> int" where
  "month_from y k m = (if 12 \<le> m \<or> k < days_before_month y (m + 1) then m else month_from y k (m + 1))"
  by pat_completeness auto
termination
  by (relation "measure (\<lambda>(y, k, m). nat (12 - m))") auto

declare month_from.simps [simp del]

definition month_of :: "date \<Rightarrow> int" where
  "month_of t = month_from (year_of t) (day_of_year t) 1"

definition day_of_month :: "date \<Rightarrow> int" where
  "day_of_month t = day_of_year t - days_before_month (year_of t) (month_of t) + 1"

subsection \<open>Printing and reading\<close>

definition digit :: "int \<Rightarrow> char" where
  "digit n = digit_char (nat n)"

definition two_digits :: "int \<Rightarrow> string" where
  "two_digits n = [digit (n div 10), digit (n mod 10)]"

definition isoformat :: "date \<Rightarrow> string" where
  "isoformat t = two_digits (year_of t div 100) @ two_digits (year_of t mod 100) @ ''-'' @
     two_digits (month_of t) @ ''-'' @ two_digits (day_of_month t)"

definition digit_val :: "char \<Rightarrow> int option" where
  "digit_val c = (let n = of_char c - (48 :: int) in if 0 \<le> n \<and> n \<le> 9 then Some n else None)"

text \<open>Reads exactly \<open>k\<close> digits; the rest of the string comes back with the number.\<close>

fun parse_digits :: "nat \<Rightarrow> string \<Rightarrow> int \<Rightarrow> (int \<times> string) option" where
  "parse_digits 0 s acc = Some (acc, s)"
| "parse_digits (Suc k) [] acc = None"
| "parse_digits (Suc k) (c # s) acc =
     (case digit_val c of None \<Rightarrow> None | Some n \<Rightarrow> parse_digits k s (acc * 10 + n))"

definition checked_date :: "int \<Rightarrow> int \<Rightarrow> int \<Rightarrow> date option" where
  "checked_date y m d = (if ymd_valid y m d then Some (date_of_ymd y m d) else None)"

text \<open>The Monday of the ISO year's first week, and the day an ISO week and weekday name.\<close>

definition iso_week1_monday :: "int \<Rightarrow> date" where
  "iso_week1_monday y = (let first = date_of_ymd y 1 1; w = weekday first
     in if w > 3 then first - w + 7 else first - w)"

definition long_iso_year :: "int \<Rightarrow> bool" where
  "long_iso_year y = (let w = weekday (date_of_ymd y 1 1) in w = 3 \<or> (w = 2 \<and> is_leap y))"

definition checked_week :: "int \<Rightarrow> int \<Rightarrow> int \<Rightarrow> date option" where
  "checked_week y w d =
     (let t = iso_week1_monday y + (w - 1) * 7 + (d - 1)
      in if 1 \<le> y \<and> y \<le> MAXYEAR \<and> 1 \<le> w \<and> (w < 53 \<or> (w = 53 \<and> long_iso_year y)) \<and> 1 \<le> d \<and> d \<le> 7
            \<and> - epoch_days \<le> t \<and> year_of t \<le> MAXYEAR
         then Some t else None)"

text \<open>\<open>-\<close> between two fields where the form has separators, nothing where it has none.\<close>

definition separator :: "bool \<Rightarrow> string \<Rightarrow> string option" where
  "separator dashed s = (if \<not> dashed then Some s
     else case s of c # rest \<Rightarrow> if c = CHR ''-'' then Some rest else None | [] \<Rightarrow> None)"

definition fromisoformat :: "string \<Rightarrow> date option" where
  "fromisoformat s =
     (if length s \<notin> {7, 8, 10} then None
      else case parse_digits 4 s 0 of None \<Rightarrow> None | Some (y, r0) \<Rightarrow>
        let dashed = (r0 \<noteq> [] \<and> hd r0 = CHR ''-''); r1 = (if dashed then tl r0 else r0)
        in if r1 \<noteq> [] \<and> hd r1 = CHR ''W'' then
             (case parse_digits 2 (tl r1) 0 of None \<Rightarrow> None | Some (w, r2) \<Rightarrow>
                if r2 = [] then checked_week y w 1
                else case separator dashed r2 of None \<Rightarrow> None | Some r3 \<Rightarrow>
                  (case parse_digits 1 r3 0 of None \<Rightarrow> None | Some (d, _) \<Rightarrow> checked_week y w d))
           else
             (case parse_digits 2 r1 0 of None \<Rightarrow> None | Some (m, r2) \<Rightarrow>
                (case separator dashed r2 of None \<Rightarrow> None | Some r3 \<Rightarrow>
                  (case parse_digits 2 r3 0 of None \<Rightarrow> None | Some (d, r4) \<Rightarrow>
                     if r4 = [] then checked_date y m d else None))))"

subsection \<open>Reading back what was printed\<close>

lemma div_window: "0 < (k :: int) \<Longrightarrow> \<exists>q r. p div k = q \<and> p = k * q + r \<and> 0 \<le> r \<and> r < k"
  by (metis mult_div_mod_eq pos_mod_bound pos_mod_sign)

lemma div_step: "0 < (k :: int) \<Longrightarrow> (p + 1) div k = p div k + (if (p + 1) mod k = 0 then 1 else 0)"
proof -
  assume k: "0 < k"
  then obtain q r where qr: "p div k = q" "p = k * q + r" "0 \<le> r" "r < k"
    using div_window by blast
  show ?thesis
  proof (cases "r + 1 = k")
    case True
    then have "p + 1 = k * (q + 1) + 0" using qr(2) by (simp add: algebra_simps)
    then show ?thesis using k qr(1) by simp
  next
    case False
    then have "p + 1 = k * q + (r + 1)" "0 \<le> r + 1" "r + 1 < k" using qr by auto
    then show ?thesis
      using int_div_pos_eq [of "p + 1" k q "r + 1"] int_mod_pos_eq [of "p + 1" k q "r + 1"] qr by simp
  qed
qed

lemma mod_0_trans: "(k :: int) dvd l \<Longrightarrow> p mod l = 0 \<Longrightarrow> p mod k = 0"
  by (simp only: mod_eq_0_iff_dvd) (rule dvd_trans)

lemma leap_count: "(c \<longrightarrow> b) \<Longrightarrow> (b \<longrightarrow> a) \<Longrightarrow>
    (if a \<and> (\<not> b \<or> c) then 1 else 0 :: int) =
      (if a then 1 else 0) - (if b then 1 else 0) + (if c then 1 else 0)"
  by (cases a; cases b; cases c) simp_all

lemma leap_step:
  "(p + 1) div 4 - (p + 1) div 100 + (p + 1) div 400 =
     p div 4 - p div 100 + p div 400 + (if is_leap (p + 1) then 1 else 0)"
proof -
  have "(p + 1) mod 100 = 0 \<longrightarrow> (p + 1) mod 4 = 0"
    by (intro impI mod_0_trans [of 4 100]) simp_all
  moreover have "(p + 1) mod 400 = 0 \<longrightarrow> (p + 1) mod 100 = 0"
    by (intro impI mod_0_trans [of 100 400]) simp_all
  ultimately have "(if is_leap (p + 1) then 1 else 0 :: int) =
      (if (p + 1) mod 4 = 0 then 1 else 0) - (if (p + 1) mod 100 = 0 then 1 else 0)
      + (if (p + 1) mod 400 = 0 then 1 else 0)"
    unfolding is_leap_def by (intro leap_count)
  then show ?thesis
    by (simp only: div_step [of 4] div_step [of 100] div_step [of 400] zero_less_numeral)
qed

lemma days_before_year_Suc: "days_before_year (y + 1) = days_before_year y + (if is_leap y then 366 else 365)"
  using leap_step [of "y - 1"] by (cases "is_leap y") (simp_all add: days_before_year_def)

lemma days_before_year_bounds:
  "400 * days_before_year y \<le> 146097 * (y - 1) + 396 \<and> 146097 * (y - 1) - 699 \<le> 400 * days_before_year y"
proof -
  obtain q4 r4 where 4: "(y - 1) div 4 = q4" "y - 1 = 4 * q4 + r4" "0 \<le> r4" "r4 < 4"
    using div_window [of 4 "y - 1"] by auto
  obtain q1 r1 where 1: "(y - 1) div 100 = q1" "y - 1 = 100 * q1 + r1" "0 \<le> r1" "r1 < 100"
    using div_window [of 100 "y - 1"] by auto
  obtain q3 r3 where 3: "(y - 1) div 400 = q3" "y - 1 = 400 * q3 + r3" "0 \<le> r3" "r3 < 400"
    using div_window [of 400 "y - 1"] by auto
  have "days_before_year y = (y - 1) * 365 + q4 - q1 + q3"
    by (simp only: days_before_year_def 4(1) 1(1) 3(1))
  then have "400 * days_before_year y = 146097 * (y - 1) - 100 * r4 + 4 * r1 - r3"
    using 4(2) 1(2) 3(2) by (simp add: algebra_simps)
  then show ?thesis using 4(3,4) 1(3,4) 3(3,4) by auto
qed

lemma year_of_bounds:
  "days_before_year (year_of t) \<le> t + epoch_days" "t + epoch_days < days_before_year (year_of t + 1)"
proof -
  define n where "n = t + epoch_days"
  obtain q r where q: "(400 * n) div 146097 = q" "400 * n = 146097 * q + r" "0 \<le> r" "r < 146097"
    using div_window [of 146097 "400 * n"] by auto
  define y where "y = q + 1"
  have y: "(400 * n) div 146097 + 1 = y" "400 * n = 146097 * (y - 1) + r" "0 \<le> r" "r < 146097"
    using q by (simp_all add: y_def)
  have 1: "days_before_year y \<le> n"
    using y(2-) days_before_year_bounds [of y] by linarith
  have "146097 * (y + 1) - 699 \<le> 400 * days_before_year (y + 2)"
    using days_before_year_bounds [of "y + 2"] by (simp add: algebra_simps)
  then have "400 * n < 400 * days_before_year (y + 2)"
    using y(2-) by (simp add: algebra_simps)
  then have 2: "n < days_before_year (y + 2)" by simp
  have yo: "year_of t = (if days_before_year (y + 1) \<le> n then y + 1 else y)"
    unfolding year_of_def n_def [symmetric] Let_def y(1) ..
  show "days_before_year (year_of t) \<le> t + epoch_days"
    using 1 unfolding yo n_def [symmetric] by simp
  show "t + epoch_days < days_before_year (year_of t + 1)"
    using 2 unfolding yo n_def [symmetric] by (simp add: add.assoc)
qed

lemma day_of_year_bounds: "0 \<le> day_of_year t" "day_of_year t < (if is_leap (year_of t) then 366 else 365)"
  using year_of_bounds [of t] days_before_year_Suc [of "year_of t"] by (auto simp: day_of_year_def)

lemma month_from_bounds:
  assumes "days_before_month y m \<le> k" "m \<le> 12" "k < days_before_month y 13"
  shows "m \<le> month_from y k m" "month_from y k m \<le> 12"
    "days_before_month y (month_from y k m) \<le> k" "k < days_before_month y (month_from y k m + 1)"
proof -
  have "m \<le> month_from y k m \<and> month_from y k m \<le> 12 \<and> days_before_month y (month_from y k m) \<le> k
      \<and> k < days_before_month y (month_from y k m + 1)"
    using assms
  proof (induction y k m rule: month_from.induct)
    case (1 y k m)
    show ?case
    proof (cases "12 \<le> m \<or> k < days_before_month y (m + 1)")
      case True
      then show ?thesis using "1.prems" by (subst (1 2 3 4) month_from.simps) auto
    next
      case False
      then show ?thesis using 1 by (subst (1 2 3 4) month_from.simps) auto
    qed
  qed
  then show "m \<le> month_from y k m" "month_from y k m \<le> 12"
    "days_before_month y (month_from y k m) \<le> k" "k < days_before_month y (month_from y k m + 1)"
    by auto
qed

lemma days_before_month_ends: "days_before_month y 1 = 0"
    "days_before_month y 13 = (if is_leap y then 366 else 365)"
  by (simp_all add: days_before_month_def month_starts_def nth_Cons')

lemma month_of_bounds:
  "1 \<le> month_of t" "month_of t \<le> 12" "days_before_month (year_of t) (month_of t) \<le> day_of_year t"
  "day_of_year t < days_before_month (year_of t) (month_of t + 1)"
  using month_from_bounds [of "year_of t" 1 "day_of_year t"] day_of_year_bounds [of t]
  by (simp_all add: month_of_def days_before_month_ends)

definition date_ok :: "date \<Rightarrow> bool" where
  "date_ok t \<longleftrightarrow> 1 \<le> year_of t \<and> year_of t \<le> MAXYEAR"

lemma days_in_month_le: "1 \<le> m \<Longrightarrow> m \<le> 12 \<Longrightarrow> days_in_month y m \<le> 31"
proof -
  assume "1 \<le> m" "m \<le> 12"
  then have "m = int (nat (m - 1)) + 1" "nat (m - 1) < 12" by auto
  then obtain k where k: "m = int k + 1" "k < 12" by blast
  have "list_all (\<lambda>k. month_starts ! Suc k - month_starts ! k \<le> 31 - (if k = 1 then 1 else 0)) [0..<12]" by code_simp
  with k have "month_starts ! Suc k - month_starts ! k \<le> 31 - (if k = 1 then 1 else 0)" by (simp add: list_all_iff)
  moreover have "nat (m + 1 - 1) = Suc k" "nat (m - 1) = k" using k by simp_all
  moreover have "m = 2 \<longleftrightarrow> k = 1" "m > 2 \<longleftrightarrow> k > 1" "m + 1 > 2 \<longleftrightarrow> k > 0" using k by auto
  ultimately show ?thesis unfolding days_in_month_def days_before_month_def by (cases "k = 1"; cases "is_leap y") (simp_all add: numeral_2_eq_2)
qed

lemma ymd_of_date:
  assumes "date_ok t"
  shows "ymd_valid (year_of t) (month_of t) (day_of_month t)"
    "date_of_ymd (year_of t) (month_of t) (day_of_month t) = t"
  using assms month_of_bounds [of t]
  by (auto simp: ymd_valid_def date_ok_def day_of_month_def days_in_month_def date_of_ymd_def day_of_year_def)

lemma digit_val_digit: "0 \<le> n \<Longrightarrow> n \<le> 9 \<Longrightarrow> digit_val (digit n) = Some n"
proof -
  assume "0 \<le> n" "n \<le> 9"
  then have "n \<in> {0, 1, 2, 3, 4, 5, 6, 7, 8, 9}" unfolding insert_iff empty_iff by presburger
  then show ?thesis by (auto simp: digit_val_def digit_def digit_char_def)
qed

lemma parse_two_digits:
  assumes "0 \<le> n" "n \<le> 99"
  shows "parse_digits (Suc (Suc k)) (two_digits n @ s) acc = parse_digits k s (acc * 100 + n)"
proof -
  have "0 \<le> n div 10" "n div 10 \<le> 9" "0 \<le> n mod 10" "n mod 10 \<le> 9"
    using assms pos_mod_bound [of 10 n] by auto
  moreover have "(acc * 10 + n div 10) * 10 + n mod 10 = acc * 100 + n"
    using div_mult_mod_eq [of n 10] by (simp add: algebra_simps)
  ultimately show ?thesis by (simp add: two_digits_def digit_val_digit algebra_simps)
qed

lemma digit_not: "0 \<le> n \<Longrightarrow> n \<le> 9 \<Longrightarrow> digit n \<noteq> CHR ''W''"
proof -
  assume "0 \<le> n" "n \<le> 9"
  then have "n \<in> {0, 1, 2, 3, 4, 5, 6, 7, 8, 9}" unfolding insert_iff empty_iff by presburger
  then show ?thesis by (auto simp: digit_def digit_char_def)
qed

lemma fromisoformat_isoformat [simp]:
  assumes "date_ok t"
  shows "fromisoformat (isoformat t) = Some t"
proof -
  let ?y = "year_of t" and ?m = "month_of t" and ?d = "day_of_month t"
  have y: "0 \<le> ?y div 100" "?y div 100 \<le> 99" "0 \<le> ?y mod 100" "?y mod 100 \<le> 99"
    using assms pos_mod_bound [of 100 ?y] by (auto simp: date_ok_def MAXYEAR_def)
  have v: "ymd_valid ?y ?m ?d" using ymd_of_date [OF assms] by simp
  have m: "0 \<le> ?m" "?m \<le> 99" and d: "0 \<le> ?d" "?d \<le> 99"
    using v days_in_month_le [of ?m ?y] by (auto simp: ymd_valid_def)
  have W: "digit (?m div 10) \<noteq> CHR ''W''" using m by (intro digit_not) auto
  have len: "length (isoformat t) = 10" by (simp add: isoformat_def two_digits_def)
  have four: "parse_digits 4 (isoformat t) 0 = Some (?y, ''-'' @ two_digits ?m @ ''-'' @ two_digits ?d)"
    using parse_two_digits [OF y(1,2), of 2] parse_two_digits [OF y(3,4), of 0]
    by (simp add: isoformat_def eval_nat_numeral)
  have two: "parse_digits 2 (two_digits ?m @ r) 0 = Some (?m, r)" for r
    using parse_two_digits [OF m, of 0] by (simp add: eval_nat_numeral)
  have dd: "parse_digits 2 (two_digits ?d) 0 = Some (?d, [])"
    using parse_two_digits [OF d, of 0 "[]"] by (simp add: eval_nat_numeral)
  have hd: "hd (two_digits ?m @ r) \<noteq> CHR ''W''" for r using W by (simp add: two_digits_def)
  show ?thesis
    using hd len v ymd_of_date(2) [OF assms]
    by (simp add: fromisoformat_def four two dd separator_def checked_date_def)
qed

lemma isoformat_inj: "date_ok s \<Longrightarrow> date_ok t \<Longrightarrow> isoformat s = isoformat t \<Longrightarrow> s = t"
  using fromisoformat_isoformat by (metis option.inject)

subsection \<open>What is read is a day of the years 1 to 9999\<close>

lemma days_before_year_mono: "y \<le> z \<Longrightarrow> days_before_year y \<le> days_before_year z"
proof (induction z rule: int_ge_induct)
  case (step z)
  then show ?case using days_before_year_Suc [of z] by (auto split: if_splits)
qed simp

lemma year_of_unique:
  assumes "days_before_year y \<le> t + epoch_days" "t + epoch_days < days_before_year (y + 1)"
  shows "year_of t = y"
proof (rule ccontr)
  assume "year_of t \<noteq> y"
  then consider "year_of t + 1 \<le> y" | "y + 1 \<le> year_of t" by linarith
  then show False
    using assms year_of_bounds [of t] days_before_year_mono by cases (meson leD le_less_trans order_trans)+
qed

lemma days_before_month_range:
  assumes "1 \<le> m" "m \<le> 12"
  shows "0 \<le> days_before_month y m" "days_before_month y (m + 1) \<le> (if is_leap y then 366 else 365)"
proof -
  have "m \<in> {1, 2, 3, 4, 5, 6, 7, 8, 9, 10, 11, 12}" unfolding insert_iff empty_iff using assms by presburger
  then show "0 \<le> days_before_month y m" "days_before_month y (m + 1) \<le> (if is_leap y then 366 else 365)"
    by (auto simp: days_before_month_def month_starts_def nth_Cons')
qed

lemma year_of_ymd: "ymd_valid y m d \<Longrightarrow> year_of (date_of_ymd y m d) = y"
proof (rule year_of_unique)
  assume v: "ymd_valid y m d"
  note r = days_before_month_range [of m y]
  show "days_before_year y \<le> date_of_ymd y m d + epoch_days"
    using v r by (simp add: ymd_valid_def date_of_ymd_def)
  show "date_of_ymd y m d + epoch_days < days_before_year (y + 1)"
    using v r by (simp add: ymd_valid_def date_of_ymd_def days_before_year_Suc days_in_month_def)
qed

lemma date_ok_iff: "date_ok t \<longleftrightarrow> - epoch_days \<le> t \<and> year_of t \<le> MAXYEAR"
proof -
  have "days_before_year 1 = 0" by (simp add: days_before_year_def)
  then have "1 \<le> year_of t \<longleftrightarrow> - epoch_days \<le> t"
    using year_of_bounds [of t] days_before_year_mono [of 1 "year_of t"] days_before_year_mono [of "year_of t + 1" 1]
    by linarith
  then show ?thesis by (auto simp: date_ok_def)
qed

lemma checked_ok: "checked_date y m d = Some t \<Longrightarrow> date_ok t" "checked_week y w d = Some t \<Longrightarrow> date_ok t"
proof -
  show "date_ok t" if "checked_date y m d = Some t"
    using that year_of_ymd [of y m d] by (auto simp: checked_date_def date_ok_def ymd_valid_def split: if_splits)
  show "date_ok t" if "checked_week y w d = Some t"
    using that by (auto simp: checked_week_def date_ok_iff Let_def split: if_splits)
qed

lemma fromisoformat_ok: "fromisoformat s = Some t \<Longrightarrow> date_ok t"
  by (auto simp: fromisoformat_def Let_def dest!: checked_ok split: if_splits option.splits)

end
