(* ===== verification/Recurrence.thy ===== *)
theory Recurrence
  imports PyJson PyDate
begin

text \<open>
  The recurrence rules of dailies, the pure part of \<open>app/game/daily_service.py\<close>: normalising a
  stored blob, the blob a write stores, which days a rule schedules, its units in a range and
  the units before one, and the instant a unit falls due. A normalised rule, which the code
  keeps as a dict, is a record of the schedule and the optional \<open>since\<close> stamp.
\<close>

datatype schedule =
    Daily
  | Weekdays "int list"
  | EveryNDays int "date option"
  | TimesPerWeek int

record recurrence =
  r_schedule :: schedule
  r_since :: "date option"

definition GRACE_HOURS :: int where "GRACE_HOURS = 3"
definition LOOKBACK_DAYS :: int where "LOOKBACK_DAYS = 35"
definition FREEZE_WINDOW_UNITS :: nat where "FREEZE_WINDOW_UNITS = 7"

subsection \<open>Normalising a blob\<close>

text \<open>A JSON value is never a \<open>date\<close>, so only the string branch of \<open>_parse_date\<close> applies.\<close>

definition parse_date :: "json option \<Rightarrow> date option" where
  "parse_date v = (case v of Some (JStr s) \<Rightarrow> fromisoformat s | _ \<Rightarrow> None)"

text \<open>\<open>sorted({d for d in days if _is_int(d) and 0 <= d <= 6})\<close>; JSON booleans are \<open>JBool\<close>, so
  \<open>JInt\<close> is what \<open>_is_int\<close> accepts.\<close>

definition clean_days :: "json list \<Rightarrow> int list" where
  "clean_days days = sort (remdups (List.map_filter
     (\<lambda>d. case d of JInt n \<Rightarrow> if 0 \<le> n \<and> n \<le> 6 then Some n else None | _ \<Rightarrow> None) days))"

definition parse_schedule :: "dict \<Rightarrow> schedule option" where
  "parse_schedule raw =
     (let kind = dict_get raw ''kind'' in
      if kind = Some (JStr ''daily'') then Some Daily
      else if kind = Some (JStr ''weekdays'') then
        (case dict_get raw ''days'' of
           Some (JArr days) \<Rightarrow> if clean_days days = [] then None else Some (Weekdays (clean_days days))
         | _ \<Rightarrow> None)
      else if kind = Some (JStr ''every_n_days'') then
        (case dict_get raw ''interval'' of
           Some (JInt n) \<Rightarrow> if \<not> (1 \<le> n \<and> n \<le> 365) then None
             else Some (EveryNDays n (parse_date (dict_get raw ''anchor'')))
         | _ \<Rightarrow> None)
      else if kind = Some (JStr ''times_per_week'') then
        (case dict_get raw ''count'' of
           Some (JInt n) \<Rightarrow> if \<not> (1 \<le> n \<and> n \<le> 7) then None else Some (TimesPerWeek n)
         | _ \<Rightarrow> None)
      else None)"

definition parse_recurrence :: "json \<Rightarrow> recurrence option" where
  "parse_recurrence raw =
     (case raw of
        JObj d \<Rightarrow> map_option (\<lambda>sched. \<lparr>r_schedule = sched, r_since = parse_date (dict_get d ''since'')\<rparr>)
                   (parse_schedule d)
      | _ \<Rightarrow> None)"

text \<open>\<open>bool(v)\<close> of a value \<open>dict.get\<close> returned.\<close>

definition absent_or_empty :: "json option \<Rightarrow> bool" where
  "absent_or_empty v = (case v of None \<Rightarrow> True | Some JNull \<Rightarrow> True | Some (JBool b) \<Rightarrow> \<not> b
     | Some (JInt n) \<Rightarrow> n = 0 | Some (JFloat x) \<Rightarrow> x = 0 | Some (JStr s) \<Rightarrow> s = []
     | Some (JArr xs) \<Rightarrow> xs = [] | Some (JObj d) \<Rightarrow> d = [] | _ \<Rightarrow> False)"

definition dict_pop :: "dict \<Rightarrow> string \<Rightarrow> dict" where
  "dict_pop d k = filter (\<lambda>(k', _). k' \<noteq> k) d"

text \<open>\<open>(stored or {}).get("anchor")\<close>; only an \<open>every_n_days\<close> rule has the key.\<close>

definition stored_anchor :: "recurrence option \<Rightarrow> date option" where
  "stored_anchor rec = (case rec of Some r \<Rightarrow> (case r_schedule r of EveryNDays _ a \<Rightarrow> a | _ \<Rightarrow> None)
     | None \<Rightarrow> None)"

definition recurrence_for_storage :: "dict \<Rightarrow> date \<Rightarrow> json option \<Rightarrow> dict" where
  "recurrence_for_storage recurrence today existing =
     (let rec = dict_pop recurrence ''since'';
          unanchored = (dict_get rec ''kind'' = Some (JStr ''every_n_days'')
                        \<and> absent_or_empty (dict_get rec ''anchor''))
      in case existing of
           None \<Rightarrow> if unanchored then dict_set rec ''anchor'' (JStr (isoformat today)) else rec
         | Some old \<Rightarrow>
             let stored = parse_recurrence old;
                 rec1 = (if unanchored then dict_set rec ''anchor''
                           (JStr (isoformat (case stored_anchor stored of Some a \<Rightarrow> a | None \<Rightarrow> today)))
                         else rec)
             in if map_option r_schedule (parse_recurrence (JObj rec1)) \<noteq> map_option r_schedule stored
                then dict_set rec1 ''since'' (JStr (isoformat today))
                else (case stored of
                        Some r \<Rightarrow> (case r_since r of
                            Some s \<Rightarrow> dict_set rec1 ''since'' (JStr (isoformat s)) | None \<Rightarrow> rec1)
                      | None \<Rightarrow> rec1))"

subsection \<open>Scheduled days and units\<close>

definition effective_anchor :: "recurrence \<Rightarrow> date \<Rightarrow> date" where
  "effective_anchor rec anchor = (case r_since rec of Some s \<Rightarrow> max anchor s | None \<Rightarrow> anchor)"

definition week_end :: "date \<Rightarrow> date" where
  "week_end day = day + (6 - weekday day)"

definition first_week_unit :: "int \<Rightarrow> date \<Rightarrow> date" where
  "first_week_unit count lowest =
     (let first = week_end lowest in if first - lowest + 1 < count then first + 7 else first)"

definition is_schedulable :: "recurrence \<Rightarrow> date \<Rightarrow> date \<Rightarrow> bool" where
  "is_schedulable rec day anchor =
     (if day < effective_anchor rec anchor then False
      else case r_schedule rec of
             Daily \<Rightarrow> True
           | Weekdays days \<Rightarrow> weekday day \<in> set days
           | EveryNDays interval start0 \<Rightarrow>
               let start = (case start0 of Some a \<Rightarrow> a | None \<Rightarrow> anchor)
               in if day < start then False else (day - start) mod interval = 0
           | TimesPerWeek _ \<Rightarrow> True)"

text \<open>The \<open>while\<close> loops that step by a week, forwards and backwards.\<close>

function weeks_upto :: "date \<Rightarrow> date \<Rightarrow> date list" where
  "weeks_upto d end' = (if d \<le> end' then d # weeks_upto (d + 7) end' else [])"
  by pat_completeness auto
termination
  by (relation "measure (\<lambda>(d, e). nat (e + 1 - d))") auto

function weeks_down :: "date \<Rightarrow> date \<Rightarrow> nat \<Rightarrow> date list" where
  "weeks_down d first n = (if 0 < n \<and> first \<le> d then d # weeks_down (d - 7) first (n - 1) else [])"
  by pat_completeness auto
termination
  by (relation "measure (\<lambda>(d, f, n). n)") auto

declare weeks_upto.simps [simp del] weeks_down.simps [simp del]

function days_scheduled :: "recurrence \<Rightarrow> date \<Rightarrow> date \<Rightarrow> date \<Rightarrow> date list" where
  "days_scheduled rec anchor day end' =
     (if day \<le> end' then
        (if is_schedulable rec day anchor then day # days_scheduled rec anchor (day + 1) end'
         else days_scheduled rec anchor (day + 1) end')
      else [])"
  by pat_completeness auto
termination
  by (relation "measure (\<lambda>(r, a, d, e). nat (e + 1 - d))") auto

declare days_scheduled.simps [simp del]

definition scheduled_units :: "recurrence \<Rightarrow> date \<Rightarrow> date \<Rightarrow> date \<Rightarrow> date list" where
  "scheduled_units rec anchor start end' =
     (if start > end' then []
      else case r_schedule rec of
             TimesPerWeek count \<Rightarrow>
               weeks_upto (max (week_end start) (first_week_unit count (effective_anchor rec anchor))) end'
           | _ \<Rightarrow> days_scheduled rec anchor start end')"

text \<open>The scan of \<open>prior_units\<close>; the last argument is what is left of its 2200 steps.\<close>

definition SCAN_CAP :: nat where "SCAN_CAP = 2200"

fun scan_down :: "recurrence \<Rightarrow> date \<Rightarrow> date \<Rightarrow> date \<Rightarrow> nat \<Rightarrow> nat \<Rightarrow> date list" where
  "scan_down rec anchor lowest d n 0 = []"
| "scan_down rec anchor lowest d n (Suc left) =
     (if 0 < n \<and> lowest \<le> d then
        (if is_schedulable rec d anchor then d # scan_down rec anchor lowest (d - 1) (n - 1) left
         else scan_down rec anchor lowest (d - 1) n left)
      else [])"

definition prior_units :: "recurrence \<Rightarrow> date \<Rightarrow> date \<Rightarrow> nat \<Rightarrow> date list" where
  "prior_units rec anchor unit n =
     (let lowest = effective_anchor rec anchor in
      case r_schedule rec of
        TimesPerWeek count \<Rightarrow> weeks_down (unit - 7) (first_week_unit count lowest) n
      | _ \<Rightarrow> scan_down rec anchor lowest (unit - 1) n SCAN_CAP)"

definition eval_due :: "date \<Rightarrow> datetime \<Rightarrow> int \<Rightarrow> bool" where
  "eval_due unit now grace_hours = (midnight unit + us_per_day + seconds (grace_hours * 3600) \<le> now)"

end
