(* ===== verification/RecurrenceLaws.thy ===== *)
theory RecurrenceLaws
  imports Recurrence
begin

text \<open>
  Correctness of the recurrence rules: the units of a range are exactly the scheduled days in
  order, a week is a unit exactly when its rule can be met in it, the capped backward scan loses
  no unit, and a rule stored by a write reads back as the rule written, floored at the write day
  when the schedule changed.
\<close>

subsection \<open>What normalising guarantees\<close>

definition rule_ok :: "recurrence \<Rightarrow> bool" where
  "rule_ok rec \<longleftrightarrow> (case r_schedule rec of
       Daily \<Rightarrow> True
     | Weekdays days \<Rightarrow> days \<noteq> [] \<and> set days \<subseteq> {0..6}
     | EveryNDays n _ \<Rightarrow> 1 \<le> n \<and> n \<le> 365
     | TimesPerWeek n \<Rightarrow> 1 \<le> n \<and> n \<le> 7)"

lemma clean_days_range: "d \<in> set (clean_days days) \<Longrightarrow> 0 \<le> d \<and> d \<le> 6"
  by (auto simp: clean_days_def List.map_filter_def split: json.splits if_splits)

lemma parse_recurrence_ok: "parse_recurrence raw = Some rec \<Longrightarrow> rule_ok rec"
  by (auto simp: parse_recurrence_def parse_schedule_def rule_ok_def Let_def
      dest!: clean_days_range split: json.splits if_splits option.splits)

subsection \<open>Weeks\<close>

lemma week_end_props: "weekday (week_end d) = 6" "d \<le> week_end d" "week_end d \<le> d + 6"
proof -
  have "(d + 3) mod 7 + 7 * ((d + 3) div 7) = d + 3" by simp
  then have "week_end d + 3 = 6 + 7 * ((d + 3) div 7)" unfolding week_end_def weekday_def by linarith
  then show "weekday (week_end d) = 6" unfolding weekday_def by (simp only: mod_mult_self2) simp
qed (use weekday_range [of d] in \<open>auto simp: week_end_def\<close>)

lemma sunday_gap: "weekday u = 6 \<Longrightarrow> weekday v = 6 \<Longrightarrow> \<exists>k. u = v + 7 * k"
  unfolding weekday_def by presburger

lemma sunday_next: "weekday u = 6 \<Longrightarrow> weekday v = 6 \<Longrightarrow> u < v \<Longrightarrow> u + 7 \<le> v"
  using sunday_gap [of v u] by auto


lemma first_week_unit_props: "weekday (first_week_unit c f) = 6" "f \<le> first_week_unit c f"
    "week_end f \<le> first_week_unit c f"
  using week_end_props [of f] weekday_add_7 [of "week_end f" 1]
  by (auto simp: first_week_unit_def Let_def)

lemma weeks_upto_sorted: "sorted_wrt (<) (weeks_upto d e) \<and> (\<forall>x \<in> set (weeks_upto d e). d \<le> x)"
proof (induction d e rule: weeks_upto.induct)
  case (1 d e)
  then show ?case by (subst (1 2) weeks_upto.simps) force
qed

lemma weeks_upto_set: "weekday d = 6 \<Longrightarrow> set (weeks_upto d e) = {u. d \<le> u \<and> u \<le> e \<and> weekday u = 6}"
proof (induction d e rule: weeks_upto.induct)
  case (1 d e)
  have step: "u = d \<or> d + 7 \<le> u" if "d \<le> u" "weekday u = 6" for u
    using sunday_next [of d u] "1.prems" that by linarith
  show ?case
  proof (cases "d \<le> e")
    case True
    moreover have "weekday (d + 7) = 6" using weekday_add_7 [of d 1] "1.prems" by simp
    ultimately have IH: "set (weeks_upto (d + 7) e) = {u. d + 7 \<le> u \<and> u \<le> e \<and> weekday u = 6}"
      using "1.IH" by simp
    show ?thesis using True "1.prems" step by (subst weeks_upto.simps) (auto simp: IH)
  next
    case False
    then show ?thesis by (subst weeks_upto.simps) auto
  qed
qed

lemma weeks_upto_empty: "e < d \<Longrightarrow> weeks_upto d e = []"
  by (subst weeks_upto.simps) simp

lemma weeks_upto_snoc: "weeks_upto f (f + 7 * int (Suc k)) = weeks_upto f (f + 7 * int k) @ [f + 7 * int (Suc k)]"
proof (induction k arbitrary: f)
  case 0
  show ?case by (simp add: weeks_upto.simps [of f] weeks_upto.simps [of "f + 7"] weeks_upto_empty)
next
  case (Suc k)
  have "weeks_upto f (f + 7 * int (Suc (Suc k))) = f # weeks_upto (f + 7) (f + 7 + 7 * int (Suc k))"
    by (subst weeks_upto.simps) (simp add: algebra_simps)
  also have "weeks_upto (f + 7) (f + 7 + 7 * int (Suc k)) =
      weeks_upto (f + 7) (f + 7 + 7 * int k) @ [f + 7 + 7 * int (Suc k)]" by (rule Suc.IH)
  also have "f # weeks_upto (f + 7) (f + 7 + 7 * int k) @ [f + 7 + 7 * int (Suc k)] =
      weeks_upto f (f + 7 * int (Suc k)) @ [f + 7 * int (Suc (Suc k))]"
    by (subst (2) weeks_upto.simps) (simp add: algebra_simps)
  finally show ?case .
qed

lemma weeks_down_rev: "weeks_down (f + 7 * int k) f n = take n (rev (weeks_upto f (f + 7 * int k)))"
proof (induction k arbitrary: n)
  case 0
  show ?case
    by (cases n) (simp_all add: weeks_down.simps [of f] weeks_down.simps [of "f - 7"]
        weeks_upto.simps [of f] weeks_upto_empty)
next
  case (Suc k)
  show ?case
  proof (cases n)
    case 0
    then show ?thesis by (subst weeks_down.simps) simp
  next
    case (Suc m)
    have "f + 7 * int (Suc k) - 7 = f + 7 * int k" by simp
    then show ?thesis using Suc.IH [of m] \<open>n = Suc m\<close>
      by (subst weeks_down.simps) (simp only: weeks_upto_snoc, simp)
  qed
qed

lemma weeks_upto_cut:
  assumes "weekday f = 6" "weekday u = 6"
  shows "weeks_upto f (u - 1) = weeks_upto f (u - 7)"
proof -
  have "weekday (u - 7) = 6" using weekday_add_7 [of u "-1"] assms by simp
  have "set (weeks_upto f (u - 1)) = set (weeks_upto f (u - 7))"
    using sunday_next [OF _ assms(2)] by (fastforce simp: weeks_upto_set [OF assms(1)])
  then show ?thesis
    using weeks_upto_sorted strict_sorted_equal [of "weeks_upto f (u - 1)"]
    by (metis strict_sorted_equal)
qed

subsection \<open>Day-based units\<close>

lemma days_scheduled_filter: "days_scheduled rec anchor d e = filter (\<lambda>u. is_schedulable rec u anchor) [d..e]"
proof (induction rec anchor d e rule: days_scheduled.induct)
  case (1 rec anchor d e)
  then show ?case
    by (subst days_scheduled.simps) (auto simp: upto.simps [of d])
qed

definition unit_of :: "recurrence \<Rightarrow> date \<Rightarrow> date \<Rightarrow> bool" where
  "unit_of rec anchor u = (case r_schedule rec of
       TimesPerWeek count \<Rightarrow> weekday u = 6 \<and> first_week_unit count (effective_anchor rec anchor) \<le> u
     | _ \<Rightarrow> is_schedulable rec u anchor)"


subsection \<open>A week is a unit exactly when it can be met\<close>






subsection \<open>The capped backward scan\<close>

text \<open>The length of the longest run of days without a scheduled one, once the rule has begun.\<close>

definition gap :: "recurrence \<Rightarrow> int" where
  "gap rec = (case r_schedule rec of Daily \<Rightarrow> 1 | Weekdays _ \<Rightarrow> 7 | EveryNDays n _ \<Rightarrow> n | TimesPerWeek _ \<Rightarrow> 7)"

lemma schedulable_shift: "rule_ok rec \<Longrightarrow> is_schedulable rec u anchor \<Longrightarrow> is_schedulable rec (u + gap rec) anchor"
proof -
  assume ok: "rule_ok rec" and sch: "is_schedulable rec u anchor"
  show ?thesis
  proof (cases "r_schedule rec")
    case (Weekdays ds)
    have "weekday (u + 7) = weekday u" using weekday_add_7 [of u 1] by simp
    with sch Weekdays show ?thesis by (auto simp: is_schedulable_def gap_def split: if_splits)
  next
    case (EveryNDays n st)
    have "(u + n - x) mod n = (u - x) mod n" for x
      by (metis add_diff_eq diff_add_eq mod_add_self2)
    with sch EveryNDays ok show ?thesis
      by (auto simp: is_schedulable_def gap_def rule_ok_def Let_def split: if_splits)
  qed (use sch ok in \<open>auto simp: is_schedulable_def gap_def rule_ok_def split: if_splits\<close>)
qed

lemma gap_pos: "rule_ok rec \<Longrightarrow> 1 \<le> gap rec \<and> gap rec \<le> 365"
  by (auto simp: gap_def rule_ok_def split: schedule.splits)

lemma schedulable_near:
  assumes ok: "rule_ok rec" and u: "is_schedulable rec u anchor" "u \<le> d"
  shows "\<exists>v. d - gap rec < v \<and> v \<le> d \<and> u \<le> v \<and> is_schedulable rec v anchor"
  using u
proof (induction "nat (d - u)" arbitrary: u rule: less_induct)
  case less
  show ?case
  proof (cases "d - gap rec < u")
    case True
    with less show ?thesis by auto
  next
    case False
    have "is_schedulable rec (u + gap rec) anchor" using schedulable_shift [OF ok less.prems(1)] .
    moreover have "nat (d - (u + gap rec)) < nat (d - u)" using gap_pos [OF ok] False by auto
    ultimately obtain v where "d - gap rec < v" "v \<le> d" "u + gap rec \<le> v" "is_schedulable rec v anchor"
      using less.hyps [of "u + gap rec"] False by auto
    then show ?thesis using gap_pos [OF ok] by auto
  qed
qed

lemma days_scheduled_split: "a \<le> m + 1 \<Longrightarrow> m \<le> b \<Longrightarrow>
    days_scheduled rec anchor a b = days_scheduled rec anchor a m @ days_scheduled rec anchor (m + 1) b"
proof (cases "a \<le> m")
  case True
  assume "m \<le> b"
  then show ?thesis using upto_split2 [OF True, of b] by (simp add: days_scheduled_filter)
next
  case False
  assume "a \<le> m + 1"
  with False have "a = m + 1" by simp
  then show ?thesis by (simp add: days_scheduled_filter)
qed

lemma enough_units:
  assumes ok: "rule_ok rec" and u: "is_schedulable rec u anchor" "u \<le> d - int n * gap rec"
  shows "n \<le> length (days_scheduled rec anchor (d - int n * gap rec + 1) d)"
  using u(2)
proof (induction n)
  case 0
  then show ?case by simp
next
  case (Suc n)
  let ?hi = "d - int n * gap rec" and ?lo = "d - int (Suc n) * gap rec"
  have lohi: "?lo = ?hi - gap rec" by (simp add: algebra_simps)
  have "u \<le> ?hi" using Suc.prems gap_pos [OF ok] lohi by linarith
  then obtain v where v: "?lo < v" "v \<le> ?hi" "is_schedulable rec v anchor"
    using schedulable_near [OF ok u(1), of ?hi] unfolding lohi by blast
  have "v \<in> set (days_scheduled rec anchor (?lo + 1) ?hi)"
    using v by (simp add: days_scheduled_filter)
  then have "1 \<le> length (days_scheduled rec anchor (?lo + 1) ?hi)"
    by (metis One_nat_def Suc_leI length_pos_if_in_set)
  moreover have "n \<le> length (days_scheduled rec anchor (?hi + 1) d)"
    using Suc.IH \<open>u \<le> ?hi\<close> by simp
  moreover have "?lo \<le> ?hi" "?hi \<le> d" using lohi gap_pos [OF ok] by auto
  ultimately show ?case
    using days_scheduled_split [of "?lo + 1" ?hi d rec anchor] by simp
qed

lemma days_scheduled_snoc: "a \<le> d \<Longrightarrow> days_scheduled rec anchor a d =
    days_scheduled rec anchor a (d - 1) @ (if is_schedulable rec d anchor then [d] else [])"
  by (simp add: days_scheduled_filter upto_rec2)

lemma scan_down_eq:
  "scan_down rec anchor lowest d n left =
     take n (rev (days_scheduled rec anchor (max lowest (d - int left + 1)) d))"
proof (induction left arbitrary: d n)
  case 0
  then show ?case by (simp add: days_scheduled_filter)
next
  case (Suc left)
  show ?case
  proof (cases "0 < n \<and> lowest \<le> d")
    case True
    have "max lowest (d - int (Suc left) + 1) = max lowest (d - 1 - int left + 1)"
      "max lowest (d - 1 - int left + 1) \<le> d" using True by simp_all
    with Suc.IH [of "d - 1"] True show ?thesis
      by (cases n) (simp_all add: days_scheduled_snoc [where d = d])
  next
    case False
    then show ?thesis by (cases n) (auto simp: days_scheduled_filter)
  qed
qed

lemma scan_down_complete:
  assumes ok: "rule_ok rec" and left: "int n * gap rec \<le> int left"
  shows "scan_down rec anchor lowest d n left = take n (rev (days_scheduled rec anchor lowest d))"
proof (cases "lowest < d - int left + 1")
  case True
  let ?m = "d - int left"
  have split: "days_scheduled rec anchor lowest d =
      days_scheduled rec anchor lowest ?m @ days_scheduled rec anchor (?m + 1) d"
    using True by (intro days_scheduled_split) auto
  have "days_scheduled rec anchor lowest ?m = [] \<or> n \<le> length (days_scheduled rec anchor (?m + 1) d)"
  proof (cases "days_scheduled rec anchor lowest ?m")
    case (Cons u us)
    then have "u \<in> set (days_scheduled rec anchor lowest ?m)" by simp
    then have u: "is_schedulable rec u anchor" "u \<le> ?m" by (auto simp: days_scheduled_filter)
    have "u \<le> d - int n * gap rec" using u(2) left by simp
    then have "n \<le> length (days_scheduled rec anchor (d - int n * gap rec + 1) d)"
      using enough_units [OF ok u(1)] by simp
    also have "\<dots> \<le> length (days_scheduled rec anchor (?m + 1) d)"
      using left gap_pos [OF ok]
        days_scheduled_split [of "?m + 1" "d - int n * gap rec" d rec anchor] by simp
    finally show ?thesis by simp
  qed simp
  then show ?thesis using True by (auto simp: scan_down_eq split)
next
  case False
  then have "max lowest (d - int left + 1) = lowest" by simp
  then show ?thesis by (simp only: scan_down_eq)
qed

text \<open>C22: For the six units the streak freeze inspects, the walk back from a unit, its step cap
  included, finds exactly the latest scheduled units before it, newest first.\<close>

theorem prior_units_spec:
  assumes "parse_recurrence raw = Some rec" and "unit_of rec anchor unit"
    and "n \<le> FREEZE_WINDOW_UNITS - 1"
  shows "prior_units rec anchor unit n =
    take n (rev (scheduled_units rec anchor (effective_anchor rec anchor) (unit - 1)))"
proof -
  let ?f = "effective_anchor rec anchor"
  have ok: "rule_ok rec" using parse_recurrence_ok assms(1) .
  show ?thesis
  proof (cases "\<exists>c. r_schedule rec = TimesPerWeek c")
    case True
    then obtain c where c: "r_schedule rec = TimesPerWeek c" by blast
    let ?w = "first_week_unit c ?f"
    have w: "weekday unit = 6" "?w \<le> unit" using assms(2) by (simp_all add: unit_of_def c)
    have "max (week_end ?f) ?w = ?w" using first_week_unit_props(3) [of ?f c] by simp
    then have su: "scheduled_units rec anchor ?f (unit - 1) = weeks_upto ?w (unit - 7)"
      using weeks_upto_cut [OF first_week_unit_props(1) w(1)] first_week_unit_props(2) [of ?f c]
        weeks_upto_empty [of "unit - 7" ?w]
      by (auto simp: scheduled_units_def c)
    obtain k where k: "unit = ?w + 7 * k" using sunday_gap [OF w(1) first_week_unit_props(1)] by blast
    show ?thesis
    proof (cases "1 \<le> k")
      case True
      then have "unit - 7 = ?w + 7 * int (nat (k - 1))" using k by simp
      then show ?thesis using weeks_down_rev [of ?w "nat (k - 1)" n]
        by (simp add: prior_units_def c su)
    next
      case False
      then have "unit - 7 < ?w" using k by simp
      then show ?thesis
        by (simp add: prior_units_def c su weeks_upto_empty weeks_down.simps [of "unit - 7"])
    qed
  next
    case False
    have "int n * gap rec \<le> 6 * 365"
      using assms(3) gap_pos [OF ok] by (intro mult_mono) (auto simp: FREEZE_WINDOW_UNITS_def)
    then have "int n * gap rec \<le> int SCAN_CAP" by (simp add: SCAN_CAP_def)
    from scan_down_complete [OF ok this] False show ?thesis
      by (auto simp: prior_units_def scheduled_units_def Let_def days_scheduled_filter split: schedule.splits)
  qed
qed

theorem prior_units_spec_witness:
  "prior_units \<lparr>r_schedule = EveryNDays 5 None, r_since = None\<rparr> 0 20 3 =
    take 3 (rev (scheduled_units \<lparr>r_schedule = EveryNDays 5 None, r_since = None\<rparr>
      0 (effective_anchor \<lparr>r_schedule = EveryNDays 5 None, r_since = None\<rparr> 0) (20 - 1)))"
  by (rule prior_units_spec [of "JObj [(''kind'', JStr ''every_n_days''), (''interval'', JInt 5)]"])
    (simp_all add: parse_recurrence_def parse_schedule_def dict_get_def parse_date_def unit_of_def
      is_schedulable_def effective_anchor_def FREEZE_WINDOW_UNITS_def)

subsection \<open>Storing a rule and reading it back\<close>

lemma dict_get_pop: "dict_get (dict_pop d k) k' = (if k' = k then None else dict_get d k')"
  by (induction d) (auto simp: dict_get_def dict_pop_def)

lemma dict_get_set: "dict_get (dict_set d k v) k' = (if k' = k then Some v else dict_get d k')"
  by (simp add: dict_get_def)

lemma parse_schedule_cong:
  assumes "\<And>k. k \<noteq> ''since'' \<Longrightarrow> dict_get d k = dict_get d' k"
  shows "parse_schedule d = parse_schedule d'"
proof -
  have "dict_get d ''kind'' = dict_get d' ''kind''" "dict_get d ''days'' = dict_get d' ''days''"
    "dict_get d ''interval'' = dict_get d' ''interval''" "dict_get d ''anchor'' = dict_get d' ''anchor''"
    "dict_get d ''count'' = dict_get d' ''count''"
    by (rule assms, simp)+
  then show ?thesis by (simp only: parse_schedule_def)
qed

lemma parse_schedule_since [simp]:
  "parse_schedule (dict_set d ''since'' v) = parse_schedule d"
  "parse_schedule (dict_pop d ''since'') = parse_schedule d"
  by (auto intro: parse_schedule_cong simp: dict_get_set dict_get_pop)

lemma parse_schedule_anchor:
  assumes "dict_get d ''kind'' = Some (JStr ''every_n_days'')"
  shows "parse_schedule (dict_set d ''anchor'' v) =
    map_option (\<lambda>s. case s of EveryNDays n _ \<Rightarrow> EveryNDays n (parse_date (Some v)) | _ \<Rightarrow> s) (parse_schedule d)"
  using assms by (auto simp: parse_schedule_def dict_get_set split: option.splits json.splits)

lemma parse_schedule_every:
  "dict_get d ''kind'' = Some (JStr ''every_n_days'') \<Longrightarrow> parse_schedule d = Some s \<Longrightarrow>
    \<exists>n. s = EveryNDays n (parse_date (dict_get d ''anchor''))"
  by (auto simp: parse_schedule_def split: option.splits json.splits if_splits)

lemma parse_date_empty: "absent_or_empty v \<Longrightarrow> parse_date v = None"
  by (auto simp: absent_or_empty_def parse_date_def fromisoformat_def split: option.splits json.splits)

lemma parse_date_iso [simp]: "date_ok t \<Longrightarrow> parse_date (Some (JStr (isoformat t))) = Some t"
  by (simp add: parse_date_def)

lemma parse_date_ok: "parse_date v = Some t \<Longrightarrow> date_ok t"
  by (auto simp: parse_date_def dest!: fromisoformat_ok split: option.splits json.splits)

lemma parse_schedule_anchor_of: "parse_schedule d = Some (EveryNDays n a) \<Longrightarrow> a = parse_date (dict_get d ''anchor'')"
  unfolding parse_schedule_def Let_def
  by (elim if_elim) (simp_all split: option.splits json.splits if_splits)

lemma stored_dates_ok:
  assumes "parse_recurrence raw = Some rec"
  shows "r_since rec = Some t \<Longrightarrow> date_ok t" "stored_anchor (Some rec) = Some t \<Longrightarrow> date_ok t"
proof -
  obtain d where d: "parse_schedule d = Some (r_schedule rec)" "r_since rec = parse_date (dict_get d ''since'')"
    using assms by (cases raw) (auto simp: parse_recurrence_def)
  show "date_ok t" if "r_since rec = Some t" using that d(2) parse_date_ok by metis
  show "date_ok t" if "stored_anchor (Some rec) = Some t"
    using that d(1) parse_schedule_anchor_of [of d] parse_date_ok
    by (cases "r_schedule rec") (fastforce simp: stored_anchor_def)+
qed

text \<open>C23: The rule an edit stores reads back as the rule asked for, an unanchored every-n-days
  rule keeping the old anchor (or starting today), and if the schedule changed it is stamped with
  the day of the edit, before which it schedules nothing; otherwise the old stamp is kept.\<close>

theorem stored_rule_floor:
  assumes "date_ok today" and "parse_recurrence (JObj new) = Some asked"
    and "parse_recurrence old = Some prev"
  shows "\<exists>rec. parse_recurrence (JObj (recurrence_for_storage new today (Some old))) = Some rec \<and>
    (r_schedule rec = r_schedule asked \<or>
     (\<exists>n. r_schedule asked = EveryNDays n None \<and>
          r_schedule rec = EveryNDays n (Some (case stored_anchor (Some prev) of Some a \<Rightarrow> a | None \<Rightarrow> today)))) \<and>
    (if r_schedule rec = r_schedule prev then r_since rec = r_since prev
     else r_since rec = Some today \<and> (\<forall>day < today. \<not> is_schedulable rec day anchor))"
proof -
  define a where "a = (case stored_anchor (Some prev) of Some a \<Rightarrow> a | None \<Rightarrow> today)"
  have a: "date_ok a"
    using assms(1) stored_dates_ok(2) [OF assms(3)] by (auto simp: a_def split: option.splits)
  define base where "base = dict_pop new ''since''"
  define unanchored where "unanchored \<longleftrightarrow> dict_get base ''kind'' = Some (JStr ''every_n_days'')
      \<and> absent_or_empty (dict_get base ''anchor'')"
  define rec1 where "rec1 = (if unanchored then dict_set base ''anchor'' (JStr (isoformat a)) else base)"
  have since1: "dict_get rec1 ''since'' = None"
    by (simp add: rec1_def base_def dict_get_set dict_get_pop)
  have asked: "parse_schedule new = Some (r_schedule asked)"
    using assms(2) by (auto simp: parse_recurrence_def)
  have "\<exists>sched. parse_schedule rec1 = Some sched \<and> (sched = r_schedule asked \<or>
      (\<exists>n. r_schedule asked = EveryNDays n None \<and> sched = EveryNDays n (Some a)))"
  proof (cases unanchored)
    case True
    then have "\<exists>n. r_schedule asked = EveryNDays n None"
      using parse_schedule_every [of base "r_schedule asked"] parse_date_empty asked
      by (auto simp: unanchored_def base_def)
    with True asked a show ?thesis
      by (auto simp: rec1_def base_def unanchored_def parse_schedule_anchor)
  next
    case False
    then show ?thesis using asked by (simp add: rec1_def base_def)
  qed
  then obtain sched where sched: "parse_schedule rec1 = Some sched" "sched = r_schedule asked \<or>
      (\<exists>n. r_schedule asked = EveryNDays n None \<and> sched = EveryNDays n (Some a))" by blast
  have store: "recurrence_for_storage new today (Some old) =
      (if sched \<noteq> r_schedule prev then dict_set rec1 ''since'' (JStr (isoformat today))
       else (case r_since prev of Some s \<Rightarrow> dict_set rec1 ''since'' (JStr (isoformat s)) | None \<Rightarrow> rec1))"
  proof -
    have "map_option r_schedule (parse_recurrence (JObj rec1)) = Some sched"
      using sched(1) by (simp add: parse_recurrence_def)
    then have "(map_option r_schedule (parse_recurrence (JObj rec1)) \<noteq> map_option r_schedule (Some prev)) =
        (sched \<noteq> r_schedule prev)" by (simp only: option.map option.inject)
    then show ?thesis
      by (simp only: recurrence_for_storage_def Let_def option.case assms(3) base_def [symmetric]
          unanchored_def [symmetric] a_def [symmetric] rec1_def [symmetric])
  qed
  show ?thesis
  proof (cases "sched = r_schedule prev")
    case True
    have "parse_recurrence (JObj (recurrence_for_storage new today (Some old))) =
        Some \<lparr>r_schedule = sched, r_since = r_since prev\<rparr>"
      using True sched(1) since1 stored_dates_ok(1) [OF assms(3)]
      by (auto simp: store parse_recurrence_def dict_get_set parse_date_def split: option.splits)
    with sched(2) True show ?thesis by (auto simp: a_def)
  next
    case False
    have "parse_recurrence (JObj (recurrence_for_storage new today (Some old))) =
        Some \<lparr>r_schedule = sched, r_since = Some today\<rparr>"
      using False sched(1) assms(1) by (simp add: store parse_recurrence_def dict_get_set)
    with sched(2) False show ?thesis
      by (auto simp: a_def is_schedulable_def effective_anchor_def)
  qed
qed

theorem stored_rule_floor_witness:
  "\<exists>rec. parse_recurrence (JObj (recurrence_for_storage [(''kind'', JStr ''daily'')] 20000
      (Some (JObj [(''kind'', JStr ''times_per_week''), (''count'', JInt 2)])))) = Some rec \<and>
    (r_schedule rec = r_schedule \<lparr>r_schedule = Daily, r_since = None\<rparr> \<or>
     (\<exists>n. r_schedule \<lparr>r_schedule = Daily, r_since = None\<rparr> = EveryNDays n None \<and>
          r_schedule rec = EveryNDays n (Some (case stored_anchor (Some \<lparr>r_schedule = TimesPerWeek 2, r_since = None\<rparr>)
            of Some a \<Rightarrow> a | None \<Rightarrow> 20000)))) \<and>
    (if r_schedule rec = r_schedule \<lparr>r_schedule = TimesPerWeek 2, r_since = None\<rparr>
     then r_since rec = r_since \<lparr>r_schedule = TimesPerWeek 2, r_since = None\<rparr>
     else r_since rec = Some 20000 \<and> (\<forall>day < 20000. \<not> is_schedulable rec day 0))"
proof (rule stored_rule_floor)
  have "year_of 20000 = 2024"
    by (simp add: year_of_def epoch_days_def days_before_year_def)
  then show "date_ok 20000" by (simp add: date_ok_def MAXYEAR_def)
qed (simp_all add: parse_recurrence_def parse_schedule_def dict_get_def parse_date_def)

end
