(* ===== verification/GameDb.thy ===== *)
theory GameDb
  imports Engine SessionEngine Recurrence "HOL-Library.List_Lexorder" "HOL-Library.Char_ord"
begin

text \<open>
  The tables of \<open>app/models/game.py\<close> and the queries of \<open>app/crud/game.py\<close> the game services
  run. A table is the list of its rows in insertion order, a row a record with its columns (the
  ones no service reads are left out; of the task and tag tables only the owners), and the whole database one record that the services
  return updated. A query without \<open>ORDER BY\<close> is modelled in insertion order. Writes are staged
  in the order of the code; a unique index is checked where a flush would check it. The clock,
  the time-zone database, the C library and the hash function are the fields of an \<open>env\<close>.
\<close>

subsection \<open>Rows\<close>

datatype direction = POSITIVE | NEGATIVE | BOTH

record habit =
  h_id :: int
  h_user :: int
  h_title :: string
  h_direction :: direction
  h_difficulty :: string
  h_value :: rat
  h_counter :: int
  h_bind_focus :: bool
  h_reminder_times :: "string list"
  h_notes :: "string option"

record daily =
  d_id :: int
  d_user :: int
  d_title :: string
  d_difficulty :: string
  d_recurrence :: json
  d_streak :: int
  d_active :: bool
  d_reminder_times :: "string list"
  d_created_at :: datetime
  d_notes :: "string option"

record daily_item =
  di_id :: int
  di_daily :: int
  di_title :: string
  di_position :: int

record daily_check =
  dc_daily :: int
  dc_item :: "int option"
  dc_date :: date
  dc_done :: bool
  dc_created_at :: datetime

record daily_miss =
  dm_daily :: int
  dm_user :: int
  dm_day :: date
  dm_frozen :: bool
  dm_hp_lost :: rat

text \<open>A ledger row; the payload's \<open>_outcome\<close> key, which only the server writes, is a field.\<close>

record event =
  ev_user :: int
  ev_eid :: string
  ev_type :: string
  ev_payload :: dict
  ev_outcome :: outcome
  ev_ts :: datetime

record gear_item =
  gi_id :: int
  gi_key :: string
  gi_name :: string
  gi_slot :: string
  gi_klass :: string
  gi_tier :: int
  gi_stats :: "(string \<times> int) list"
  gi_cost :: int
  gi_losable :: bool

record user_gear =
  ug_id :: int
  ug_user :: int
  ug_item :: int
  ug_equipped :: bool
  ug_costume :: bool

record achievement =
  a_id :: int
  a_key :: string
  a_name :: string
  a_description :: string
  a_criteria :: json
  a_gold_reward :: int

record user_achievement =
  ua_user :: int
  ua_achievement :: int

datatype notification_type =
    HABIT_REMINDER | DAILY_REMINDER | STREAK_RISK | LOW_HP | DAILY_MISSED | DEATH | PHASE_END
  | LEVEL_UP | ACHIEVEMENT | RECORD

record notification =
  n_user :: int
  n_type :: notification_type
  n_title :: string
  n_message :: string
  n_action_url :: "string option"
  n_meta :: dict

record notification_pref =
  np_user :: int
  np_prefs :: json
  np_quiet_hours :: json

text \<open>A detached send: the channel, the recipient and the text.\<close>

datatype send = Push int string string "string option" | Email int string string

record db =
  t_profiles :: "int \<rightharpoonup> profile"
  t_config :: "(string \<times> json) list"
  t_events :: "event list"
  t_habits :: "habit list"
  t_dailies :: "daily list"
  t_daily_items :: "daily_item list"
  t_daily_checks :: "daily_check list"
  t_daily_misses :: "daily_miss list"
  t_gear_items :: "gear_item list"
  t_user_gear :: "user_gear list"
  t_achievements :: "achievement list"
  t_user_achievements :: "user_achievement list"
  t_sessions :: "session list"
  t_phases :: "int \<Rightarrow> phase list"
  t_notifications :: "notification list"
  t_prefs :: "notification_pref list"
  t_task_owner :: "int \<rightharpoonup> int"
  t_tag_owner :: "int \<rightharpoonup> int"
  t_next_id :: int
  sends :: "send list"

record env =
  e_pf :: platform
  e_now :: datetime
  e_zone :: "string \<Rightarrow> (datetime \<Rightarrow> int) option"
  e_digest :: "string \<Rightarrow> string"

definition empty_db :: db where
  "empty_db = \<lparr>t_profiles = Map.empty, t_config = [], t_events = [], t_habits = [], t_dailies = [],
     t_daily_items = [], t_daily_checks = [], t_daily_misses = [], t_gear_items = [],
     t_user_gear = [], t_achievements = [], t_user_achievements = [], t_sessions = [],
     t_phases = (\<lambda>_. []), t_notifications = [], t_prefs = [],
     t_task_owner = Map.empty, t_tag_owner = Map.empty, t_next_id = 1, sends = []\<rparr>"

subsection \<open>Rows by key\<close>

definition update_where :: "('a \<Rightarrow> bool) \<Rightarrow> ('a \<Rightarrow> 'a) \<Rightarrow> 'a list \<Rightarrow> 'a list" where
  "update_where p f rows = map (\<lambda>r. if p r then f r else r) rows"

lemma update_where_set: "r' \<in> set (update_where p f rows) \<Longrightarrow> \<exists>r \<in> set rows. r' = r \<or> (p r \<and> r' = f r)"
  by (auto simp: update_where_def)

lemma update_where_simps [simp]:
  "length (update_where p f rows) = length rows"
  "update_where p f (xs @ ys) = update_where p f xs @ update_where p f ys"
  "update_where p f [] = []"
  by (simp_all add: update_where_def)

lemma map_update_where: "(\<And>r. g (f r) = g r) \<Longrightarrow> map g (update_where p f rows) = map g rows"
  by (simp add: update_where_def)

lemma filter_update_where: "(\<And>r. q (f r) = q r) \<Longrightarrow>
    filter q (update_where p f rows) = update_where p f (filter q rows)"
  by (induction rows) (auto simp: update_where_def)

lemma filter_update_other: "(\<And>r. q r \<Longrightarrow> \<not> p r) \<Longrightarrow> (\<And>r. p r \<Longrightarrow> q (f r) = q r) \<Longrightarrow>
    filter q (update_where p f rows) = filter q rows"
  by (induction rows) (auto simp: update_where_def)

definition profile_of :: "db \<Rightarrow> int \<Rightarrow> profile" where
  "profile_of db u = (case t_profiles db u of Some p \<Rightarrow> p | None \<Rightarrow> new_profile)"

definition put_profile :: "int \<Rightarrow> profile \<Rightarrow> db \<Rightarrow> db" where
  "put_profile u p db = db\<lparr>t_profiles := (t_profiles db)(u \<mapsto> p)\<rparr>"

definition get_or_create_profile :: "db \<Rightarrow> int \<Rightarrow> profile \<times> db" where
  "get_or_create_profile db u = (profile_of db u, put_profile u (profile_of db u) db)"

definition habit_row :: "db \<Rightarrow> int \<Rightarrow> habit option" where
  "habit_row db i = find (\<lambda>h. h_id h = i) (t_habits db)"

definition daily_row :: "db \<Rightarrow> int \<Rightarrow> daily option" where
  "daily_row db i = find (\<lambda>d. d_id d = i) (t_dailies db)"

definition update_habit :: "int \<Rightarrow> (habit \<Rightarrow> habit) \<Rightarrow> db \<Rightarrow> db" where
  "update_habit i f db = db\<lparr>t_habits := update_where (\<lambda>h. h_id h = i) f (t_habits db)\<rparr>"

definition update_daily :: "int \<Rightarrow> (daily \<Rightarrow> daily) \<Rightarrow> db \<Rightarrow> db" where
  "update_daily i f db = db\<lparr>t_dailies := update_where (\<lambda>d. d_id d = i) f (t_dailies db)\<rparr>"

definition add_event :: "event \<Rightarrow> db \<Rightarrow> db" where
  "add_event e db = db\<lparr>t_events := t_events db @ [e]\<rparr>"

text \<open>The unique index \<open>uq_game_events_user_client_event\<close>.\<close>

definition ledger_unique :: "db \<Rightarrow> bool" where
  "ledger_unique db \<longleftrightarrow> distinct (map (\<lambda>e. (ev_user e, ev_eid e)) (t_events db))"

subsection \<open>Queries\<close>

definition existing_event_ids :: "db \<Rightarrow> int \<Rightarrow> string list \<Rightarrow> string set" where
  "existing_event_ids db u eids =
     set (map ev_eid (filter (\<lambda>e. ev_user e = u \<and> ev_eid e \<in> set eids) (t_events db)))"

definition get_config :: "db \<Rightarrow> string \<Rightarrow> json option" where
  "get_config db k = map_of (t_config db) k"

definition list_habits :: "db \<Rightarrow> int \<Rightarrow> habit list" where
  "list_habits db u = sort_key h_id (filter (\<lambda>h. h_user h = u) (t_habits db))"

definition get_daily :: "db \<Rightarrow> int \<Rightarrow> int \<Rightarrow> daily option" where
  "get_daily db u i = find (\<lambda>d. d_id d = i \<and> d_user d = u) (t_dailies db)"

definition list_dailies :: "db \<Rightarrow> int \<Rightarrow> daily list" where
  "list_dailies db u = sort_key d_id (filter (\<lambda>d. d_user d = u) (t_dailies db))"

definition list_active_daily_ids :: "db \<Rightarrow> int \<Rightarrow> nat \<Rightarrow> int list" where
  "list_active_daily_ids db after_id limit =
     take limit (sort (map d_id (filter (\<lambda>d. d_active d \<and> after_id < d_id d) (t_dailies db))))"

definition list_daily_items :: "db \<Rightarrow> int \<Rightarrow> daily_item list" where
  "list_daily_items db did =
     sort_key di_position (sort_key di_id (filter (\<lambda>i. di_daily i = did) (t_daily_items db)))"

definition list_daily_checks :: "db \<Rightarrow> int list \<Rightarrow> date \<Rightarrow> date \<Rightarrow> daily_check list" where
  "list_daily_checks db dids start end' =
     filter (\<lambda>c. dc_daily c \<in> set dids \<and> start \<le> dc_date c \<and> dc_date c \<le> end') (t_daily_checks db)"

definition list_daily_misses :: "db \<Rightarrow> int \<Rightarrow> date \<Rightarrow> daily_miss list" where
  "list_daily_misses db did since = filter (\<lambda>m. dm_daily m = did \<and> since \<le> dm_day m) (t_daily_misses db)"

definition get_daily_miss :: "db \<Rightarrow> int \<Rightarrow> date \<Rightarrow> daily_miss option" where
  "get_daily_miss db did day = find (\<lambda>m. dm_daily m = did \<and> dm_day m = day) (t_daily_misses db)"

definition list_daily_check_events :: "db \<Rightarrow> int \<Rightarrow> datetime \<Rightarrow> datetime \<Rightarrow> event list" where
  "list_daily_check_events db u since until =
     filter (\<lambda>e. ev_user e = u \<and> ev_type e = ''daily_check'' \<and> since \<le> ev_ts e \<and> ev_ts e \<le> until) (t_events db)"

text \<open>The inner joins of the gear queries: a \<open>UserGear\<close> row with the catalog row it names.\<close>

definition join_gear :: "db \<Rightarrow> (user_gear \<Rightarrow> gear_item \<Rightarrow> bool) \<Rightarrow> (user_gear \<times> gear_item) list" where
  "join_gear db p = [(ug, it). ug \<leftarrow> t_user_gear db, it \<leftarrow> t_gear_items db, gi_id it = ug_item ug \<and> p ug it]"

definition list_equipped_gear :: "db \<Rightarrow> int \<Rightarrow> (user_gear \<times> gear_item) list" where
  "list_equipped_gear db u = join_gear db (\<lambda>ug _. ug_user ug = u \<and> ug_equipped ug)"

definition list_gear_catalog :: "db \<Rightarrow> gear_item list" where
  "list_gear_catalog db = sort_key gi_klass (sort_key gi_slot (sort_key gi_tier (t_gear_items db)))"

definition get_gear_item :: "db \<Rightarrow> string \<Rightarrow> gear_item option" where
  "get_gear_item db key = find (\<lambda>i. gi_key i = key) (t_gear_items db)"

definition find_gear_item :: "db \<Rightarrow> string \<Rightarrow> string \<Rightarrow> int \<Rightarrow> gear_item option" where
  "find_gear_item db slot klass tier =
     find (\<lambda>i. gi_slot i = slot \<and> gi_klass i = klass \<and> gi_tier i = tier) (t_gear_items db)"

definition get_user_gear :: "db \<Rightarrow> int \<Rightarrow> int \<Rightarrow> user_gear option" where
  "get_user_gear db u item = find (\<lambda>g. ug_user g = u \<and> ug_item g = item) (t_user_gear db)"

definition list_user_gear :: "db \<Rightarrow> int \<Rightarrow> user_gear list" where
  "list_user_gear db u = filter (\<lambda>g. ug_user g = u) (t_user_gear db)"

definition get_session :: "db \<Rightarrow> int \<Rightarrow> int \<Rightarrow> session option" where
  "get_session db sid u = find (\<lambda>s. s_id s = sid \<and> s_user s = u) (t_sessions db)"

definition get_active_session :: "db \<Rightarrow> int \<Rightarrow> session option" where
  "get_active_session db u = find (\<lambda>s. s_user s = u \<and> s_status s = S_ACTIVE) (t_sessions db)"

definition put_session :: "session \<Rightarrow> phase list \<Rightarrow> db \<Rightarrow> db" where
  "put_session s phases db = db\<lparr>t_sessions := update_where (\<lambda>r. s_id r = s_id s) (\<lambda>_. s) (t_sessions db),
     t_phases := (t_phases db)(s_id s := phases)\<rparr>"

text \<open>\<open>speedrun->>'type' = 'beat_best'\<close>, null when the column or the key is.\<close>

definition is_beat_best :: "session \<Rightarrow> bool" where
  "is_beat_best s \<longleftrightarrow> dict_get (blob s) ''type'' = Some (JStr ''beat_best'')"

definition get_speedrun_record :: "db \<Rightarrow> int \<Rightarrow> string option \<Rightarrow> int option" where
  "get_speedrun_record db u label =
     (let runs = [n. s \<leftarrow> t_sessions db,
          s_user s = u \<and> s_mode s = ''speedrun'' \<and> activity_label s = label \<and> is_beat_best s,
          p \<leftarrow> t_phases db (s_id s), ph_kind p = SPEEDRUN \<and> ph_status p = COMPLETED,
          n \<leftarrow> (case actual_seconds p of Some n \<Rightarrow> [n] | None \<Rightarrow> []), n \<ge> MIN_RECORD_SECONDS]
      in case runs of [] \<Rightarrow> None | n # ns \<Rightarrow> Some (fold min ns n))"

definition get_notification_pref :: "db \<Rightarrow> int \<Rightarrow> notification_pref option" where
  "get_notification_pref db u = find (\<lambda>p. np_user p = u) (t_prefs db)"

text \<open>\<open>load_rates\<close> of \<open>app/game/service.py\<close>: the economy row over the defaults.\<close>

definition load_rates :: "db \<Rightarrow> game_rates result" where
  "load_rates db = from_dict (case get_config db ''economy'' of Some v \<Rightarrow> v | None \<Rightarrow> JObj [])"

end
