(* ===== verification/Notifications.thy ===== *)
theory Notifications
  imports GameDb
begin

text \<open>
  The dispatch half of \<open>app/game/notifications.py\<close>: the per-kind channel matrix, the quiet
  window in the user's zone, \<open>dispatch_notification\<close>, and the hooks that report scoring
  outcomes, finished phases and records. The in-app row goes into the database, a detached send
  is an entry of \<open>sends\<close>. The hooks swallow their own failures, so they return the database.
\<close>

subsection \<open>Parsing stored values\<close>

definition is_space :: "char \<Rightarrow> bool" where
  "is_space c \<longleftrightarrow> (let n = of_char c :: nat in (9 \<le> n \<and> n \<le> 13) \<or> (28 \<le> n \<and> n \<le> 32) \<or> n = 133 \<or> n = 160)"

definition strip :: "string \<Rightarrow> string" where
  "strip s = rev (dropWhile is_space (rev (dropWhile is_space s)))"

text \<open>\<open>int(s)\<close> of a string: digits with single underscores between them; \<open>None\<close> for the
  \<open>ValueError\<close>.\<close>

fun int_digits :: "string \<Rightarrow> int \<Rightarrow> bool \<Rightarrow> int option" where
  "int_digits [] acc after_digit = (if after_digit then Some acc else None)"
| "int_digits (c # s) acc after_digit =
     (case digit_val c of
        Some d \<Rightarrow> int_digits s (acc * 10 + d) True
      | None \<Rightarrow> if c = CHR ''_'' \<and> after_digit then int_digits s acc False else None)"

definition parse_int :: "string \<Rightarrow> int option" where
  "parse_int s = (case strip s of
       [] \<Rightarrow> None
     | c # r \<Rightarrow> if c = CHR ''-'' then map_option uminus (int_digits r 0 False)
         else if c = CHR ''+'' then int_digits r 0 False else int_digits (c # r) 0 False)"

fun split_on :: "char \<Rightarrow> string \<Rightarrow> string list" where
  "split_on c [] = [[]]"
| "split_on c (x # xs) = (if x = c then [] # split_on c xs
     else case split_on c xs of w # ws \<Rightarrow> (x # w) # ws | [] \<Rightarrow> [[x]])"

definition parse_hhmm :: "json \<Rightarrow> int option" where
  "parse_hhmm v = (case v of
       JStr s \<Rightarrow> (case split_on (CHR '':'') s of
           [hour_s, minute_s] \<Rightarrow> (case (parse_int hour_s, parse_int minute_s) of
               (Some hour, Some minute) \<Rightarrow>
                 if 0 \<le> hour \<and> hour \<le> 23 \<and> 0 \<le> minute \<and> minute \<le> 59 then Some (hour * 60 + minute) else None
             | _ \<Rightarrow> None)
         | _ \<Rightarrow> None)
     | _ \<Rightarrow> None)"

definition as_dict :: "json \<Rightarrow> dict" where
  "as_dict v = (case v of JObj d \<Rightarrow> d | _ \<Rightarrow> [])"

subsection \<open>Zone and quiet window\<close>

definition DEFAULT_QUIET :: dict where
  "DEFAULT_QUIET = [(''start'', JStr ''22:00''), (''end'', JStr ''08:00''), (''timezone'', JStr ''UTC'')]"

definition DEFAULT_CHANNELS :: dict where
  "DEFAULT_CHANNELS = [(''in_app'', JBool True), (''push'', JBool True), (''email'', JBool False)]"

text \<open>The zone of a prefs blob as the offset in force at an instant; an unknown name is UTC.\<close>

definition pref_tz :: "env \<Rightarrow> json \<Rightarrow> datetime \<Rightarrow> int" where
  "pref_tz env quiet =
     (let name = dict_get_or (as_dict quiet) ''timezone'' JNull
      in case e_zone env (if truthy name then py_str (e_pf env) name else ''UTC'') of
           Some offset \<Rightarrow> offset | None \<Rightarrow> (\<lambda>_. 0))"

definition minute_of_day :: "datetime \<Rightarrow> int" where
  "minute_of_day t = (t mod us_per_day) div (60 * us_per_second)"

definition in_quiet_window :: "env \<Rightarrow> json \<Rightarrow> datetime \<Rightarrow> bool" where
  "in_quiet_window env quiet now =
     (let blob = dict_merge DEFAULT_QUIET (as_dict quiet) in
      case (parse_hhmm (dict_get_or blob ''start'' JNull), parse_hhmm (dict_get_or blob ''end'' JNull)) of
        (Some start, Some end') \<Rightarrow>
          if start = end' then False
          else let minute = minute_of_day (now + pref_tz env (JObj blob) now) in
            if start < end' then start \<le> minute \<and> minute < end'
            else minute \<ge> start \<or> minute < end'
      | _ \<Rightarrow> False)"

subsection \<open>Dispatch\<close>

definition kind_key :: "notification_type \<Rightarrow> string" where
  "kind_key k = (case k of HABIT_REMINDER \<Rightarrow> ''habit_reminder'' | DAILY_REMINDER \<Rightarrow> ''daily_reminder''
     | STREAK_RISK \<Rightarrow> ''streak_risk'' | LOW_HP \<Rightarrow> ''low_hp'' | DAILY_MISSED \<Rightarrow> ''daily_missed''
     | DEATH \<Rightarrow> ''death'' | PHASE_END \<Rightarrow> ''phase_end'' | LEVEL_UP \<Rightarrow> ''level_up''
     | ACHIEVEMENT \<Rightarrow> ''achievement'' | RECORD \<Rightarrow> ''record'')"

definition matrix_for :: "json \<Rightarrow> notification_type \<Rightarrow> dict" where
  "matrix_for stored kind =
     dict_merge DEFAULT_CHANNELS (as_dict (dict_get_or (as_dict stored) (kind_key kind) JNull))"

definition channel_on :: "dict \<Rightarrow> string \<Rightarrow> bool" where
  "channel_on channels c = truthy (dict_get_or channels c JNull)"

definition dispatch_notification ::
  "env \<Rightarrow> int \<Rightarrow> notification_type \<Rightarrow> string \<Rightarrow> string \<Rightarrow> string option \<Rightarrow> dict \<Rightarrow> bool \<Rightarrow> db \<Rightarrow> db" where
  "dispatch_notification env u kind title message url meta exempt_quiet db =
     (let pref = get_notification_pref db u;
          channels = matrix_for (case pref of Some p \<Rightarrow> np_prefs p | None \<Rightarrow> JNull) kind;
          db1 = (if channel_on channels ''in_app''
                 then db\<lparr>t_notifications := t_notifications db @ [\<lparr>n_user = u, n_type = kind,
                        n_title = title, n_message = message, n_action_url = url, n_meta = meta\<rparr>]\<rparr>
                 else db)
      in if \<not> exempt_quiet \<and>
            in_quiet_window env (case pref of Some p \<Rightarrow> np_quiet_hours p | None \<Rightarrow> JNull) (e_now env)
         then db1
         else db1\<lparr>sends := sends db1
                @ (if channel_on channels ''push'' then [Push u title message url] else [])
                @ (if channel_on channels ''email'' then [Email u title message] else [])\<rparr>)"

subsection \<open>Hooks\<close>

text \<open>\<open>f"{x:.0f}"\<close>, and the dash of the messages in UTF-8.\<close>

definition fmt0 :: "rat \<Rightarrow> string" where
  "fmt0 x = (if x < 0 then ''-'' @ show_nat (nat (round_even (- x))) else show_nat (nat (round_even x)))"

definition em_dash :: string where
  "em_dash = [CHR 0xE2, CHR 0x80, CHR 0x94]"

definition notify_score_outcome :: "env \<Rightarrow> int \<Rightarrow> rat \<Rightarrow> outcome \<Rightarrow> db \<Rightarrow> db" where
  "notify_score_outcome env u hp_before oc db =
     (let p = profile_of db u; low = fmul (1 / 4) (max_hp p);
          db1 = (if o_died oc = Some True then
                   dispatch_notification env u DEATH ''You died!''
                     (''HP hit zero '' @ em_dash @ '' the revive cost a level (now '' @ show_int (level p) @ '').'')
                     None [] False db
                 else if hp_before \<ge> low \<and> low > hp p \<and> hp_before > hp p then
                   dispatch_notification env u LOW_HP ''HP is low''
                     (''Down to '' @ fmt0 (hp p) @ ''/'' @ fmt0 (max_hp p) @ '' HP '' @ em_dash
                        @ '' one more hit could kill.'') None [] False db
                 else db)
      in if (case o_levels_gained oc of Some n \<Rightarrow> n > 0 | None \<Rightarrow> False) then
           dispatch_notification env u LEVEL_UP ''Level up!''
             (''You reached level '' @ show_int (level p) @ ''.'') (Some ''/game'') [] False db1
         else db1)"

definition PHASE_END_LIVE_SECONDS :: int where "PHASE_END_LIVE_SECONDS = 120"

definition notify_phase_end :: "env \<Rightarrow> int \<Rightarrow> datetime \<Rightarrow> json \<Rightarrow> db \<Rightarrow> db" where
  "notify_phase_end env u client_ts minutes db =
     (if \<bar>e_now env - client_ts\<bar> > seconds PHASE_END_LIVE_SECONDS then db
      else dispatch_notification env u PHASE_END ''Focus phase complete''
             (case minutes of
                JInt n \<Rightarrow> if n \<ge> 0 then show_int n @ '' minutes focused.'' else ''Focus phase complete.''
              | _ \<Rightarrow> ''Focus phase complete.'') (Some ''/sessions'') [] True db)"

text \<open>\<open>None\<close>: \<open>int\<close> of \<open>NaN\<close> or of an infinity raises inside the hook.\<close>

definition mmss_of :: "int \<Rightarrow> string" where
  "mmss_of secs = show_int (secs div 60) @ '':'' @
     (if secs mod 60 < 10 then ''0'' else []) @ show_int (secs mod 60)"

definition mmss :: "json \<Rightarrow> string option" where
  "mmss v = (case v of
       JInt n \<Rightarrow> Some (if n < 0 then ''?'' else mmss_of n)
     | JFloat x \<Rightarrow> Some (if x < 0 then ''?'' else mmss_of (py_int x))
     | JNaN \<Rightarrow> None
     | JInf neg \<Rightarrow> if neg then Some ''?'' else None
     | _ \<Rightarrow> Some ''?'')"

definition notify_record_set :: "env \<Rightarrow> int \<Rightarrow> dict \<Rightarrow> db \<Rightarrow> db" where
  "notify_record_set env u payload db =
     (let label0 = dict_get_or payload ''activity_label'' JNull;
          label = (if truthy label0 then py_str (e_pf env) label0 else ''Activity'');
          old = dict_get_or payload ''old_seconds'' JNull;
          new = dict_get_or payload ''new_seconds'' JNull;
          body = (case mmss new of
              None \<Rightarrow> None
            | Some fresh \<Rightarrow> (case old of
                  JInt n \<Rightarrow> map_option (\<lambda>was. label @ '': '' @ fresh @ '' (was '' @ was @ '').'') (mmss old)
                | _ \<Rightarrow> Some (label @ '': '' @ fresh @ '' '' @ em_dash @ '' first record on the board.'')))
      in case body of
           None \<Rightarrow> db
         | Some text \<Rightarrow> dispatch_notification env u RECORD ''New personal best!'' text (Some ''/game'')
             [(''activity_label'', label0), (''old_seconds'', old), (''new_seconds'', new)] False db)"

subsection \<open>What dispatch touches\<close>

text \<open>Two databases that agree on everything but the notifications and the sends.\<close>

definition game_part :: "db \<Rightarrow> db" where
  "game_part db = db\<lparr>t_notifications := [], sends := []\<rparr>"

definition same_game :: "db \<Rightarrow> db \<Rightarrow> bool" where
  "same_game a b \<longleftrightarrow> game_part a = game_part b"

lemma same_game_refl [simp]: "same_game db db"
  by (simp add: same_game_def)

lemma same_game_trans: "same_game a b \<Longrightarrow> same_game b c \<Longrightarrow> same_game a c"
  by (simp add: same_game_def)

lemma dispatch_same_game [frame]: "same_game db (dispatch_notification env u k t m url meta ex db)"
  by (simp add: dispatch_notification_def same_game_def game_part_def Let_def)

lemma notify_same_game [frame]:
  "same_game db (notify_score_outcome env u h oc db)"
  "same_game db (notify_phase_end env u ts mins db)"
  "same_game db (notify_record_set env u payload db)"
  by (auto simp: notify_score_outcome_def notify_phase_end_def notify_record_set_def Let_def
      intro: same_game_trans dispatch_same_game split: option.splits)

lemma game_part_fields [simp]:
  "t_profiles (game_part b) = t_profiles b" "t_config (game_part b) = t_config b"
  "t_events (game_part b) = t_events b" "t_habits (game_part b) = t_habits b"
  "t_dailies (game_part b) = t_dailies b" "t_daily_items (game_part b) = t_daily_items b"
  "t_daily_checks (game_part b) = t_daily_checks b" "t_daily_misses (game_part b) = t_daily_misses b"
  "t_gear_items (game_part b) = t_gear_items b" "t_user_gear (game_part b) = t_user_gear b"
  "t_achievements (game_part b) = t_achievements b"
  "t_user_achievements (game_part b) = t_user_achievements b"
  "t_sessions (game_part b) = t_sessions b" "t_phases (game_part b) = t_phases b"
  "t_prefs (game_part b) = t_prefs b" "t_task_owner (game_part b) = t_task_owner b"
  "t_tag_owner (game_part b) = t_tag_owner b" "t_next_id (game_part b) = t_next_id b"
  by (simp_all add: game_part_def)

lemma same_game_fields:
  assumes "same_game a b"
  shows "t_profiles b = t_profiles a" "t_config b = t_config a" "t_events b = t_events a"
    "t_habits b = t_habits a" "t_dailies b = t_dailies a" "t_daily_items b = t_daily_items a"
    "t_daily_checks b = t_daily_checks a" "t_daily_misses b = t_daily_misses a"
    "t_gear_items b = t_gear_items a" "t_user_gear b = t_user_gear a"
    "t_achievements b = t_achievements a" "t_user_achievements b = t_user_achievements a"
    "t_sessions b = t_sessions a" "t_phases b = t_phases a" "t_prefs b = t_prefs a"
    "t_task_owner b = t_task_owner a" "t_tag_owner b = t_tag_owner a" "t_next_id b = t_next_id a"
  using assms unfolding same_game_def by (metis game_part_fields)+

end
