(* ===== verification/Achievements.thy ===== *)
theory Achievements
  imports Notifications
begin

text \<open>
  The achievement registry and the grant pass of \<open>app/game/achievements.py\<close>: the seeded badges,
  their criteria over the live tables and the scored ledger, and the evaluation that grants every
  met and unearned badge once, with its gold.
\<close>

subsection \<open>The registry\<close>

definition badge :: "string \<Rightarrow> string \<Rightarrow> string \<Rightarrow> json \<Rightarrow> int \<Rightarrow> achievement" where
  "badge key name desc criteria reward = \<lparr>a_id = 0, a_key = key, a_name = name,
     a_description = desc, a_criteria = criteria, a_gold_reward = reward\<rparr>"

definition ACHIEVEMENTS :: "achievement list" where
  "ACHIEVEMENTS = [
     badge ''level-10'' ''Novice''
       ''Reach level 10''
       (JObj [(''kind'', JStr ''level''), (''threshold'', JInt 10)]) 25,
     badge ''level-25'' ''Veteran''
       ''Reach level 25''
       (JObj [(''kind'', JStr ''level''), (''threshold'', JInt 25)]) 50,
     badge ''level-50'' ''Master''
       ''Reach level 50''
       (JObj [(''kind'', JStr ''level''), (''threshold'', JInt 50)]) 100,
     badge ''first-focus'' ''First Steps''
       ''Complete a focus phase''
       (JObj [(''kind'', JStr ''first''), (''what'', JStr ''focus_phase_completed'')]) 10,
     badge ''first-habit'' ''Habitual''
       ''Score a habit click''
       (JObj [(''kind'', JStr ''first''), (''what'', JStr ''habit_click'')]) 10,
     badge ''first-daily'' ''Daily Grind''
       ''Check off a daily''
       (JObj [(''kind'', JStr ''first''), (''what'', JStr ''daily_check'')]) 10,
     badge ''first-gear'' ''Geared Up''
       ''Own a piece of gear''
       (JObj [(''kind'', JStr ''gear_owned''), (''threshold'', JInt 1)]) 10,
     badge ''class-picked'' ''Specialist''
       ''Choose a class''
       (JObj [(''kind'', JStr ''class'')]) 15,
     badge ''focus-100'' ''Focused''
       ''Log 100 total focus minutes''
       (JObj [(''kind'', JStr ''focus_total''), (''threshold'', JInt 100)]) 25,
     badge ''focus-1000'' ''Deep Diver''
       ''Log 1000 total focus minutes''
       (JObj [(''kind'', JStr ''focus_total''), (''threshold'', JInt 1000)]) 75,
     badge ''marathon'' ''Marathon Mind''
       ''Complete one focus phase of 45+ minutes''
       (JObj [(''kind'', JStr ''phase_minutes''), (''threshold'', JInt 45)]) 40,
     badge ''streak-7'' ''On a Roll''
       ''Reach a 7-day daily streak''
       (JObj [(''kind'', JStr ''streak''), (''threshold'', JInt 7)]) 30,
     badge ''streak-21'' ''Unstoppable''
       ''Reach a 21-day daily streak''
       (JObj [(''kind'', JStr ''streak''), (''threshold'', JInt 21)]) 80,
     badge ''perfect-day'' ''Perfect Day''
       ''Check every daily in one day''
       (JObj [(''kind'', JStr ''perfect_day'')]) 50,
     badge ''clicker-50'' ''Persistent''
       (''Reach +50 on one habit'' @ [CHR 0x27] @ ''s counter'')
       (JObj [(''kind'', JStr ''habit_counter''), (''threshold'', JInt 50)]) 35,
     badge ''first-record'' ''Record Breaker''
       ''Set a speedrun personal best''
       (JObj [(''kind'', JStr ''first''), (''what'', JStr ''record_set'')]) 15]"

text \<open>The upsert of the literals: the columns the literal owns are refreshed on the row with the
  same key, a missing key is inserted under a fresh id.\<close>

definition refresh_badge :: "achievement \<Rightarrow> achievement" where
  "refresh_badge row = (case find (\<lambda>s. a_key s = a_key row) ACHIEVEMENTS of
       Some seed \<Rightarrow> seed\<lparr>a_id := a_id row\<rparr> | None \<Rightarrow> row)"

definition missing_badges :: "db \<Rightarrow> achievement list" where
  "missing_badges db = filter (\<lambda>s. a_key s \<notin> a_key ` set (t_achievements db)) ACHIEVEMENTS"

fun number_badges :: "int \<Rightarrow> achievement list \<Rightarrow> achievement list" where
  "number_badges n [] = []"
| "number_badges n (s # ss) = s\<lparr>a_id := n\<rparr> # number_badges (n + 1) ss"

definition seed_achievements :: "db \<Rightarrow> db" where
  "seed_achievements db = db\<lparr>
     t_achievements := map refresh_badge (t_achievements db)
       @ number_badges (t_next_id db) (missing_badges db),
     t_next_id := t_next_id db + int (length (missing_badges db))\<rparr>"

subsection \<open>Criteria\<close>

definition sys_maxsize :: int where "sys_maxsize = 2 ^ 63 - 1"

definition criteria_threshold :: "dict \<Rightarrow> int" where
  "criteria_threshold criteria = (case dict_get criteria ''threshold'' of
       Some (JInt n) \<Rightarrow> if \<bar>n\<bar> \<ge> float_overflow then sys_maxsize else n
     | Some (JFloat x) \<Rightarrow> if is_integer x then py_int x else sys_maxsize
     | _ \<Rightarrow> sys_maxsize)"

definition daily_anchor :: "daily \<Rightarrow> date" where
  "daily_anchor d = date_of (d_created_at d)"

definition daily_due_on :: "daily \<Rightarrow> date \<Rightarrow> bool" where
  "daily_due_on d day = (case parse_recurrence (d_recurrence d) of
       None \<Rightarrow> True | Some rec \<Rightarrow> is_schedulable rec day (daily_anchor d))"

text \<open>The whole-daily done marks of the user's active dailies, within the write-recency window.\<close>

definition done_marks :: "env \<Rightarrow> db \<Rightarrow> int \<Rightarrow> bool \<Rightarrow> (date \<times> int) list" where
  "done_marks env db u full_history =
     (let mine = map d_id (filter (\<lambda>d. d_user d = u \<and> d_active d) (t_dailies db))
      in map (\<lambda>c. (dc_date c, dc_daily c)) (filter (\<lambda>c. dc_daily c \<in> set mine \<and> dc_item c = None \<and> dc_done c
           \<and> (full_history \<or> e_now env - 370 * us_per_day \<le> dc_created_at c)) (t_daily_checks db)))"

definition perfect_day :: "env \<Rightarrow> db \<Rightarrow> int \<Rightarrow> bool \<Rightarrow> bool" where
  "perfect_day env db u full_history =
     (let dailies = filter (\<lambda>d. d_user d = u \<and> d_active d) (t_dailies db);
          marks = done_marks env db u full_history
      in dailies \<noteq> [] \<and>
         (\<exists>(day, _) \<in> set marks.
            let due = map d_id (filter (\<lambda>d. daily_due_on d day) dailies)
            in due \<noteq> [] \<and> set due \<subseteq> {i. (day, i) \<in> set marks}))"

definition scored_events :: "db \<Rightarrow> int \<Rightarrow> string \<Rightarrow> event list" where
  "scored_events db u t = filter (\<lambda>e. ev_user e = u \<and> ev_type e = t \<and> scored (ev_outcome e)) (t_events db)"

text \<open>\<open>payload["minutes"].as_float()\<close>; a missing or non-numeric value is null, which the
  aggregates skip.\<close>

definition focus_minutes :: "db \<Rightarrow> int \<Rightarrow> rat list" where
  "focus_minutes db u = map py_float (filter finite_num
     (map (\<lambda>e. dict_get_or (ev_payload e) ''minutes'' JNull) (scored_events db u ''focus_phase_completed'')))"

definition max_or_0 :: "'a::{linorder,zero} list \<Rightarrow> 'a" where
  "max_or_0 xs = (case xs of [] \<Rightarrow> 0 | y # ys \<Rightarrow> fold max ys y)"

definition meets_db :: "env \<Rightarrow> db \<Rightarrow> int \<Rightarrow> dict \<Rightarrow> bool \<Rightarrow> bool" where
  "meets_db env db u criteria full_history =
     (let kind = dict_get criteria ''kind''; threshold = criteria_threshold criteria in
      if kind = Some (JStr ''first'') then
        (case dict_get criteria ''what'' of
           Some (JStr what) \<Rightarrow> scored_events db u what \<noteq> [] | _ \<Rightarrow> False)
      else if kind = Some (JStr ''gear_owned'') then
        int (length (list_user_gear db u)) \<ge> threshold
      else if kind = Some (JStr ''focus_total'') then
        foldl fadd 0 (focus_minutes db u) \<ge> of_int threshold
      else if kind = Some (JStr ''phase_minutes'') then
        max_or_0 (focus_minutes db u) \<ge> of_int threshold
      else if kind = Some (JStr ''streak'') then
        max_or_0 (map d_streak (filter (\<lambda>d. d_user d = u) (t_dailies db))) \<ge> threshold
      else if kind = Some (JStr ''habit_counter'') then
        max_or_0 (map h_counter (filter (\<lambda>h. h_user h = u) (t_habits db))) \<ge> threshold
      else if kind = Some (JStr ''perfect_day'') then perfect_day env db u full_history
      else False)"

definition meets :: "env \<Rightarrow> db \<Rightarrow> int \<Rightarrow> json \<Rightarrow> bool \<Rightarrow> bool" where
  "meets env db u criteria full_history =
     (case criteria of
        JObj d \<Rightarrow>
          if dict_get d ''kind'' = Some (JStr ''level'') then level (profile_of db u) \<ge> criteria_threshold d
          else if dict_get d ''kind'' = Some (JStr ''class'') then game_class (profile_of db u) \<noteq> None
          else meets_db env db u d full_history
      | _ \<Rightarrow> False)"

definition EVENT_GATED_KINDS :: "(string \<times> string set) list" where
  "EVENT_GATED_KINDS = [(''perfect_day'', {''daily_check'', ''daily_missed''}),
     (''focus_total'', {''focus_phase_completed''}), (''phase_minutes'', {''focus_phase_completed''})]"

definition event_relevant :: "json \<Rightarrow> string set option \<Rightarrow> bool" where
  "event_relevant criteria event_types =
     (case (event_types, criteria) of
        (Some types, JObj d) \<Rightarrow>
          (case dict_get d ''kind'' of
             Some (JStr kind) \<Rightarrow> (case map_of EVENT_GATED_KINDS kind of
                 Some gate \<Rightarrow> types \<inter> gate \<noteq> {} | None \<Rightarrow> True)
           | _ \<Rightarrow> True)
      | _ \<Rightarrow> True)"

subsection \<open>The grant pass\<close>

text \<open>\<open>achievement.criteria or {}\<close>: an empty value falls back to the empty dict.\<close>

definition criteria_of :: "achievement \<Rightarrow> json" where
  "criteria_of a = (if truthy (a_criteria a) then a_criteria a else JObj [])"

definition grant :: "int \<Rightarrow> achievement \<Rightarrow> db \<Rightarrow> db" where
  "grant u a db = put_profile u ((profile_of db u)\<lparr>gold := fadd (gold (profile_of db u)) (of_int (a_gold_reward a))\<rparr>)
     (db\<lparr>t_user_achievements := t_user_achievements db @ [\<lparr>ua_user = u, ua_achievement = a_id a\<rparr>]\<rparr>)"

fun grant_loop :: "env \<Rightarrow> int \<Rightarrow> string set option \<Rightarrow> bool \<Rightarrow> achievement list \<Rightarrow> db \<Rightarrow> achievement list \<times> db" where
  "grant_loop env u types full [] db = ([], db)"
| "grant_loop env u types full (a # as) db =
     (if event_relevant (criteria_of a) types \<and> meets env db u (criteria_of a) full
      then let (granted, db') = grant_loop env u types full as (grant u a db) in (a # granted, db')
      else grant_loop env u types full as db)"

definition pending_badges :: "db \<Rightarrow> int \<Rightarrow> achievement list" where
  "pending_badges db u = filter
     (\<lambda>a. \<not> (\<exists>g \<in> set (t_user_achievements db). ua_user g = u \<and> ua_achievement g = a_id a))
     (t_achievements db)"

definition notify_grants :: "env \<Rightarrow> int \<Rightarrow> achievement list \<Rightarrow> db \<Rightarrow> db" where
  "notify_grants env u granted db = fold (\<lambda>a. dispatch_notification env u ACHIEVEMENT
       ''Achievement unlocked''
       (a_name a @ '' '' @ em_dash @ '' '' @ a_description a @ '' (+'' @ show_int (a_gold_reward a) @ '' gold).'')
       (Some ''/game'') [(''achievement_key'', JStr (a_key a))] False) granted db"

definition evaluate_grants :: "env \<Rightarrow> int \<Rightarrow> string set option \<Rightarrow> bool \<Rightarrow> db \<Rightarrow> achievement list \<times> db" where
  "evaluate_grants env u event_types full_history db =
     (let db1 = seed_achievements db;
          (granted, db2) = grant_loop env u event_types full_history (pending_badges db1 u) db1
      in (granted, notify_grants env u granted db2))"

text \<open>\<open>list_for_user\<close>: every registry row with whether the user has earned it.\<close>

definition list_achievements :: "int \<Rightarrow> db \<Rightarrow> (achievement \<times> bool) list \<times> db" where
  "list_achievements u db =
     (let db1 = seed_achievements db
      in (map (\<lambda>a. (a, \<exists>g \<in> set (t_user_achievements db1). ua_user g = u \<and> ua_achievement g = a_id a))
            (sort_key a_id (t_achievements db1)), db1))"

end
