(* ===== verification/Character.thy ===== *)
theory Character
  imports Achievements
begin

text \<open>
  The character sheet of \<open>app/game/character_service.py\<close>: the gear catalog and its seeding,
  buying, wearing and losing gear, stat allocation by hand and automatic, the class pick and the
  respec, and the hook every scoring path ends with. The profile is the user's row; an operation
  that raises returns the \<open>ValueError\<close> and no state, since every check precedes the first write.
\<close>

subsection \<open>The catalog\<close>

definition gear :: "string \<Rightarrow> string \<Rightarrow> string \<Rightarrow> string \<Rightarrow> int \<Rightarrow> (string \<times> int) list \<Rightarrow> int \<Rightarrow> gear_item" where
  "gear key name slot klass tier stats cost = \<lparr>gi_id = 0, gi_key = key, gi_name = name,
     gi_slot = slot, gi_klass = klass, gi_tier = tier, gi_stats = stats, gi_cost = cost,
     gi_losable = True\<rparr>"

definition CLASS_GEAR_1 :: "gear_item list" where
  "CLASS_GEAR_1 = [
     gear ''warrior-weapon-1'' ''Training Sword'' ''weapon'' ''warrior'' 1
       [(''str'', 3)] 100,
     gear ''warrior-weapon-2'' ''Broad Sword'' ''weapon'' ''warrior'' 2
       [(''str'', 6)] 250,
     gear ''warrior-armor-1'' ''Leather Armor'' ''armor'' ''warrior'' 1
       [(''con'', 3)] 90,
     gear ''warrior-armor-2'' ''Chain Mail'' ''armor'' ''warrior'' 2
       [(''con'', 5)] 220,
     gear ''warrior-head-1'' ''Iron Helm'' ''head'' ''warrior'' 1
       [(''str'', 2)] 60,
     gear ''mage-weapon-1'' ''Apprentice Staff'' ''weapon'' ''mage'' 1
       [(''int'', 3)] 100,
     gear ''mage-weapon-2'' ''Wizard Staff'' ''weapon'' ''mage'' 2
       [(''int'', 6)] 250,
     gear ''mage-armor-1'' ''Magician Robe'' ''armor'' ''mage'' 1
       [(''per'', 3)] 90,
     gear ''mage-armor-2'' ''Archmage Robe'' ''armor'' ''mage'' 2
       [(''per'', 5)] 220,
     gear ''mage-head-1'' ''Magician Hat'' ''head'' ''mage'' 1
       [(''int'', 2)] 60,
     gear ''healer-weapon-1'' ''Novice Rod'' ''weapon'' ''healer'' 1
       [(''int'', 3)] 100,
     gear ''healer-weapon-2'' ''Acolyte Rod'' ''weapon'' ''healer'' 2
       [(''int'', 6)] 250,
     gear ''healer-armor-1'' ''Priest Robe'' ''armor'' ''healer'' 1
       [(''con'', 3)] 90,
     gear ''healer-armor-2'' ''Royal Vestments'' ''armor'' ''healer'' 2
       [(''con'', 5)] 220]"

definition CLASS_GEAR_2 :: "gear_item list" where
  "CLASS_GEAR_2 = [
     gear ''healer-head-1'' ''Circlet'' ''head'' ''healer'' 1
       [(''con'', 2)] 60,
     gear ''rogue-weapon-1'' ''Short Dagger'' ''weapon'' ''rogue'' 1
       [(''per'', 3)] 100,
     gear ''rogue-weapon-2'' ''Hidden Blade'' ''weapon'' ''rogue'' 2
       [(''per'', 6)] 250,
     gear ''rogue-armor-1'' ''Oiled Leather'' ''armor'' ''rogue'' 1
       [(''str'', 3)] 90,
     gear ''rogue-armor-2'' ''Umbral Armor'' ''armor'' ''rogue'' 2
       [(''str'', 5)] 220,
     gear ''rogue-head-1'' ''Hood'' ''head'' ''rogue'' 1
       [(''per'', 2)] 60,
     gear ''all-shield-1'' ''Wooden Shield'' ''shield'' ''all'' 1
       [(''con'', 1)] 50,
     gear ''all-body-1'' ''Plain Shirt'' ''body'' ''all'' 1
       [(''con'', 1)] 40,
     gear ''all-back-1'' ''Traveler Cloak'' ''back'' ''all'' 1
       [(''per'', 1)] 40,
     gear ''all-eyewear-1'' ''Spectacles'' ''eyewear'' ''all'' 1
       [(''int'', 1)] 30]"

definition GEAR_CATALOG :: "gear_item list" where
  "GEAR_CATALOG = CLASS_GEAR_1 @ CLASS_GEAR_2"

text \<open>The upsert; \<open>losable\<close> is not a seeded column.\<close>

definition refresh_gear :: "gear_item \<Rightarrow> gear_item" where
  "refresh_gear row = (case find (\<lambda>s. gi_key s = gi_key row) GEAR_CATALOG of
       Some seed \<Rightarrow> seed\<lparr>gi_id := gi_id row, gi_losable := gi_losable row\<rparr> | None \<Rightarrow> row)"

definition missing_gear :: "db \<Rightarrow> gear_item list" where
  "missing_gear db = filter (\<lambda>s. gi_key s \<notin> gi_key ` set (t_gear_items db)) GEAR_CATALOG"

fun number_gear :: "int \<Rightarrow> gear_item list \<Rightarrow> gear_item list" where
  "number_gear n [] = []"
| "number_gear n (s # ss) = s\<lparr>gi_id := n\<rparr> # number_gear (n + 1) ss"

definition seed_gear_catalog :: "db \<Rightarrow> db" where
  "seed_gear_catalog db = db\<lparr>
     t_gear_items := map refresh_gear (t_gear_items db) @ number_gear (t_next_id db) (missing_gear db),
     t_next_id := t_next_id db + int (length (missing_gear db))\<rparr>"

subsection \<open>Gear\<close>

definition add_bonus :: "bonus \<Rightarrow> string \<times> int \<Rightarrow> bonus" where
  "add_bonus b = (\<lambda>(key, n). if key \<in> set STAT_KEYS
     then b(key \<mapsto> (case b key of Some m \<Rightarrow> m | None \<Rightarrow> 0) + n) else b)"

definition gear_stat_bonus :: "db \<Rightarrow> int \<Rightarrow> bonus" where
  "gear_stat_bonus db u =
     foldl add_bonus Map.empty (concat (map (\<lambda>(_, it). gi_stats it) (list_equipped_gear db u)))"

definition class_locked :: "gear_item \<Rightarrow> profile \<Rightarrow> bool" where
  "class_locked it p \<longleftrightarrow> gi_klass it \<noteq> ''all'' \<and> game_class p \<noteq> Some (gi_klass it)"

definition locked_error :: "gear_item \<Rightarrow> py_error" where
  "locked_error it = ValueError (quoted (gi_key it) @ '' is locked to the '' @ gi_klass it @ '' class'')"

definition owns_previous_tier :: "db \<Rightarrow> int \<Rightarrow> gear_item \<Rightarrow> bool" where
  "owns_previous_tier db u it =
     (case find_gear_item db (gi_slot it) (gi_klass it) (gi_tier it - 1) of
        None \<Rightarrow> False | Some prev \<Rightarrow> get_user_gear db u (gi_id prev) \<noteq> None)"

definition buy_gear :: "int \<Rightarrow> gear_item \<Rightarrow> db \<Rightarrow> (user_gear \<times> db) result" where
  "buy_gear u it db =
     (let p = profile_of db u in
      if class_locked it p then Inl (locked_error it)
      else if get_user_gear db u (gi_id it) \<noteq> None then Inl (ValueError ''item already owned'')
      else if gi_tier it > 1 \<and> \<not> owns_previous_tier db u it
        then Inl (ValueError ''buy the previous ladder tier first'')
      else if gold p < of_int (gi_cost it) then Inl (ValueError ''not enough gold'')
      else
        let ug = \<lparr>ug_id = t_next_id db, ug_user = u, ug_item = gi_id it, ug_equipped = False, ug_costume = False\<rparr>
        in Inr (ug, put_profile u (p\<lparr>gold := fsub (gold p) (of_int (gi_cost it))\<rparr>)
             (db\<lparr>t_user_gear := t_user_gear db @ [ug], t_next_id := t_next_id db + 1\<rparr>)))"

text \<open>The other gear of the user that carries the flag in the slot; the catalog row is joined.\<close>

definition in_slot :: "db \<Rightarrow> string \<Rightarrow> user_gear \<Rightarrow> bool" where
  "in_slot db slot g \<longleftrightarrow> (\<exists>it \<in> set (t_gear_items db). gi_id it = ug_item g \<and> gi_slot it = slot)"

definition clear_slot ::
  "(user_gear \<Rightarrow> bool) \<Rightarrow> (user_gear \<Rightarrow> user_gear) \<Rightarrow> int \<Rightarrow> string \<Rightarrow> int \<Rightarrow> db \<Rightarrow> db" where
  "clear_slot flag clear u slot keep db = db\<lparr>t_user_gear :=
     update_where (\<lambda>g. ug_user g = u \<and> flag g \<and> in_slot db slot g \<and> ug_id g \<noteq> keep) clear (t_user_gear db)\<rparr>"

definition set_flag :: "(user_gear \<Rightarrow> user_gear) \<Rightarrow> int \<Rightarrow> db \<Rightarrow> db" where
  "set_flag f i db = db\<lparr>t_user_gear := update_where (\<lambda>g. ug_id g = i) f (t_user_gear db)\<rparr>"

definition owned_item :: "int \<Rightarrow> string \<Rightarrow> db \<Rightarrow> (gear_item \<times> user_gear) result" where
  "owned_item u key db = (case get_gear_item db key of
       None \<Rightarrow> Inl (ValueError (''unknown gear item '' @ quoted key))
     | Some it \<Rightarrow> (case get_user_gear db u (gi_id it) of
           None \<Rightarrow> Inl (ValueError ''item not owned'') | Some ug \<Rightarrow> Inr (it, ug)))"

definition set_equipped :: "int \<Rightarrow> string \<Rightarrow> bool \<Rightarrow> db \<Rightarrow> db result" where
  "set_equipped u key on db = bind_r (owned_item u key db) (\<lambda>(it, ug).
     if on \<and> class_locked it (profile_of db u) then Inl (locked_error it)
     else
       let db1 = (if on then clear_slot ug_equipped (\<lambda>g. g\<lparr>ug_equipped := False\<rparr>) u (gi_slot it) (ug_id ug) db else db)
       in Inr (set_flag (\<lambda>g. g\<lparr>ug_equipped := on\<rparr>) (ug_id ug) db1))"

definition set_costume :: "int \<Rightarrow> string \<Rightarrow> bool \<Rightarrow> db \<Rightarrow> db result" where
  "set_costume u key on db = bind_r (owned_item u key db) (\<lambda>(it, ug).
     let db1 = (if on then clear_slot ug_costume (\<lambda>g. g\<lparr>ug_costume := False\<rparr>) u (gi_slot it) (ug_id ug) db else db)
     in Inr (set_flag (\<lambda>g. g\<lparr>ug_costume := on\<rparr>) (ug_id ug) db1))"

text \<open>\<open>list_catalog\<close>: catalog rows with the user's owned, equipped and costume flags.\<close>

definition list_catalog :: "int \<Rightarrow> db \<Rightarrow> (gear_item \<times> bool \<times> bool \<times> bool) list \<times> db" where
  "list_catalog u db =
     (let db1 = seed_gear_catalog db
      in (map (\<lambda>it. case find (\<lambda>g. ug_item g = gi_id it) (rev (list_user_gear db1 u)) of
                 None \<Rightarrow> (it, False, False, False)
               | Some g \<Rightarrow> (it, True, ug_equipped g, ug_costume g)) (list_gear_catalog db1), db1))"

definition lose_random_gear :: "int \<Rightarrow> db \<Rightarrow> rng \<Rightarrow> string option \<times> db \<times> rng" where
  "lose_random_gear u db g =
     (let rows = join_gear db (\<lambda>ug it. ug_user ug = u \<and> gi_losable it) in
      if rows = [] then (None, db, g)
      else let ((ug, it), g') = rng_choice g rows
           in (Some (gi_key it), db\<lparr>t_user_gear := filter (\<lambda>r. ug_id r \<noteq> ug_id ug) (t_user_gear db)\<rparr>, g'))"

definition resolve_death_gear :: "int \<Rightarrow> outcome \<Rightarrow> db \<Rightarrow> rng \<Rightarrow> outcome \<times> db \<times> rng" where
  "resolve_death_gear u oc db g =
     (if o_died oc \<noteq> Some True then (oc, db, g)
      else let (lost, db', g') = lose_random_gear u db g
           in (oc\<lparr>o_gear_lost := Some (lost \<noteq> None), o_gear_lost_key := Some lost\<rparr>, db', g'))"

subsection \<open>Stat allocation\<close>

definition allocated_total :: "profile \<Rightarrow> int" where
  "allocated_total p = sum_list (map (get_stat p) stat_columns)"

definition stat_of_key :: "string \<Rightarrow> stat option" where
  "stat_of_key key = find (\<lambda>s. stat_key s = key) stat_columns"

fun clean_points :: "dict \<Rightarrow> (stat \<times> int) list result" where
  "clean_points [] = Inr []"
| "clean_points ((key, n) # rest) =
     (case stat_of_key key of
        None \<Rightarrow> Inl (ValueError (''unknown stat '' @ quoted key))
      | Some s \<Rightarrow> (case n of
            JInt k \<Rightarrow> if k < 1 \<or> k > STAT_POINT_CAP then Inl (ValueError ''point counts must be positive integers'')
              else bind_r (clean_points rest) (\<lambda>clean. Inr ((s, k) # clean))
          | _ \<Rightarrow> Inl (ValueError ''point counts must be positive integers'')))"

definition allocate_points :: "profile \<Rightarrow> json \<Rightarrow> profile result" where
  "allocate_points p points =
     (case points of
        JObj d \<Rightarrow>
          if d = [] then Inl (ValueError ''points must be a non-empty mapping of stat -> count'')
          else bind_r (clean_points d) (\<lambda>clean.
            let requested = sum_list (map snd clean) in
            if requested > unspent_stat_points p then Inl (ValueError ''not enough unspent stat points'')
            else if allocated_total p + requested > STAT_POINT_CAP
            then Inl (ValueError (''total allocated stats are capped at '' @ show_int STAT_POINT_CAP))
            else Inr ((fold (\<lambda>(s, n) q. set_stat s (get_stat q s + n) q) clean p)
                        \<lparr>unspent_stat_points := unspent_stat_points p - requested\<rparr>))
      | _ \<Rightarrow> Inl (ValueError ''points must be a non-empty mapping of stat -> count''))"

text \<open>\<open>min(order, key=...)\<close>: the first of the lowest stats.\<close>

definition pick_stat :: "profile \<Rightarrow> stat list \<Rightarrow> stat" where
  "pick_stat p order = foldl (\<lambda>best s. if get_stat p s < get_stat p best then s else best) (hd order) (tl order)"

definition affinity_order :: "profile \<Rightarrow> stat list" where
  "affinity_order p = (case map_of CLASSES (case game_class p of Some c \<Rightarrow> c | None \<Rightarrow> []) of
       Some order \<Rightarrow> order | None \<Rightarrow> stat_columns)"

lemma set_stat_unspent [simp]: "unspent_stat_points (set_stat s n p) = unspent_stat_points p"
  by (simp add: set_stat_def split: stat.splits)

function distribute_loop :: "stat list \<Rightarrow> profile \<Rightarrow> int \<Rightarrow> profile \<times> int" where
  "distribute_loop order p assigned =
     (if unspent_stat_points p > 0 \<and> allocated_total p < STAT_POINT_CAP then
        distribute_loop order
          ((set_stat (pick_stat p order) (get_stat p (pick_stat p order) + 1) p)
             \<lparr>unspent_stat_points := unspent_stat_points p - 1\<rparr>) (assigned + 1)
      else (p, assigned))"
  by pat_completeness auto
termination
  by (relation "measure (\<lambda>(order, p, assigned). nat (unspent_stat_points p))") auto

declare distribute_loop.simps [simp del]

definition distribute_unspent :: "profile \<Rightarrow> profile \<times> int" where
  "distribute_unspent p = distribute_loop (affinity_order p) p 0"

subsection \<open>Class\<close>

definition select_class :: "profile \<Rightarrow> string \<Rightarrow> profile result" where
  "select_class p klass =
     (if klass \<notin> fst ` set CLASSES then Inl (ValueError (''unknown class '' @ quoted klass))
      else if game_class p \<noteq> None then Inl (ValueError ''respec first to change class'')
      else if \<not> class_unlocked p \<and> level p < CLASS_MIN_LEVEL
      then Inl (ValueError (''class unlocks at level '' @ show_int CLASS_MIN_LEVEL))
      else Inr (p\<lparr>game_class := Some klass, class_unlocked := True\<rparr>))"

definition respec :: "profile \<Rightarrow> game_rates \<Rightarrow> (profile \<times> rat) result" where
  "respec p r =
     (if game_class p = None then Inl (ValueError ''no class to respec'')
      else if gold p < b64 (respec_gold_cost r) then Inl (ValueError ''not enough gold for respec'')
      else Inr (p\<lparr>gold := fsub (gold p) (b64 (respec_gold_cost r)), game_class := None,
                  str_stat := 0, int_stat := 0, con_stat := 0, per_stat := 0,
                  unspent_stat_points := unspent_stat_points p + allocated_total p\<rparr>,
                b64 (respec_gold_cost r)))"

definition unequip_mismatched :: "int \<Rightarrow> string option \<Rightarrow> db \<Rightarrow> db" where
  "unequip_mismatched u klass db =
     (let off = map (ug_id \<circ> fst) (filter (\<lambda>(_, it). gi_klass it \<noteq> ''all'' \<and> Some (gi_klass it) \<noteq> klass)
            (list_equipped_gear db u))
      in db\<lparr>t_user_gear := update_where (\<lambda>g. ug_id g \<in> set off) (\<lambda>g. g\<lparr>ug_equipped := False\<rparr>) (t_user_gear db)\<rparr>)"

subsection \<open>The post-scoring hook\<close>

definition auto_distribute :: "int \<Rightarrow> db \<Rightarrow> db" where
  "auto_distribute u db =
     (if auto_allocate (profile_of db u) then put_profile u (fst (distribute_unspent (profile_of db u))) db else db)"

definition post_score :: "env \<Rightarrow> int \<Rightarrow> string set option \<Rightarrow> db \<Rightarrow> db" where
  "post_score env u event_types db = snd (evaluate_grants env u event_types False (auto_distribute u db))"

end
