(* ===== verification/HabitService.thy ===== *)
theory HabitService
  imports Character
begin

text \<open>
  Habit clicks, \<open>app/game/habit_service.py\<close>: what a client may put on a ledger row, which
  directions a habit accepts, the scoring of one click against the stored value, and the clicks a
  finished focus phase makes on every bound habit. An operation returns its result or exception
  together with the database and the generator, since a draw made before a raise stays made.
\<close>

definition MAX_AUTO_CLICKS_PER_EVAL :: int where "MAX_AUTO_CLICKS_PER_EVAL = 500"

definition EXTRA_DENY :: "string list" where
  "EXTRA_DENY = [''auto'', ''session_id'']"

definition clean_extra :: "dict \<Rightarrow> dict" where
  "clean_extra extra = filter (\<lambda>(k, _). k \<notin> set EXTRA_DENY \<and> take 1 k \<noteq> ''_'') extra"

definition direction_value :: "direction \<Rightarrow> string" where
  "direction_value d = (case d of POSITIVE \<Rightarrow> ''positive'' | NEGATIVE \<Rightarrow> ''negative'' | BOTH \<Rightarrow> ''both'')"

definition direction_allows :: "habit \<Rightarrow> string \<Rightarrow> bool" where
  "direction_allows h dir \<longleftrightarrow> h_direction h = BOTH \<or> direction_value (h_direction h) = dir"

definition check_direction :: "habit \<Rightarrow> string \<Rightarrow> string result" where
  "check_direction h dir = (if direction_allows h dir then Inr dir
     else Inl (ValueError (''habit does not accept '' @ dir @ '' clicks'')))"

text \<open>\<open>float(outcome["new_value"])\<close> and the counter of the row a click writes back.\<close>

definition clicked :: "string \<Rightarrow> outcome \<Rightarrow> habit \<Rightarrow> habit" where
  "clicked dir oc h = h\<lparr>h_counter := h_counter h + (if dir = ''positive'' then 1 else - 1),
     h_value := (case o_new_value oc of Some v \<Rightarrow> v | None \<Rightarrow> h_value h)\<rparr>"

definition click_payload :: "habit \<Rightarrow> string \<Rightarrow> dict \<Rightarrow> dict \<Rightarrow> dict" where
  "click_payload h dir extra server_extra = dict_merge (dict_merge (clean_extra extra) server_extra)
     [(''habit_id'', JInt (h_id h)), (''direction'', JStr dir), (''difficulty'', JStr (h_difficulty h)),
      (''value'', JFloat (h_value h))]"

definition score_click ::
  "env \<Rightarrow> int \<Rightarrow> string \<Rightarrow> game_rates \<Rightarrow> date \<Rightarrow> string \<Rightarrow> datetime \<Rightarrow> dict \<Rightarrow> dict \<Rightarrow> bonus option
     \<Rightarrow> db \<Rightarrow> rng \<Rightarrow> outcome result \<times> db \<times> rng" where
  "score_click env hid dir rates today eid client_ts extra server_extra stat_bonus db g =
     (case habit_row db hid of
        None \<Rightarrow> (Inl InvalidRequestError, db, g)
      | Some h \<Rightarrow>
          let u = h_user h;
              bs = (case stat_bonus of Some b \<Rightarrow> b | None \<Rightarrow> gear_stat_bonus db u);
              p = profile_of db u;
              (roll, g1) = rng_random g
          in case apply_event (e_pf env) (date_of (e_now env)) p ''habit_click''
                    [(''direction'', JStr dir), (''value'', JFloat (h_value h)),
                     (''difficulty'', JStr (h_difficulty h))] rates roll g1 (Some today) bs of
               Inl e \<Rightarrow> (Inl e, db, g1)
             | Inr (p', oc0, g2) \<Rightarrow>
                 let (oc, db1, g3) = resolve_death_gear u oc0 (put_profile u p' db) g2;
                     db2 = notify_score_outcome env u (hp p) oc db1;
                     db3 = update_habit hid (clicked dir oc) db2
                 in (Inr oc, add_event \<lparr>ev_user = u, ev_eid = eid, ev_type = ''habit_click'',
                       ev_payload = click_payload h dir extra server_extra, ev_outcome = oc,
                       ev_ts = client_ts\<rparr> db3, g3))"

definition auto_click_eid :: "env \<Rightarrow> int \<Rightarrow> string \<Rightarrow> string" where
  "auto_click_eid env hid source_eid =
     ''server:habit:'' @ show_int hid @ '':focus:'' @ e_digest env source_eid"

fun auto_click_loop ::
  "env \<Rightarrow> game_rates \<Rightarrow> date \<Rightarrow> string \<Rightarrow> datetime \<Rightarrow> dict \<Rightarrow> int \<Rightarrow> bonus \<Rightarrow> habit list \<Rightarrow> int
     \<Rightarrow> db \<Rightarrow> rng \<Rightarrow> int result \<times> db \<times> rng" where
  "auto_click_loop env rates today source_eid ts server_extra limit bs [] spent db g = (Inr spent, db, g)"
| "auto_click_loop env rates today source_eid ts server_extra limit bs (h # hs) spent db g =
     (if spent \<ge> limit then (Inr spent, db, g)
      else if \<not> h_bind_focus h \<or> h_direction h = NEGATIVE
      then auto_click_loop env rates today source_eid ts server_extra limit bs hs spent db g
      else case score_click env (h_id h) ''positive'' rates today (auto_click_eid env (h_id h) source_eid) ts []
                  (dict_set server_extra ''auto'' (JBool True)) (Some bs) db g of
             (Inl e, db', g') \<Rightarrow> (Inl e, db', g')
           | (Inr _, db', g') \<Rightarrow>
               auto_click_loop env rates today source_eid ts server_extra limit bs hs (spent + 1) db' g')"

definition auto_click_bound ::
  "env \<Rightarrow> int \<Rightarrow> game_rates \<Rightarrow> date \<Rightarrow> string \<Rightarrow> datetime \<Rightarrow> habit list option \<Rightarrow> dict \<Rightarrow> int option
     \<Rightarrow> bonus option \<Rightarrow> db \<Rightarrow> rng \<Rightarrow> int result \<times> db \<times> rng" where
  "auto_click_bound env u rates today source_eid ts habits server_extra budget stat_bonus db g =
     auto_click_loop env rates today source_eid ts server_extra
       (case budget of Some b \<Rightarrow> b | None \<Rightarrow> MAX_AUTO_CLICKS_PER_EVAL)
       (case stat_bonus of Some b \<Rightarrow> b | None \<Rightarrow> gear_stat_bonus db u)
       (case habits of Some hs \<Rightarrow> hs | None \<Rightarrow> list_habits db u) 0 db g"

end
