(* ===== verification/DailyService.thy ===== *)
theory DailyService
  imports HabitService
begin

text \<open>
  Checks on dailies, the database half of \<open>app/game/daily_service.py\<close>: the transition of a day's
  marks, what the ledger says the day already paid, the payout of the residual share, and
  \<open>score_check\<close>, through which every check and uncheck passes.
\<close>

definition zero_outcome :: "daily \<Rightarrow> outcome" where
  "zero_outcome d = no_outcome\<lparr>o_scored := Some True, o_crit := Some False, o_share := Some 0,
     o_streak := Some (d_streak d), o_xp := Some 0, o_levels_gained := Some 0, o_gold := Some 0\<rparr>"

subsection \<open>Marks\<close>

definition mark_at :: "db \<Rightarrow> int \<Rightarrow> date \<Rightarrow> int option \<Rightarrow> daily_check option" where
  "mark_at db did day item = find (\<lambda>c. dc_item c = item) (list_daily_checks db [did] day day)"

definition mark_done :: "db \<Rightarrow> int \<Rightarrow> date \<Rightarrow> int option \<Rightarrow> bool" where
  "mark_done db did day item = (case mark_at db did day item of Some c \<Rightarrow> dc_done c | None \<Rightarrow> False)"

definition set_mark :: "int \<Rightarrow> date \<Rightarrow> int option \<Rightarrow> bool \<Rightarrow> db \<Rightarrow> db" where
  "set_mark did day item b db = db\<lparr>t_daily_checks := update_where
     (\<lambda>c. dc_daily c = did \<and> dc_date c = day \<and> dc_item c = item) (\<lambda>c. c\<lparr>dc_done := b\<rparr>) (t_daily_checks db)\<rparr>"

definition add_mark :: "env \<Rightarrow> int \<Rightarrow> date \<Rightarrow> int option \<Rightarrow> db \<Rightarrow> db" where
  "add_mark env did day item db = db\<lparr>t_daily_checks := t_daily_checks db @
     [\<lparr>dc_daily = did, dc_item = item, dc_date = day, dc_done = True, dc_created_at = e_now env\<rparr>]\<rparr>"

text \<open>The number of items done that day: the code's set of their ids, without the master mark.\<close>

definition done_items :: "db \<Rightarrow> int \<Rightarrow> date \<Rightarrow> int" where
  "done_items db did day = int (card (set (List.map_filter (\<lambda>c. if dc_done c then dc_item c else None)
     (list_daily_checks db [did] day day))))"

record transition =
  tr_share :: rat
  tr_first :: bool
  tr_uncheck :: bool
  tr_reason :: "string option"

definition no_transition :: transition where
  "no_transition = \<lparr>tr_share = 0, tr_first = False, tr_uncheck = False, tr_reason = None\<rparr>"

definition transition_marks ::
  "env \<Rightarrow> int \<Rightarrow> int \<Rightarrow> int option \<Rightarrow> date \<Rightarrow> bool \<Rightarrow> db \<Rightarrow> transition \<times> db" where
  "transition_marks env did n_items item_id day is_done db =
     (let master_mark = mark_at db did day None;
          master_was_done = mark_done db did day None;
          done_count = done_items db did day;
          target = mark_at db did day item_id
      in if \<not> is_done then
           (if \<not> mark_done db did day item_id
            then (no_transition\<lparr>tr_reason := Some ''nothing_to_uncheck''\<rparr>, db)
            else
              let db1 = set_mark did day item_id False db
              in (no_transition\<lparr>tr_uncheck := True\<rparr>,
                  if item_id \<noteq> None \<and> master_was_done then set_mark did day None False db1 else db1))
         else if master_was_done \<or> mark_done db did day item_id
         then (no_transition\<lparr>tr_reason := Some ''already_checked''\<rparr>, db)
         else if item_id \<noteq> None then
           let (share, db1) = (if target = None then (fdiv 1 (of_int n_items), add_mark env did day item_id db)
                               else (0, set_mark did day item_id True db))
           in if done_count + 1 \<ge> n_items then
                (if master_mark = None
                 then (no_transition\<lparr>tr_share := share, tr_first := True\<rparr>, add_mark env did day None db1)
                 else (no_transition\<lparr>tr_share := share\<rparr>, set_mark did day None True db1))
              else (no_transition\<lparr>tr_share := share\<rparr>, db1)
         else if master_mark = None then
           (no_transition\<lparr>tr_first := True,
              tr_share := (if n_items \<noteq> 0 then fdiv (of_int (n_items - done_count)) (of_int n_items) else 1)\<rparr>,
            add_mark env did day None db)
         else (no_transition, set_mark did day None True db))"

subsection \<open>Payout\<close>

definition paid_rows :: "env \<Rightarrow> db \<Rightarrow> daily \<Rightarrow> date \<Rightarrow> event list" where
  "paid_rows env db d day =
     (let since = midnight day; until = max (e_now env) (since + us_per_day)
      in filter (\<lambda>e. dict_get (ev_payload e) ''daily_id'' = Some (JInt (d_id d))
             \<and> dict_get (ev_payload e) ''check_date'' = Some (JStr (isoformat day)) \<and> scored (ev_outcome e))
           (list_daily_check_events db (d_user d) since until))"

text \<open>\<open>float(p.get("share") or 0.0)\<close> and the same of the outcome's optional numbers.\<close>

definition payload_share :: "event \<Rightarrow> rat" where
  "payload_share e = py_float (dict_get_or (ev_payload e) ''share'' JNull)"

definition or_zero :: "'a::zero option \<Rightarrow> 'a" where
  "or_zero x = (case x of Some v \<Rightarrow> v | None \<Rightarrow> 0)"

definition paid_totals :: "env \<Rightarrow> db \<Rightarrow> daily \<Rightarrow> date \<Rightarrow> rat \<times> rat \<times> rat" where
  "paid_totals env db d day =
     (let rows = paid_rows env db d day
      in (foldl fadd 0 (map payload_share rows),
          foldl fadd 0 (map (\<lambda>e. b64 (of_int (or_zero (o_xp (ev_outcome e))))) rows),
          foldl fadd 0 (map (\<lambda>e. or_zero (o_gold (ev_outcome e))) rows)))"

definition apply_share ::
  "env \<Rightarrow> int \<Rightarrow> rat \<Rightarrow> date \<Rightarrow> game_rates \<Rightarrow> date \<Rightarrow> bonus option \<Rightarrow> db \<Rightarrow> rng
     \<Rightarrow> (outcome \<times> rat) result \<times> db \<times> rng" where
  "apply_share env did share0 day rates today stat_bonus db g =
     (case daily_row db did of
        None \<Rightarrow> (Inl InvalidRequestError, db, g)
      | Some d \<Rightarrow>
          let (paid_share, paid_xp, paid_gold) = paid_totals env db d day;
              share = min share0 (max 0 (fsub 1 paid_share))
          in if share \<le> 0 then (Inr (zero_outcome d, share), db, g)
             else
               let u = d_user d;
                   bs = (case stat_bonus of Some b \<Rightarrow> b | None \<Rightarrow> gear_stat_bonus db u);
                   p = profile_of db u;
                   (roll, g1) = rng_random g
               in case apply_event (e_pf env) (date_of (e_now env)) p ''daily_check''
                    [(''difficulty'', JStr (d_difficulty d)), (''share'', JFloat share),
                     (''streak'', JInt (d_streak d)), (''paid_share'', JFloat paid_share),
                     (''paid_xp'', JFloat paid_xp), (''paid_gold'', JFloat paid_gold)]
                    rates roll g1 (Some today) bs of
                    Inl e \<Rightarrow> (Inl e, db, g1)
                  | Inr (p', oc0, g2) \<Rightarrow>
                      let (oc, db1, g3) = resolve_death_gear u oc0 (put_profile u p' db) g2
                      in (Inr (oc, share), notify_score_outcome env u (hp p) oc db1, g3))"

subsection \<open>One check\<close>

definition parse_done :: "json option \<Rightarrow> bool result" where
  "parse_done v = (case v of None \<Rightarrow> Inr True | Some JNull \<Rightarrow> Inr True | Some (JBool b) \<Rightarrow> Inr b
     | _ \<Rightarrow> Inl (ValueError ''done_malformed''))"

definition check_guard :: "daily \<Rightarrow> daily_item list \<Rightarrow> int option \<Rightarrow> date \<Rightarrow> date \<Rightarrow> json option \<Rightarrow> bool result" where
  "check_guard d items item_id day today flag = bind_r (parse_done flag) (\<lambda>is_done.
     if \<not> d_active d then Inl (ValueError ''daily_inactive'')
     else if day > today \<or> day < daily_anchor d then Inl (ValueError ''check_date_out_of_range'')
     else if item_id \<noteq> None \<and> (\<forall>i \<in> set items. Some (di_id i) \<noteq> item_id)
     then Inl (ValueError ''item_unresolvable'')
     else Inr is_done)"

text \<open>The streak rule: the day's first completion, on a scheduled day the sweep has not charged.\<close>

definition miss_key :: "recurrence \<Rightarrow> date \<Rightarrow> date" where
  "miss_key rec day = (case r_schedule rec of TimesPerWeek _ \<Rightarrow> week_end day | _ \<Rightarrow> day)"

definition earns_streak :: "db \<Rightarrow> daily \<Rightarrow> date \<Rightarrow> bool \<Rightarrow> bool" where
  "earns_streak db d day first_completion =
     (case parse_recurrence (d_recurrence d) of
        None \<Rightarrow> False
      | Some rec \<Rightarrow> first_completion \<and> is_schedulable rec day (daily_anchor d)
                    \<and> get_daily_miss db (d_id d) (miss_key rec day) = None)"

definition check_payload :: "dict \<Rightarrow> int \<Rightarrow> int option \<Rightarrow> date \<Rightarrow> bool \<Rightarrow> rat \<Rightarrow> int \<Rightarrow> dict" where
  "check_payload extra did item_id day is_done share streak = dict_merge (clean_extra extra)
     [(''daily_id'', JInt did), (''daily_item_id'', opt_int item_id), (''check_date'', JStr (isoformat day)),
      (''done'', JBool is_done), (''share'', JFloat share), (''streak'', JInt streak)]"

definition score_check ::
  "env \<Rightarrow> int \<Rightarrow> daily_item list \<Rightarrow> int option \<Rightarrow> date \<Rightarrow> game_rates \<Rightarrow> date \<Rightarrow> string \<Rightarrow> datetime
     \<Rightarrow> dict \<Rightarrow> json option \<Rightarrow> bonus option \<Rightarrow> db \<Rightarrow> rng \<Rightarrow> outcome result \<times> db \<times> rng" where
  "score_check env did items item_id day rates today eid client_ts extra flag stat_bonus db g =
     (case daily_row db did of
        None \<Rightarrow> (Inl InvalidRequestError, db, g)
      | Some d \<Rightarrow>
          (case check_guard d items item_id day today flag of
             Inl e \<Rightarrow> (Inl e, db, g)
           | Inr is_done \<Rightarrow>
               let (tr, db1) = transition_marks env did (int (length items)) item_id day is_done db;
                   bump = earns_streak db1 d day (tr_first tr);
                   db2 = (if bump then update_daily did (\<lambda>r. r\<lparr>d_streak := d_streak r + 1\<rparr>) db1 else db1);
                   streak = (if bump then d_streak d + 1 else d_streak d);
                   (res, db3, g') =
                     (case tr_reason tr of
                        Some why \<Rightarrow> (Inr (unscored why, tr_share tr), db2, g)
                      | None \<Rightarrow>
                          if tr_uncheck tr
                          then (Inr ((zero_outcome d)\<lparr>o_uncheck := Some True\<rparr>, tr_share tr), db2, g)
                          else apply_share env did (tr_share tr) day rates today stat_bonus db2 g)
               in (case res of
                     Inl e \<Rightarrow> (Inl e, db3, g')
                   | Inr (oc, share) \<Rightarrow>
                       (Inr oc, add_event \<lparr>ev_user = d_user d, ev_eid = eid, ev_type = ''daily_check'',
                          ev_payload = check_payload extra did item_id day is_done share streak,
                          ev_outcome = oc, ev_ts = client_ts\<rparr> db3, g'))))"

end
