(* ===== verification/Sweep.thy ===== *)
theory Sweep
  imports DailyService
begin

text \<open>
  The daily-miss sweep of \<open>app/game/daily_sweep.py\<close>: when a unit counts as met, the claim and
  scoring of one due unit against the state read under the lock (the snapshot taken before it is
  an argument of its own, so another instance may have moved the database in between), the
  evaluation of one daily, and the tick over all active dailies. A unit is one transaction: on a
  rollback the database comes back as it was.
\<close>

definition SWEEP_BATCH_SIZE :: nat where "SWEEP_BATCH_SIZE = 200"

definition unit_satisfied :: "recurrence \<Rightarrow> date \<Rightarrow> date set \<Rightarrow> date \<Rightarrow> bool" where
  "unit_satisfied rec unit done_days anchor = (case r_schedule rec of
       TimesPerWeek count \<Rightarrow>
         int (card (Set.filter (\<lambda>d. unit - 6 \<le> d \<and> d \<le> unit \<and> effective_anchor rec anchor \<le> d) done_days)) \<ge> count
     | _ \<Rightarrow> unit \<in> done_days)"

text \<open>The days of the whole-daily done marks in a range.\<close>

definition completed_days :: "db \<Rightarrow> int \<Rightarrow> date \<Rightarrow> date \<Rightarrow> date set" where
  "completed_days db did start end' =
     set (map dc_date (filter (\<lambda>c. dc_item c = None \<and> dc_done c) (list_daily_checks db [did] start end')))"

definition freeze_window :: nat where
  "freeze_window = FREEZE_WINDOW_UNITS - 1"

text \<open>The verdict: no miss among the six units before, nor a frozen miss whose window holds this one.\<close>

definition freeze_granted :: "recurrence \<Rightarrow> date \<Rightarrow> date \<Rightarrow> date set \<Rightarrow> daily_miss list \<Rightarrow> bool" where
  "freeze_granted rec anchor unit missed rows =
     (let priors = prior_units rec anchor unit freeze_window;
          seen_missed = missed \<union> set (map dm_day rows)
      in (\<forall>u \<in> set priors. u \<notin> seen_missed) \<and>
         (\<forall>m \<in> set rows. dm_frozen m \<longrightarrow> unit \<notin> set (prior_units rec anchor (dm_day m) freeze_window)))"

definition miss_eid :: "int \<Rightarrow> date \<Rightarrow> string" where
  "miss_eid did unit = ''server:daily:'' @ show_int did @ '':missed:'' @ isoformat unit"

definition notify_miss ::
  "env \<Rightarrow> daily \<Rightarrow> date \<Rightarrow> bool \<Rightarrow> rat option \<Rightarrow> outcome \<Rightarrow> db \<Rightarrow> db" where
  "notify_miss env d unit frozen hp_before oc db =
     (let lost = or_zero (o_hp_lost oc);
          body = quoted (d_title d) @ '' was left unchecked''
            @ (if frozen then '' '' @ em_dash @ '' a streak freeze absorbed it.'' else ''.'')
            @ (if lost \<noteq> 0 then '' HP -'' @ fmt0 lost @ ''.'' else []);
          db1 = dispatch_notification env (d_user d) DAILY_MISSED ''Daily missed'' body (Some ''/dailies'')
            [(''daily_id'', JInt (d_id d)), (''day'', JStr (isoformat unit))] False db
      in case hp_before of
           Some h \<Rightarrow> notify_score_outcome env (d_user d) h oc db1
         | None \<Rightarrow> db1)"

text \<open>What a unit came to: recorded; lost to another instance; or rolled back, with the days found done.\<close>

datatype unit_outcome = Recorded | Claimed_elsewhere | Suppressed "date set"

text \<open>The checks made under the lock: \<open>Inl\<close> is a rollback, \<open>Inr\<close> the row to charge.\<close>

definition unit_guard :: "int \<Rightarrow> date \<Rightarrow> recurrence \<Rightarrow> date \<Rightarrow> db \<Rightarrow> unit_outcome + daily" where
  "unit_guard did unit rec anchor db =
     (if get_daily_miss db did unit \<noteq> None then Inl Claimed_elsewhere
      else case daily_row db did of
        None \<Rightarrow> Inl (Suppressed {})
      | Some d \<Rightarrow>
          if \<not> d_active d then Inl (Suppressed {})
          else (case parse_recurrence (d_recurrence d) of
            None \<Rightarrow> Inl (Suppressed {})
          | Some fresh_rec \<Rightarrow>
              if unit < effective_anchor fresh_rec anchor then Inl (Suppressed {})
              else
                let fresh_from = (case r_schedule rec of TimesPerWeek _ \<Rightarrow> unit - 6 | _ \<Rightarrow> unit);
                    fresh_done = completed_days db did fresh_from unit
                in if unit_satisfied rec unit fresh_done anchor then Inl (Suppressed fresh_done) else Inr d))"

definition claim_row :: "daily \<Rightarrow> date \<Rightarrow> daily_miss" where
  "claim_row d unit = \<lparr>dm_daily = d_id d, dm_user = d_user d, dm_day = unit, dm_frozen = False, dm_hp_lost = 0\<rparr>"

text \<open>The verdict on the rows read under the lock, the claim itself among them.\<close>

definition unit_frozen :: "daily \<Rightarrow> date \<Rightarrow> recurrence \<Rightarrow> date \<Rightarrow> date set \<Rightarrow> db \<Rightarrow> bool" where
  "unit_frozen d unit rec anchor missed db =
     (let priors = prior_units rec anchor unit freeze_window;
          rows = list_daily_misses (db\<lparr>t_daily_misses := t_daily_misses db @ [claim_row d unit]\<rparr>) (d_id d)
                   (if priors = [] then unit else last priors)
      in freeze_granted rec anchor unit missed rows)"

text \<open>The HP loss; without a profile row there is none.\<close>

definition score_miss :: "env \<Rightarrow> daily \<Rightarrow> game_rates \<Rightarrow> date \<Rightarrow> db \<Rightarrow> rng \<Rightarrow> (db \<times> outcome) result \<times> rng" where
  "score_miss env d rates today db g =
     (case t_profiles db (d_user d) of
        None \<Rightarrow> (Inr (db, no_outcome\<lparr>o_scored := Some False\<rparr>), g)
      | Some p \<Rightarrow>
          let u = d_user d; (roll, g1) = rng_random g
          in (case apply_event (e_pf env) (date_of (e_now env)) p ''daily_missed''
                     [(''difficulty'', JStr (d_difficulty d))] rates roll g1 (Some today) (gear_stat_bonus db u) of
                Inl e \<Rightarrow> (Inl e, g1)
              | Inr (p', oc0, g2) \<Rightarrow>
                  let (oc, db1, g3) = resolve_death_gear u oc0 (put_profile u p' db) g2
                  in (Inr (db1, oc), g3)))"

definition miss_event :: "env \<Rightarrow> daily \<Rightarrow> date \<Rightarrow> bool \<Rightarrow> outcome \<Rightarrow> event" where
  "miss_event env d unit frozen oc = \<lparr>ev_user = d_user d, ev_eid = miss_eid (d_id d) unit,
     ev_type = ''daily_missed'',
     ev_payload = [(''daily_id'', JInt (d_id d)), (''scheduled_day'', JStr (isoformat unit)), (''frozen'', JBool frozen)],
     ev_outcome = oc, ev_ts = e_now env\<rparr>"

definition record_miss :: "env \<Rightarrow> daily \<Rightarrow> date \<Rightarrow> bool \<Rightarrow> rat option \<Rightarrow> outcome \<Rightarrow> db \<Rightarrow> db" where
  "record_miss env d unit frozen hp_before oc0 db =
     (let streak_after = (if frozen then d_streak d else 0);
          oc = oc0\<lparr>o_frozen := Some frozen, o_streak_before := Some (d_streak d),
                   o_streak_after := Some streak_after\<rparr>;
          db1 = db\<lparr>t_daily_misses := t_daily_misses db @
            [(claim_row d unit)\<lparr>dm_frozen := frozen, dm_hp_lost := or_zero (o_hp_lost oc0)\<rparr>]\<rparr>;
          db2 = update_daily (d_id d) (\<lambda>r. r\<lparr>d_streak := streak_after\<rparr>) db1
      in notify_miss env d unit frozen hp_before oc (add_event (miss_event env d unit frozen oc) db2))"

definition evaluate_unit ::
  "env \<Rightarrow> int \<Rightarrow> date \<Rightarrow> recurrence \<Rightarrow> date \<Rightarrow> date set \<Rightarrow> game_rates \<Rightarrow> date \<Rightarrow> db \<Rightarrow> rng
     \<Rightarrow> unit_outcome result \<times> db \<times> rng" where
  "evaluate_unit env did unit rec anchor missed rates today db g =
     (case unit_guard did unit rec anchor db of
        Inl out \<Rightarrow> (Inr out, db, g)
      | Inr d \<Rightarrow>
          (case score_miss env d rates today db g of
             (Inl e, g') \<Rightarrow> (Inl e, db, g')
           | (Inr (db1, oc), g') \<Rightarrow>
               let db2 = record_miss env d unit (unit_frozen d unit rec anchor missed db)
                           (map_option hp (t_profiles db (d_user d))) oc db1
               in if ledger_unique db2 then (Inr Recorded, db2, g') else (Inl IntegrityError, db, g')))"

text \<open>The queue of due units. A unit missed or met according to the sets in hand is passed over;
  a rolled-back one re-reads the daily and ends the evaluation when it is gone or inactive.\<close>

fun evaluate_queue ::
  "env \<Rightarrow> int \<Rightarrow> recurrence \<Rightarrow> date \<Rightarrow> game_rates \<Rightarrow> date \<Rightarrow> date list \<Rightarrow> date set \<Rightarrow> date set \<Rightarrow> int
     \<Rightarrow> db \<Rightarrow> rng \<Rightarrow> int result \<times> db \<times> rng" where
  "evaluate_queue env did rec anchor rates today [] missed done_days recorded db g = (Inr recorded, db, g)"
| "evaluate_queue env did rec anchor rates today (u # us) missed done_days recorded db g =
     (if u \<in> missed \<or> unit_satisfied rec u done_days anchor
      then evaluate_queue env did rec anchor rates today us missed done_days recorded db g
      else case evaluate_unit env did u rec anchor missed rates today db g of
             (Inl e, db', g') \<Rightarrow> (Inl e, db', g')
           | (Inr Recorded, db', g') \<Rightarrow>
               evaluate_queue env did rec anchor rates today us (insert u missed) done_days (recorded + 1) db' g'
           | (Inr other, db', g') \<Rightarrow>
               (case daily_row db' did of
                  None \<Rightarrow> (Inr recorded, db', g')
                | Some d \<Rightarrow> if \<not> d_active d then (Inr recorded, db', g')
                    else evaluate_queue env did rec anchor rates today us
                      (case other of Claimed_elsewhere \<Rightarrow> insert u missed | _ \<Rightarrow> missed)
                      (case other of Suppressed days \<Rightarrow> done_days \<union> days | _ \<Rightarrow> done_days) recorded db' g'))"

definition due_units :: "recurrence \<Rightarrow> date \<Rightarrow> date \<Rightarrow> date \<Rightarrow> datetime \<Rightarrow> date list" where
  "due_units rec anchor window_start today now =
     filter (\<lambda>u. eval_due u now GRACE_HOURS) (scheduled_units rec anchor window_start today)"

text \<open>The earliest unit whose misses the freeze rule may consult.\<close>

definition miss_since :: "recurrence \<Rightarrow> date \<Rightarrow> date \<Rightarrow> date list \<Rightarrow> date" where
  "miss_since rec anchor window_start units =
     foldl (\<lambda>acc u. let priors = prior_units rec anchor u freeze_window
                    in if priors = [] then acc else min acc (last priors)) window_start units"

definition evaluate_daily ::
  "env \<Rightarrow> daily \<Rightarrow> game_rates \<Rightarrow> date \<Rightarrow> db \<Rightarrow> rng \<Rightarrow> int result \<times> db \<times> rng" where
  "evaluate_daily env d rates today db g =
     (case parse_recurrence (d_recurrence d) of
        None \<Rightarrow> (Inr 0, db, g)
      | Some rec \<Rightarrow>
          let anchor = daily_anchor d;
              window_start = max anchor (today - LOOKBACK_DAYS);
              units = due_units rec anchor window_start today (e_now env)
          in if units = [] then (Inr 0, db, g)
             else evaluate_queue env (d_id d) rec anchor rates today units
                    (set (map dm_day (list_daily_misses db (d_id d) (miss_since rec anchor window_start units))))
                    (completed_days db (d_id d) window_start today) 0 db g)"

text \<open>One page of ids; an exception of a daily leaves what its units committed.\<close>

fun sweep_page :: "env \<Rightarrow> game_rates \<Rightarrow> date \<Rightarrow> int list \<Rightarrow> int \<Rightarrow> db \<Rightarrow> rng \<Rightarrow> int \<times> db \<times> rng" where
  "sweep_page env rates today [] recorded db g = (recorded, db, g)"
| "sweep_page env rates today (i # ids) recorded db g =
     (case daily_row db i of
        None \<Rightarrow> sweep_page env rates today ids recorded db g
      | Some d \<Rightarrow>
          if \<not> d_active d then sweep_page env rates today ids recorded db g
          else case evaluate_daily env d rates today db g of
                 (Inl e, db', g') \<Rightarrow> sweep_page env rates today ids recorded db' g'
               | (Inr n, db', g') \<Rightarrow> sweep_page env rates today ids (recorded + n) db' g')"

subsection \<open>The tick\<close>

text \<open>The ids and active flags, which page the sweep, survive every evaluation.\<close>

definition daily_keys :: "db \<Rightarrow> (int \<times> bool) list" where
  "daily_keys db = map (\<lambda>d. (d_id d, d_active d)) (t_dailies db)"

lemma put_profile_dailies [simp]: "t_dailies (put_profile u p db) = t_dailies db"
  by (simp add: put_profile_def)

lemma lose_random_gear_dailies: "lose_random_gear u db g = (k, db', g') \<Longrightarrow> t_dailies db' = t_dailies db"
  by (auto simp: lose_random_gear_def Let_def split: if_splits prod.splits)

lemma resolve_death_gear_dailies: "resolve_death_gear u oc db g = (oc', db', g') \<Longrightarrow> t_dailies db' = t_dailies db"
  by (auto simp: resolve_death_gear_def lose_random_gear_dailies split: if_splits prod.splits)

lemma notify_miss_same_game [frame]: "same_game db (notify_miss env d unit frozen h oc db)"
  by (auto simp: notify_miss_def Let_def split: option.splits intro: same_game_trans frame)

lemma daily_keys_streak: "daily_keys (update_daily i (\<lambda>r. r\<lparr>d_streak := f r\<rparr>) db) = daily_keys db"
  by (simp add: daily_keys_def update_daily_def map_update_where)

lemma score_miss_dailies: "score_miss env d rates today db g = (Inr (db', oc), g') \<Longrightarrow> t_dailies db' = t_dailies db"
  by (auto simp: score_miss_def Let_def dest: resolve_death_gear_dailies
      split: option.splits prod.splits sum.splits)

lemma record_miss_keys: "daily_keys (record_miss env d unit frozen h oc db) = daily_keys db"
proof -
  have notified: "daily_keys (notify_miss env d unit frozen h oc' db') = daily_keys db'" for oc' db'
    using same_game_fields(5) [OF notify_miss_same_game] by (simp add: daily_keys_def)
  show ?thesis
    by (simp add: record_miss_def Let_def notified)
      (simp add: daily_keys_def add_event_def update_daily_def map_update_where)
qed

lemma evaluate_unit_keys:
  "evaluate_unit env did unit rec anchor missed rates today db g = (res, db', g') \<Longrightarrow> daily_keys db' = daily_keys db"
  by (auto simp: evaluate_unit_def Let_def record_miss_keys split: sum.splits prod.splits if_splits)
    (auto simp: daily_keys_def dest: score_miss_dailies)

lemma evaluate_queue_keys:
  "evaluate_queue env did rec anchor rates today us missed done_days n db g = (res, db', g') \<Longrightarrow>
     daily_keys db' = daily_keys db"
proof (induction us arbitrary: missed done_days n db g)
  case Nil
  then show ?case by simp
next
  case (Cons u us)
  show ?case
  proof (cases "u \<in> missed \<or> unit_satisfied rec u done_days anchor")
    case True
    then show ?thesis using Cons by simp
  next
    case False
    obtain r db1 g1 where e: "evaluate_unit env did u rec anchor missed rates today db g = (r, db1, g1)"
      by (cases "evaluate_unit env did u rec anchor missed rates today db g") auto
    have "daily_keys db1 = daily_keys db" using evaluate_unit_keys [OF e] .
    then show ?thesis using False Cons.prems Cons.IH
      by (cases r) (auto simp: e split: unit_outcome.splits option.splits if_splits)
  qed
qed

lemma evaluate_daily_keys:
  "evaluate_daily env d rates today db g = (res, db', g') \<Longrightarrow> daily_keys db' = daily_keys db"
  by (auto simp: evaluate_daily_def Let_def dest: evaluate_queue_keys split: option.splits if_splits)

lemma sweep_page_keys: "sweep_page env rates today ids n db g = (n', db', g') \<Longrightarrow> daily_keys db' = daily_keys db"
proof (induction ids arbitrary: n db g)
  case Nil
  then show ?case by simp
next
  case (Cons i ids)
  show ?case
  proof (cases "daily_row db i")
    case (Some d)
    show ?thesis
    proof (cases "d_active d")
      case True
      obtain r db1 g1 where e: "evaluate_daily env d rates today db g = (r, db1, g1)"
        by (cases "evaluate_daily env d rates today db g") auto
      have "daily_keys db1 = daily_keys db" using evaluate_daily_keys [OF e] .
      then show ?thesis using True Some Cons by (cases r) (auto simp: e)
    qed (use Some Cons in auto)
  qed (use Cons in auto)
qed

definition ids_after :: "db \<Rightarrow> int \<Rightarrow> int list" where
  "ids_after db k = map fst (filter (\<lambda>(i, active). active \<and> k < i) (daily_keys db))"

lemma list_active_ids_after: "list_active_daily_ids db k n = take n (sort (ids_after db k))"
  by (simp add: list_active_daily_ids_def ids_after_def daily_keys_def filter_map comp_def)

text \<open>The paging loop; every page moves past at least one id.\<close>

function sweep_pages :: "env \<Rightarrow> game_rates \<Rightarrow> date \<Rightarrow> int \<Rightarrow> int \<Rightarrow> db \<Rightarrow> rng \<Rightarrow> int \<times> db \<times> rng" where
  "sweep_pages env rates today last_id recorded db g =
     (let batch_ids = list_active_daily_ids db last_id SWEEP_BATCH_SIZE in
      if batch_ids = [] then (recorded, db, g)
      else case sweep_page env rates today batch_ids recorded db g of
             (recorded', db', g') \<Rightarrow> sweep_pages env rates today (last batch_ids) recorded' db' g')"
  by pat_completeness auto
termination
proof (relation "measure (\<lambda>(env, rates, today, last_id, recorded, db, g). length (ids_after db last_id))", goal_cases)
  case (2 env rates today last_id recorded db g ids n rest db' g')
  have ids: "ids = take SWEEP_BATCH_SIZE (sort (ids_after db last_id))"
    using 2 by (simp add: list_active_ids_after)
  have "last ids \<in> set (ids_after db last_id)"
    using 2(2) unfolding ids by (metis in_set_takeD last_in_set set_sort)
  then have last: "last_id < last ids" "last ids \<in> set (ids_after db last_id)" by (auto simp: ids_after_def)
  have keys: "daily_keys db' = daily_keys db" using 2 sweep_page_keys by metis
  have "length (ids_after db' (last ids)) = length (filter (\<lambda>i. last ids < i) (ids_after db last_id))"
    using last(1) unfolding ids_after_def keys length_map
    by (simp add: filter_map comp_def) (metis (mono_tags, lifting) dual_order.strict_trans split_def)
  also have "\<dots> < length (ids_after db last_id)"
    using last(2) by (intro length_filter_less [of "last ids"]) auto
  finally show ?case by simp
qed simp

declare sweep_pages.simps [simp del]

text \<open>\<open>run_daily_miss_sweep\<close>; an economy row that raises stops the tick before the first page.\<close>

definition run_daily_miss_sweep :: "env \<Rightarrow> db \<Rightarrow> rng \<Rightarrow> (int \<times> db \<times> rng) result" where
  "run_daily_miss_sweep env db g =
     bind_r (load_rates db) (\<lambda>rates. Inr (sweep_pages env rates (date_of (e_now env)) 0 0 db g))"

end
