(* ===== verification/Reminders.thy ===== *)
theory Reminders
  imports Sweep
begin

text \<open>
  The reminder tick of \<open>app/game/notifications.py\<close>: which scheduled times a tick answers for, the
  habit and daily reminders with their deduplication, the gates that silence a daily already done
  or met, and the once-a-day streak-risk warning. The process-local maps that bound users without
  feed rows are the \<open>fired\<close> record.
\<close>

definition REMINDER_LOOKBACK_MINUTES :: nat where "REMINDER_LOOKBACK_MINUTES = 3"
definition STREAK_RISK_TIME :: string where "STREAK_RISK_TIME = ''20:00''"

record fired =
  f_reminder :: "int \<times> notification_type \<times> int \<times> string \<rightharpoonup> date"
  f_risk :: "int \<rightharpoonup> date"

definition hhmm :: "datetime \<Rightarrow> string" where
  "hhmm t = two_digits (minute_of_day t div 60) @ '':'' @ two_digits (minute_of_day t mod 60)"

definition recent_minutes :: "datetime \<Rightarrow> string list" where
  "recent_minutes local = map hhmm (filter (\<lambda>back. date_of back = date_of local)
     (map (\<lambda>m. local - int m * 60 * us_per_second) [0 ..< Suc REMINDER_LOOKBACK_MINUTES]))"

definition dedup :: "'a list \<Rightarrow> 'a list" where
  "dedup xs = rev (remdups (rev xs))"

definition already_notified :: "db \<Rightarrow> int \<Rightarrow> notification_type \<Rightarrow> dict \<Rightarrow> bool" where
  "already_notified db u kind meta \<longleftrightarrow> (\<exists>n \<in> set (t_notifications db). n_user n = u \<and> n_type n = kind
     \<and> (\<forall>(k, v) \<in> set meta. dict_get (n_meta n) k = Some v))"

definition reminder_meta :: "string \<Rightarrow> int \<Rightarrow> date \<Rightarrow> string \<Rightarrow> dict" where
  "reminder_meta entity_key entity_id day time =
     [(entity_key, JInt entity_id), (''day'', JStr (isoformat day)), (''time'', JStr time)]"

definition reminder ::
  "env \<Rightarrow> int \<Rightarrow> notification_type \<Rightarrow> string \<Rightarrow> int \<Rightarrow> string \<Rightarrow> string \<Rightarrow> date \<Rightarrow> fired \<times> db \<Rightarrow> bool \<times> fired \<times> db" where
  "reminder env u kind entity_key entity_id title time day = (\<lambda>(st, db).
     let key = (u, kind, entity_id, time); meta = reminder_meta entity_key entity_id day time in
     if f_reminder st key = Some day \<or> already_notified db u kind meta then (False, st, db)
     else (True, st\<lparr>f_reminder := (f_reminder st)(key \<mapsto> day)\<rparr>,
           dispatch_notification env u kind
             ((if kind = HABIT_REMINDER then ''Habit'' else ''Daily'') @ '' reminder'') title
             (Some (if kind = HABIT_REMINDER then ''/habits'' else ''/dailies'')) meta False db))"

text \<open>One reminder per matched time, counted.\<close>

fun remind_times ::
  "env \<Rightarrow> int \<Rightarrow> notification_type \<Rightarrow> string \<Rightarrow> int \<Rightarrow> string \<Rightarrow> date \<Rightarrow> string list \<Rightarrow> int \<times> fired \<times> db
     \<Rightarrow> int \<times> fired \<times> db" where
  "remind_times env u kind key i title day [] acc = acc"
| "remind_times env u kind key i title day (t # ts) (n, st, db) =
     (case reminder env u kind key i title t day (st, db) of
        (sent, st', db') \<Rightarrow> remind_times env u kind key i title day ts (if sent then n + 1 else n, st', db'))"

definition habit_reminders ::
  "env \<Rightarrow> int \<Rightarrow> habit list \<Rightarrow> string list \<Rightarrow> date \<Rightarrow> int \<times> fired \<times> db \<Rightarrow> int \<times> fired \<times> db" where
  "habit_reminders env u habits recent day acc =
     fold (\<lambda>h. remind_times env u HABIT_REMINDER ''habit_id'' (h_id h)
            (''Time to work on '' @ quoted (h_title h) @ ''.'') day
            (filter (\<lambda>t. t \<in> set recent) (dedup (h_reminder_times h)))) habits acc"

definition daily_reminders ::
  "env \<Rightarrow> int \<Rightarrow> (daily \<times> string list) list \<Rightarrow> int set \<Rightarrow> int set \<Rightarrow> date \<Rightarrow> int \<times> fired \<times> db \<Rightarrow> int \<times> fired \<times> db" where
  "daily_reminders env u reminding done_today satisfied day acc =
     fold (\<lambda>(d, times) acc. if d_id d \<in> done_today \<or> d_id d \<in> satisfied then acc
            else remind_times env u DAILY_REMINDER ''daily_id'' (d_id d)
                   (quoted (d_title d) @ '' is scheduled today.'') day times acc) reminding acc"

definition streak_risk ::
  "env \<Rightarrow> int \<Rightarrow> daily list \<Rightarrow> daily list \<Rightarrow> date \<Rightarrow> fired \<times> db \<Rightarrow> bool \<times> fired \<times> db" where
  "streak_risk env u due_today user_dailies day = (\<lambda>(st, db).
     if f_risk st u = Some day then (False, st, db)
     else
       let checks = list_daily_checks db (map d_id user_dailies) day day;
           done_ids = set (map dc_daily (filter (\<lambda>c. dc_item c = None \<and> dc_done c) checks));
           unchecked = filter (\<lambda>d. d_id d \<notin> done_ids) due_today;
           meta = [(''day'', JStr (isoformat day))];
           names = concat (map (\<lambda>(i, d). (if i = (0::nat) then [] else '', '') @ d_title d)
                     (enumerate 0 (take 5 unchecked)))
       in if unchecked = [] \<or> already_notified db u STREAK_RISK meta then (False, st, db)
          else (True, st\<lparr>f_risk := (f_risk st)(u \<mapsto> day)\<rparr>,
                dispatch_notification env u STREAK_RISK ''Dailies still unchecked''
                  (show_int (int (length unchecked)) @ '' due today '' @ em_dash @ '' check before day end: ''
                     @ names @ ''.'') (Some ''/dailies'') meta False db))"

text \<open>The dailies due on a day, with their rules.\<close>

definition is_tpw :: "recurrence \<Rightarrow> bool" where
  "is_tpw rec = (case r_schedule rec of TimesPerWeek _ \<Rightarrow> True | _ \<Rightarrow> False)"

definition due_on :: "daily list \<Rightarrow> date \<Rightarrow> (daily \<times> recurrence) list" where
  "due_on dailies day = List.map_filter (\<lambda>d. if \<not> d_active d then None
     else case parse_recurrence (d_recurrence d) of
       None \<Rightarrow> None
     | Some rec \<Rightarrow> if is_schedulable rec day (daily_anchor d) then Some (d, rec) else None) dailies"

definition completion_gates :: "db \<Rightarrow> (daily \<times> recurrence) list \<Rightarrow> date \<Rightarrow> bool \<Rightarrow> int set \<times> int set" where
  "completion_gates db due day has_tpw =
     (let week_unit = week_end day;
          marks = filter (\<lambda>c. dc_item c = None \<and> dc_done c)
            (list_daily_checks db (map (d_id \<circ> fst) due) (if has_tpw then week_unit - 6 else day)
               (if has_tpw then week_unit else day));
          done_days = (\<lambda>i. set (map dc_date (filter (\<lambda>c. dc_daily c = i) marks)))
      in (set (map dc_daily (filter (\<lambda>c. dc_date c = day) marks)),
          set (map (d_id \<circ> fst) (filter (\<lambda>(d, rec). is_tpw rec
             \<and> unit_satisfied rec week_unit (done_days (d_id d)) (daily_anchor d)) due))))"

definition risk_due :: "(daily \<times> recurrence) list \<Rightarrow> int set \<Rightarrow> date \<Rightarrow> daily list" where
  "risk_due due satisfied week_unit = map fst (filter (\<lambda>(d, rec). d_id d \<notin> satisfied \<and>
     \<not> (case r_schedule rec of
          TimesPerWeek count \<Rightarrow> week_unit < first_week_unit count (effective_anchor rec (daily_anchor d))
        | _ \<Rightarrow> False)) due)"

definition tick_user ::
  "env \<Rightarrow> int \<Rightarrow> (datetime \<Rightarrow> int) \<Rightarrow> habit list \<Rightarrow> daily list \<Rightarrow> fired \<times> db \<Rightarrow> int \<times> fired \<times> db" where
  "tick_user env u offset habits user_dailies = (\<lambda>(st, db).
     let local = e_now env + offset (e_now env); recent = recent_minutes local; day = date_of local;
         (sent1, st1, db1) = habit_reminders env u habits recent day (0, st, db);
         due = due_on user_dailies day;
         reminding = filter (\<lambda>(_, times). times \<noteq> [])
           (map (\<lambda>(d, _). (d, filter (\<lambda>t. t \<in> set recent) (dedup (d_reminder_times d)))) due);
         has_tpw = (\<exists>(_, rec) \<in> set due. is_tpw rec);
         risk_match = (STREAK_RISK_TIME \<in> set recent);
         (done_today, satisfied) = (if reminding \<noteq> [] \<or> (has_tpw \<and> risk_match)
           then completion_gates db1 due day has_tpw else ({}, {}));
         (sent2, st2, db2) = daily_reminders env u reminding done_today satisfied day (sent1, st1, db1);
         risky = risk_due due satisfied (week_end day)
     in if risk_match \<and> risky \<noteq> [] then
          (case streak_risk env u risky user_dailies day (st2, db2) of
             (warned, st3, db3) \<Rightarrow> (if warned then sent2 + 1 else sent2, st3, db3))
        else (sent2, st2, db2))"

text \<open>The users with reminders or active dailies; the code's set is visited in ascending order here.\<close>

definition reminder_users :: "db \<Rightarrow> int list" where
  "reminder_users db = sort (remdups (map h_user (filter (\<lambda>h. h_reminder_times h \<noteq> []) (t_habits db))
     @ map d_user (filter d_active (t_dailies db))))"

definition run_reminder_tick :: "env \<Rightarrow> fired \<Rightarrow> db \<Rightarrow> int \<times> fired \<times> db" where
  "run_reminder_tick env st db = fold (\<lambda>u (n, st, db').
       let offset = (case get_notification_pref db u of Some p \<Rightarrow> pref_tz env (np_quiet_hours p) | None \<Rightarrow> (\<lambda>_. 0));
           habits = filter (\<lambda>h. h_user h = u \<and> h_reminder_times h \<noteq> []) (t_habits db');
           dailies = filter (\<lambda>d. d_user d = u \<and> d_active d) (t_dailies db');
           (k, st', db'') = tick_user env u offset habits dailies (st, db')
       in (n + k, st', db'')) (reminder_users db) (0, st, db)"

end
