(* ===== verification/Ingest.thy ===== *)
theory Ingest
  imports DailyService
begin

text \<open>
  Event ingestion, \<open>app/game/service.py\<close>: a batch of client events is deduplicated on the client
  event id, applied in client-timestamp order (submission order on ties), scored or recorded
  unscored, and reported event by event. What the loop carries along is the \<open>batch\<close> record. An
  exception other than a \<open>ValueError\<close> of scoring aborts the request, whose transaction the router
  rolls back, so the result carries no database then.
\<close>

record event_in =
  ei_eid :: string
  ei_type :: string
  ei_payload :: dict
  ei_ts :: datetime

datatype status = Applied | Duplicate

record batch =
  b_db :: db
  b_rng :: rng
  b_bonus :: bonus
  b_seen :: "string set"
  b_budget :: int
  b_status :: "nat \<rightharpoonup> status"

definition int_key :: "dict \<Rightarrow> string \<Rightarrow> int option" where
  "int_key payload k = (case dict_get payload k of Some (JInt n) \<Rightarrow> Some n | _ \<Rightarrow> None)"

definition habit_for_event :: "event_in \<Rightarrow> habit list \<Rightarrow> habit option" where
  "habit_for_event e hs = (case int_key (ei_payload e) ''habit_id'' of
       Some n \<Rightarrow> find (\<lambda>h. h_id h = n) hs | None \<Rightarrow> None)"

definition daily_for_event :: "event_in \<Rightarrow> daily list \<Rightarrow> daily option" where
  "daily_for_event e ds = (case int_key (ei_payload e) ''daily_id'' of
       Some n \<Rightarrow> find (\<lambda>d. d_id d = n) ds | None \<Rightarrow> None)"

text \<open>The applied-but-unscored row.\<close>

definition record_unscored :: "int \<Rightarrow> event_in \<Rightarrow> string \<Rightarrow> db \<Rightarrow> db" where
  "record_unscored u e why = add_event \<lparr>ev_user = u, ev_eid = ei_eid e, ev_type = ei_type e,
     ev_payload = clean_extra (ei_payload e), ev_outcome = unscored why, ev_ts = ei_ts e\<rparr>"

type_synonym scored_step = "(outcome option \<times> db) result \<times> rng"

text \<open>A \<open>ValueError\<close> becomes the reason of an unscored row on the database before the attempt;
  any other exception stays one.\<close>

definition or_unscored :: "int \<Rightarrow> event_in \<Rightarrow> db \<Rightarrow> outcome result \<times> db \<times> rng \<Rightarrow> scored_step" where
  "or_unscored u e db = (\<lambda>(res, db', g').
     case res of
       Inr oc \<Rightarrow> (Inr (Some oc, db'), g')
     | Inl (ValueError why) \<Rightarrow> (Inr (None, record_unscored u e why db), g')
     | Inl err \<Rightarrow> (Inl err, g'))"

definition ingest_habit_click ::
  "env \<Rightarrow> int \<Rightarrow> event_in \<Rightarrow> habit list \<Rightarrow> game_rates \<Rightarrow> date \<Rightarrow> bonus \<Rightarrow> db \<Rightarrow> rng \<Rightarrow> scored_step" where
  "ingest_habit_click env u e habits rates today bs db g =
     (case habit_for_event e habits of
        None \<Rightarrow> (Inr (None, record_unscored u e ''habit_unresolvable'' db), g)
      | Some h \<Rightarrow>
          (case dict_get (ei_payload e) ''direction'' of
             Some (JStr dir) \<Rightarrow>
               if (dir = ''positive'' \<or> dir = ''negative'') \<and> direction_allows h dir
               then or_unscored u e db (score_click env (h_id h) dir rates today (ei_eid e) (ei_ts e)
                      (ei_payload e) [] (Some bs) db g)
               else (Inr (None, record_unscored u e ''direction_mismatch'' db), g)
           | _ \<Rightarrow> (Inr (None, record_unscored u e ''direction_mismatch'' db), g)))"

definition ingest_daily_check ::
  "env \<Rightarrow> int \<Rightarrow> event_in \<Rightarrow> daily list \<Rightarrow> game_rates \<Rightarrow> date \<Rightarrow> bonus \<Rightarrow> db \<Rightarrow> rng \<Rightarrow> scored_step" where
  "ingest_daily_check env u e dailies rates today bs db g =
     (case daily_for_event e dailies of
        None \<Rightarrow> (Inr (None, record_unscored u e ''daily_unresolvable'' db), g)
      | Some d \<Rightarrow>
          let item = dict_get_or (ei_payload e) ''daily_item_id'' JNull;
              score = (\<lambda>item_id. or_unscored u e db (score_check env (d_id d) (list_daily_items db (d_id d)) item_id
                (date_of (ei_ts e)) rates today (ei_eid e) (ei_ts e) (ei_payload e)
                (dict_get (ei_payload e) ''done'') (Some bs) db g))
          in (case item of
                JNull \<Rightarrow> score None
              | JInt n \<Rightarrow> score (Some n)
              | _ \<Rightarrow> (Inr (None, record_unscored u e ''item_unresolvable'' db), g)))"

definition refresh_bonus :: "int \<Rightarrow> outcome option \<Rightarrow> db \<Rightarrow> bonus \<Rightarrow> bonus" where
  "refresh_bonus u oc db bs = (case oc of
       Some out \<Rightarrow> if o_gear_lost out = Some True then gear_stat_bonus db u else bs
     | None \<Rightarrow> bs)"

definition apply_generic ::
  "env \<Rightarrow> int \<Rightarrow> event_in \<Rightarrow> game_rates \<Rightarrow> date \<Rightarrow> bonus \<Rightarrow> db \<Rightarrow> rng \<Rightarrow> (outcome \<times> db) result \<times> rng" where
  "apply_generic env u e rates today bs db g =
     (let p = profile_of db u; (roll, g1) = rng_random g in
      case apply_event (e_pf env) (date_of (e_now env)) p (ei_type e) (ei_payload e) rates roll g1 (Some today) bs of
        Inl (ValueError why) \<Rightarrow> (Inr (unscored why, db), g1)
      | Inl err \<Rightarrow> (Inl err, g1)
      | Inr (p', oc0, g2) \<Rightarrow>
          let (oc, db1, g3) = resolve_death_gear u oc0 (put_profile u p' db) g2;
              db2 = notify_score_outcome env u (hp p) oc db1;
              db3 = (if ei_type e = ''focus_phase_completed'' \<and> scored oc
                     then notify_phase_end env u (ei_ts e) (dict_get_or (ei_payload e) ''minutes'' JNull) db2
                     else db2)
          in (Inr (oc, db3), g3))"

definition mark_applied :: "int \<Rightarrow> nat \<Rightarrow> event_in \<Rightarrow> batch \<Rightarrow> batch" where
  "mark_applied u idx e b = b\<lparr>b_db := auto_distribute u (b_db b), b_seen := insert (ei_eid e) (b_seen b),
     b_status := (b_status b)(idx \<mapsto> Applied)\<rparr>"

text \<open>The fanout of a scored focus phase over the bound habits, from what is left of the budget.\<close>

definition ingest_fanout ::
  "env \<Rightarrow> int \<Rightarrow> event_in \<Rightarrow> habit list \<Rightarrow> game_rates \<Rightarrow> date \<Rightarrow> outcome \<Rightarrow> batch \<Rightarrow> batch result" where
  "ingest_fanout env u e habits rates today oc b =
     (let bound = filter h_bind_focus habits in
      if ei_type e = ''focus_phase_completed'' \<and> scored oc \<and> bound \<noteq> [] then
        (case auto_click_bound env u rates today (ei_eid e) (ei_ts e) (Some bound) [] (Some (b_budget b))
                (Some (b_bonus b)) (b_db b) (b_rng b) of
           (Inl err, _, _) \<Rightarrow> Inl err
         | (Inr spent, db', g') \<Rightarrow> Inr (b\<lparr>b_db := db', b_rng := g', b_budget := b_budget b - spent\<rparr>))
      else Inr b)"

text \<open>One turn of the loop over the ordered events.\<close>

definition ingest_one ::
  "env \<Rightarrow> int \<Rightarrow> habit list \<Rightarrow> daily list \<Rightarrow> game_rates \<Rightarrow> date \<Rightarrow> nat \<times> event_in \<Rightarrow> batch \<Rightarrow> batch result" where
  "ingest_one env u habits dailies rates today = (\<lambda>(idx, e) b.
     if ei_eid e \<in> b_seen b then Inr (b\<lparr>b_status := (b_status b)(idx \<mapsto> Duplicate)\<rparr>)
     else if ei_type e = ''habit_click'' \<or> ei_type e = ''daily_check'' then
       (case (if ei_type e = ''habit_click''
              then ingest_habit_click env u e habits rates today (b_bonus b) (b_db b) (b_rng b)
              else ingest_daily_check env u e dailies rates today (b_bonus b) (b_db b) (b_rng b)) of
          (Inl err, _) \<Rightarrow> Inl err
        | (Inr (oc, db'), g') \<Rightarrow>
            Inr (mark_applied u idx e (b\<lparr>b_db := db', b_rng := g', b_bonus := refresh_bonus u oc db' (b_bonus b)\<rparr>)))
     else
       (case apply_generic env u e rates today (b_bonus b) (b_db b) (b_rng b) of
          (Inl err, _) \<Rightarrow> Inl err
        | (Inr (oc, db'), g') \<Rightarrow>
            let db2 = add_event \<lparr>ev_user = u, ev_eid = ei_eid e, ev_type = ei_type e,
                  ev_payload = clean_extra (ei_payload e), ev_outcome = oc, ev_ts = ei_ts e\<rparr> db'
            in bind_r (ingest_fanout env u e habits rates today oc
                 (b\<lparr>b_db := db2, b_rng := g', b_bonus := refresh_bonus u (Some oc) db' (b_bonus b)\<rparr>))
                 (\<lambda>b'. Inr (mark_applied u idx e b'))))"

fun ingest_loop ::
  "env \<Rightarrow> int \<Rightarrow> habit list \<Rightarrow> daily list \<Rightarrow> game_rates \<Rightarrow> date \<Rightarrow> (nat \<times> event_in) list \<Rightarrow> batch \<Rightarrow> batch result" where
  "ingest_loop env u habits dailies rates today [] b = Inr b"
| "ingest_loop env u habits dailies rates today (x # xs) b =
     bind_r (ingest_one env u habits dailies rates today x b) (ingest_loop env u habits dailies rates today xs)"

definition order_events :: "event_in list \<Rightarrow> (nat \<times> event_in) list" where
  "order_events events = sort_key (\<lambda>(i, e). ei_ts e) (enumerate 0 events)"

definition applied_types :: "event_in list \<Rightarrow> (nat \<rightharpoonup> status) \<Rightarrow> string set" where
  "applied_types events st =
     set (map (\<lambda>(i, e). ei_type e) (filter (\<lambda>(i, e). st i = Some Applied) (enumerate 0 events)))"

definition batch_results :: "event_in list \<Rightarrow> (nat \<rightharpoonup> status) \<Rightarrow> (string \<times> status option) list" where
  "batch_results events st = map (\<lambda>(i, e). (ei_eid e, st i)) (enumerate 0 events)"

definition ingest_events ::
  "env \<Rightarrow> int \<Rightarrow> event_in list \<Rightarrow> db \<Rightarrow> rng \<Rightarrow> ((string \<times> status option) list \<times> db \<times> rng) result" where
  "ingest_events env u events db g =
     (let (p, db0) = get_or_create_profile db u in
      bind_r (load_rates db0) (\<lambda>rates.
      let today = date_of (e_now env);
          seen = existing_event_ids db0 u (map ei_eid events);
          habits = (if \<exists>e \<in> set events. ei_type e = ''habit_click'' \<or> ei_type e = ''focus_phase_completed''
                    then list_habits db0 u else []);
          dailies = (if \<exists>e \<in> set events. ei_type e = ''daily_check'' then list_dailies db0 u else []);
          start = \<lparr>b_db = db0, b_rng = g, b_bonus = gear_stat_bonus db0 u, b_seen = seen,
                   b_budget = MAX_AUTO_CLICKS_PER_EVAL, b_status = Map.empty\<rparr>
      in bind_r (ingest_loop env u habits dailies rates today (order_events events) start) (\<lambda>b.
        let db1 = (if \<exists>i < length events. b_status b i = Some Applied
                   then post_score env u (Some (applied_types events (b_status b))) (b_db b) else b_db b)
        in if ledger_unique db1 then Inr (batch_results events (b_status b), db1, b_rng b)
           else Inl IntegrityError)))"

end
