(* ===== verification/SessionService.thy ===== *)
theory SessionService
  imports Ingest
begin

text \<open>
  Focus-session orchestration, \<open>app/game/session_service.py\<close>: the ledger row of a transition
  step, its deterministic id, the scoring of a step, the replay that every call makes first, and
  the calls themselves. A request is one transaction: an exception carries no database.
\<close>

subsection \<open>Ledger rows of steps\<close>

definition event_id :: "env \<Rightarrow> int \<Rightarrow> string \<Rightarrow> int option \<Rightarrow> datetime \<Rightarrow> json \<Rightarrow> string" where
  "event_id env sid kind seq ts i =
     ''server:s'' @ show_int sid @ '':'' @ kind @ '':'' @ show_int (or_zero seq) @ '':''
       @ show_int (whole_seconds ts) @ '':'' @ py_str (e_pf env) i"

definition step_id :: "env \<Rightarrow> session \<Rightarrow> nat \<Rightarrow> step \<Rightarrow> string" where
  "step_id env s i st = event_id env (s_id s) (st_kind st) (st_seq st) (st_at st)
     (dict_get_or (st_extra st) ''n'' (JInt (int i)))"

definition preset_difficulty :: "session \<Rightarrow> json" where
  "preset_difficulty s = dict_get_or (case preset s of Some d \<Rightarrow> d | None \<Rightarrow> []) ''difficulty'' (JStr ''easy'')"

definition has_milestone :: "step \<Rightarrow> bool" where
  "has_milestone st \<longleftrightarrow> truthy (dict_get_or (st_extra st) ''milestone_index'' JNull)"

definition whole_minutes :: "int \<Rightarrow> int" where
  "whole_minutes secs = max 1 (secs div 60)"

text \<open>\<open>step.extra.get("elapsed_seconds") or 0\<close>; the engine stores an \<open>int\<close>.\<close>

definition elapsed_of :: "step \<Rightarrow> int" where
  "elapsed_of st = (case dict_get (st_extra st) ''elapsed_seconds'' of Some (JInt n) \<Rightarrow> n | _ \<Rightarrow> 0)"

definition speedrun_event_for :: "step \<Rightarrow> dict \<Rightarrow> json \<Rightarrow> string \<times> dict" where
  "speedrun_event_for st payload diff =
     (let kind = st_kind st; seq = (''phase_seq'', opt_int (st_seq st)) in
      if kind = ''record_set'' then (kind, dict_merge (dict_merge payload [seq]) (st_extra st))
      else
        let event = dict_merge payload [(''difficulty'', diff), seq];
            event1 = (if kind = ''speedrun_completed''
                      then dict_set event ''minutes'' (JInt (whole_minutes (elapsed_of st))) else event);
            event2 = (if kind = ''speedrun_failed''
                      then dict_set event1 ''reason'' (opt_str (st_reason st)) else event1)
        in (kind, dict_merge event2 (st_extra st)))"

definition event_for :: "step \<Rightarrow> session \<Rightarrow> string option \<times> dict" where
  "event_for st s =
     (let diff = preset_difficulty s; payload = [(''session_id'', JInt (s_id s))];
          kind = st_kind st; seq = opt_int (st_seq st)
      in if kind = ''phase_completed'' \<and> st_scored st then
           (if has_milestone st
            then (Some ''stopwatch_milestone'', dict_merge payload [(''milestones'', JInt 1),
                    (''milestone_index'', dict_get_or (st_extra st) ''milestone_index'' JNull), (''phase_seq'', seq)])
            else (Some ''focus_phase_completed'', dict_merge payload
                    [(''minutes'', JInt (whole_minutes (or_zero (st_actual st)))), (''difficulty'', diff),
                     (''phase_seq'', seq)]))
         else if kind = ''phase_completed'' then (Some kind, dict_merge payload [(''phase_seq'', seq)])
         else if kind = ''session_started'' then
           (Some kind, dict_merge (dict_merge payload (st_extra st))
              [(''task_id'', opt_int (s_task_id s)), (''difficulty'', diff)])
         else if kind = ''session_abandoned'' then
           (Some kind, dict_merge payload [(''reason'', opt_str (st_reason st)), (''difficulty'', diff), (''phase_seq'', seq)])
         else if kind \<in> {''speedrun_completed'', ''speedrun_failed'', ''record_set''} then
           (let (k, d) = speedrun_event_for st payload diff in (Some k, d))
         else if kind \<in> {''phase_started'', ''phase_paused'', ''phase_resumed'', ''phase_skipped'', ''phase_abandoned''}
         then (Some kind, dict_merge payload [(''phase_seq'', seq)])
         else if kind = ''session_ended'' then (Some kind, payload)
         else (None, payload))"

subsection \<open>Persisting a step\<close>

definition SCORED_TYPES :: "string list" where
  "SCORED_TYPES = [''focus_phase_completed'', ''stopwatch_milestone'', ''session_abandoned'',
     ''speedrun_completed'', ''speedrun_failed'', ''record_set'']"

text \<open>The UTC day a step is charged to: its own, but never before the profile's.\<close>

definition charge_day :: "profile \<Rightarrow> datetime \<Rightarrow> date" where
  "charge_day p ts = (case totals_day p of Some d \<Rightarrow> max (date_of ts) d | None \<Rightarrow> date_of ts)"

text \<open>What the replay of a call threads through its steps.\<close>

record replay =
  rp_db :: db
  rp_rng :: rng
  rp_seen :: "string set"
  rp_budget :: int
  rp_bonus :: "bonus option"

definition score_step ::
  "env \<Rightarrow> int \<Rightarrow> step \<Rightarrow> string \<Rightarrow> dict \<Rightarrow> game_rates \<Rightarrow> replay \<Rightarrow> (outcome \<times> date \<times> replay) result" where
  "score_step env u st event_type payload rates rp =
     (let db = rp_db rp; p = profile_of db u; day = charge_day p (st_at st);
          (roll, g1) = rng_random (rp_rng rp);
          bs = (case rp_bonus rp of Some b \<Rightarrow> b | None \<Rightarrow> Map.empty)
      in case apply_event (e_pf env) (date_of (e_now env)) p event_type payload rates roll g1 (Some day) bs of
           Inl e \<Rightarrow> Inl e
         | Inr (p', oc0, g2) \<Rightarrow>
             let (oc, db1, g3) = resolve_death_gear u oc0 (put_profile u p' db) g2;
                 db2 = notify_score_outcome env u (hp p) oc db1;
                 db3 = (if event_type = ''focus_phase_completed'' \<and> scored oc
                        then notify_phase_end env u (st_at st) (dict_get_or payload ''minutes'' JNull) db2 else db2);
                 db4 = (if event_type = ''record_set'' \<and> scored oc then notify_record_set env u payload db3 else db3)
             in Inr (oc, day, rp\<lparr>rp_db := db4, rp_rng := g3\<rparr>))"

definition persist_step ::
  "env \<Rightarrow> session \<Rightarrow> int \<Rightarrow> step \<Rightarrow> nat \<Rightarrow> bool \<Rightarrow> game_rates \<Rightarrow> habit list option \<Rightarrow> replay
     \<Rightarrow> (outcome option \<times> replay) result" where
  "persist_step env s u st i with_profile rates habits rp =
     (case event_for st s of
        (None, _) \<Rightarrow> Inr (None, rp)
      | (Some event_type, payload) \<Rightarrow>
          let eid = step_id env s i st in
          if eid \<in> rp_seen rp then Inr (None, rp)
          else
            let rp0 = rp\<lparr>rp_seen := insert eid (rp_seen rp)\<rparr>;
                scores = (with_profile \<and> event_type \<in> set SCORED_TYPES)
            in bind_r (if scores then score_step env u st event_type payload rates rp0
                       else Inr (no_outcome\<lparr>o_scored := Some False\<rparr>, 0, rp0)) (\<lambda>(oc, day, rp1).
               let db1 = add_event \<lparr>ev_user = u, ev_eid = eid, ev_type = event_type, ev_payload = payload,
                           ev_outcome = oc, ev_ts = st_at st\<rparr> (rp_db rp1);
                   rp2 = rp1\<lparr>rp_db := db1\<rparr>
               in bind_r (if scores \<and> event_type = ''focus_phase_completed'' \<and> scored oc then
                            (case auto_click_bound env u rates day eid (st_at st) habits
                                    [(''session_id'', JInt (s_id s))] (Some (rp_budget rp2)) (rp_bonus rp2)
                                    (rp_db rp2) (rp_rng rp2) of
                               (Inl e, _, _) \<Rightarrow> Inl e
                             | (Inr spent, db2, g2) \<Rightarrow>
                                 Inr (rp2\<lparr>rp_db := db2, rp_rng := g2, rp_budget := rp_budget rp2 - spent\<rparr>))
                          else Inr rp2) (\<lambda>rp3.
                 Inr (Some oc, if with_profile then rp3\<lparr>rp_db := auto_distribute u (rp_db rp3)\<rparr> else rp3))))"

text \<open>A death that cost gear re-resolves the bonus before the next step.\<close>

definition regear :: "int \<Rightarrow> outcome option \<Rightarrow> replay \<Rightarrow> replay" where
  "regear u oc rp = (case oc of
       Some out \<Rightarrow> if o_gear_lost out = Some True then rp\<lparr>rp_bonus := Some (gear_stat_bonus (rp_db rp) u)\<rparr> else rp
     | None \<Rightarrow> rp)"

fun persist_steps ::
  "env \<Rightarrow> session \<Rightarrow> int \<Rightarrow> bool \<Rightarrow> game_rates \<Rightarrow> habit list option \<Rightarrow> nat \<Rightarrow> step list \<Rightarrow> replay \<Rightarrow> replay result" where
  "persist_steps env s u with_profile rates habits i [] rp = Inr rp"
| "persist_steps env s u with_profile rates habits i (st # sts) rp =
     bind_r (persist_step env s u st i with_profile rates habits rp) (\<lambda>(oc, rp').
       persist_steps env s u with_profile rates habits (Suc i) sts (regear u oc rp'))"

subsection \<open>The replay of a call\<close>

definition needs_profile :: "step list \<Rightarrow> bool" where
  "needs_profile steps \<longleftrightarrow> (\<exists>st \<in> set steps. st_scored st \<or> st_kind st = ''session_abandoned'')"

definition needs_habits :: "step list \<Rightarrow> bool" where
  "needs_habits steps \<longleftrightarrow>
     (\<exists>st \<in> set steps. st_kind st = ''phase_completed'' \<and> st_scored st \<and> \<not> has_milestone st)"

definition emitted_types :: "session \<Rightarrow> step list \<Rightarrow> string set" where
  "emitted_types s steps = set (List.map_filter (\<lambda>st. fst (event_for st s)) steps)"

type_synonym view = "session \<times> phase list \<times> db \<times> rng"

text \<open>\<open>_evaluate\<close>: \<open>need_steps\<close> are the steps of a verb already applied to the rows.\<close>

definition replay_session :: "env \<Rightarrow> session \<Rightarrow> int \<Rightarrow> step list \<Rightarrow> db \<Rightarrow> rng \<Rightarrow> view result" where
  "replay_session env s0 u need_steps db g =
     (let (s, phases, steps0) = SessionEngine.evaluate s0 (t_phases db (s_id s0)) (e_now env);
          steps = steps0 @ need_steps;
          db1 = put_session s phases db
      in if steps = [] then Inr (s, phases, db1, g)
         else bind_r (load_rates db1) (\<lambda>rates.
           let with_profile = needs_profile steps;
               db2 = (if with_profile then snd (get_or_create_profile db1 u) else db1);
               habits = (if needs_habits steps then Some (filter h_bind_focus (list_habits db2 u)) else None);
               ids = map (\<lambda>(i, st). step_id env s i st) (enumerate 0 steps);
               rp = \<lparr>rp_db = db2, rp_rng = g, rp_seen = existing_event_ids db2 u ids,
                     rp_budget = MAX_AUTO_CLICKS_PER_EVAL,
                     rp_bonus = (if with_profile then Some (gear_stat_bonus db2 u) else None)\<rparr>
           in bind_r (persist_steps env s u with_profile rates habits 0 steps rp) (\<lambda>rp'.
             let db3 = (if with_profile then post_score env u (Some (emitted_types s steps)) (rp_db rp') else rp_db rp')
             in if ledger_unique db3 then Inr (s, phases, db3, rp_rng rp') else Inl IntegrityError)))"

subsection \<open>Starting a session\<close>

datatype speedrun_kind = TimeBoxed | BeatBest

record session_start =
  q_mode :: string
  q_phases :: "(phase_kind \<times> int) list"
  q_task_id :: "int option"
  q_tag_id :: "int option"
  q_activity_label :: "string option"
  q_difficulty :: string
  q_auto_start_breaks :: bool
  q_auto_start_focus :: bool
  q_pause_budget_count :: int
  q_pause_budget_seconds :: int
  q_speedrun :: "(speedrun_kind \<times> int option) option"

definition label_of :: "session_start \<Rightarrow> string" where
  "label_of req = strip (case q_activity_label req of Some l \<Rightarrow> l | None \<Rightarrow> [])"

definition speedrun_plan :: "session_start \<Rightarrow> (phase_kind \<times> int) list result" where
  "speedrun_plan req = (case q_speedrun req of
       None \<Rightarrow> Inl (ValueError ''speedrun config is required for speedrun mode'')
     | Some (TimeBoxed, budget) \<Rightarrow> (case budget of
           None \<Rightarrow> Inl (ValueError ''budget_minutes is required for time-boxed speedruns'')
         | Some m \<Rightarrow> Inr [(SPEEDRUN, m * 60)])
     | Some (BeatBest, budget) \<Rightarrow>
         if budget \<noteq> None then Inl (ValueError ''budget_minutes is only valid for time-boxed speedruns'')
         else if label_of req = [] then Inl (ValueError ''activity_label is required for beat-your-best speedruns'')
         else Inr [(SPEEDRUN, 0)])"

definition plan :: "session_start \<Rightarrow> (phase_kind \<times> int) list result" where
  "plan req =
     (if q_mode req = ''speedrun'' then speedrun_plan req
      else if q_speedrun req \<noteq> None then Inl (ValueError ''speedrun config is only valid for speedrun mode'')
      else if q_mode req = ''stopwatch'' then Inr [(STOPWATCH, 0)]
      else if q_phases req = [] then Inl (ValueError ''phases are required for timer mode'')
      else if \<not> (\<exists>p \<in> set (q_phases req). fst p = FOCUS)
      then Inl (ValueError ''a plan needs at least one focus phase'')
      else Inr (map (\<lambda>(k, minutes). (k, minutes * 60)) (q_phases req)))"

definition check_links :: "db \<Rightarrow> int \<Rightarrow> session_start \<Rightarrow> unit result" where
  "check_links db u req =
     (if q_task_id req \<noteq> None \<and> Option.bind (q_task_id req) (t_task_owner db) \<noteq> Some u
      then Inl (NotFoundError ''task not found'')
      else if q_tag_id req \<noteq> None \<and> Option.bind (q_tag_id req) (t_tag_owner db) \<noteq> Some u
      then Inl (NotFoundError ''tag not found'')
      else Inr ())"

definition start_preset :: "session_start \<Rightarrow> dict" where
  "start_preset req = [(''difficulty'', JStr (q_difficulty req)),
       (''auto_start_breaks'', JBool (q_auto_start_breaks req)),
       (''auto_start_focus'', JBool (q_auto_start_focus req))]
     @ (case q_tag_id req of Some t \<Rightarrow> [(''tag_id'', JInt t)] | None \<Rightarrow> [])"

definition start_label :: "session_start \<Rightarrow> string option" where
  "start_label req = (if label_of req = [] then None else Some (label_of req))"

definition start_blob :: "db \<Rightarrow> int \<Rightarrow> session_start \<Rightarrow> json" where
  "start_blob db u req =
     (if q_mode req = ''speedrun'' then (case q_speedrun req of
          Some (TimeBoxed, Some m) \<Rightarrow> JObj [(''type'', JStr ''time_boxed''), (''budget_seconds'', JInt (m * 60))]
        | Some (BeatBest, _) \<Rightarrow> JObj [(''type'', JStr ''beat_best''),
            (''target_seconds'', opt_int (get_speedrun_record db u (start_label req)))]
        | _ \<Rightarrow> JNull)
      else JNull)"

definition planned_phase :: "datetime \<Rightarrow> nat \<times> phase_kind \<times> int \<Rightarrow> phase" where
  "planned_phase now = (\<lambda>(i, kind, secs). \<lparr>ph_seq = int i, ph_kind = kind,
     ph_status = (if i = 0 then ACTIVE else PENDING), planned_seconds = secs, actual_seconds = None,
     pause_count = 0, paused_seconds = 0, pause_started_at = None,
     ph_started_at = (if i = 0 then Some now else None), ph_ended_at = None\<rparr>)"

definition kind_name :: "phase_kind \<Rightarrow> string" where
  "kind_name k = (case k of FOCUS \<Rightarrow> ''focus'' | BREAK \<Rightarrow> ''break'' | STOPWATCH \<Rightarrow> ''stopwatch'' | SPEEDRUN \<Rightarrow> ''speedrun'')"

definition started_extra :: "session_start \<Rightarrow> (phase_kind \<times> int) list \<Rightarrow> json \<Rightarrow> dict" where
  "started_extra req phases run_blob = [(''mode'', JStr (q_mode req)),
       (''phases'', JArr (map (\<lambda>(k, secs). JObj [(''kind'', JStr (kind_name k)), (''seconds'', JInt secs)]) phases))]
     @ (if run_blob \<noteq> JNull then [(''speedrun'', run_blob)] else [])"

text \<open>The rows and ledger entries of a new session; the id is the table's next.\<close>

definition open_session :: "env \<Rightarrow> int \<Rightarrow> session_start \<Rightarrow> (phase_kind \<times> int) list \<Rightarrow> db \<Rightarrow> rng \<Rightarrow> view result" where
  "open_session env u req pl db g =
     (let now = e_now env; run_blob = start_blob db u req;
          s = \<lparr>s_id = t_next_id db, s_user = u, s_task_id = q_task_id req, s_mode = q_mode req,
               s_status = S_ACTIVE, activity_label = start_label req, preset = Some (start_preset req),
               pause_budget_count = q_pause_budget_count req, pause_budget_seconds = q_pause_budget_seconds req,
               speedrun = run_blob, s_started_at = now, s_ended_at = None\<rparr>;
          phases = map (planned_phase now) (enumerate 0 pl)
      in if get_active_session db u \<noteq> None then Inl (ConflictError ''an active session already exists'')
         else
           let db1 = db\<lparr>t_sessions := t_sessions db @ [s], t_next_id := t_next_id db + 1,
                        t_phases := (t_phases db)(s_id s := phases)\<rparr>;
               rp = \<lparr>rp_db = db1, rp_rng = g, rp_seen = {}, rp_budget = 0, rp_bonus = None\<rparr>
           in bind_r (persist_steps env s u False default_rates None 0
                [(Step ''session_started'' None now)\<lparr>st_extra := started_extra req pl run_blob\<rparr>,
                 Step ''phase_started'' (Some 0) now] rp) (\<lambda>rp'.
                if ledger_unique (rp_db rp') then Inr (s, phases, rp_db rp', g) else Inl IntegrityError))"

definition start_session :: "env \<Rightarrow> int \<Rightarrow> session_start \<Rightarrow> db \<Rightarrow> rng \<Rightarrow> view result" where
  "start_session env u req db g =
     bind_r (plan req) (\<lambda>pl. bind_r (check_links db u req) (\<lambda>_.
       let db0 = snd (get_or_create_profile db u) in
       case get_active_session db0 u of
         None \<Rightarrow> open_session env u req pl db0 g
       | Some existing \<Rightarrow>
           bind_r (replay_session env existing u [] db0 g) (\<lambda>(s, phases, db1, g1).
             if s_status s = S_ACTIVE then Inl (ConflictError ''an active session already exists'')
             else open_session env u req pl db1 g1)))"

subsection \<open>Views and verbs\<close>

definition locked_session :: "db \<Rightarrow> int \<Rightarrow> int \<Rightarrow> session result" where
  "locked_session db u sid = (case get_session db sid u of
       None \<Rightarrow> Inl (NotFoundError ''session not found'') | Some s \<Rightarrow> Inr s)"

definition get_view :: "env \<Rightarrow> int \<Rightarrow> int \<Rightarrow> db \<Rightarrow> rng \<Rightarrow> view result" where
  "get_view env u sid db g =
     (let db0 = snd (get_or_create_profile db u)
      in bind_r (locked_session db0 u sid) (\<lambda>s. replay_session env s u [] db0 g))"

definition get_active_view :: "env \<Rightarrow> int \<Rightarrow> db \<Rightarrow> rng \<Rightarrow> view option result" where
  "get_active_view env u db g = (case get_active_session db u of
       None \<Rightarrow> Inr None
     | Some s \<Rightarrow> bind_r (replay_session env s u [] (snd (get_or_create_profile db u)) g) (\<lambda>v. Inr (Some v)))"

text \<open>The evaluate, verb, persist shape; \<open>verb\<close> reads the database for the record of \<open>done\<close>.\<close>

definition locked_call ::
  "env \<Rightarrow> int \<Rightarrow> int \<Rightarrow> (session \<Rightarrow> unit result) \<Rightarrow> (db \<Rightarrow> session \<Rightarrow> phase list \<Rightarrow> datetime \<Rightarrow> verb_result)
     \<Rightarrow> db \<Rightarrow> rng \<Rightarrow> view result" where
  "locked_call env u sid guard verb db g =
     (let db0 = snd (get_or_create_profile db u) in
      bind_r (locked_session db0 u sid) (\<lambda>s0.
      if s_status s0 \<noteq> S_ACTIVE then Inl (ConflictError ''session is not active'')
      else bind_r (guard s0) (\<lambda>_.
      bind_r (replay_session env s0 u [] db0 g) (\<lambda>(s, phases, db1, g1).
        if s_status s \<noteq> S_ACTIVE then Inr (s, phases, db1, g1)
        else bind_r (verb db1 s phases (e_now env)) (\<lambda>(s', phases', steps).
          if steps = [] then Inr (s', phases', put_session s' phases' db1, g1)
          else replay_session env s' u steps (put_session s' phases' db1) g1)))))"

definition pause_session :: "env \<Rightarrow> int \<Rightarrow> int \<Rightarrow> db \<Rightarrow> rng \<Rightarrow> view result" where
  "pause_session env u sid = locked_call env u sid (\<lambda>_. Inr ()) (\<lambda>_. SessionEngine.pause)"

definition resume_session :: "env \<Rightarrow> int \<Rightarrow> int \<Rightarrow> db \<Rightarrow> rng \<Rightarrow> view result" where
  "resume_session env u sid = locked_call env u sid (\<lambda>_. Inr ()) (\<lambda>_. SessionEngine.resume)"

definition advance_session :: "env \<Rightarrow> int \<Rightarrow> int \<Rightarrow> db \<Rightarrow> rng \<Rightarrow> view result" where
  "advance_session env u sid = locked_call env u sid (\<lambda>_. Inr ()) (\<lambda>_. SessionEngine.advance)"

definition stop_session :: "env \<Rightarrow> int \<Rightarrow> int \<Rightarrow> db \<Rightarrow> rng \<Rightarrow> view result" where
  "stop_session env u sid = locked_call env u sid (\<lambda>_. Inr ())
     (\<lambda>_ s phases now. let (s', phases', final, steps) = SessionEngine.stop s phases now
                       in Inr (s', phases', steps @ [final]))"

text \<open>\<open>done\<close> of the service.\<close>

definition prior_record :: "db \<Rightarrow> session \<Rightarrow> phase list \<Rightarrow> int option" where
  "prior_record db s phases = (case live_phase phases of
       Some i \<Rightarrow> if speedrun_type s (phases ! i) = ''beat_best''
                 then get_speedrun_record db (s_user s) (activity_label s) else None
     | None \<Rightarrow> None)"

definition finish_session :: "env \<Rightarrow> int \<Rightarrow> int \<Rightarrow> db \<Rightarrow> rng \<Rightarrow> view result" where
  "finish_session env u sid = locked_call env u sid
     (\<lambda>s. if s_mode s \<noteq> ''speedrun'' then Inl (ValueError ''done is only valid for speedrun sessions'') else Inr ())
     (\<lambda>db s phases now. SessionEngine.finish s phases now (prior_record db s phases))"

end
