(* ===== verification/Ownership.thy ===== *)
theory Ownership
  imports SessionService
begin

text \<open>
  Whose rows an operation touches. \<open>untouched u a b\<close> says that getting from \<open>a\<close> to \<open>b\<close>
  changed no row but user \<open>u\<close>'s, table by table; \<open>own u a b\<close> adds that the keys of the tables stay
  sound, the ledger is only appended to, and neither owners nor focus sessions change. Every
  scoring operation run for a user is such a step.
\<close>

subsection \<open>Everybody else's rows\<close>

fun recipient :: "send \<Rightarrow> int" where
  "recipient (Push u title message url) = u"
| "recipient (Email u title message) = u"

definition daily_ids_of :: "int \<Rightarrow> db \<Rightarrow> int set" where
  "daily_ids_of u db = {i. (i, u) \<in> set (map (\<lambda>d. (d_id d, d_user d)) (t_dailies db))}"

definition session_ids_of :: "int \<Rightarrow> db \<Rightarrow> int set" where
  "session_ids_of u db = s_id ` {s \<in> set (t_sessions db). s_user s = u}"

definition untouched :: "int \<Rightarrow> db \<Rightarrow> db \<Rightarrow> bool" where
  "untouched u a b \<longleftrightarrow> (\<forall>v. v \<noteq> u \<longrightarrow> t_profiles b v = t_profiles a v)
     \<and> filter (\<lambda>e. ev_user e \<noteq> u) (t_events b) = filter (\<lambda>e. ev_user e \<noteq> u) (t_events a)
     \<and> filter (\<lambda>h. h_user h \<noteq> u) (t_habits b) = filter (\<lambda>h. h_user h \<noteq> u) (t_habits a)
     \<and> filter (\<lambda>d. d_user d \<noteq> u) (t_dailies b) = filter (\<lambda>d. d_user d \<noteq> u) (t_dailies a)
     \<and> filter (\<lambda>c. dc_daily c \<notin> daily_ids_of u b) (t_daily_checks b)
         = filter (\<lambda>c. dc_daily c \<notin> daily_ids_of u a) (t_daily_checks a)
     \<and> filter (\<lambda>m. dm_user m \<noteq> u) (t_daily_misses b) = filter (\<lambda>m. dm_user m \<noteq> u) (t_daily_misses a)
     \<and> filter (\<lambda>g. ug_user g \<noteq> u) (t_user_gear b) = filter (\<lambda>g. ug_user g \<noteq> u) (t_user_gear a)
     \<and> filter (\<lambda>g. ua_user g \<noteq> u) (t_user_achievements b) = filter (\<lambda>g. ua_user g \<noteq> u) (t_user_achievements a)
     \<and> filter (\<lambda>s. s_user s \<noteq> u) (t_sessions b) = filter (\<lambda>s. s_user s \<noteq> u) (t_sessions a)
     \<and> (\<forall>i. i \<notin> session_ids_of u b \<longrightarrow> t_phases b i = t_phases a i) \<and> session_ids_of u a \<subseteq> session_ids_of u b
     \<and> filter (\<lambda>n. n_user n \<noteq> u) (t_notifications b) = filter (\<lambda>n. n_user n \<noteq> u) (t_notifications a)
     \<and> filter (\<lambda>s. recipient s \<noteq> u) (sends b) = filter (\<lambda>s. recipient s \<noteq> u) (sends a)
     \<and> t_daily_items b = t_daily_items a \<and> t_gear_items b = t_gear_items a \<and> t_prefs b = t_prefs a
     \<and> t_task_owner b = t_task_owner a \<and> t_tag_owner b = t_tag_owner a \<and> t_config b = t_config a"

definition owners :: "db \<Rightarrow> (int \<times> int) list \<times> (int \<times> int) list" where
  "owners db = (map (\<lambda>h. (h_id h, h_user h)) (t_habits db), map (\<lambda>d. (d_id d, d_user d)) (t_dailies db))"

text \<open>The primary keys, and that ids yet to be handed out are unused.\<close>

definition keys_ok :: "db \<Rightarrow> bool" where
  "keys_ok db \<longleftrightarrow> distinct (map h_id (t_habits db)) \<and> distinct (map d_id (t_dailies db))
     \<and> distinct (map ug_id (t_user_gear db)) \<and> distinct (map s_id (t_sessions db))
     \<and> (\<forall>s \<in> set (t_sessions db). s_id s < t_next_id db) \<and> (\<forall>i \<ge> t_next_id db. t_phases db i = [])"

definition own :: "int \<Rightarrow> db \<Rightarrow> db \<Rightarrow> bool" where
  "own u a b \<longleftrightarrow> untouched u a b \<and> owners b = owners a \<and> (keys_ok a \<longrightarrow> keys_ok b)
     \<and> (\<exists>evs. t_events b = t_events a @ evs)
     \<and> (t_profiles a u \<noteq> None \<longrightarrow> t_profiles b u \<noteq> None)
     \<and> t_sessions b = t_sessions a \<and> t_phases b = t_phases a"

lemmas own_defs = untouched_def owners_def keys_ok_def daily_ids_of_def session_ids_of_def

lemma untouched_refl [simp]: "untouched u db db"
  by (simp add: untouched_def)

lemma untouched_trans:
  assumes "untouched u a b" and "untouched u b c"
  shows "untouched u a c"
proof -
  have s: "session_ids_of u a \<subseteq> session_ids_of u b" "session_ids_of u b \<subseteq> session_ids_of u c"
    using assms by (simp_all add: untouched_def)
  have "t_phases c i = t_phases a i" if "i \<notin> session_ids_of u c" for i
  proof -
    have "i \<notin> session_ids_of u b" using that s by blast
    then show ?thesis using assms that by (simp add: untouched_def)
  qed
  with s assms show ?thesis by (simp add: untouched_def)
qed

lemma own_refl [simp]: "own u db db"
  by (simp add: own_def)

lemma own_trans: "own u a b \<Longrightarrow> own u b c \<Longrightarrow> own u a c"
  unfolding own_def by (elim conjE exE, intro conjI impI) (auto intro: untouched_trans)

lemma ownD:
  assumes "own u a b"
  shows "untouched u a b" "owners b = owners a" "keys_ok a \<Longrightarrow> keys_ok b"
    "t_config b = t_config a" "set (t_events a) \<subseteq> set (t_events b)" "t_profiles a u \<noteq> None \<Longrightarrow> t_profiles b u \<noteq> None"
    "t_sessions b = t_sessions a" "t_phases b = t_phases a"
  using assms by (auto simp: own_def untouched_def)

text \<open>The shape most steps have: tables outside this list stay, and each of these keeps the rows of
  the others.\<close>

lemma daily_ids_of_owners: "owners b = owners a \<Longrightarrow> daily_ids_of u b = daily_ids_of u a"
  by (simp add: owners_def daily_ids_of_def)

lemma own_put_profile [frame]: "own u db (put_profile u p db)"
  by (auto simp: own_def put_profile_def own_defs)

lemma own_add_event [frame]: "ev_user e = u \<Longrightarrow> own u db (add_event e db)"
  by (auto simp: own_def add_event_def own_defs)

lemma own_dispatch [frame]: "own u db (dispatch_notification env u k t m url meta ex db)"
  by (auto simp: own_def dispatch_notification_def Let_def own_defs)

lemma own_notify [frame]:
  "own u db (notify_score_outcome env u h oc db)"
  "own u db (notify_phase_end env u ts mins db)"
  "own u db (notify_record_set env u payload db)"
  by (auto simp: notify_score_outcome_def notify_phase_end_def notify_record_set_def Let_def
      intro: own_trans own_dispatch split: option.splits)

subsection \<open>Achievements and the post-scoring hook\<close>

lemma own_seed [frame]: "own u db (seed_achievements db)"
  by (auto simp: own_def seed_achievements_def own_defs)

lemma own_grant [frame]: "own u db (grant u a db)"
  by (auto simp: own_def grant_def put_profile_def own_defs)

lemma own_notify_grants [frame]: "own u db (notify_grants env u granted db)"
  unfolding notify_grants_def
  by (induction granted arbitrary: db) (auto intro: own_trans [OF own_dispatch])

lemma own_grant_loop [frame]: "own u db (snd (grant_loop env u types full as db))"
  by (induction as arbitrary: db) (auto split: prod.splits intro: own_trans [OF own_grant] dest: sym simp: snd_conv, metis own_grant own_trans snd_conv)

lemma own_post_score [frame]: "own u db (auto_distribute u db)" "own u db (post_score env u types db)"
proof -
  show a: "own u db (auto_distribute u db)" for db by (simp add: auto_distribute_def own_put_profile)
  have "own u db (snd (evaluate_grants env u types full db))" for full db
    using own_trans [OF own_seed own_trans [OF own_grant_loop own_notify_grants]]
    by (simp add: evaluate_grants_def Let_def split_beta)
  then show "own u db (post_score env u types db)"
    unfolding post_score_def by (rule own_trans [OF a])
qed

text \<open>The hook writes no ledger row.\<close>

lemma post_score_events [simp]: "t_events (post_score env u types db) = t_events db"
proof -
  have notify: "t_events (notify_grants env u as db) = t_events db" for as db
    unfolding notify_grants_def
    by (induction as arbitrary: db) (simp_all add: same_game_fields(3) [OF dispatch_same_game])
  have loop: "t_events (snd (grant_loop env u types full as db)) = t_events db" for full as db
    by (induction as arbitrary: db) (auto simp: grant_def put_profile_def split_beta)
  show ?thesis
    by (simp add: post_score_def evaluate_grants_def Let_def split_beta notify loop)
      (simp add: seed_achievements_def auto_distribute_def put_profile_def)
qed

subsection \<open>Gear, clicks and checks\<close>

text \<open>Whose row an id names; only the owner columns matter, so every \<open>own\<close> step keeps it.\<close>

definition owns_habit :: "int \<Rightarrow> db \<Rightarrow> int \<Rightarrow> bool" where
  "owns_habit u db i \<longleftrightarrow> (i, u) \<in> set (fst (owners db))"

definition owns_daily :: "int \<Rightarrow> db \<Rightarrow> int \<Rightarrow> bool" where
  "owns_daily u db i \<longleftrightarrow> (i, u) \<in> set (snd (owners db))"

lemma owns_own: "own u a b \<Longrightarrow> owns_habit u b i = owns_habit u a i" "own u a b \<Longrightarrow> owns_daily u b i = owns_daily u a i"
  by (simp_all add: own_def owns_habit_def owns_daily_def)

lemma owned_habit_row:
  assumes "owns_habit u db i" "keys_ok db"
  obtains h where "habit_row db i = Some h" "h_user h = u" "h_id h = i" "\<And>h'. h' \<in> set (t_habits db) \<Longrightarrow> h_id h' = i \<Longrightarrow> h' = h"
proof -
  obtain h where h: "h \<in> set (t_habits db)" "h_id h = i" "h_user h = u"
    using assms(1) by (auto simp: owns_habit_def owners_def)
  have u: "h' = h" if "h' \<in> set (t_habits db)" "h_id h' = i" for h'
    using assms(2) that h by (auto simp: keys_ok_def distinct_map inj_on_def)
  obtain h' where "habit_row db i = Some h'"
    using h unfolding habit_row_def by (cases "find (\<lambda>h. h_id h = i) (t_habits db)") (auto simp: find_None_iff)
  moreover from this have "h' = h" using u by (auto simp: habit_row_def find_Some_iff)
  ultimately show thesis using h u that by blast
qed

lemma owned_daily_row:
  assumes "owns_daily u db i" "keys_ok db"
  obtains d where "daily_row db i = Some d" "d_user d = u" "d_id d = i" "\<And>d'. d' \<in> set (t_dailies db) \<Longrightarrow> d_id d' = i \<Longrightarrow> d' = d"
proof -
  obtain d where h: "d \<in> set (t_dailies db)" "d_id d = i" "d_user d = u"
    using assms(1) by (auto simp: owns_daily_def owners_def)
  have u: "d' = d" if "d' \<in> set (t_dailies db)" "d_id d' = i" for d'
    using assms(2) that h by (auto simp: keys_ok_def distinct_map inj_on_def)
  obtain d' where "daily_row db i = Some d'"
    using h unfolding daily_row_def by (cases "find (\<lambda>d. d_id d = i) (t_dailies db)") (auto simp: find_None_iff)
  moreover from this have "d' = d" using u by (auto simp: daily_row_def find_Some_iff)
  ultimately show thesis using h u that by blast
qed

lemma filter_update_mine: "(\<And>r. r \<in> set rows \<Longrightarrow> p r \<Longrightarrow> \<not> q r) \<Longrightarrow> (\<And>r. r \<in> set rows \<Longrightarrow> p r \<Longrightarrow> \<not> q (f r)) \<Longrightarrow>
    filter q (update_where p f rows) = filter q rows"
  by (induction rows) (auto simp: update_where_def)

lemma own_update_habit:
  assumes "owns_habit u db i" "keys_ok db" "\<And>h. h_id (f h) = h_id h" "\<And>h. h_user (f h) = h_user h"
  shows "own u db (update_habit i f db)"
proof -
  obtain h where h: "\<And>h'. h' \<in> set (t_habits db) \<Longrightarrow> h_id h' = i \<Longrightarrow> h' = h" "h_user h = u"
    using owned_habit_row [OF assms(1,2)] by metis
  have "filter (\<lambda>h. h_user h \<noteq> u) (t_habits (update_habit i f db)) = filter (\<lambda>h. h_user h \<noteq> u) (t_habits db)"
    using h assms(4) by (auto simp: update_habit_def intro!: filter_update_mine)
  then show ?thesis
    by (simp add: own_def own_defs update_habit_def map_update_where assms(3,4))
qed

lemma own_update_daily:
  assumes "owns_daily u db i" "keys_ok db" "\<And>d. d_id (f d) = d_id d" "\<And>d. d_user (f d) = d_user d"
  shows "own u db (update_daily i f db)"
proof -
  obtain d where d: "\<And>d'. d' \<in> set (t_dailies db) \<Longrightarrow> d_id d' = i \<Longrightarrow> d' = d" "d_user d = u"
    using owned_daily_row [OF assms(1,2)] by metis
  have "filter (\<lambda>d. d_user d \<noteq> u) (t_dailies (update_daily i f db)) = filter (\<lambda>d. d_user d \<noteq> u) (t_dailies db)"
    using d assms(4) by (auto simp: update_daily_def intro!: filter_update_mine)
  moreover have "map (\<lambda>d. (d_id d, d_user d)) (t_dailies (update_daily i f db)) = map (\<lambda>d. (d_id d, d_user d)) (t_dailies db)"
    by (simp add: update_daily_def map_update_where assms(3,4))
  then have "daily_ids_of u (update_daily i f db) = daily_ids_of u db"
    by (simp only: daily_ids_of_def)
  ultimately show ?thesis
    by (simp add: own_def untouched_def owners_def keys_ok_def session_ids_of_def)
      (simp add: update_daily_def map_update_where assms(3,4))
qed

lemma own_lose_gear:
  assumes "lose_random_gear u db g = (lost, db', g')" "keys_ok db"
  shows "own u db db'"
proof (cases "join_gear db (\<lambda>ug it. ug_user ug = u \<and> gi_losable it) = []")
  case False
  obtain ug it g1 where c: "rng_choice g (join_gear db (\<lambda>ug it. ug_user ug = u \<and> gi_losable it)) = ((ug, it), g1)"
    by (metis prod.exhaust)
  then have "(ug, it) \<in> set (join_gear db (\<lambda>ug it. ug_user ug = u \<and> gi_losable it))"
    using rng_choice_mem [OF False] by (metis fst_conv)
  then have ug: "ug \<in> set (t_user_gear db)" "ug_user ug = u" by (auto simp: join_gear_def)
  have db': "db' = db\<lparr>t_user_gear := filter (\<lambda>r. ug_id r \<noteq> ug_id ug) (t_user_gear db)\<rparr>"
    using assms(1) False c by (simp add: lose_random_gear_def Let_def)
  have "filter (\<lambda>r. ug_user r \<noteq> u) (filter (\<lambda>r. ug_id r \<noteq> ug_id ug) (t_user_gear db)) = filter (\<lambda>r. ug_user r \<noteq> u) (t_user_gear db)"
    using assms(2) ug by (auto simp: keys_ok_def distinct_map inj_on_def intro!: filter_cong)
  then show ?thesis
    by (simp add: own_def own_defs db' distinct_map_filter)
qed (use assms in \<open>simp add: lose_random_gear_def Let_def\<close>)

lemma own_resolve_death:
  assumes "resolve_death_gear u oc db g = (oc', db', g')" "keys_ok db"
  shows "own u db db'"
  using assms by (auto simp: resolve_death_gear_def intro: own_lose_gear split: if_splits prod.splits)

text \<open>The tail of every scoring path: the profile is written, a death may cost gear, the hook notifies.\<close>

lemma own_scored:
  assumes "resolve_death_gear u oc (put_profile u p db) g = (oc', db', g')" "keys_ok db"
  shows "own u db (notify_score_outcome env u h oc'' db')"
proof -
  have "keys_ok (put_profile u p db)" using ownD(3) [OF own_put_profile assms(2)] .
  then show ?thesis
    using own_trans [OF own_put_profile own_trans [OF own_resolve_death [OF assms(1)] own_notify(1)]] by blast
qed

lemma own_score_click [frame]:
  assumes "score_click env hid dir rates today eid ts extra sx bs db g = (res, db', g')"
    and "owns_habit u db hid" "keys_ok db"
  shows "own u db db'"
proof -
  obtain h where h: "habit_row db hid = Some h" "h_user h = u"
    using owned_habit_row [OF assms(2,3)] by metis
  have step: "own u db (add_event e (update_habit hid (clicked dir oc) (notify_score_outcome env u hp0 oc db1)))"
    if "resolve_death_gear u oc0 (put_profile u p' db) g2 = (oc, db1, g3)" "ev_user e = u" for e oc oc0 p' g2 db1 g3 hp0
  proof -
    have s: "own u db (notify_score_outcome env u hp0 oc db1)" by (rule own_scored [OF that(1) assms(3)])
    then have "own u (notify_score_outcome env u hp0 oc db1) (update_habit hid (clicked dir oc) (notify_score_outcome env u hp0 oc db1))"
      using assms(2,3) by (intro own_update_habit) (auto simp: owns_own ownD clicked_def)
    then show ?thesis using own_trans [OF s] own_add_event [OF that(2)] own_trans by blast
  qed
  show ?thesis
    using assms(1) h by (auto simp: score_click_def Let_def intro!: step [folded h(2)] split: option.splits sum.splits prod.splits)
qed

lemma own_auto_click_loop:
  assumes "auto_click_loop env rates today src ts sx limit bs hs spent db g = (res, db', g')"
    and "\<forall>h \<in> set hs. owns_habit u db (h_id h)" "keys_ok db"
  shows "own u db db'"
  using assms
proof (induction hs arbitrary: spent db g)
  case (Cons h hs)
  show ?case
  proof (cases "spent \<ge> limit \<or> \<not> h_bind_focus h \<or> h_direction h = NEGATIVE")
    case False
    obtain r db1 g1 where c: "score_click env (h_id h) ''positive'' rates today (auto_click_eid env (h_id h) src) ts []
        (dict_set sx ''auto'' (JBool True)) (Some bs) db g = (r, db1, g1)"
      using prod_cases3 by blast
    have o: "own u db db1" using own_score_click [OF c] Cons.prems by simp
    show ?thesis
      using False Cons.prems c o Cons.IH [of "spent + 1" db1 g1]
      by (auto simp: owns_own ownD split: sum.splits intro: own_trans)
  qed (use Cons in \<open>auto split: if_splits\<close>)
qed simp

lemma own_marks:
  assumes "owns_daily u db did"
  shows "own u db (set_mark did day item b db)" "own u db (add_mark env did day item db)"
proof -
  have mine: "did \<in> daily_ids_of u db" using assms by (simp add: owns_daily_def daily_ids_of_def owners_def)
  have "filter (\<lambda>c. dc_daily c \<notin> daily_ids_of u db) (t_daily_checks (set_mark did day item b db))
      = filter (\<lambda>c. dc_daily c \<notin> daily_ids_of u db) (t_daily_checks db)"
    using mine by (auto simp: set_mark_def intro!: filter_update_mine)
  moreover have "daily_ids_of u (set_mark did day item b db) = daily_ids_of u db"
    by (simp add: set_mark_def daily_ids_of_def)
  ultimately show "own u db (set_mark did day item b db)"
    by (simp add: own_def untouched_def owners_def keys_ok_def session_ids_of_def) (simp add: set_mark_def)
  have "daily_ids_of u (add_mark env did day item db) = daily_ids_of u db"
    by (simp add: add_mark_def daily_ids_of_def)
  then show "own u db (add_mark env did day item db)"
    using mine by (simp add: own_def untouched_def owners_def keys_ok_def session_ids_of_def) (simp add: add_mark_def)
qed

lemma own_transition [frame]:
  assumes "owns_daily u db did"
  shows "own u db (snd (transition_marks env did n item day b db))"
proof -
  note m = own_marks [OF assms]
  have two: "own u db (set_mark did day i1 b1 db1)" "own u db (add_mark env did day i1 db1)" if "own u db db1" for db1 i1 b1
    using own_trans [OF that own_marks(1)] own_trans [OF that own_marks(2)] assms that by (simp_all add: owns_own)
  show ?thesis
    by (simp add: transition_marks_def Let_def m two)
qed

lemma own_apply_share:
  assumes "apply_share env did share day rates today bs db g = (res, db', g')" "owns_daily u db did" "keys_ok db"
  shows "own u db db'"
proof -
  obtain d where d: "daily_row db did = Some d" "d_user d = u" using owned_daily_row [OF assms(2,3)] by metis
  show ?thesis
    using assms(1) d by (auto simp: apply_share_def Let_def intro!: own_scored [folded d(2)] assms(3)
        split: option.splits sum.splits prod.splits if_splits)
qed

lemma own_score_check [frame]:
  assumes "score_check env did items item day rates today eid ts extra flag bs db g = (res, db', g')"
    and "owns_daily u db did" "keys_ok db"
  shows "own u db db'"
proof -
  obtain d where d: "daily_row db did = Some d" "d_user d = u" using owned_daily_row [OF assms(2,3)] by metis
  show ?thesis
  proof (cases "check_guard d items item day today flag")
    case (Inr is_done)
    define marked where "marked = snd (transition_marks env did (int (length items)) item day is_done db)"
    define tr where "tr = fst (transition_marks env did (int (length items)) item day is_done db)"
    define staged where "staged = (if earns_streak marked d day (tr_first tr)
      then update_daily did (\<lambda>r. r\<lparr>d_streak := d_streak r + 1\<rparr>) marked else marked)"
    have m: "own u db marked" using own_transition [OF assms(2)] by (simp add: marked_def)
    have s: "own u db staged"
      using own_trans [OF m own_update_daily [of u marked did]] m assms(2,3)
      by (auto simp: staged_def owns_own ownD)
    have o: "own u db (add_event e staged)" if "ev_user e = u" for e
      using own_trans [OF s own_add_event] that by blast
    have p: "own u db db3" "ev_user e = u \<Longrightarrow> own u db (add_event e db3)"
      if "apply_share env did sh day rates today bs staged g = (r, db3, g3)" for sh r db3 g3 e
    proof -
      have "own u staged db3"
        using own_apply_share [OF that] s assms(2,3) by (simp add: owns_own ownD)
      then show "own u db db3" "ev_user e = u \<Longrightarrow> own u db (add_event e db3)"
        using own_trans [OF s] own_trans own_add_event by blast+
    qed
    obtain r db3 g3 where share: "apply_share env did (tr_share tr) day rates today bs staged g = (r, db3, g3)"
      using prod_cases3 by blast
    have "transition_marks env did (int (length items)) item day is_done db = (tr, marked)"
      by (simp add: tr_def marked_def)
    then show ?thesis
      using assms(1) d(1) Inr p [OF share] o d(2) share [unfolded staged_def]
      by (auto simp: score_check_def Let_def staged_def split: option.splits if_splits sum.splits)
  qed (use assms(1) d(1) in \<open>simp add: score_check_def\<close>)
qed

end
