(* ===== verification/IngestLaws.thy ===== *)
theory IngestLaws
  imports Ownership "HOL-Library.Multiset"
begin

text \<open>
  What ingesting a batch guarantees: each event is recorded and reported exactly once, replaying a
  batch changes nothing, and nobody else's rows are touched.
\<close>

subsection \<open>Event ids in the ledger\<close>

definition eids :: "int \<Rightarrow> db \<Rightarrow> string set" where
  "eids u db = ev_eid ` {e \<in> set (t_events db). ev_user e = u}"

lemma existing_eids: "existing_event_ids db u ids = eids u db \<inter> set ids"
  by (auto simp: existing_event_ids_def eids_def)

lemma eids_own: "own u a b \<Longrightarrow> eids u a \<subseteq> eids u b"
  using ownD(5) by (fastforce simp: eids_def)

lemma eids_add: "eids u (add_event e db) = (if ev_user e = u then insert (ev_eid e) (eids u db) else eids u db)"
  by (auto simp: eids_def add_event_def)

lemma score_click_eid:
  assumes "score_click env hid dir rates today eid ts extra sx bs db g = (Inr oc, db', g')" "owns_habit u db hid" "keys_ok db"
  shows "eid \<in> eids u db'"
proof -
  obtain h where h: "habit_row db hid = Some h" "h_user h = u" using owned_habit_row [OF assms(2,3)] by metis
  show ?thesis using assms(1) h
    by (auto simp: score_click_def Let_def eids_add split: option.splits sum.splits prod.splits)
qed

lemma score_check_eid:
  assumes "score_check env did items item day rates today eid ts extra flag bs db g = (Inr oc, db', g')" "owns_daily u db did" "keys_ok db"
  shows "eid \<in> eids u db'"
proof -
  obtain d where d: "daily_row db did = Some d" "d_user d = u" using owned_daily_row [OF assms(2,3)] by metis
  obtain is_done where "check_guard d items item day today flag = Inr is_done"
    using assms(1) d by (cases "check_guard d items item day today flag") (auto simp: score_check_def)
  then show ?thesis using assms(1) d
    by (auto simp: score_check_def Let_def eids_add split: option.splits sum.splits prod.splits if_splits)
qed

subsection \<open>One event\<close>

lemma record_unscored_own: "own u db (record_unscored u e why db)" "ei_eid e \<in> eids u (record_unscored u e why db)"
  by (simp_all add: record_unscored_def own_add_event eids_add)

lemma or_unscored_cases:
  assumes "or_unscored u e db scoring = (Inr (oc, db'), g')"
  obtains oc1 where "scoring = (Inr oc1, db', g')" | why where "db' = record_unscored u e why db"
  using assms by (cases scoring) (auto simp: or_unscored_def split: sum.splits py_error.splits)

lemma ingest_habit_own:
  assumes "ingest_habit_click env u e habits rates today bs db g = (Inr (oc, db'), g')"
    and "\<forall>h \<in> set habits. owns_habit u db (h_id h)" "keys_ok db"
  shows "own u db db' \<and> ei_eid e \<in> eids u db'"
proof -
  have found: "h \<in> set habits" if "habit_for_event e habits = Some h" for h
    using that by (auto simp: habit_for_event_def find_Some_iff split: option.splits)
  show ?thesis
    using assms(1) found assms(2,3) own_score_click score_click_eid
    by (auto simp: ingest_habit_click_def record_unscored_own split: option.splits json.splits if_splits
        elim!: or_unscored_cases)
qed

lemma ingest_daily_own:
  assumes "ingest_daily_check env u e dailies rates today bs db g = (Inr (oc, db'), g')"
    and "\<forall>d \<in> set dailies. owns_daily u db (d_id d)" "keys_ok db"
  shows "own u db db' \<and> ei_eid e \<in> eids u db'"
proof -
  have found: "d \<in> set dailies" if "daily_for_event e dailies = Some d" for d
    using that by (auto simp: daily_for_event_def find_Some_iff split: option.splits)
  show ?thesis
    using assms(1) found assms(2,3) own_score_check score_check_eid
    by (auto simp: ingest_daily_check_def Let_def record_unscored_own split: option.splits json.splits if_splits
        elim!: or_unscored_cases)
qed

lemma apply_generic_own:
  assumes "apply_generic env u e rates today bs db g = (Inr (oc, db'), g')" "keys_ok db"
  shows "own u db db'"
proof -
  have s: "own u db (notify_score_outcome env u h oc2 db1)"
    "own u db (notify_phase_end env u ts mins (notify_score_outcome env u h oc2 db1))"
    if "resolve_death_gear u oc0 (put_profile u p db) g1 = (oc1, db1, g2)" for oc0 oc1 oc2 p db1 g1 g2 h ts mins
    using own_scored [OF that assms(2)] own_trans own_notify(2) by blast+
  show ?thesis
    using assms(1) by (auto simp: apply_generic_def Let_def intro!: s split: prod.splits sum.splits py_error.splits)
qed

lemma ingest_fanout_own:
  assumes "ingest_fanout env u e habits rates today oc b = Inr b'"
    and "\<forall>h \<in> set habits. owns_habit u (b_db b) (h_id h)" "keys_ok (b_db b)"
  shows "own u (b_db b) (b_db b') \<and> b_seen b' = b_seen b \<and> b_status b' = b_status b"
  using assms by (auto simp: ingest_fanout_def Let_def auto_click_bound_def intro: own_auto_click_loop
      split: if_splits prod.splits sum.splits)

text \<open>What one turn of the loop does to the batch.\<close>

lemma ingest_one_step:
  assumes "ingest_one env u habits dailies rates today (idx, e) b = Inr b'"
    and "\<forall>h \<in> set habits. owns_habit u (b_db b) (h_id h)" "\<forall>d \<in> set dailies. owns_daily u (b_db b) (d_id d)"
    and "keys_ok (b_db b)"
  shows "own u (b_db b) (b_db b')" "b_seen b' = insert (ei_eid e) (b_seen b)"
    and "b_status b' = (b_status b)(idx \<mapsto> if ei_eid e \<in> b_seen b then Duplicate else Applied)"
    and "b_seen b \<subseteq> eids u (b_db b) \<Longrightarrow> b_seen b' \<subseteq> eids u (b_db b')"
proof -
  have dist: "own u (b_db b) (auto_distribute u db1)" "ei_eid e \<in> eids u db1 \<Longrightarrow> ei_eid e \<in> eids u (auto_distribute u db1)"
    if "own u (b_db b) db1" for db1
    using that own_trans own_post_score(1) eids_own by blast+
  have "own u (b_db b) (b_db b') \<and> b_seen b' = insert (ei_eid e) (b_seen b) \<and>
      b_status b' = (b_status b)(idx \<mapsto> if ei_eid e \<in> b_seen b then Duplicate else Applied) \<and>
      (ei_eid e \<notin> b_seen b \<longrightarrow> ei_eid e \<in> eids u (b_db b'))"
  proof (cases "ei_eid e \<in> b_seen b")
    case True
    then show ?thesis using assms(1) by (auto simp: ingest_one_def insert_absorb)
  next
    case False
    show ?thesis
    proof (cases "ei_type e = ''habit_click'' \<or> ei_type e = ''daily_check''")
      case True
      then obtain oc db1 g1 where sc: "ei_type e = ''habit_click'' \<and>
            ingest_habit_click env u e habits rates today (b_bonus b) (b_db b) (b_rng b) = (Inr (oc, db1), g1) \<or>
          ingest_daily_check env u e dailies rates today (b_bonus b) (b_db b) (b_rng b) = (Inr (oc, db1), g1)"
        and b': "b' = mark_applied u idx e (b\<lparr>b_db := db1, b_rng := g1, b_bonus := refresh_bonus u oc db1 (b_bonus b)\<rparr>)"
        using assms(1) False by (auto simp: ingest_one_def split: prod.splits sum.splits if_splits)
      have "own u (b_db b) db1 \<and> ei_eid e \<in> eids u db1"
        using sc ingest_habit_own [OF _ assms(2,4)] ingest_daily_own [OF _ assms(3,4)] by blast
      then show ?thesis using dist False by (simp add: b' mark_applied_def)
    next
      case other: False
      obtain oc db1 g1 where gen: "apply_generic env u e rates today (b_bonus b) (b_db b) (b_rng b) = (Inr (oc, db1), g1)"
        using assms(1) False other by (auto simp: ingest_one_def split: prod.splits sum.splits)
      define row where "row = \<lparr>ev_user = u, ev_eid = ei_eid e, ev_type = ei_type e,
        ev_payload = clean_extra (ei_payload e), ev_outcome = oc, ev_ts = ei_ts e\<rparr>"
      define b1 where "b1 = b\<lparr>b_db := add_event row db1, b_rng := g1, b_bonus := refresh_bonus u (Some oc) db1 (b_bonus b)\<rparr>"
      have o1: "own u (b_db b) (b_db b1)"
        using own_trans [OF apply_generic_own [OF gen assms(4)] own_add_event] by (simp add: b1_def row_def)
      obtain b2 where fan: "ingest_fanout env u e habits rates today oc b1 = Inr b2" and b': "b' = mark_applied u idx e b2"
        using assms(1) False other gen by (auto simp: ingest_one_def b1_def row_def Let_def)
      have o2: "own u (b_db b1) (b_db b2) \<and> b_seen b2 = b_seen b1 \<and> b_status b2 = b_status b1"
        using ingest_fanout_own [OF fan] o1 assms(2,4) by (simp add: owns_own ownD)
      have "ei_eid e \<in> eids u (b_db b1)" by (simp add: b1_def row_def eids_add)
      then have "ei_eid e \<in> eids u (b_db b2)" using o2 eids_own by blast
      then show ?thesis
        using dist [OF own_trans [OF o1]] o2 False by (auto simp: b' mark_applied_def b1_def)
    qed
  qed
  note all = this
  show "own u (b_db b) (b_db b')" "b_seen b' = insert (ei_eid e) (b_seen b)"
    "b_status b' = (b_status b)(idx \<mapsto> if ei_eid e \<in> b_seen b then Duplicate else Applied)"
    using all by simp_all
  assume "b_seen b \<subseteq> eids u (b_db b)"
  moreover have "eids u (b_db b) \<subseteq> eids u (b_db b')" using all eids_own by blast
  ultimately show "b_seen b' \<subseteq> eids u (b_db b')" using all by auto
qed

subsection \<open>The loop\<close>

lemma ingest_loop_steps:
  assumes "ingest_loop env u habits dailies rates today xs b = Inr b'"
    and "\<forall>h \<in> set habits. owns_habit u (b_db b) (h_id h)" "\<forall>d \<in> set dailies. owns_daily u (b_db b) (d_id d)"
    and "keys_ok (b_db b)" "b_seen b \<subseteq> eids u (b_db b)"
  shows "own u (b_db b) (b_db b') \<and> b_seen b' = b_seen b \<union> set (map (ei_eid \<circ> snd) xs)
    \<and> b_seen b' \<subseteq> eids u (b_db b') \<and> (\<forall>i. i \<notin> set (map fst xs) \<longrightarrow> b_status b' i = b_status b i)"
  using assms
proof (induction xs arbitrary: b)
  case (Cons x xs)
  obtain b1 where one: "ingest_one env u habits dailies rates today (fst x, snd x) b = Inr b1"
    and rest: "ingest_loop env u habits dailies rates today xs b1 = Inr b'"
    using Cons.prems(1) by auto
  note s = ingest_one_step [OF one Cons.prems(2,3,4)]
  have "\<forall>h \<in> set habits. owns_habit u (b_db b1) (h_id h)" "\<forall>d \<in> set dailies. owns_daily u (b_db b1) (d_id d)"
    "keys_ok (b_db b1)"
    using Cons.prems s(1) by (auto simp: owns_own ownD)
  from Cons.IH [OF rest this s(4) [OF Cons.prems(5)]] show ?case
    using s(1,2,3) own_trans by (auto split: if_splits)
qed simp

text \<open>The verdict of the \<open>k\<close>-th event of the order: a duplicate when its id was known before the batch
  or occurs earlier in the order.\<close>

lemma ingest_loop_status:
  assumes "ingest_loop env u habits dailies rates today xs b = Inr b'"
    and "\<forall>h \<in> set habits. owns_habit u (b_db b) (h_id h)" "\<forall>d \<in> set dailies. owns_daily u (b_db b) (d_id d)"
    and "keys_ok (b_db b)" "b_seen b \<subseteq> eids u (b_db b)" "distinct (map fst xs)" "k < length xs"
  shows "b_status b' (fst (xs ! k)) = Some (if ei_eid (snd (xs ! k)) \<in> b_seen b
      \<or> (\<exists>j<k. ei_eid (snd (xs ! j)) = ei_eid (snd (xs ! k))) then Duplicate else Applied)"
  using assms
proof (induction xs arbitrary: b k)
  case (Cons x xs)
  obtain b1 where one: "ingest_one env u habits dailies rates today (fst x, snd x) b = Inr b1"
    and rest: "ingest_loop env u habits dailies rates today xs b1 = Inr b'"
    using Cons.prems(1) by auto
  note s = ingest_one_step [OF one Cons.prems(2,3,4)]
  have pre: "\<forall>h \<in> set habits. owns_habit u (b_db b1) (h_id h)" "\<forall>d \<in> set dailies. owns_daily u (b_db b1) (d_id d)"
    "keys_ok (b_db b1)"
    using Cons.prems s(1) by (auto simp: owns_own ownD)
  show ?case
  proof (cases k)
    case 0
    have "b_status b' (fst x) = b_status b1 (fst x)"
      using ingest_loop_steps [OF rest pre s(4) [OF Cons.prems(5)]] Cons.prems(6) by auto
    then show ?thesis using 0 s(3) by simp
  next
    case (Suc k')
    have split: "(\<exists>j<k. ei_eid (snd ((x # xs) ! j)) = n) \<longleftrightarrow> ei_eid (snd x) = n \<or> (\<exists>j<k'. ei_eid (snd (xs ! j)) = n)" for n
      by (auto simp: Suc less_Suc_eq_0_disj)
    show ?thesis
      using Cons.IH [OF rest pre s(4) [OF Cons.prems(5)], of k'] Cons.prems(6,7)
      unfolding split by (auto simp: s(2) Suc)
  qed
qed simp

lemma ingest_loop_known:
  assumes "ei_eid ` set (map snd xs) \<subseteq> b_seen b"
  shows "ingest_loop env u habits dailies rates today xs b
    = Inr (b\<lparr>b_status := fold (\<lambda>x st. st(fst x \<mapsto> Duplicate)) xs (b_status b)\<rparr>)"
  using assms
proof (induction xs arbitrary: b)
  case (Cons x xs)
  then show ?case by (auto simp: ingest_one_def split: prod.splits)
qed simp

subsection \<open>The batch\<close>

lemma order_events_facts:
  "distinct (map fst (order_events events))" "length (order_events events) = length events"
  "k < length events \<Longrightarrow> fst (order_events events ! k) < length events \<and>
     snd (order_events events ! k) = events ! fst (order_events events ! k)"
  "ei_eid ` set (map snd (order_events events)) = ei_eid ` set events"
  "i < length events \<Longrightarrow> \<exists>k < length events. fst (order_events events ! k) = i"
proof -
  have m: "mset (order_events events) = mset (enumerate 0 events)" by (simp add: order_events_def)
  then have "mset (map fst (order_events events)) = mset (map fst (enumerate 0 events))" by (metis mset_map)
  then show d: "distinct (map fst (order_events events))"
    by (metis distinct_upt map_fst_enumerate mset_eq_imp_distinct_iff)
  show l: "length (order_events events) = length events" by (simp add: order_events_def)
  have s: "set (order_events events) = set (enumerate 0 events)" using m by (rule mset_eq_setD)
  show "fst (order_events events ! k) < length events \<and>
     snd (order_events events ! k) = events ! fst (order_events events ! k)" if "k < length events"
    using nth_mem [of k "order_events events"] that l s by (auto simp: in_set_enumerate_eq)
  show "ei_eid ` set (map snd (order_events events)) = ei_eid ` set events"
    using s by (simp add: image_image) (metis image_image list.set_map map_snd_enumerate)
  show "\<exists>k < length events. fst (order_events events ! k) = i" if "i < length events"
  proof -
    have "(i, events ! i) \<in> set (order_events events)" using that s by (simp add: in_set_enumerate_eq)
    then show ?thesis using l by (metis fst_conv in_set_conv_nth)
  qed
qed

lemma own_habits: "\<forall>h \<in> set (list_habits db u). owns_habit u db (h_id h)"
  by (auto simp: list_habits_def owns_habit_def owners_def)

lemma own_dailies: "\<forall>d \<in> set (list_dailies db u). owns_daily u db (d_id d)"
  by (auto simp: list_dailies_def owns_daily_def owners_def)

text \<open>What a successful call is made of.\<close>

lemma ingest_events_cases:
  assumes "ingest_events env u events db g = Inr (res, db', g')" "keys_ok db"
  obtains rates habits dailies start b where
    "load_rates db = Inr rates"
    "ingest_loop env u habits dailies rates (date_of (e_now env)) (order_events events) start = Inr b"
    "\<forall>h \<in> set habits. owns_habit u (b_db start) (h_id h)" "\<forall>d \<in> set dailies. owns_daily u (b_db start) (d_id d)"
    "keys_ok (b_db start)" "own u db (b_db start)" "own u db (b_db b)" "own u db db'" "own u (b_db b) db'"
    "b_seen start = existing_event_ids db u (map ei_eid events)" "b_status start = Map.empty"
    "res = batch_results events (b_status b)" "t_profiles (b_db start) u \<noteq> None" "ledger_unique db'"
    "b_seen start \<subseteq> eids u (b_db start)"
proof -
  define db0 where "db0 = put_profile u (profile_of db u) db"
  have o: "own u db db0" by (simp add: db0_def own_put_profile)
  have ex: "existing_event_ids db0 u (map ei_eid events) = existing_event_ids db u (map ei_eid events)"
    by (simp add: db0_def put_profile_def existing_event_ids_def)
  obtain rates where r: "load_rates db0 = Inr rates"
    using assms(1) by (auto simp: ingest_events_def get_or_create_profile_def Let_def db0_def)
  then have rates: "load_rates db = Inr rates" by (simp add: db0_def put_profile_def load_rates_def get_config_def)
  define habits where "habits = (if \<exists>e \<in> set events. ei_type e = ''habit_click'' \<or> ei_type e = ''focus_phase_completed''
    then list_habits db0 u else [])"
  define dailies where "dailies = (if \<exists>e \<in> set events. ei_type e = ''daily_check'' then list_dailies db0 u else [])"
  define start where "start = \<lparr>b_db = db0, b_rng = g, b_bonus = gear_stat_bonus db0 u,
    b_seen = existing_event_ids db0 u (map ei_eid events), b_budget = MAX_AUTO_CLICKS_PER_EVAL, b_status = Map.empty\<rparr>"
  have own: "\<forall>h \<in> set habits. owns_habit u db0 (h_id h)" "\<forall>d \<in> set dailies. owns_daily u db0 (d_id d)"
    using own_habits own_dailies by (auto simp: habits_def dailies_def)
  obtain b where loop: "ingest_loop env u habits dailies rates (date_of (e_now env)) (order_events events) start = Inr b"
    using assms(1) r unfolding ingest_events_def get_or_create_profile_def Let_def prod.case db0_def [symmetric]
      habits_def [symmetric] dailies_def [symmetric] start_def [symmetric] by auto
  define db1 where "db1 = (if \<exists>i < length events. b_status b i = Some Applied
    then post_score env u (Some (applied_types events (b_status b))) (b_db b) else b_db b)"
  have fin: "res = batch_results events (b_status b)" "db' = db1" "ledger_unique db1"
    using assms(1) r loop unfolding ingest_events_def get_or_create_profile_def Let_def prod.case db0_def [symmetric]
      habits_def [symmetric] dailies_def [symmetric] start_def [symmetric]
    by (auto simp: db1_def split: if_splits)
  have k0: "keys_ok db0" using o assms(2) by (simp add: ownD)
  have sub: "b_seen start \<subseteq> eids u (b_db start)" by (simp add: start_def existing_eids)
  have ob: "own u db0 (b_db b)"
    using ingest_loop_steps [OF loop] own k0 sub by (simp add: start_def)
  have od: "own u (b_db b) db1" by (simp add: db1_def own_post_score)
  show thesis
    using that [OF rates loop] own k0 o sub own_trans [OF o ob] od own_trans [OF own_trans [OF o ob] od] fin ex
    by (simp add: start_def db0_def put_profile_def)
qed

text \<open>C21: A batch is answered event by event, in the order submitted. Events count in client-timestamp
  order, submission order breaking ties: the first event with an id the ledger does not hold yet is applied,
  and every other one with the same id, in the batch or already stored, is reported a duplicate.\<close>

theorem batch_verdicts:
  assumes "ingest_events env u events db g = Inr (res, db', g')" "keys_ok db" "k < length events"
  shows "length res = length events \<and>
    res ! fst (order_events events ! k) = (ei_eid (snd (order_events events ! k)),
      Some (if ei_eid (snd (order_events events ! k)) \<in> existing_event_ids db u (map ei_eid events)
              \<or> (\<exists>j<k. ei_eid (snd (order_events events ! j)) = ei_eid (snd (order_events events ! k)))
            then Duplicate else Applied))"
proof -
  obtain rates habits dailies start b where
    c: "ingest_loop env u habits dailies rates (date_of (e_now env)) (order_events events) start = Inr b"
      "\<forall>h \<in> set habits. owns_habit u (b_db start) (h_id h)" "\<forall>d \<in> set dailies. owns_daily u (b_db start) (d_id d)"
      "keys_ok (b_db start)" "b_seen start \<subseteq> eids u (b_db start)"
    and s: "b_seen start = existing_event_ids db u (map ei_eid events)" "res = batch_results events (b_status b)"
    using ingest_events_cases [OF assms(1,2)] by metis
  have "k < length (order_events events)" using assms(3) order_events_facts(2) by simp
  from ingest_loop_status [OF c order_events_facts(1) this] order_events_facts(3) [OF assms(3)]
  show ?thesis
    by (simp add: s batch_results_def nth_enumerate_eq)
qed

text \<open>C7: Replaying a batch, at any later time and with any generator, succeeds, reports every event a
  duplicate, and leaves the database and the generator exactly as they were.\<close>

theorem batch_replay:
  assumes "ingest_events env u events db g = Inr (res, db', g')" "keys_ok db"
  shows "ingest_events env2 u events db' g2 = Inr (map (\<lambda>e. (ei_eid e, Some Duplicate)) events, db', g2)"
proof -
  obtain rates habits dailies start b where
    r: "load_rates db = Inr rates"
    and c: "ingest_loop env u habits dailies rates (date_of (e_now env)) (order_events events) start = Inr b"
      "\<forall>h \<in> set habits. owns_habit u (b_db start) (h_id h)" "\<forall>d \<in> set dailies. owns_daily u (b_db start) (d_id d)"
      "keys_ok (b_db start)" "b_seen start \<subseteq> eids u (b_db start)"
    and o: "own u db db'" "own u (b_db b) db'" "t_profiles (b_db start) u \<noteq> None" "ledger_unique db'"
    using ingest_events_cases [OF assms] by metis
  note st = ingest_loop_steps [OF c]
  have "ei_eid ` set events \<subseteq> eids u (b_db b)"
    using st order_events_facts(4) [of events] by (auto simp: image_comp [symmetric])
  then have known: "existing_event_ids db' u (map ei_eid events) = ei_eid ` set events"
    using eids_own [OF o(2)] by (auto simp: existing_eids)
  have "t_profiles db' u \<noteq> None" using st o ownD(6) by blast
  then have p: "put_profile u (profile_of db' u) db' = db'"
    by (auto simp: put_profile_def profile_of_def fun_upd_idem)
  have r': "load_rates db' = Inr rates" using r ownD(4) [OF o(1)] by (simp add: load_rates_def get_config_def)
  define f where "f = fold (\<lambda>x st. st(fst x \<mapsto> Duplicate)) (order_events events) (Map.empty :: nat \<rightharpoonup> status)"
  have fold: "fold (\<lambda>x st. st(fst x \<mapsto> Duplicate)) xs m i = (if i \<in> set (map fst xs) then Some Duplicate else m i)"
    for xs :: "(nat \<times> event_in) list" and m :: "nat \<rightharpoonup> status" and i
    by (induction xs arbitrary: m) auto
  have fi: "f i = Some Duplicate" if i: "i < length events" for i
  proof -
    obtain k where "k < length (order_events events)" "fst (order_events events ! k) = i"
      using order_events_facts(5) [OF i] order_events_facts(2) [of events] by auto
    then have "i \<in> set (map fst (order_events events))" by (metis image_eqI list.set_map nth_mem)
    then show ?thesis by (simp only: f_def fold if_True)
  qed
  have res: "batch_results events f = map (\<lambda>e. (ei_eid e, Some Duplicate)) events"
    by (rule nth_equalityI) (use fi in \<open>simp_all add: batch_results_def nth_enumerate_eq\<close>)
  have "ei_eid ` set (map snd (order_events events)) \<subseteq> existing_event_ids db' u (map ei_eid events)"
    by (simp only: known order_events_facts(4) order_refl)
  then show ?thesis
    by (simp add: ingest_events_def get_or_create_profile_def Let_def p r' ingest_loop_known f_def [symmetric] fi res o(4)
        cong: conj_cong)
qed

text \<open>C18: Ingesting a user's batch touches no row of anybody else: every other user's profile, ledger, habits,
  dailies, marks, gear, achievements, sessions, notifications and sends are as before. The user's ledger only
  grows, keeps one row per client event id, and the tables' keys stay sound.\<close>

theorem ingest_isolated:
  assumes "ingest_events env u events db g = Inr (res, db', g')" "keys_ok db"
  shows "untouched u db db' \<and> ledger_unique db' \<and> keys_ok db' \<and>
    (\<exists>evs. t_events db' = t_events db @ evs \<and> (\<forall>e \<in> set evs. ev_user e = u))"
proof -
  have o: "own u db db'" and l: "ledger_unique db'" using ingest_events_cases [OF assms] by metis+
  have un: "untouched u db db'" using o by (rule ownD)
  obtain evs where evs: "t_events db' = t_events db @ evs" using o by (auto simp: own_def)
  then have "filter (\<lambda>e. ev_user e \<noteq> u) evs = []" using un by (simp add: untouched_def)
  then show ?thesis
    using un l o assms(2) evs by (auto simp: ownD filter_empty_conv)
qed

subsection \<open>Witnesses\<close>

text \<open>Three clicks on a habit nobody has: two share an id, and the batch is out of order.\<close>

definition sample_env :: env where
  "sample_env = \<lparr>e_pf = \<lparr>pow_fn = (\<lambda>b v. Inr 1), repr_fn = (\<lambda>_. ''?'')\<rparr>, e_now = seconds 100, e_zone = (\<lambda>_. None),
     e_digest = (\<lambda>s. s)\<rparr>"

definition stray_click :: "string \<Rightarrow> int \<Rightarrow> event_in" where
  "stray_click eid ts = \<lparr>ei_eid = eid, ei_type = ''habit_click'', ei_payload = [(''habit_id'', JInt 7)], ei_ts = ts\<rparr>"

definition sample_batch :: "event_in list" where
  "sample_batch = [stray_click ''a'' 5, stray_click ''a'' 3, stray_click ''b'' 4]"

definition two_users :: db where
  "two_users = empty_db\<lparr>t_profiles := [1 \<mapsto> new_profile, 2 \<mapsto> new_profile]\<rparr>"

definition sample_gen :: "nat \<Rightarrow> rng" where
  "sample_gen n = \<lparr>rng_roll = (\<lambda>_. 1), rng_pick = (\<lambda>_. 0), rng_pos = n\<rparr>"

lemma sample_order: "order_events sample_batch = [(1, stray_click ''a'' 3), (2, stray_click ''b'' 4), (0, stray_click ''a'' 5)]"
  by (simp add: order_events_def sample_batch_def stray_click_def)

lemma two_users_ok: "keys_ok two_users"
  by (simp add: keys_ok_def two_users_def empty_db_def)

lemma stray_step:
  "ingest_one env 1 [] [] rates today (i, stray_click eid ts) b = Inr (if eid \<in> b_seen b
     then b\<lparr>b_status := (b_status b)(i \<mapsto> Duplicate)\<rparr>
     else mark_applied 1 i (stray_click eid ts) (b\<lparr>b_db := record_unscored 1 (stray_click eid ts) ''habit_unresolvable'' (b_db b)\<rparr>))"
  by (simp add: ingest_one_def ingest_habit_click_def habit_for_event_def stray_click_def int_key_def dict_get_def refresh_bonus_def)

lemma sample_ingest:
  "\<exists>db' g'. ingest_events sample_env 1 sample_batch two_users g
     = Inr ([(''a'', Some Duplicate), (''a'', Some Applied), (''b'', Some Applied)], db', g')"
proof -
  define rec where "rec eid ts = record_unscored 1 (stray_click eid ts) ''habit_unresolvable''" for eid ts
  define db1 where "db1 = rec ''b'' 4 (rec ''a'' 3 two_users)"
  define st where "st = [1 \<mapsto> Applied, 2 \<mapsto> Applied, (0::nat) \<mapsto> Duplicate]"
  define post where "post = post_score sample_env 1 (Some (applied_types sample_batch st)) db1"
  have p: "put_profile 1 (profile_of two_users 1) two_users = two_users"
    by (simp add: put_profile_def two_users_def profile_of_def fun_upd_twist)
  have r: "load_rates two_users = Inr default_rates"
    by (simp add: load_rates_def get_config_def two_users_def empty_db_def from_dict_def)
  have h: "list_habits two_users 1 = []" "existing_event_ids two_users 1 ids = {}" for ids
    by (simp_all add: list_habits_def existing_event_ids_def two_users_def empty_db_def)
  have auto_off: "auto_distribute 1 (rec eid ts db) = rec eid ts db" if "t_profiles db = t_profiles two_users" for eid ts db
    using that by (simp add: auto_distribute_def profile_of_def two_users_def new_profile_def rec_def record_unscored_def add_event_def)
  have prof: "t_profiles (rec eid ts db) = t_profiles db" for eid ts db
    by (simp add: rec_def record_unscored_def add_event_def)
  have batch: "sample_batch ! 0 = stray_click ''a'' 5" "sample_batch ! 1 = stray_click ''a'' 3" "sample_batch ! 2 = stray_click ''b'' 4"
    "length sample_batch = 3" by (simp_all add: sample_batch_def numeral_3_eq_3)
  have eid: "ei_eid (stray_click eid ts) = eid" for eid ts by (simp add: stray_click_def)
  have loop: "ingest_loop sample_env 1 [] [] default_rates day (order_events sample_batch)
      \<lparr>b_db = two_users, b_rng = g, b_bonus = bs, b_seen = {}, b_budget = n, b_status = Map.empty\<rparr>
      = Inr \<lparr>b_db = db1, b_rng = g, b_bonus = bs, b_seen = {''a'', ''b''}, b_budget = n, b_status = st\<rparr>" for bs n day
    by (simp add: sample_order stray_step mark_applied_def rec_def [symmetric] auto_off prof db1_def st_def
        insert_commute eid)
  have lu: "ledger_unique post"
    by (simp add: ledger_unique_def post_def) (simp add: db1_def rec_def record_unscored_def add_event_def two_users_def empty_db_def stray_click_def)
  have res: "batch_results sample_batch st = [(''a'', Some Duplicate), (''a'', Some Applied), (''b'', Some Applied)]"
    by (simp add: batch_results_def sample_batch_def st_def stray_click_def)
  have t: "(\<exists>e \<in> set sample_batch. ei_type e = ''daily_check'') = False"
    by (simp add: sample_batch_def stray_click_def)
  have ap: "\<exists>i < length sample_batch. st i = Some Applied" by (rule exI [of _ 1]) (simp add: batch(4) st_def)
  show ?thesis
    using ap by (simp add: ingest_events_def get_or_create_profile_def Let_def p r h t loop res post_def [symmetric] lu)
qed

theorem batch_verdicts_witness:
  "\<exists>db' g'. ingest_events sample_env 1 sample_batch two_users (sample_gen 0) =
      Inr ([(''a'', Some Duplicate), (''a'', Some Applied), (''b'', Some Applied)], db', g') \<and>
    order_events sample_batch ! 2 = (0, stray_click ''a'' 5) \<and>
    (''a'' \<in> existing_event_ids two_users 1 (map ei_eid sample_batch)
       \<or> (\<exists>j<2. ei_eid (snd (order_events sample_batch ! j)) = ''a''))"
proof -
  obtain db' g' where i: "ingest_events sample_env 1 sample_batch two_users (sample_gen 0) =
      Inr ([(''a'', Some Duplicate), (''a'', Some Applied), (''b'', Some Applied)], db', g')"
    using sample_ingest by blast
  have "2 < length sample_batch" by (simp add: sample_batch_def)
  from batch_verdicts [OF i two_users_ok this] i show ?thesis
    by (auto simp: sample_order stray_click_def split: if_splits)
qed

theorem batch_replay_witness:
  "\<exists>res db' g'. ingest_events sample_env 1 sample_batch two_users (sample_gen 0) = Inr (res, db', g') \<and>
    ingest_events sample_env 1 sample_batch db' (sample_gen 1) =
      Inr ([(''a'', Some Duplicate), (''a'', Some Duplicate), (''b'', Some Duplicate)], db', sample_gen 1)"
proof -
  obtain db' g' where i: "ingest_events sample_env 1 sample_batch two_users (sample_gen 0) =
      Inr ([(''a'', Some Duplicate), (''a'', Some Applied), (''b'', Some Applied)], db', g')"
    using sample_ingest by blast
  from batch_replay [OF i two_users_ok, of sample_env "sample_gen 1"] i show ?thesis
    by (auto simp: sample_batch_def stray_click_def)
qed

theorem ingest_isolated_witness:
  "\<exists>res db' g'. ingest_events sample_env 1 sample_batch two_users (sample_gen 0) = Inr (res, db', g') \<and>
    t_profiles db' 2 = Some new_profile"
proof -
  obtain db' g' where i: "ingest_events sample_env 1 sample_batch two_users (sample_gen 0) =
      Inr ([(''a'', Some Duplicate), (''a'', Some Applied), (''b'', Some Applied)], db', g')"
    using sample_ingest by blast
  from ingest_isolated [OF i two_users_ok] have "t_profiles db' 2 = t_profiles two_users 2" by (simp add: untouched_def)
  with i show ?thesis by (auto simp: two_users_def)
qed

end
