(* ===== verification/SessionServiceLaws.thy ===== *)
theory SessionServiceLaws
  imports IngestLaws SessionLaws
begin

text \<open>
  What the session service guarantees: the ids of its ledger rows, the soundness of every stored
  session under every call, one active session per user, and nobody else's rows touched.
\<close>

subsection \<open>Persisting steps\<close>

definition habits_owned :: "int \<Rightarrow> db \<Rightarrow> habit list option \<Rightarrow> bool" where
  "habits_owned u db habits \<longleftrightarrow> (\<forall>hs. habits = Some hs \<longrightarrow> (\<forall>h \<in> set hs. owns_habit u db (h_id h)))"

lemma habits_owned_own: "own u a b \<Longrightarrow> habits_owned u b habits = habits_owned u a habits"
  by (simp add: habits_owned_def owns_own)

lemma score_step_own:
  assumes "score_step env u st t payload rates rp = Inr (oc, day, rp')" "keys_ok (rp_db rp)"
  shows "own u (rp_db rp) (rp_db rp')"
proof -
  have s: "own u (rp_db rp) (notify_score_outcome env u h oc2 db1)"
    "own u (rp_db rp) (notify_phase_end env u ts mins (notify_score_outcome env u h oc2 db1))"
    "own u (rp_db rp) (notify_record_set env u pl (notify_score_outcome env u h oc2 db1))"
    "own u (rp_db rp) (notify_record_set env u pl (notify_phase_end env u ts mins (notify_score_outcome env u h oc2 db1)))"
    if "resolve_death_gear u oc0 (put_profile u p (rp_db rp)) g1 = (oc1, db1, g2)" for oc0 oc1 oc2 p db1 g1 g2 h ts mins pl
    using own_scored [OF that assms(2)] own_trans own_notify(2,3) by meson+
  show ?thesis
    using assms(1) by (auto simp: score_step_def Let_def intro!: s split: prod.splits sum.splits)
qed

lemma auto_click_bound_own:
  assumes "auto_click_bound env u rates day src ts habits sx budget bs db g = (res, db', g')"
    and "habits_owned u db habits" "keys_ok db"
  shows "own u db db'"
proof -
  have "\<forall>h \<in> set (case habits of Some hs \<Rightarrow> hs | None \<Rightarrow> list_habits db u). owns_habit u db (h_id h)"
    using assms(2) by (auto simp: habits_owned_def list_habits_def owns_habit_def owners_def split: option.splits)
  then show ?thesis
    using assms(1,3) own_auto_click_loop unfolding auto_click_bound_def by blast
qed

lemma persist_step_own:
  assumes "persist_step env s u st i wp rates habits rp = Inr (oc, rp')"
    and "habits_owned u (rp_db rp) habits" "keys_ok (rp_db rp)"
  shows "own u (rp_db rp) (rp_db rp')"
proof (cases "fst (event_for st s)")
  case None
  then show ?thesis using assms(1) by (cases "event_for st s") (auto simp: persist_step_def)
next
  case (Some t)
  obtain payload where ev: "event_for st s = (Some t, payload)" using Some by (cases "event_for st s") auto
  define eid where "eid = step_id env s i st"
  show ?thesis
  proof (cases "eid \<in> rp_seen rp")
    case True
    then show ?thesis using assms(1) by (simp add: persist_step_def ev eid_def)
  next
    case False
    define rp0 where "rp0 = rp\<lparr>rp_seen := insert eid (rp_seen rp)\<rparr>"
    define scores where "scores = (wp \<and> t \<in> set SCORED_TYPES)"
    define row where "row oc1 = \<lparr>ev_user = u, ev_eid = eid, ev_type = t, ev_payload = payload, ev_outcome = oc1, ev_ts = st_at st\<rparr>" for oc1
    define after where "after oc1 rp1 = rp1\<lparr>rp_db := add_event (row oc1) (rp_db rp1)\<rparr>" for oc1 and rp1 :: replay
    define fan where "fan oc1 day rp2 = (if scores \<and> t = ''focus_phase_completed'' \<and> scored oc1 then
          (case auto_click_bound env u rates day eid (st_at st) habits [(''session_id'', JInt (s_id s))]
              (Some (rp_budget rp2)) (rp_bonus rp2) (rp_db rp2) (rp_rng rp2) of
             (Inl e, _, _) \<Rightarrow> Inl e
           | (Inr spent, db2, g2) \<Rightarrow> Inr (rp2\<lparr>rp_db := db2, rp_rng := g2, rp_budget := rp_budget rp2 - spent\<rparr>))
        else Inr rp2)" for oc1 day and rp2 :: replay
    have "bind_r (if scores then score_step env u st t payload rates rp0 else Inr (no_outcome\<lparr>o_scored := Some False\<rparr>, 0, rp0))
        (\<lambda>(oc, day, rp1). bind_r (fan oc day (after oc rp1))
          (\<lambda>rp3. Inr (Some oc, if wp then rp3\<lparr>rp_db := auto_distribute u (rp_db rp3)\<rparr> else rp3))) = Inr (oc, rp')"
      using assms(1) False
      unfolding persist_step_def ev prod.case option.case Let_def eid_def [symmetric] rp0_def [symmetric]
        scores_def [symmetric] row_def [symmetric] after_def [symmetric] fan_def [symmetric] by simp
    then obtain oc1 day rp1 rp3 where sc: "(if scores then score_step env u st t payload rates rp0
        else Inr (no_outcome\<lparr>o_scored := Some False\<rparr>, 0, rp0)) = Inr (oc1, day, rp1)"
      and fan: "fan oc1 day (after oc1 rp1) = Inr rp3"
      and rp': "rp' = (if wp then rp3\<lparr>rp_db := auto_distribute u (rp_db rp3)\<rparr> else rp3)"
      unfolding bind_r_eq_Inr by auto
    define rp2 where "rp2 = after oc1 rp1"
    have add: "own u (rp_db rp1) (rp_db rp2)" by (simp add: rp2_def after_def row_def own_add_event)
    have "own u (rp_db rp) (rp_db rp1)"
      using sc score_step_own [of env u st t payload rates rp0] assms(3) by (auto simp: rp0_def split: if_splits)
    from own_trans [OF this add] have o2: "own u (rp_db rp) (rp_db rp2)" .
    have o3: "own u (rp_db rp2) (rp_db rp3)"
      using fan auto_click_bound_own [where db = "rp_db rp2"] o2 assms(2,3) unfolding rp2_def [symmetric]
      by (auto simp: fan_def habits_owned_own ownD split: if_splits prod.splits sum.splits)
    show ?thesis
      using own_trans [OF o2 o3] own_trans [OF _ own_post_score(1)] by (simp add: rp')
  qed
qed

lemma persist_steps_own:
  "persist_steps env s u wp rates habits i sts rp = Inr rp' \<Longrightarrow> habits_owned u (rp_db rp) habits \<Longrightarrow>
     keys_ok (rp_db rp) \<Longrightarrow> own u (rp_db rp) (rp_db rp')"
proof (induction sts arbitrary: i rp)
  case (Cons st sts)
  obtain oc rp1 where one: "persist_step env s u st i wp rates habits rp = Inr (oc, rp1)"
    and rest: "persist_steps env s u wp rates habits (Suc i) sts (regear u oc rp1) = Inr rp'"
    using Cons.prems(1) by auto
  have db: "rp_db (regear u oc rp1) = rp_db rp1" by (simp add: regear_def split: option.splits)
  note o = persist_step_own [OF one Cons.prems(2,3)]
  show ?case
    using own_trans [OF o] Cons.IH [OF rest] o Cons.prems(2,3) by (simp add: db habits_owned_own ownD)
qed simp

subsection \<open>Sound sessions\<close>

text \<open>Every stored session is sound at the instant, nobody has two active ones, the keys are.\<close>

definition sessions_sound :: "datetime \<Rightarrow> db \<Rightarrow> bool" where
  "sessions_sound t db \<longleftrightarrow> keys_ok db \<and> ledger_unique db
     \<and> (\<forall>s \<in> set (t_sessions db). sess_ok t s (t_phases db (s_id s)))
     \<and> (\<forall>s \<in> set (t_sessions db). \<forall>s' \<in> set (t_sessions db). s_status s = S_ACTIVE \<longrightarrow> s_status s' = S_ACTIVE \<longrightarrow>
          s_user s = s_user s' \<longrightarrow> s = s')"

text \<open>What every call leaves of everybody's rows.\<close>

definition served :: "int \<Rightarrow> db \<Rightarrow> db \<Rightarrow> bool" where
  "served u a b \<longleftrightarrow> untouched u a b \<and> (\<exists>evs. t_events b = t_events a @ evs)"

lemma served_trans: "served u a b \<Longrightarrow> served u b c \<Longrightarrow> served u a c"
  unfolding served_def using untouched_trans by fastforce

lemma served_own: "own u a b \<Longrightarrow> served u a b"
  by (simp add: served_def own_def)

lemma sessions_sound_later: "sessions_sound t db \<Longrightarrow> t \<le> t' \<Longrightarrow> sessions_sound t' db"
  using sess_ok_later by (auto simp: sessions_sound_def)

lemma sessions_sound_own:
  "sessions_sound t a \<Longrightarrow> own u a b \<Longrightarrow> ledger_unique b \<Longrightarrow> sessions_sound t b"
  by (simp add: sessions_sound_def ownD)

lemma put_session_mem:
  assumes "s0 \<in> set (t_sessions db)" "s_id s = s_id s0"
  shows "s \<in> set (t_sessions (put_session s ps db))" "t_phases (put_session s ps db) (s_id s) = ps"
  using assms by (auto simp: put_session_def update_where_def image_iff)

lemma put_session_sound:
  assumes "sessions_sound t db" "s0 \<in> set (t_sessions db)" "same_run s0 s" "sess_ok t s ps"
    and "s_status s = S_ACTIVE \<longrightarrow> s_status s0 = S_ACTIVE"
  shows "sessions_sound t (put_session s ps db)"
proof -
  note f = same_run_fields(4,5) [OF assms(3)]
  define db' where "db' = put_session s ps db"
  have rows: "t_sessions db' = map (\<lambda>r. if s_id r = s_id s0 then s else r) (t_sessions db)"
    by (simp add: db'_def put_session_def update_where_def f)
  have ids: "map s_id (t_sessions db') = map s_id (t_sessions db)" by (simp add: rows f)
  have one: "r = s0" if "r \<in> set (t_sessions db)" "s_id r = s_id s0" for r
    using assms(1,2) that by (auto simp: sessions_sound_def keys_ok_def distinct_map inj_on_def)
  have mem: "r' = s \<and> r = s0 \<or> r' = r \<and> s_id r \<noteq> s_id s0"
    if "r \<in> set (t_sessions db)" "r' = (if s_id r = s_id s0 then s else r)" for r r'
    using that one by auto
  have ps: "t_phases db' = (t_phases db)(s_id s0 := ps)" by (simp add: db'_def put_session_def f)
  have "sess_ok t r (t_phases db' (s_id r))" if "r \<in> set (t_sessions db')" for r
    using that assms(1,4) f by (auto simp: rows ps sessions_sound_def split: if_splits)
  moreover have "keys_ok db'"
  proof -
    have k: "keys_ok db" "s_id s0 < t_next_id db" using assms(1,2) by (auto simp: sessions_sound_def keys_ok_def)
    have nid: "t_next_id db' = t_next_id db" by (simp add: db'_def put_session_def)
    have "distinct (map s_id (t_sessions db'))" using k ids by (simp add: keys_ok_def)
    moreover have "\<forall>r \<in> set (t_sessions db'). s_id r < t_next_id db'"
      using k f nid by (auto simp: rows keys_ok_def)
    moreover have "\<forall>i \<ge> t_next_id db'. t_phases db' i = []"
      using k nid by (auto simp: ps keys_ok_def)
    ultimately show ?thesis using k by (simp add: keys_ok_def) (simp add: db'_def put_session_def)
  qed
  moreover have "ledger_unique db'"
    using assms(1) by (simp add: sessions_sound_def ledger_unique_def db'_def put_session_def)
  moreover have "r = r'" if rr: "r \<in> set (t_sessions db')" "r' \<in> set (t_sessions db')" "s_status r = S_ACTIVE"
    "s_status r' = S_ACTIVE" "s_user r = s_user r'" for r r'
  proof -
    obtain a a' where a: "a \<in> set (t_sessions db)" "a' \<in> set (t_sessions db)"
      "r = (if s_id a = s_id s0 then s else a)" "r' = (if s_id a' = s_id s0 then s else a')"
      using rr(1,2) by (auto simp: rows)
    have "s_status a = S_ACTIVE" "s_status a' = S_ACTIVE" "s_user a = s_user a'"
      using a mem [of a r] mem [of a' r'] rr f assms(5) by metis+
    then have "a = a'" using assms(1) a by (simp add: sessions_sound_def)
    then show ?thesis using a by simp
  qed
  ultimately show ?thesis unfolding sessions_sound_def db'_def by blast
qed

lemma put_session_served:
  assumes "s0 \<in> set (t_sessions db)" "same_run s0 s" "s_user s0 = u" "keys_ok db"
  shows "served u db (put_session s ps db)"
proof -
  note f = same_run_fields(4,5) [OF assms(2)]
  have mine: "s_user r = u" if "r \<in> set (t_sessions db)" "s_id r = s_id s0" for r
    using assms that by (auto simp: keys_ok_def distinct_map inj_on_def)
  have "filter (\<lambda>r. s_user r \<noteq> u) (update_where (\<lambda>r. s_id r = s_id s) (\<lambda>_. s) (t_sessions db)) = filter (\<lambda>r. s_user r \<noteq> u) (t_sessions db)"
    using mine f assms(3) by (intro filter_update_mine) auto
  moreover have "session_ids_of u (put_session s ps db) = session_ids_of u db"
    using mine f assms(1,3) by (auto simp: session_ids_of_def put_session_def update_where_def image_iff) metis+
  moreover have "s_id s \<in> session_ids_of u db"
    using f assms(1,3) by (auto simp: session_ids_of_def)
  ultimately show ?thesis
    by (auto simp: served_def untouched_def daily_ids_of_def) (auto simp: put_session_def)
qed

subsection \<open>The calls\<close>

lemma own_habits_bound: "habits_owned u db (if b then Some (filter h_bind_focus (list_habits db u)) else None)"
  by (auto simp: habits_owned_def list_habits_def owns_habit_def owners_def)

lemma replay_cases:
  assumes "replay_session env s0 u need db g = Inr (s, ps, db', g')"
  obtains steps where "SessionEngine.evaluate s0 (t_phases db (s_id s0)) (e_now env) = (s, ps, steps)"
    and "db' = put_session s ps db \<or> (keys_ok (put_session s ps db) \<longrightarrow> own u (put_session s ps db) db') \<and> ledger_unique db'"
proof -
  obtain s1 ps1 steps where ev: "SessionEngine.evaluate s0 (t_phases db (s_id s0)) (e_now env) = (s1, ps1, steps)"
    by (metis prod_cases3)
  define db1 where "db1 = put_session s1 ps1 db"
  show thesis
  proof (cases "steps @ need = []")
    case True
    then have "s = s1" "ps = ps1" "db' = db1" using assms ev by (auto simp: replay_session_def Let_def db1_def)
    then show thesis using that ev by (auto simp: db1_def)
  next
    case False
    define all where "all = steps @ need"
    define wp where "wp = needs_profile all"
    define db2 where "db2 = (if wp then snd (get_or_create_profile db1 u) else db1)"
    define habits where "habits = (if needs_habits all then Some (filter h_bind_focus (list_habits db2 u)) else None)"
    define rp where "rp = \<lparr>rp_db = db2, rp_rng = g,
      rp_seen = existing_event_ids db2 u (map (\<lambda>(i, st). step_id env s1 i st) (enumerate 0 all)),
      rp_budget = MAX_AUTO_CLICKS_PER_EVAL, rp_bonus = (if wp then Some (gear_stat_bonus db2 u) else None)\<rparr>"
    have "bind_r (load_rates db1) (\<lambda>rates. bind_r (persist_steps env s1 u wp rates habits 0 all rp) (\<lambda>rp'.
        let db3 = (if wp then post_score env u (Some (emitted_types s1 all)) (rp_db rp') else rp_db rp')
        in if ledger_unique db3 then Inr (s1, ps1, db3, rp_rng rp') else Inl IntegrityError)) = Inr (s, ps, db', g')"
      using assms False unfolding replay_session_def ev prod.case Let_def db1_def [symmetric] all_def [symmetric]
        wp_def [symmetric] db2_def [symmetric] habits_def [symmetric] rp_def [symmetric] by simp
    then obtain rates rp' where p: "persist_steps env s1 u wp rates habits 0 all rp = Inr rp'"
      and db': "db' = (if wp then post_score env u (Some (emitted_types s1 all)) (rp_db rp') else rp_db rp')"
      and out: "s = s1" "ps = ps1" "ledger_unique db'"
      by (auto simp: Let_def split: if_splits)
    have "own u db1 db'" if k: "keys_ok db1"
    proof -
      have o2: "own u db1 db2" by (simp add: db2_def get_or_create_profile_def own_put_profile)
      have "own u db2 (rp_db rp')"
        using persist_steps_own [OF p] o2 k by (simp add: rp_def habits_def own_habits_bound ownD)
      with o2 have "own u db1 (rp_db rp')" by (rule own_trans)
      then show ?thesis using own_trans own_post_score(2) by (auto simp: db')
    qed
    then show thesis using that ev out by (auto simp: db1_def)
  qed
qed

lemma replay_sound:
  assumes "replay_session env s0 u need db g = Inr (s, ps, db', g')" "sessions_sound t db" "t \<le> e_now env"
    and "s0 \<in> set (t_sessions db)" "s_user s0 = u"
  shows "sessions_sound (e_now env) db' \<and> served u db db' \<and> s \<in> set (t_sessions db') \<and>
    t_phases db' (s_id s) = ps \<and> s_user s = u"
proof -
  obtain steps where ev: "SessionEngine.evaluate s0 (t_phases db (s_id s0)) (e_now env) = (s, ps, steps)"
    and db': "db' = put_session s ps db \<or> (keys_ok (put_session s ps db) \<longrightarrow> own u (put_session s ps db) db') \<and> ledger_unique db'"
    using replay_cases [OF assms(1)] by metis
  have snd: "sessions_sound (e_now env) db" using sessions_sound_later [OF assms(2,3)] .
  then have "sess_ok (e_now env) s0 (t_phases db (s_id s0))" using assms(4) by (simp add: sessions_sound_def)
  note st = evaluate_in_step [OF this ev]
  then have run: "same_run s0 s" and ok: "sess_ok (e_now env) s ps" and act: "s_status s = S_ACTIVE \<longrightarrow> s_status s0 = S_ACTIVE"
    by (auto simp: in_step_def)
  note mem = put_session_mem [OF assms(4) same_run_fields(4) [OF run]]
  have psnd: "sessions_sound (e_now env) (put_session s ps db)" by (rule put_session_sound [OF snd assms(4) run ok act])
  have psrv: "served u db (put_session s ps db)"
    using put_session_served [OF assms(4) run assms(5)] assms(2) by (simp add: sessions_sound_def)
  have us: "s_user s = u" using same_run_fields(5) [OF run] assms(5) by simp
  show ?thesis
  proof (cases "db' = put_session s ps db")
    case True
    then show ?thesis using psnd psrv mem us by simp
  next
    case False
    then have o: "own u (put_session s ps db) db'" and l: "ledger_unique db'"
      using db' psnd by (auto simp: sessions_sound_def)
    show ?thesis
      using sessions_sound_own [OF psnd o l] served_trans [OF psrv served_own [OF o]] mem us o by (simp add: ownD)
  qed
qed

lemma profile_first:
  assumes "sessions_sound t db"
  shows "own u db (snd (get_or_create_profile db u))" "sessions_sound t (snd (get_or_create_profile db u))"
proof -
  show o: "own u db (snd (get_or_create_profile db u))" by (simp add: get_or_create_profile_def own_put_profile)
  have "ledger_unique (snd (get_or_create_profile db u))"
    using assms by (simp add: sessions_sound_def ledger_unique_def get_or_create_profile_def put_profile_def)
  with o show "sessions_sound t (snd (get_or_create_profile db u))" by (rule sessions_sound_own [OF assms])
qed

lemma locked_session_mem:
  assumes "locked_session db u sid = Inr s"
  shows "s \<in> set (t_sessions db)" "s_user s = u"
  using assms by (auto simp: locked_session_def get_session_def find_Some_iff split: option.splits)

text \<open>Every verb of the service, through the contract of its engine's verb.\<close>

lemma locked_call_sound:
  assumes call: "locked_call env u sid guard verb db g = Inr (s, ps, db', g')"
    and verb: "\<And>d s ps out. sess_ok (e_now env) s ps \<Longrightarrow> s_status s = S_ACTIVE \<Longrightarrow> verb d s ps (e_now env) = Inr out \<Longrightarrow>
      honours (e_now env) s ps out"
    and snd: "sessions_sound t db" "t \<le> e_now env"
  shows "sessions_sound (e_now env) db' \<and> served u db db'"
proof -
  define db0 where "db0 = snd (get_or_create_profile db u)"
  note p = profile_first [OF snd(1), of u, folded db0_def]
  obtain s0 s1 ps1 db1 g1 where s0: "locked_session db0 u sid = Inr s0"
    and r1: "replay_session env s0 u [] db0 g = Inr (s1, ps1, db1, g1)"
    and rest: "(if s_status s1 \<noteq> S_ACTIVE then Inr (s1, ps1, db1, g1)
        else bind_r (verb db1 s1 ps1 (e_now env)) (\<lambda>(s', phases', steps).
          if steps = [] then Inr (s', phases', put_session s' phases' db1, g1)
          else replay_session env s' u steps (put_session s' phases' db1) g1)) = Inr (s, ps, db', g')"
    using call by (auto simp: locked_call_def db0_def [symmetric] split: if_splits)
  note r = replay_sound [OF r1 p(2) snd(2) locked_session_mem [OF s0]]
  have srv1: "served u db db1" using served_trans [OF served_own [OF p(1)]] r by blast
  show ?thesis
  proof (cases "s_status s1 = S_ACTIVE")
    case False
    then show ?thesis using rest r srv1 by simp
  next
    case True
    then obtain s2 ps2 steps where v: "verb db1 s1 ps1 (e_now env) = Inr (s2, ps2, steps)"
      and tail: "(if steps = [] then Inr (s2, ps2, put_session s2 ps2 db1, g1)
          else replay_session env s2 u steps (put_session s2 ps2 db1) g1) = Inr (s, ps, db', g')"
      using rest by auto
    have "sess_ok (e_now env) s1 ps1" using r by (auto simp: sessions_sound_def)
    from verb [OF this True v] have h: "sess_ok (e_now env) s2 ps2" "same_run s1 s2" by (simp_all add: honours_def)
    have psnd: "sessions_sound (e_now env) (put_session s2 ps2 db1)"
      using put_session_sound [OF _ _ h(2,1)] r True by blast
    have psrv: "served u db (put_session s2 ps2 db1)"
      using served_trans [OF srv1 put_session_served [OF _ h(2)]] r by (simp add: sessions_sound_def)
    have mem: "s2 \<in> set (t_sessions (put_session s2 ps2 db1))" "s_user s2 = u"
      using put_session_mem [OF _ same_run_fields(4) [OF h(2)]] same_run_fields(5) [OF h(2)] r by auto
    show ?thesis
    proof (cases "steps = []")
      case True
      then show ?thesis using tail psnd psrv by auto
    next
      case False
      then show ?thesis
        using tail replay_sound [OF _ psnd order_refl mem] served_trans [OF psrv] by simp
    qed
  qed
qed

subsection \<open>Starting\<close>

text \<open>The bounds the request schema puts on a plan.\<close>

definition req_ok :: "session_start \<Rightarrow> bool" where
  "req_ok req \<longleftrightarrow> 0 \<le> q_pause_budget_count req \<and> 0 \<le> q_pause_budget_seconds req
     \<and> (\<forall>(k, m) \<in> set (q_phases req). (k = FOCUS \<or> k = BREAK) \<and> 0 \<le> m)
     \<and> (\<forall>k m. q_speedrun req = Some (k, Some m) \<longrightarrow> 0 \<le> m)"

lemma plan_ok:
  assumes "plan req = Inr pl" "req_ok req"
  shows "\<forall>(k, n) \<in> set pl. 0 \<le> n \<and> (k = STOPWATCH \<or> k = SPEEDRUN \<longrightarrow> length pl = 1)"
proof -
  have "\<forall>(k, n) \<in> set (map (\<lambda>(k, minutes). (k, minutes * 60)) (q_phases req)).
      0 \<le> n \<and> (k = STOPWATCH \<or> k = SPEEDRUN \<longrightarrow> length pl = 1)"
    using assms(2) by (fastforce simp: req_ok_def)
  then show ?thesis
    using assms unfolding plan_def speedrun_plan_def
    by (auto simp: req_ok_def split: if_splits option.splits speedrun_kind.splits)
qed

text \<open>The phases of a new session are numbered apart: the hypothesis of \<open>session_ledger\<close>.\<close>

lemma start_phases_numbered: "distinct (map ph_seq (map (planned_phase now) (enumerate 0 pl)))"
proof -
  have "ph_seq \<circ> planned_phase now = int \<circ> fst" by (auto simp: planned_phase_def)
  then have "map ph_seq (map (planned_phase now) (enumerate 0 pl)) = map int (map fst (enumerate 0 pl))" by (simp only: map_map)
  then show ?thesis by (simp only: map_fst_enumerate) (simp add: distinct_map)
qed

lemma start_phases_ok:
  assumes "\<forall>(k, n) \<in> set pl. 0 \<le> n \<and> (k = STOPWATCH \<or> k = SPEEDRUN \<longrightarrow> length pl = 1)"
    and "0 \<le> pause_budget_count s" "0 \<le> pause_budget_seconds s"
  shows "phases_ok now s (map (planned_phase now) (enumerate 0 pl))"
proof -
  define ps where "ps = map (planned_phase now) (enumerate 0 pl)"
  have n: "length ps = length pl" by (simp add: ps_def)
  have i: "ps ! i = planned_phase now (i, pl ! i)" if "i < length pl" for i
    using that by (simp add: ps_def nth_enumerate_eq)
  have el: "\<exists>i < length pl. p = planned_phase now (i, pl ! i)" if "p \<in> set ps" for p
    using that i n by (metis in_set_conv_nth)
  have one: "phase_ok now s (planned_phase now (i, k, n))" if "0 \<le> n" for i k n
    using that assms(2,3) by (simp add: planned_phase_def phase_ok_def is_live_def unfinished_def)
  have "phase_ok now s p" if p: "p \<in> set ps" for p
  proof -
    obtain i where "i < length pl" "p = planned_phase now (i, pl ! i)" using el [OF p] by blast
    then show ?thesis using one [of "snd (pl ! i)" i "fst (pl ! i)"] assms(1) nth_mem [of i pl] by (auto simp: split_beta)
  qed
  moreover have "ph_kind p = STOPWATCH \<or> ph_kind p = SPEEDRUN \<Longrightarrow> length ps = 1" if p: "p \<in> set ps" for p
  proof -
    obtain i where "i < length pl" "p = planned_phase now (i, pl ! i)" using el [OF p] by blast
    then have "ph_kind p = fst (pl ! i)" "pl ! i \<in> set pl" by (simp_all add: planned_phase_def split_beta)
    then show "ph_kind p = STOPWATCH \<or> ph_kind p = SPEEDRUN \<Longrightarrow> length ps = 1"
      using bspec [OF assms(1), of "pl ! i"] n by (auto simp: split_beta)
  qed
  moreover have "ph_ended_at p = None" if "p \<in> set ps" for p
    using el [OF that] by (auto simp: planned_phase_def split_beta)
  moreover have "filter is_live ps = (case ps of [] \<Rightarrow> [] | p # _ \<Rightarrow> [p])"
  proof (cases pl)
    case (Cons x xs)
    have "filter is_live (map (planned_phase now) (enumerate 1 xs)) = []"
      by (auto simp: filter_empty_conv in_set_enumerate_eq planned_phase_def is_live_def split: prod.splits)
    then show ?thesis by (simp add: ps_def Cons planned_phase_def is_live_def split: prod.splits)
  qed (simp add: ps_def)
  then have "live_count ps \<le> 1" by (simp add: live_count_def split: list.splits)
  ultimately show ?thesis by (fastforce simp: phases_ok_def solo_def ordered_def ps_def [symmetric])
qed

lemma open_session_sound:
  assumes "open_session env u req pl db g = Inr (s, ps, db', g')" "sessions_sound t db" "t \<le> e_now env"
    and "plan req = Inr pl" "req_ok req"
  shows "sessions_sound (e_now env) db' \<and> served u db db' \<and> s \<in> set (t_sessions db') \<and> s_user s = u \<and>
    s_status s = S_ACTIVE \<and> t_phases db' (s_id s) = ps"
proof -
  define s1 where "s1 = \<lparr>s_id = t_next_id db, s_user = u, s_task_id = q_task_id req, s_mode = q_mode req,
    s_status = S_ACTIVE, activity_label = start_label req, preset = Some (start_preset req),
    pause_budget_count = q_pause_budget_count req, pause_budget_seconds = q_pause_budget_seconds req,
    speedrun = start_blob db u req, s_started_at = e_now env, s_ended_at = None\<rparr>"
  define ps1 where "ps1 = map (planned_phase (e_now env)) (enumerate 0 pl)"
  define db1 where "db1 = db\<lparr>t_sessions := t_sessions db @ [s1], t_next_id := t_next_id db + 1,
    t_phases := (t_phases db)(s_id s1 := ps1)\<rparr>"
  define rp0 where "rp0 = \<lparr>rp_db = db1, rp_rng = g, rp_seen = {}, rp_budget = 0, rp_bonus = None\<rparr>"
  define sts where "sts = [(Step ''session_started'' None (e_now env))\<lparr>st_extra := started_extra req pl (start_blob db u req)\<rparr>,
    Step ''phase_started'' (Some 0) (e_now env)]"
  have opened: "(if get_active_session db u \<noteq> None then Inl (ConflictError ''an active session already exists'')
      else bind_r (persist_steps env s1 u False default_rates None 0 sts rp0) (\<lambda>rp'.
        if ledger_unique (rp_db rp') then Inr (s1, ps1, rp_db rp', g) else Inl IntegrityError)) = Inr (s, ps, db', g')"
    using assms(1) unfolding open_session_def Let_def s1_def [symmetric] ps1_def [symmetric] db1_def [symmetric]
      rp0_def [symmetric] sts_def [symmetric] .
  then have act: "get_active_session db u = None" by (cases "get_active_session db u") simp_all
  obtain rp where p: "persist_steps env s1 u False default_rates None 0 sts rp0 = Inr rp"
    using opened act by (cases "persist_steps env s1 u False default_rates None 0 sts rp0") simp_all
  have out: "s = s1" "ps = ps1" "db' = rp_db rp" "ledger_unique db'"
    using opened by (simp_all add: act p split: if_splits)
  have k: "keys_ok db" and free: "\<And>r. r \<in> set (t_sessions db) \<Longrightarrow> s_id r < t_next_id db"
    using assms(2) by (auto simp: sessions_sound_def keys_ok_def)
  have "sess_ok (e_now env) s1 ps1"
    using start_phases_ok [OF plan_ok [OF assms(4,5)]] assms(5)
    by (auto simp: sess_ok_def ps1_def s1_def req_ok_def)
  moreover have "s_status r \<noteq> S_ACTIVE \<or> s_user r \<noteq> u" if "r \<in> set (t_sessions db)" for r
    using act that by (auto simp: get_active_session_def find_None_iff)
  moreover have "sessions_sound (e_now env) db" using sessions_sound_later [OF assms(2,3)] .
  moreover have k1: "keys_ok db1"
    using k by (auto simp: keys_ok_def db1_def s1_def dest: free)
  moreover have "s_id r \<noteq> s_id s1" if "r \<in> set (t_sessions db)" for r
    using free [OF that] by (simp add: s1_def)
  moreover have "t_sessions db1 = t_sessions db @ [s1]" "t_phases db1 = (t_phases db)(s_id s1 := ps1)"
    "ledger_unique db1 = ledger_unique db" "s_user s1 = u"
    by (simp_all add: db1_def ledger_unique_def s1_def)
  ultimately have snd: "sessions_sound (e_now env) db1"
    unfolding sessions_sound_def by (auto, blast)
  have own1: "s_user s1 = u" by (simp add: s1_def)
  have ids: "session_ids_of u db1 = insert (s_id s1) (session_ids_of u db)"
    unfolding session_ids_of_def db1_def using own1 by auto
  have srv: "served u db db1"
    unfolding served_def untouched_def ids daily_ids_of_def by (simp add: db1_def) (auto simp: s1_def)
  have o: "own u db1 db'"
    using persist_steps_own [OF p] snd by (simp add: out rp0_def habits_owned_def sessions_sound_def)
  show ?thesis
    using sessions_sound_own [OF snd o out(4)] served_trans [OF srv served_own [OF o]] o
    by (simp add: out ownD) (simp add: db1_def s1_def)
qed

lemma start_session_sound:
  assumes "start_session env u req db g = Inr (s, ps, db', g')" "sessions_sound t db" "t \<le> e_now env" "req_ok req"
  shows "sessions_sound (e_now env) db' \<and> served u db db'"
proof -
  define db0 where "db0 = snd (get_or_create_profile db u)"
  note p = profile_first [OF assms(2), of u, folded db0_def]
  obtain pl where pl: "plan req = Inr pl" using assms(1) by (auto simp: start_session_def)
  show ?thesis
  proof (cases "get_active_session db0 u")
    case None
    then have "open_session env u req pl db0 g = Inr (s, ps, db', g')"
      using assms(1) pl by (auto simp: start_session_def Let_def db0_def)
    from open_session_sound [OF this p(2) assms(3) pl assms(4)] show ?thesis
      using served_trans [OF served_own [OF p(1)]] by blast
  next
    case (Some old)
    have old: "old \<in> set (t_sessions db0)" "s_user old = u"
      using Some by (auto simp: get_active_session_def find_Some_iff)
    obtain s1 ps1 db1 g1 where r: "replay_session env old u [] db0 g = Inr (s1, ps1, db1, g1)"
      and o: "open_session env u req pl db1 g1 = Inr (s, ps, db', g')"
      using assms(1) pl Some by (auto simp: start_session_def Let_def db0_def split: if_splits)
    note snd1 = replay_sound [OF r p(2) assms(3) old]
    from open_session_sound [OF o _ order_refl pl assms(4)] snd1 show ?thesis
      using served_trans [OF served_own [OF p(1)]] served_trans by blast
  qed
qed

text \<open>A call of user \<open>u\<close> that returns, and what it leaves in the database.\<close>

inductive session_call :: "env \<Rightarrow> int \<Rightarrow> db \<Rightarrow> db \<Rightarrow> bool" for env u where
  start: "req_ok req \<Longrightarrow> start_session env u req db g = Inr (s, ps, db', g') \<Longrightarrow> session_call env u db db'"
| view: "get_view env u sid db g = Inr (s, ps, db', g') \<Longrightarrow> session_call env u db db'"
| active: "get_active_view env u db g = Inr (Some (s, ps, db', g')) \<Longrightarrow> session_call env u db db'"
| pause: "pause_session env u sid db g = Inr (s, ps, db', g') \<Longrightarrow> session_call env u db db'"
| resume: "resume_session env u sid db g = Inr (s, ps, db', g') \<Longrightarrow> session_call env u db db'"
| advance: "advance_session env u sid db g = Inr (s, ps, db', g') \<Longrightarrow> session_call env u db db'"
| stop: "stop_session env u sid db g = Inr (s, ps, db', g') \<Longrightarrow> session_call env u db db'"
| finish: "finish_session env u sid db g = Inr (s, ps, db', g') \<Longrightarrow> session_call env u db db'"

lemma view_sound:
  assumes "get_view env u sid db g = Inr (s, ps, db', g')" "sessions_sound t db" "t \<le> e_now env"
  shows "sessions_sound (e_now env) db' \<and> served u db db'"
proof -
  define db0 where "db0 = snd (get_or_create_profile db u)"
  note p = profile_first [OF assms(2), of u, folded db0_def]
  obtain s0 where s0: "locked_session db0 u sid = Inr s0" "replay_session env s0 u [] db0 g = Inr (s, ps, db', g')"
    using assms(1) by (auto simp: get_view_def db0_def Let_def)
  show ?thesis
    using replay_sound [OF s0(2) p(2) assms(3) locked_session_mem [OF s0(1)]] served_trans [OF served_own [OF p(1)]] by blast
qed

lemma active_view_sound:
  assumes "get_active_view env u db g = Inr (Some (s, ps, db', g'))" "sessions_sound t db" "t \<le> e_now env"
  shows "sessions_sound (e_now env) db' \<and> served u db db'"
proof -
  define db0 where "db0 = snd (get_or_create_profile db u)"
  note p = profile_first [OF assms(2), of u, folded db0_def]
  obtain s0 where s0: "get_active_session db u = Some s0" "replay_session env s0 u [] db0 g = Inr (s, ps, db', g')"
    using assms(1) by (auto simp: get_active_view_def db0_def split: option.splits)
  then have "s0 \<in> set (t_sessions db0)" "s_user s0 = u"
    using ownD(7) [OF p(1)] by (auto simp: get_active_session_def find_Some_iff)
  from replay_sound [OF s0(2) p(2) assms(3) this] show ?thesis
    using served_trans [OF served_own [OF p(1)]] by blast
qed

lemma session_call_sound:
  assumes "session_call env u db db'" "sessions_sound t db" "t \<le> e_now env"
  shows "sessions_sound (e_now env) db' \<and> served u db db'"
  using assms(1)
proof (cases rule: session_call.cases)
  case (stop sid g s ps g')
  have "honours (e_now env) s ps out" if "sess_ok (e_now env) s ps" "s_status s = S_ACTIVE"
    "(let (s', phases', final, steps) = SessionEngine.stop s ps (e_now env) in Inr (s', phases', steps @ [final])) = Inr out"
    for s ps out
    using stop_honours [OF that(1,2), of out] that(3) by (simp add: stop_verb_def split_beta)
  from locked_call_sound [OF stop [unfolded stop_session_def] this assms(2,3)] show ?thesis .
next
  case (finish sid g s ps g')
  from locked_call_sound [OF finish [unfolded finish_session_def] finish_honours assms(2,3)] show ?thesis .
qed (use assms(2,3) start_session_sound view_sound active_view_sound
    locked_call_sound [OF _ pause_honours] locked_call_sound [OF _ resume_honours] locked_call_sound [OF _ advance_honours]
    in \<open>auto simp: pause_session_def resume_session_def advance_session_def\<close>)

subsection \<open>Looking twice\<close>

lemma eval_loop_adds: "eval_loop ab af now s ps le steps = (s', ps', out) \<Longrightarrow> \<exists>more. out = steps @ more"
  using eval_loop_steps [of ab af now s ps le steps "[]"] by (auto split: prod.splits)

lemma evaluate_quiet:
  assumes "SessionEngine.evaluate s ps now = (s', ps', [])"
  shows "s' = s" "ps' = ps"
proof -
  have "s' = s \<and> ps' = ps" if e: "eval_loop ab af now s ps le [] = (s', ps', [])" for ab af le
  proof (cases "live_phase ps")
    case None
    then show ?thesis using e
      by (auto simp: eval_loop.simps [of _ _ _ _ ps] resolve_no_live_def Let_def split_beta split: if_splits)
  next
    case (Some i)
    have "snd (complete_phase ps i t ab af) \<noteq> []" for t
      by (simp add: complete_phase_def Let_def split: option.splits)
    then show ?thesis using e Some eval_loop_adds [of ab af now s _ _ _ s' ps' "[]"]
      by (auto simp: eval_loop.simps [of _ _ _ _ ps] check_speedrun_deadline_def check_pause_overflow_def Let_def split_beta
          split: if_splits option.splits)
  qed
  then show "s' = s" "ps' = ps" using assms by (auto simp: evaluate_def split: if_splits)
qed

lemma evaluate_settled:
  assumes "sess_ok t s ps" "SessionEngine.evaluate s ps t = (s1, ps1, x1)"
  shows "SessionEngine.evaluate s1 ps1 t = (s1, ps1, [])"
proof -
  obtain s2 ps2 x2 where e: "SessionEngine.evaluate s1 ps1 t = (s2, ps2, x2)" by (metis prod_cases3)
  have "x2 = []"
  proof (cases "s_status s = S_ACTIVE")
    case True
    have "\<exists>ps2'. SessionEngine.evaluate s ps t = (s2, ps2', x1 @ x2) \<and> map settle ps2' = map settle ps2"
      using evaluate_split_loop [OF order_refl assms(1) True refl refl refl _ e] assms(2) True by (simp add: evaluate_loop)
    then show ?thesis using assms(2) by auto
  next
    case False
    then show ?thesis using assms(2) e by (auto simp: evaluate_def)
  qed
  then show ?thesis using e evaluate_quiet by blast
qed

lemma put_session_same:
  assumes "s \<in> set (t_sessions db)" "keys_ok db" "t_phases db (s_id s) = ps"
  shows "put_session s ps db = db"
proof -
  have "r = s" if "r \<in> set (t_sessions db)" "s_id r = s_id s" for r
    using that assms(1,2) by (auto simp: keys_ok_def distinct_map inj_on_def)
  then have "update_where (\<lambda>r. s_id r = s_id s) (\<lambda>_. s) (t_sessions db) = t_sessions db"
    unfolding update_where_def by (intro map_idI) auto
  then show ?thesis using assms(3) by (auto simp: put_session_def fun_upd_idem)
qed

subsection \<open>Properties\<close>

text \<open>Calls and batches of any users, on a clock that does not run backwards.\<close>

inductive service_run :: "datetime \<Rightarrow> db \<Rightarrow> datetime \<Rightarrow> db \<Rightarrow> bool" for t0 db0 where
  still: "service_run t0 db0 t0 db0"
| call: "service_run t0 db0 t db \<Longrightarrow> session_call env u db db' \<Longrightarrow> t \<le> e_now env \<Longrightarrow> service_run t0 db0 (e_now env) db'"
| batch: "service_run t0 db0 t db \<Longrightarrow> ingest_events env u events db g = Inr (res, db', g') \<Longrightarrow> t \<le> e_now env \<Longrightarrow>
    service_run t0 db0 (e_now env) db'"

text \<open>C1: However session calls and event batches of any number of users interleave, every stored session stays
  sound (at most one live phase, pause budgets respected, nothing open on a dead session), nobody ever has two
  active sessions, and the ledger never holds two rows of one user with the same event id.\<close>

theorem service_runs_sound:
  assumes "service_run t0 db0 t db" "sessions_sound t0 db0"
  shows "sessions_sound t db"
  using assms
proof (induction rule: service_run.induct)
  case (call t db env u db')
  then show ?case using session_call_sound by blast
next
  case (batch t db env u events g res db' g')
  then have s: "sessions_sound t db" by blast
  then have "keys_ok db" by (simp add: sessions_sound_def)
  from ingest_events_cases [OF batch.hyps(2) this] have "own u db db'" "ledger_unique db'" by metis+
  from sessions_sound_later [OF sessions_sound_own [OF s this] batch.hyps(3)] show ?case .
qed

text \<open>No session call touches a row of anybody else, and it only ever appends to the ledger.\<close>

theorem session_call_isolated:
  assumes "session_call env u db db'" "sessions_sound t db" "t \<le> e_now env"
  shows "untouched u db db' \<and> (\<exists>evs. t_events db' = t_events db @ evs)"
  using session_call_sound [OF assms] by (simp add: served_def)

text \<open>C29: Looking at a session settles it: viewing it again at the same instant returns the same rows, writes
  nothing and draws nothing.\<close>

theorem view_settled:
  assumes "get_view env u sid db g = Inr (s, ps, db', g')" "sessions_sound t db" "t \<le> e_now env"
  shows "get_view env u sid db' g2 = Inr (s, ps, db', g2)"
proof -
  define db0 where "db0 = snd (get_or_create_profile db u)"
  note p = profile_first [OF assms(2), of u, folded db0_def]
  obtain s0 where s0: "locked_session db0 u sid = Inr s0" "replay_session env s0 u [] db0 g = Inr (s, ps, db', g')"
    using assms(1) by (auto simp: get_view_def db0_def Let_def)
  note r = replay_sound [OF s0(2) p(2) assms(3) locked_session_mem [OF s0(1)]]
  obtain x where ev: "SessionEngine.evaluate s0 (t_phases db0 (s_id s0)) (e_now env) = (s, ps, x)"
    and o: "db' = put_session s ps db0 \<or> (keys_ok (put_session s ps db0) \<longrightarrow> own u (put_session s ps db0) db') \<and> ledger_unique db'"
    using replay_cases [OF s0(2)] by metis
  have ok: "sess_ok (e_now env) s0 (t_phases db0 (s_id s0))"
    using sessions_sound_later [OF p(2) assms(3)] locked_session_mem(1) [OF s0(1)] by (simp add: sessions_sound_def)
  have run: "same_run s0 s" using evaluate_in_step [OF ok ev] by (simp add: in_step_def)
  have k: "keys_ok db'" using r by (simp add: sessions_sound_def)
  have id: "s_id s = sid"
    using s0(1) same_run_fields(4) [OF run] by (auto simp: locked_session_def get_session_def find_Some_iff split: option.splits)
  have "find (\<lambda>r. s_id r = sid \<and> s_user r = u) (t_sessions db') = Some s"
  proof (cases "find (\<lambda>r. s_id r = sid \<and> s_user r = u) (t_sessions db')")
    case None
    then show ?thesis using r id by (auto simp: find_None_iff)
  next
    case (Some q)
    then have "q \<in> set (t_sessions db')" "s_id q = sid" by (auto simp: find_Some_iff)
    then show ?thesis using Some r id k by (auto simp: keys_ok_def distinct_map inj_on_def)
  qed
  then have l: "locked_session db' u sid = Inr s" by (simp add: locked_session_def get_session_def)
  have "t_profiles db0 u \<noteq> None" by (simp add: db0_def get_or_create_profile_def put_profile_def)
  then have "t_profiles (put_session s ps db0) u \<noteq> None" by (simp add: put_session_def)
  moreover have "keys_ok (put_session s ps db0)"
    using put_session_sound [OF sessions_sound_later [OF p(2) assms(3)] locked_session_mem(1) [OF s0(1)] run]
      evaluate_in_step [OF ok ev] by (auto simp: in_step_def sessions_sound_def)
  ultimately have "t_profiles db' u \<noteq> None" using o ownD(6) by blast
  then have prof: "snd (get_or_create_profile db' u) = db'"
    by (auto simp: get_or_create_profile_def put_profile_def profile_of_def fun_upd_idem)
  have same: "put_session s ps db' = db'" using r k by (intro put_session_same) auto
  have ph: "t_phases db' (s_id s) = ps" using r by simp
  show ?thesis
    by (simp add: get_view_def prof l replay_session_def ph evaluate_settled [OF ok ev] same)
qed

text \<open>The ledger id of a step determines the session, the kind of the step, its phase, its second and its
  number, so two different steps are never taken for one and the other lost.\<close>

theorem event_id_injective:
  assumes "event_id env sid kind seq ts (JInt i) = event_id env' sid' kind' seq' ts' (JInt i')"
    and "CHR '':'' \<notin> set kind" "CHR '':'' \<notin> set kind'"
  shows "sid = sid' \<and> kind = kind' \<and> or_zero seq = or_zero seq' \<and> whole_seconds ts = whole_seconds ts' \<and> i = i'"
proof -
  let ?tail = "\<lambda>seq ts i. show_int (or_zero seq) @ CHR '':'' # show_int (whole_seconds ts) @ CHR '':'' # show_int i"
  have "show_int sid @ CHR '':'' # kind @ CHR '':'' # ?tail seq ts i = show_int sid' @ CHR '':'' # kind' @ CHR '':'' # ?tail seq' ts' i'"
    using assms(1) by (simp add: event_id_def py_str_def)
  from sep_unique [OF _ _ this] have 1: "show_int sid = show_int sid'"
    "kind @ CHR '':'' # ?tail seq ts i = kind' @ CHR '':'' # ?tail seq' ts' i'" by simp_all
  from sep_unique [OF assms(2,3) 1(2)] have 2: "kind = kind'" "?tail seq ts i = ?tail seq' ts' i'" by simp_all
  from sep_unique [OF _ _ 2(2)] have 3: "show_int (or_zero seq) = show_int (or_zero seq')"
    "show_int (whole_seconds ts) @ CHR '':'' # show_int i = show_int (whole_seconds ts') @ CHR '':'' # show_int i'" by simp_all
  from sep_unique [OF _ _ 3(2)] have "show_int (whole_seconds ts) = show_int (whole_seconds ts')" "show_int i = show_int i'" by simp_all
  with 1(1) 2(1) 3(1) show ?thesis using show_int_inj by blast
qed

subsection \<open>Witnesses\<close>

definition watch_req :: session_start where
  "watch_req = \<lparr>q_mode = ''stopwatch'', q_phases = [], q_task_id = None, q_tag_id = None, q_activity_label = None,
     q_difficulty = ''easy'', q_auto_start_breaks = True, q_auto_start_focus = False, q_pause_budget_count = 3,
     q_pause_budget_seconds = 600, q_speedrun = None\<rparr>"

lemma sample_now: "0 \<le> e_now sample_env"
  by (simp add: sample_env_def seconds_def us_per_second_def)

lemma two_users_sound: "sessions_sound 0 two_users"
  by (simp add: sessions_sound_def two_users_ok ledger_unique_def) (simp add: two_users_def empty_db_def)

lemma watch_started: "\<exists>s ps db' g'. start_session sample_env 1 watch_req two_users g = Inr (s, ps, db', g') \<and> s_id s = 1"
proof -
  have p: "get_or_create_profile two_users 1 = (new_profile, two_users)"
    by (simp add: get_or_create_profile_def put_profile_def two_users_def profile_of_def fun_upd_twist)
  have a: "get_active_session two_users 1 = None" by (simp add: get_active_session_def two_users_def empty_db_def)
  have pl: "plan watch_req = Inr [(STOPWATCH, 0)]" "check_links two_users 1 watch_req = Inr ()"
    by (simp_all add: plan_def check_links_def watch_req_def)
  have n: "t_next_id two_users = 1" "t_events two_users = []" by (simp_all add: two_users_def empty_db_def)
  show ?thesis
    by (simp add: start_session_def p a pl open_session_def n Let_def persist_step_def event_for_def Step_def step_id_def
        event_id_def SCORED_TYPES_def regear_def add_event_def ledger_unique_def has_milestone_def dict_get_or_def)
qed

definition watch_session :: session where
  "watch_session = \<lparr>s_id = 5, s_user = 1, s_task_id = None, s_mode = ''stopwatch'', s_status = S_ACTIVE,
     activity_label = None, preset = None, pause_budget_count = 3, pause_budget_seconds = 600,
     speedrun = JNull, s_started_at = 0, s_ended_at = None\<rparr>"

definition watch_db :: db where
  "watch_db = two_users\<lparr>t_sessions := [watch_session], t_next_id := 6,
     t_phases := (\<lambda>_. [])(5 := map (planned_phase 0) (enumerate 0 [(STOPWATCH, 0)]))\<rparr>"

lemma watch_db_sound: "sessions_sound 0 watch_db"
proof -
  have "phases_ok 0 watch_session (map (planned_phase 0) (enumerate 0 [(STOPWATCH, 0)]))"
    by (rule start_phases_ok) (simp_all add: watch_session_def)
  then have "sess_ok 0 watch_session (t_phases watch_db 5)"
    by (simp add: sess_ok_def watch_db_def) (simp add: watch_session_def)
  then show ?thesis
    using two_users_ok two_users_sound
    by (simp add: sessions_sound_def keys_ok_def ledger_unique_def watch_db_def) (simp add: watch_session_def)
qed

lemma watch_viewed: "\<exists>s ps db' g'. get_view sample_env 1 5 watch_db g = Inr (s, ps, db', g')"
proof -
  have p: "get_or_create_profile watch_db 1 = (new_profile, watch_db)"
    by (simp add: get_or_create_profile_def put_profile_def watch_db_def two_users_def profile_of_def fun_upd_twist)
  have l: "locked_session watch_db 1 5 = Inr watch_session"
    by (simp add: locked_session_def get_session_def watch_db_def) (simp add: watch_session_def)
  have e: "SessionEngine.evaluate watch_session (t_phases watch_db 5) now = (watch_session, t_phases watch_db 5, [])" for now
    by (simp add: evaluate_def eval_loop.simps live_phase_def watch_db_def planned_phase_def is_live_def)
  have id: "s_id watch_session = 5" by (simp add: watch_session_def)
  show ?thesis by (simp add: get_view_def p l replay_session_def id e)
qed

theorem service_runs_sound_witness:
  "\<exists>db'. service_run 0 two_users (e_now sample_env) db' \<and> sessions_sound (e_now sample_env) db' \<and> t_sessions db' \<noteq> []"
proof -
  obtain s ps db' g' where st: "start_session sample_env 1 watch_req two_users (sample_gen 0) = Inr (s, ps, db', g')"
    using watch_started by blast
  have req: "req_ok watch_req" by (simp add: req_ok_def watch_req_def)
  have t: "0 \<le> e_now sample_env" by (rule sample_now)
  have run: "service_run 0 two_users (e_now sample_env) db'"
    by (rule service_run.call [OF service_run.still session_call.start [OF req st] t])
  have "s \<in> set (t_sessions db')"
  proof -
    have a: "get_active_session (snd (get_or_create_profile two_users 1)) 1 = None"
      by (simp add: get_active_session_def get_or_create_profile_def put_profile_def two_users_def empty_db_def)
    obtain pl where pl: "plan watch_req = Inr pl" using st by (auto simp: start_session_def)
    have "open_session sample_env 1 watch_req pl (snd (get_or_create_profile two_users 1)) (sample_gen 0) = Inr (s, ps, db', g')"
      using st pl a by (auto simp: start_session_def Let_def)
    from open_session_sound [OF this profile_first(2) [OF two_users_sound] t pl req] show ?thesis by blast
  qed
  then show ?thesis using run service_runs_sound [OF run two_users_sound] by (metis empty_iff empty_set)
qed

theorem session_call_isolated_witness:
  "\<exists>db'. session_call sample_env 1 watch_db db' \<and> t_profiles db' 2 = Some new_profile"
proof -
  obtain s ps db' g' where v: "get_view sample_env 1 5 watch_db (sample_gen 0) = Inr (s, ps, db', g')"
    using watch_viewed by blast
  have call: "session_call sample_env 1 watch_db db'" by (rule session_call.view [OF v])
  have t: "0 \<le> e_now sample_env" by (rule sample_now)
  have "t_profiles watch_db 2 = Some new_profile" by (simp add: watch_db_def two_users_def)
  then show ?thesis
    using session_call_isolated [OF call watch_db_sound t] call by (auto simp: untouched_def)
qed

theorem view_settled_witness:
  "\<exists>s ps db' g'. get_view sample_env 1 5 watch_db (sample_gen 0) = Inr (s, ps, db', g') \<and>
     get_view sample_env 1 5 db' (sample_gen 7) = Inr (s, ps, db', sample_gen 7)"
proof -
  obtain s ps db' g' where v: "get_view sample_env 1 5 watch_db (sample_gen 0) = Inr (s, ps, db', g')"
    using watch_viewed by blast
  have t: "0 \<le> e_now sample_env" by (rule sample_now)
  show ?thesis using v view_settled [OF v watch_db_sound t] by blast
qed

theorem event_id_injective_witness:
  "event_id sample_env 1 ''phase_started'' None (seconds 5) (JInt 1) =
     event_id sample_env 1 ''phase_started'' (Some 0) (seconds 5 + 3) (JInt 1) \<and>
   whole_seconds (seconds 5) = whole_seconds (seconds 5 + 3)"
proof -
  have "event_id sample_env 1 ''phase_started'' None (seconds 5) (JInt 1) =
     event_id sample_env 1 ''phase_started'' (Some 0) (seconds 5 + 3) (JInt 1)"
    by (simp add: event_id_def or_zero_def whole_seconds_def seconds_def us_per_second_def)
  with event_id_injective [OF this] show ?thesis by simp
qed

end
