(* ===== verification/Sync.thy ===== *)
theory Sync
  imports PyJson PyDate
begin

text \<open>
  Offline sync: the payload checks of \<open>app/sync/lww.py\<close> and the merge, delta and endpoint of
  \<open>app/api/routers/sync.py\<close>. A row of any of the three tables is its id, owner, \<open>updated_at\<close> and
  the other columns as a dict. What is outside these files is a parameter: \<open>iso_ok\<close>, whether
  \<open>datetime.fromisoformat\<close> accepts a string, \<open>pinned\<close>, which tasks rows of other tables hold on to, and \<open>bind\<close>, what the database driver makes of a
  value bound to a column (or the exception it raises).
\<close>

subsection \<open>Entities and their columns\<close>

datatype sync_entity = TASK | SUBTASK | PROJECT
datatype py_type = PyInt | PyStr | PyBool

definition entity_value :: "sync_entity \<Rightarrow> string" where
  "entity_value e = (case e of TASK \<Rightarrow> ''task'' | SUBTASK \<Rightarrow> ''subtask'' | PROJECT \<Rightarrow> ''project'')"

definition MODEL_WHITELISTS :: "sync_entity \<Rightarrow> string list" where
  "MODEL_WHITELISTS e = (case e of
     TASK \<Rightarrow> [''project_id'', ''title'', ''description'', ''completed'', ''priority'', ''due_date'']
   | SUBTASK \<Rightarrow> [''task_id'', ''title'', ''description'', ''completed'', ''due_date'', ''position'']
   | PROJECT \<Rightarrow> [''name'', ''color'', ''icon'', ''position''])"

definition NULLABLE :: "sync_entity \<Rightarrow> string list" where
  "NULLABLE e = (case e of TASK \<Rightarrow> [''project_id'', ''description'', ''due_date'']
   | SUBTASK \<Rightarrow> [''description'', ''due_date''] | PROJECT \<Rightarrow> [])"

definition FIELD_TYPES :: "sync_entity \<Rightarrow> (string \<times> py_type) list" where
  "FIELD_TYPES e = (case e of
     TASK \<Rightarrow> [(''project_id'', PyInt), (''title'', PyStr), (''description'', PyStr), (''completed'', PyBool),
       (''priority'', PyStr), (''due_date'', PyStr)]
   | SUBTASK \<Rightarrow> [(''task_id'', PyInt), (''title'', PyStr), (''description'', PyStr), (''completed'', PyBool),
       (''due_date'', PyStr), (''position'', PyInt)]
   | PROJECT \<Rightarrow> [(''name'', PyStr), (''color'', PyStr), (''icon'', PyStr), (''position'', PyInt)])"

definition STRING_LIMITS :: "sync_entity \<Rightarrow> (string \<times> nat) list" where
  "STRING_LIMITS e = (case e of
     TASK \<Rightarrow> [(''title'', 255), (''description'', 10000), (''priority'', 16)]
   | SUBTASK \<Rightarrow> [(''title'', 255), (''description'', 10000)]
   | PROJECT \<Rightarrow> [(''name'', 100), (''color'', 50), (''icon'', 50)])"

definition PRIORITIES :: "string list" where
  "PRIORITIES = [''LOW'', ''MEDIUM'', ''HIGH'']"

subsection \<open>Last writer wins\<close>

text \<open>A Python datetime with or without a zone.\<close>

datatype stamp = Naive datetime | Aware datetime

definition decide_apply :: "stamp \<Rightarrow> stamp option \<Rightarrow> bool result" where
  "decide_apply client_ts server_ts =
     (case client_ts of
        Naive _ \<Rightarrow> Inl (ValueError ''client_ts must be timezone-aware'')
      | Aware c \<Rightarrow> (case server_ts of
            None \<Rightarrow> Inl (ValueError ''server_ts must not be None; absence is not_found'')
          | Some (Naive _) \<Rightarrow> Inl (ValueError ''server_ts must be timezone-aware'')
          | Some (Aware s) \<Rightarrow> if c = s then Inr False else Inr (c > s)))"

definition merge_payload :: "dict \<Rightarrow> string list \<Rightarrow> dict" where
  "merge_payload payload whitelist = filter (\<lambda>(k, v). k \<in> set whitelist) payload"

subsection \<open>Validation\<close>

text \<open>\<open>isinstance\<close>, for which a \<open>bool\<close> is an \<open>int\<close>, and \<open>type(v).__name__\<close>.\<close>

definition py_isinstance :: "json \<Rightarrow> py_type \<Rightarrow> bool" where
  "py_isinstance v t = (case t of
     PyInt \<Rightarrow> (case v of JInt _ \<Rightarrow> True | JBool _ \<Rightarrow> True | _ \<Rightarrow> False)
   | PyStr \<Rightarrow> (case v of JStr _ \<Rightarrow> True | _ \<Rightarrow> False)
   | PyBool \<Rightarrow> (case v of JBool _ \<Rightarrow> True | _ \<Rightarrow> False))"

definition type_name :: "json \<Rightarrow> string" where
  "type_name v = (case v of JNull \<Rightarrow> ''NoneType'' | JBool _ \<Rightarrow> ''bool'' | JInt _ \<Rightarrow> ''int'' | JStr _ \<Rightarrow> ''str''
     | JArr _ \<Rightarrow> ''list'' | JObj _ \<Rightarrow> ''dict'' | _ \<Rightarrow> ''float'')"

definition py_type_name :: "py_type \<Rightarrow> string" where
  "py_type_name t = (case t of PyInt \<Rightarrow> ''int'' | PyStr \<Rightarrow> ''str'' | PyBool \<Rightarrow> ''bool'')"

text \<open>\<open>len\<close> of a string kept as UTF-8 bytes: its code points.\<close>

definition py_len :: "string \<Rightarrow> nat" where
  "py_len s = length (filter (\<lambda>c. \<not> (128 \<le> (of_char c :: nat) \<and> (of_char c :: nat) < 192)) s)"

definition replace_z :: "string \<Rightarrow> string" where
  "replace_z s = concat (map (\<lambda>c. if c = CHR ''Z'' then ''+00:00'' else [c]) s)"

definition bad_field :: "sync_entity \<Rightarrow> string \<Rightarrow> string \<Rightarrow> py_error" where
  "bad_field e key msg = ValueError (entity_value e @ ''.'' @ key @ '': '' @ msg)"

definition validate_string_field :: "(string \<Rightarrow> bool) \<Rightarrow> sync_entity \<Rightarrow> string \<Rightarrow> string \<Rightarrow> unit result" where
  "validate_string_field iso_ok e key s =
     (if (case map_of (STRING_LIMITS e) key of Some limit \<Rightarrow> py_len s > limit | None \<Rightarrow> False)
      then Inl (bad_field e key (''exceeds '' @ show_nat (the (map_of (STRING_LIMITS e) key)) @ '' chars''))
      else if key = ''due_date'' \<and> \<not> iso_ok (replace_z s)
      then Inl (bad_field e key ''invalid ISO-8601 datetime'')
      else if key = ''priority'' \<and> s \<notin> set PRIORITIES
      then Inl (bad_field e key (''must be one of ['' @ quoted ''HIGH'' @ '', '' @ quoted ''LOW'' @ '', '' @ quoted ''MEDIUM'' @ '']''))
      else Inr ())"

definition validate_field :: "(string \<Rightarrow> bool) \<Rightarrow> sync_entity \<Rightarrow> string \<Rightarrow> json \<Rightarrow> unit result" where
  "validate_field iso_ok e key v =
     (if v = JNull then (if key \<notin> set (NULLABLE e) then Inl (bad_field e key ''must not be null'') else Inr ())
      else case map_of (FIELD_TYPES e) key of
        None \<Rightarrow> Inr ()
      | Some t \<Rightarrow>
          if \<not> py_isinstance v t
          then Inl (bad_field e key (''expected '' @ py_type_name t @ '', got '' @ type_name v))
          else (case v of JStr s \<Rightarrow> validate_string_field iso_ok e key s | _ \<Rightarrow> Inr ()))"

fun validate_payload :: "(string \<Rightarrow> bool) \<Rightarrow> dict \<Rightarrow> sync_entity \<Rightarrow> unit result" where
  "validate_payload iso_ok [] e = Inr ()"
| "validate_payload iso_ok ((key, v) # rest) e =
     (if key \<in> set (MODEL_WHITELISTS e)
      then bind_r (validate_field iso_ok e key v) (\<lambda>_. validate_payload iso_ok rest e)
      else validate_payload iso_ok rest e)"

subsection \<open>Rows\<close>

record sync_row =
  r_id :: int
  r_user :: int
  r_updated :: datetime
  r_cols :: dict

type_synonym store = "sync_entity \<Rightarrow> sync_row list"

text \<open>\<open>isoformat\<close> of an aware UTC datetime.\<close>

definition six_digits :: "int \<Rightarrow> string" where
  "six_digits n = two_digits (n div 10000) @ two_digits (n div 100 mod 100) @ two_digits (n mod 100)"

definition iso_datetime :: "datetime \<Rightarrow> string" where
  "iso_datetime t =
     (let us = t mod us_per_day; secs = us div us_per_second; frac = us mod us_per_second
      in isoformat (date_of t) @ ''T'' @ two_digits (secs div 3600) @ '':'' @ two_digits (secs div 60 mod 60) @ '':''
           @ two_digits (secs mod 60) @ (if frac = 0 then [] else ''.'' @ six_digits frac) @ ''+00:00'')"

definition serialize_row :: "sync_row \<Rightarrow> dict" where
  "serialize_row r = [(''id'', JInt (r_id r)), (''user_id'', JInt (r_user r))] @ r_cols r
     @ [(''updated_at'', JStr (iso_datetime (r_updated r)))]"

subsection \<open>Merging changes\<close>

datatype sync_op = UPDATE | DELETE

record change =
  c_entity :: sync_entity
  c_id :: int
  c_op :: sync_op
  c_payload :: dict
  c_ts :: datetime

text \<open>The foreign key a column holds; a bound \<open>True\<close> is 1.\<close>

definition fk_of :: "dict \<Rightarrow> string \<Rightarrow> int option" where
  "fk_of d key = (case dict_get d key of Some (JInt n) \<Rightarrow> Some n | Some (JBool b) \<Rightarrow> Some (of_bool b) | _ \<Rightarrow> None)"

definition load_row :: "store \<Rightarrow> sync_entity \<Rightarrow> int \<Rightarrow> int \<Rightarrow> sync_row option" where
  "load_row st e i u = find (\<lambda>r. r_id r = i \<and> r_user r = u) (st e)"

definition fk_target_owned :: "store \<Rightarrow> sync_entity \<Rightarrow> dict \<Rightarrow> int \<Rightarrow> bool" where
  "fk_target_owned st e merged u = (case e of
     TASK \<Rightarrow> (case fk_of merged ''project_id'' of Some i \<Rightarrow> load_row st PROJECT i u \<noteq> None | None \<Rightarrow> True)
   | SUBTASK \<Rightarrow> (case fk_of merged ''task_id'' of Some i \<Rightarrow> load_row st TASK i u \<noteq> None | None \<Rightarrow> True)
   | PROJECT \<Rightarrow> True)"

record merge_state =
  m_store :: store
  m_applied :: "(sync_entity \<times> int \<times> sync_op \<times> datetime) list"
  m_conflicts :: "(sync_entity \<times> int \<times> sync_op \<times> dict) list"
  m_not_found :: "(sync_entity \<times> int \<times> sync_op) list"
  m_high :: "datetime option"
  m_flips :: "(int \<times> bool) list"

definition raise_high :: "datetime option \<Rightarrow> datetime \<Rightarrow> datetime option" where
  "raise_high h t = (case h of None \<Rightarrow> Some t | Some s \<Rightarrow> if t > s then Some t else Some s)"

definition record_applied :: "change \<Rightarrow> merge_state \<Rightarrow> merge_state" where
  "record_applied c m = m\<lparr>m_applied := m_applied m @ [(c_entity c, c_id c, c_op c, c_ts c)]\<rparr>"

definition record_unapplied :: "int \<Rightarrow> change \<Rightarrow> merge_state \<Rightarrow> merge_state" where
  "record_unapplied u c m = (case load_row (m_store m) (c_entity c) (c_id c) u of
       None \<Rightarrow> m\<lparr>m_not_found := m_not_found m @ [(c_entity c, c_id c, c_op c)]\<rparr>
     | Some r \<Rightarrow> m\<lparr>m_conflicts := m_conflicts m @ [(c_entity c, c_id c, c_op c, serialize_row r)]\<rparr>)"

text \<open>The condition of the conditional write, and the two writes. Deleting a task that subtasks refer
  to breaks their foreign key, and so does one that a row of another table refers to without an
  \<open>ON DELETE\<close> rule: \<open>pinned\<close> says which tasks those are. Deleting a project clears \<open>project_id\<close> of its tasks.\<close>

definition writable :: "int \<Rightarrow> change \<Rightarrow> sync_row \<Rightarrow> bool" where
  "writable u c r \<longleftrightarrow> r_id r = c_id c \<and> r_user r = u \<and> r_updated r < c_ts c"

definition refers :: "string \<Rightarrow> int \<Rightarrow> sync_row \<Rightarrow> bool" where
  "refers key i r \<longleftrightarrow> fk_of (r_cols r) key = Some i"

definition clear_project :: "int \<Rightarrow> sync_row \<Rightarrow> sync_row" where
  "clear_project i t = (if refers ''project_id'' i t then t\<lparr>r_cols := dict_set (r_cols t) ''project_id'' JNull\<rparr> else t)"

definition delete_rows :: "(int \<Rightarrow> bool) \<Rightarrow> int \<Rightarrow> change \<Rightarrow> store \<Rightarrow> store result" where
  "delete_rows pinned u c st =
     (if c_entity c = TASK \<and> (pinned (c_id c) \<or> (\<exists>s \<in> set (st SUBTASK). refers ''task_id'' (c_id c) s)) then Inl IntegrityError
      else
        let st1 = st(c_entity c := filter (\<lambda>r. \<not> writable u c r) (st (c_entity c)))
        in Inr (if c_entity c = PROJECT
                then st1(TASK := map (clear_project (c_id c)) (st1 TASK))
                else st1))"

definition write_row :: "int \<Rightarrow> change \<Rightarrow> dict \<Rightarrow> sync_row \<Rightarrow> sync_row" where
  "write_row u c vals r = (if writable u c r
     then r\<lparr>r_cols := dict_merge (r_cols r) vals, r_updated := c_ts c\<rparr> else r)"

text \<open>The unique constraint on a user's project names.\<close>

definition names_unique :: "sync_row list \<Rightarrow> bool" where
  "names_unique rows \<longleftrightarrow> distinct (map (\<lambda>r. (r_user r, dict_get (r_cols r) ''name'')) rows)"

fun bind_all :: "(sync_entity \<Rightarrow> string \<Rightarrow> json \<Rightarrow> json result) \<Rightarrow> sync_entity \<Rightarrow> dict \<Rightarrow> dict result" where
  "bind_all bind e [] = Inr []"
| "bind_all bind e ((k, v) # rest) =
     bind_r (bind e k v) (\<lambda>w. bind_r (bind_all bind e rest) (\<lambda>vals. Inr ((k, w) # vals)))"

definition bump :: "change \<Rightarrow> merge_state \<Rightarrow> merge_state" where
  "bump c m = m\<lparr>m_high := raise_high (m_high m) (c_ts c)\<rparr>"

definition merge_one ::
  "(int \<Rightarrow> bool) \<Rightarrow> (sync_entity \<Rightarrow> string \<Rightarrow> json \<Rightarrow> json result) \<Rightarrow> int \<Rightarrow> change \<Rightarrow> merge_state \<Rightarrow> merge_state result" where
  "merge_one pinned bind u c m =
     (let e = c_entity c; st = m_store m; hit = (\<exists>r \<in> set (st e). writable u c r) in
      case c_op c of
        DELETE \<Rightarrow>
          if \<not> hit then Inr (record_unapplied u c m)
          else bind_r (delete_rows pinned u c st) (\<lambda>st'. Inr (bump c (record_applied c (m\<lparr>m_store := st'\<rparr>))))
      | UPDATE \<Rightarrow>
          let merged = merge_payload (c_payload c) (MODEL_WHITELISTS e) in
          if \<not> fk_target_owned st e merged u then Inr (record_unapplied u c m)
          else bind_r (bind_all bind e merged) (\<lambda>vals.
            if \<not> hit then Inr (record_unapplied u c m)
            else if e = PROJECT \<and> \<not> names_unique (map (write_row u c vals) (st e)) then Inl IntegrityError
            else
              let m1 = record_applied c (m\<lparr>m_store := st(e := map (write_row u c vals) (st e))\<rparr>)
              in Inr (bump c (if e = TASK \<and> dict_get merged ''completed'' \<noteq> None
                 then m1\<lparr>m_flips := m_flips m1 @ [(c_id c, truthy (dict_get_or merged ''completed'' JNull))]\<rparr>
                 else m1))))"

fun merge_changes ::
  "(int \<Rightarrow> bool) \<Rightarrow> (sync_entity \<Rightarrow> string \<Rightarrow> json \<Rightarrow> json result) \<Rightarrow> int \<Rightarrow> change list \<Rightarrow> merge_state \<Rightarrow> merge_state result" where
  "merge_changes pinned bind u [] m = Inr m"
| "merge_changes pinned bind u (c # cs) m = bind_r (merge_one pinned bind u c m) (merge_changes pinned bind u cs)"

subsection \<open>The delta\<close>

definition newer :: "datetime option \<Rightarrow> datetime \<Rightarrow> bool" where
  "newer h t \<longleftrightarrow> (case h of None \<Rightarrow> True | Some s \<Rightarrow> s < t)"

definition fetch_entity :: "store \<Rightarrow> int \<Rightarrow> sync_entity \<Rightarrow> datetime option \<Rightarrow> sync_row list \<times> datetime option" where
  "fetch_entity st u e h =
     (let rows = sort_key r_updated (filter (\<lambda>r. r_user r = u \<and> newer h (r_updated r)) (st e))
      in (rows, foldl (\<lambda>h r. raise_high h (r_updated r)) h rows))"

definition fetch_delta ::
  "store \<Rightarrow> int \<Rightarrow> datetime option \<Rightarrow> sync_row list \<times> sync_row list \<times> sync_row list" where
  "fetch_delta st u h =
     (let (tasks, h1) = fetch_entity st u TASK h;
          (subtasks, h2) = fetch_entity st u SUBTASK h1;
          (projects, h3) = fetch_entity st u PROJECT h2
      in (tasks, subtasks, projects))"

subsection \<open>The endpoint\<close>

record sync_response =
  s_applied :: "(sync_entity \<times> int \<times> sync_op \<times> datetime) list"
  s_conflicts :: "(sync_entity \<times> int \<times> sync_op \<times> dict) list"
  s_not_found :: "(sync_entity \<times> int \<times> sync_op) list"
  s_tasks :: "dict list"
  s_subtasks :: "dict list"
  s_projects :: "dict list"
  s_since :: datetime

fun validate_all :: "(string \<Rightarrow> bool) \<Rightarrow> change list \<Rightarrow> unit result" where
  "validate_all iso_ok [] = Inr ()"
| "validate_all iso_ok (c # cs) = bind_r (validate_payload iso_ok (c_payload c) (c_entity c)) (\<lambda>_. validate_all iso_ok cs)"

definition start_merge :: "store \<Rightarrow> datetime option \<Rightarrow> merge_state" where
  "start_merge st since = \<lparr>m_store = st, m_applied = [], m_conflicts = [], m_not_found = [], m_high = since, m_flips = []\<rparr>"

text \<open>The response, the committed tables and the completion flips handed to the background tasks.\<close>

definition sync ::
  "(string \<Rightarrow> bool) \<Rightarrow> (int \<Rightarrow> bool) \<Rightarrow> (sync_entity \<Rightarrow> string \<Rightarrow> json \<Rightarrow> json result) \<Rightarrow> datetime
     \<Rightarrow> int \<Rightarrow> datetime option \<Rightarrow> change list \<Rightarrow> store \<Rightarrow> (sync_response \<times> store \<times> (int \<times> bool) list) result" where
  "sync iso_ok pinned bind now u since changes st =
     bind_r (validate_all iso_ok changes) (\<lambda>_.
     bind_r (merge_changes pinned bind u changes (start_merge st since)) (\<lambda>m.
       let (tasks, subtasks, projects) = fetch_delta (m_store m) u (m_high m)
       in Inr (\<lparr>s_applied = m_applied m, s_conflicts = m_conflicts m, s_not_found = m_not_found m,
                s_tasks = map serialize_row tasks, s_subtasks = map serialize_row subtasks,
                s_projects = map serialize_row projects,
                s_since = (case m_high m of Some h \<Rightarrow> h | None \<Rightarrow> now)\<rparr>, m_store m, m_flips m)))"

end
