(* ===== verification/SyncLaws.thy ===== *)
theory SyncLaws
  imports Sync
begin

text \<open>
  What a sync guarantees: the user's rows are last-writer-wins registers, replaying a batch applies nothing,
  the foreign keys stay inside the user's own rows and no other user's row changes, and which rows the
  delta delivers. The merge is followed change by change, through three outcomes of \<open>merge_one\<close>.
\<close>

subsection \<open>One change\<close>

definition ids_ok :: "store \<Rightarrow> bool" where
  "ids_ok st \<longleftrightarrow> (\<forall>e. distinct (map r_id (st e)))"

definition merged_of :: "change \<Rightarrow> dict" where
  "merged_of c = merge_payload (c_payload c) (MODEL_WHITELISTS (c_entity c))"

lemma write_row_keys [simp]: "r_id (write_row u c v r) = r_id r" "r_user (write_row u c v r) = r_user r"
  by (simp_all add: write_row_def)

lemma written: "\<not> writable u c (write_row u c v r)"
  by (simp add: write_row_def writable_def)

lemma record_unapplied_store [simp]:
  "m_store (record_unapplied u c m) = m_store m" "m_applied (record_unapplied u c m) = m_applied m"
  "m_high (record_unapplied u c m) = m_high m" "m_flips (record_unapplied u c m) = m_flips m"
  by (simp_all add: record_unapplied_def split: option.splits)

lemma bump_store [simp]: "m_store (bump c m) = m_store m" by (simp add: bump_def)

lemma record_applied_store [simp]: "m_store (record_applied c m) = m_store m"
  by (simp add: record_applied_def)

lemma clear_project_keys [simp]: "r_id (clear_project i t) = r_id t" "r_user (clear_project i t) = r_user t"
  "r_updated (clear_project i t) = r_updated t"
  by (simp_all add: clear_project_def)

definition stamped :: "change \<Rightarrow> sync_entity \<times> int \<times> sync_op \<times> datetime" where
  "stamped c = (c_entity c, c_id c, c_op c, c_ts c)"

lemma stamped_ts [simp]: "snd (snd (snd (stamped c))) = c_ts c"
  by (simp add: stamped_def)

definition logged :: "change \<Rightarrow> merge_state \<Rightarrow> merge_state \<Rightarrow> bool" where
  "logged c m m' \<longleftrightarrow> m_applied m' = m_applied m @ [stamped c] \<and> m_high m' = raise_high (m_high m) (c_ts c)
     \<and> m_conflicts m' = m_conflicts m \<and> m_not_found m' = m_not_found m"

lemma logged_bump: "logged c m (bump c (record_applied c (m\<lparr>m_store := st\<rparr>)))"
  "logged c m (bump c (record_applied c (m\<lparr>m_store := st\<rparr>)\<lparr>m_flips := fl\<rparr>))"
  by (simp_all add: logged_def bump_def record_applied_def stamped_def)

lemma merge_one_cases:
  assumes "merge_one pinned bind u c m = Inr m'"
  obtains (refused) "c_op c = UPDATE" "\<not> fk_target_owned (m_store m) (c_entity c) (merged_of c) u"
      "m' = record_unapplied u c m"
    | (stale) "\<forall>r \<in> set (m_store m (c_entity c)). \<not> writable u c r" "m' = record_unapplied u c m"
      "c_op c = UPDATE \<longrightarrow> (\<exists>vals. bind_all bind (c_entity c) (merged_of c) = Inr vals)"
    | (deleted) "c_op c = DELETE" "delete_rows pinned u c (m_store m) = Inr (m_store m')"
      "\<exists>r \<in> set (m_store m (c_entity c)). writable u c r" "logged c m m'"
    | (updated) vals where "c_op c = UPDATE" "fk_target_owned (m_store m) (c_entity c) (merged_of c) u"
      "bind_all bind (c_entity c) (merged_of c) = Inr vals"
      "m_store m' = (m_store m)(c_entity c := map (write_row u c vals) (m_store m (c_entity c)))"
      "logged c m m'" "\<exists>r \<in> set (m_store m (c_entity c)). writable u c r"
proof (cases "c_op c")
  case DELETE
  then show ?thesis
    using assms stale deleted by (auto simp: merge_one_def Let_def logged_bump split: if_splits)
next
  case UPDATE
  note upd = this
  show ?thesis
  proof (cases "fk_target_owned (m_store m) (c_entity c) (merged_of c) u")
    case False
    with upd assms refused show ?thesis by (simp add: merge_one_def Let_def merged_of_def)
  next
    case True
    with upd assms obtain vals where v: "bind_all bind (c_entity c) (merged_of c) = Inr vals"
      by (cases "bind_all bind (c_entity c) (merged_of c)") (simp_all add: merge_one_def Let_def merged_of_def)
    show ?thesis
    proof (cases "\<exists>r \<in> set (m_store m (c_entity c)). writable u c r")
      case False
      with upd assms True v have "m' = record_unapplied u c m"
        by (auto simp: merge_one_def Let_def merged_of_def)
      with False v stale show ?thesis by blast
    next
      case hit: True
      with upd assms True v
      have "m_store m' = (m_store m)(c_entity c := map (write_row u c vals) (m_store m (c_entity c)))" "logged c m m'"
        unfolding merge_one_def Let_def merged_of_def [symmetric] by (auto simp: logged_bump split: if_splits)
      with upd True v hit updated show ?thesis by blast
    qed
  qed
qed

lemma delete_rows_cases:
  assumes "delete_rows pinned u c st = Inr st'"
  obtains "c_entity c \<noteq> PROJECT" "st' = st(c_entity c := filter (\<lambda>r. \<not> writable u c r) (st (c_entity c)))"
      "c_entity c = TASK \<longrightarrow> (\<forall>s \<in> set (st SUBTASK). \<not> refers ''task_id'' (c_id c) s)"
    | "c_entity c = PROJECT"
      "st' = st(PROJECT := filter (\<lambda>r. \<not> writable u c r) (st PROJECT),
                TASK := map (clear_project (c_id c)) (st TASK))"
  using assms that by (cases "c_entity c = PROJECT") (auto simp: delete_rows_def Let_def split: if_splits)

lemma merge_one_ids:
  assumes "merge_one pinned bind u c m = Inr m'" "ids_ok (m_store m)" shows "ids_ok (m_store m')"
proof -
  have f: "distinct (map r_id (filter P (m_store m e)))" for P e
    using assms(2) by (simp add: ids_ok_def distinct_map_filter)
  have g: "map r_id (map (clear_project i) xs) = map r_id xs" for i xs
    by (induction xs) auto
  from assms(1) show ?thesis
  proof (cases rule: merge_one_cases)
    case deleted
    from deleted(2) show ?thesis
      by (cases rule: delete_rows_cases) (use assms(2) f in \<open>simp_all add: ids_ok_def g del: map_map\<close>)
  qed (use assms(2) in \<open>simp_all add: ids_ok_def comp_def\<close>)
qed

subsection \<open>A user's rows are last-writer-wins registers\<close>

text \<open>
  The specification: each id of each table is a register that holds a row of the user or nothing. A change
  takes when its register holds a row, \<open>decide_apply\<close> says so and, for an update, the parent it names
  is a row of the user at that moment. An update that takes moves its own register only; a deletion empties
  it and, for a project, clears \<open>project_id\<close> in the registers of its tasks.
\<close>

type_synonym registers = "sync_entity \<Rightarrow> int \<Rightarrow> sync_row option"

definition registers_of :: "int \<Rightarrow> store \<Rightarrow> registers" where
  "registers_of u st e i = load_row st e i u"

definition parent_there :: "registers \<Rightarrow> change \<Rightarrow> bool" where
  "parent_there R c = (case c_entity c of
     TASK \<Rightarrow> (case fk_of (merged_of c) ''project_id'' of Some j \<Rightarrow> R PROJECT j \<noteq> None | None \<Rightarrow> True)
   | SUBTASK \<Rightarrow> (case fk_of (merged_of c) ''task_id'' of Some j \<Rightarrow> R TASK j \<noteq> None | None \<Rightarrow> True)
   | PROJECT \<Rightarrow> True)"

definition takes :: "registers \<Rightarrow> change \<Rightarrow> bool" where
  "takes R c = (case R (c_entity c) (c_id c) of None \<Rightarrow> False
     | Some r \<Rightarrow> decide_apply (Aware (c_ts c)) (Some (Aware (r_updated r))) = Inr True
         \<and> (c_op c = UPDATE \<longrightarrow> parent_there R c))"

definition bound_vals :: "(sync_entity \<Rightarrow> string \<Rightarrow> json \<Rightarrow> json result) \<Rightarrow> change \<Rightarrow> dict" where
  "bound_vals bind c = (case bind_all bind (c_entity c) (merged_of c) of Inr vals \<Rightarrow> vals | Inl _ \<Rightarrow> [])"

definition register_step ::
  "(sync_entity \<Rightarrow> string \<Rightarrow> json \<Rightarrow> json result) \<Rightarrow> change \<Rightarrow> registers \<Rightarrow> registers" where
  "register_step bind c R =
     (if \<not> takes R c then R
      else case c_op c of
        UPDATE \<Rightarrow> R(c_entity c := (R (c_entity c))(c_id c :=
          map_option (\<lambda>r. r\<lparr>r_cols := dict_merge (r_cols r) (bound_vals bind c), r_updated := c_ts c\<rparr>) (R (c_entity c) (c_id c))))
      | DELETE \<Rightarrow> (let R1 = R(c_entity c := (R (c_entity c))(c_id c := None))
          in if c_entity c = PROJECT then R1(TASK := \<lambda>i. map_option (clear_project (c_id c)) (R1 TASK i)) else R1))"

text \<open>What becomes of each change of a batch, in turn.\<close>

datatype verdict = Taken | Kept sync_row | Missing

definition judge :: "registers \<Rightarrow> change \<Rightarrow> verdict" where
  "judge R c = (if takes R c then Taken else case R (c_entity c) (c_id c) of None \<Rightarrow> Missing | Some r \<Rightarrow> Kept r)"

fun verdicts :: "(sync_entity \<Rightarrow> string \<Rightarrow> json \<Rightarrow> json result) \<Rightarrow> change list \<Rightarrow> registers \<Rightarrow> (change \<times> verdict) list" where
  "verdicts bind [] R = []"
| "verdicts bind (c # cs) R = (c, judge R c) # verdicts bind cs (register_step bind c R)"

lemma decide_apply_aware: "decide_apply (Aware c) (Some (Aware s)) = Inr (s < c)"
  by (simp add: decide_apply_def)

lemma parent_there_owned: "parent_there (registers_of u st) c \<longleftrightarrow> fk_target_owned st (c_entity c) (merged_of c) u"
  by (simp add: parent_there_def fk_target_owned_def registers_of_def split: sync_entity.split option.split)

lemma find_map_keys:
  "(\<And>x. P (f x) = P x) \<Longrightarrow> find P (map f xs) = map_option f (find P xs)"
  by (induction xs) auto

lemma find_filter_keep:
  "(\<And>x. x \<in> set xs \<Longrightarrow> P x \<Longrightarrow> Q x) \<Longrightarrow> find P (filter Q xs) = find P xs"
  by (induction xs) auto

lemma find_distinct_hit:
  "distinct (map r_id xs) \<Longrightarrow> r \<in> set xs \<Longrightarrow> r_id r = i \<Longrightarrow> r_user r = u \<Longrightarrow>
     find (\<lambda>r. r_id r = i \<and> r_user r = u) xs = Some r"
  by (induction xs) (auto simp: image_iff)

lemma load_row_delete:
  assumes "ids_ok st"
  shows "find (\<lambda>r. r_id r = c_id c \<and> r_user r = u) (filter (\<lambda>r. \<not> writable u c r) (st e)) =
    (case load_row st e (c_id c) u of None \<Rightarrow> None | Some r \<Rightarrow> if r_updated r < c_ts c then None else Some r)"
proof (cases "load_row st e (c_id c) u")
  case None
  then have "find (\<lambda>r. r_id r = c_id c \<and> r_user r = u) (filter (\<lambda>r. \<not> writable u c r) (st e)) = None"
    unfolding load_row_def find_None_iff by auto
  with None show ?thesis by simp
next
  case (Some r)
  then have r: "r \<in> set (st e)" "r_id r = c_id c" "r_user r = u"
    by (auto simp: load_row_def find_Some_iff)
  have only: "s = r" if "s \<in> set (st e)" "r_id s = c_id c" for s
    using assms r that by (auto simp: ids_ok_def distinct_map inj_on_def)
  show ?thesis
  proof (cases "r_updated r < c_ts c")
    case True
    then have "find (\<lambda>r. r_id r = c_id c \<and> r_user r = u) (filter (\<lambda>r. \<not> writable u c r) (st e)) = None"
      using only unfolding find_None_iff writable_def by auto
    with Some True show ?thesis by simp
  next
    case False
    then show ?thesis
      using Some only by (subst find_filter_keep) (auto simp: writable_def load_row_def)
  qed
qed

lemma load_row_write: "find (\<lambda>r. r_id r = c_id c \<and> r_user r = u) (map (write_row u c vals) (st e)) =
    map_option (write_row u c vals) (load_row st e (c_id c) u)"
  by (simp add: find_map_keys load_row_def)

lemma load_row_write_other: "i \<noteq> c_id c \<Longrightarrow>
    find (\<lambda>r. r_id r = i \<and> r_user r = u) (map (write_row u c vals) (st e)) = load_row st e i u"
  unfolding load_row_def
  by (subst find_map_keys) (auto simp: find_Some_iff write_row_def writable_def intro!: option.map_ident_strong)

lemma load_rowD: "load_row st e i u = Some r \<Longrightarrow> r \<in> set (st e) \<and> r_id r = i \<and> r_user r = u"
  by (auto simp: load_row_def find_Some_iff)


lemma takes_writable:
  assumes "ids_ok st" "c_op c = UPDATE \<Longrightarrow> fk_target_owned st (c_entity c) (merged_of c) u"
  shows "takes (registers_of u st) c \<longleftrightarrow> (\<exists>r \<in> set (st (c_entity c)). writable u c r)"
proof
  assume "takes (registers_of u st) c"
  then show "\<exists>r \<in> set (st (c_entity c)). writable u c r"
    by (auto simp: takes_def registers_of_def decide_apply_aware writable_def split: option.splits dest!: load_rowD)
next
  assume "\<exists>r \<in> set (st (c_entity c)). writable u c r"
  then obtain r where r: "r \<in> set (st (c_entity c))" "writable u c r" by blast
  have "distinct (map r_id (st (c_entity c)))" using assms(1) by (simp add: ids_ok_def)
  then have "load_row st (c_entity c) (c_id c) u = Some r"
    unfolding load_row_def by (rule find_distinct_hit) (use r in \<open>simp_all add: writable_def\<close>)
  with r assms(2) show "takes (registers_of u st) c"
    by (simp add: takes_def registers_of_def decide_apply_aware writable_def parent_there_owned)
qed

lemma not_taken: "\<not> takes R c \<Longrightarrow> register_step bind c R = R"
  by (simp add: register_step_def)

text \<open>The two writes move the registers as the specification does.\<close>

lemma delete_registers:
  assumes "ids_ok st" "delete_rows pinned u c st = Inr st'" "c_op c = DELETE" and t: "takes (registers_of u st) c"
  shows "registers_of u st' = register_step bind c (registers_of u st)"
proof (intro ext)
  fix e i
  have own: "find (\<lambda>r. r_id r = c_id c \<and> r_user r = u) (filter (\<lambda>r. \<not> writable u c r) (st (c_entity c))) = None"
    using load_row_delete [OF assms(1), of c u "c_entity c"] t
    by (auto simp: takes_def registers_of_def decide_apply_aware split: option.splits)
  have other: "find (\<lambda>r. r_id r = i \<and> r_user r = u) (filter (\<lambda>r. \<not> writable u c r) (st (c_entity c))) = load_row st (c_entity c) i u"
    if "i \<noteq> c_id c"
    unfolding load_row_def by (rule find_filter_keep) (use that in \<open>auto simp: writable_def\<close>)
  have clear: "find (\<lambda>r. r_id r = i \<and> r_user r = u) (map (clear_project j) xs) = map_option (clear_project j) (find (\<lambda>r. r_id r = i \<and> r_user r = u) xs)"
    for j xs by (rule find_map_keys) simp
  from assms(2) show "registers_of u st' e i = register_step bind c (registers_of u st) e i"
  proof (cases rule: delete_rows_cases)
    case 1
    with own other t assms(3) show ?thesis
      by (cases "i = c_id c") (auto simp: register_step_def registers_of_def load_row_def)
  next
    case 2
    with own other clear t assms(3) show ?thesis
      by (cases e; cases "i = c_id c") (auto simp: register_step_def registers_of_def load_row_def Let_def)
  qed
qed

lemma update_registers:
  assumes "bind_all bind (c_entity c) (merged_of c) = Inr vals" "c_op c = UPDATE" and t: "takes (registers_of u st) c"
    and st': "st' = st(c_entity c := map (write_row u c vals) (st (c_entity c)))"
  shows "registers_of u st' = register_step bind c (registers_of u st)"
proof (intro ext)
  fix e i
  have own: "map_option (write_row u c vals) (load_row st (c_entity c) (c_id c) u) =
      map_option (\<lambda>r. r\<lparr>r_cols := dict_merge (r_cols r) vals, r_updated := c_ts c\<rparr>) (load_row st (c_entity c) (c_id c) u)"
    using t by (auto simp: takes_def registers_of_def decide_apply_aware write_row_def writable_def split: option.splits dest!: load_rowD)
  show "registers_of u st' e i = register_step bind c (registers_of u st) e i"
  proof (cases "e = c_entity c")
    case True
    then show ?thesis
      using assms(1,2) t own load_row_write [of c u vals st e] load_row_write_other [of i c u vals st e]
      by (cases "i = c_id c") (simp_all add: register_step_def registers_of_def st' bound_vals_def load_row_def [of "_(_ := _)"])
  next
    case False
    then show ?thesis using assms(2) t by (simp add: register_step_def registers_of_def st' load_row_def)
  qed
qed

lemma merge_ids: "merge_changes pinned bind u cs m = Inr m' \<Longrightarrow> ids_ok (m_store m) \<Longrightarrow> ids_ok (m_store m')"
  by (induction cs arbitrary: m) (auto dest: merge_one_ids)

subsection \<open>The merge refines the registers\<close>

definition applied_item :: "change \<times> verdict \<Rightarrow> (sync_entity \<times> int \<times> sync_op \<times> datetime) option" where
  "applied_item x = (case snd x of Taken \<Rightarrow> Some (stamped (fst x)) | _ \<Rightarrow> None)"

definition conflict_item :: "change \<times> verdict \<Rightarrow> (sync_entity \<times> int \<times> sync_op \<times> dict) option" where
  "conflict_item x = (case snd x of Kept r \<Rightarrow> Some (c_entity (fst x), c_id (fst x), c_op (fst x), serialize_row r) | _ \<Rightarrow> None)"

definition not_found_item :: "change \<times> verdict \<Rightarrow> (sync_entity \<times> int \<times> sync_op) option" where
  "not_found_item x = (case snd x of Missing \<Rightarrow> Some (c_entity (fst x), c_id (fst x), c_op (fst x)) | _ \<Rightarrow> None)"

text \<open>The lists of the response grow by the items of the verdicts, the mark by the stamps of what took.\<close>

definition accounts :: "merge_state \<Rightarrow> (change \<times> verdict) list \<Rightarrow> merge_state \<Rightarrow> bool" where
  "accounts m vs m' \<longleftrightarrow> m_applied m' = m_applied m @ List.map_filter applied_item vs
     \<and> m_conflicts m' = m_conflicts m @ List.map_filter conflict_item vs
     \<and> m_not_found m' = m_not_found m @ List.map_filter not_found_item vs
     \<and> m_high m' = foldl (\<lambda>h a. raise_high h (snd (snd (snd a)))) (m_high m) (List.map_filter applied_item vs)"

lemma map_filter_Cons: "List.map_filter f (x # xs) = (case f x of None \<Rightarrow> [] | Some y \<Rightarrow> [y]) @ List.map_filter f xs"
  by (simp add: List.map_filter_def split: option.split)

lemma unapplied_accounts:
  assumes "\<not> takes (registers_of u (m_store m)) c"
  shows "accounts m [(c, judge (registers_of u (m_store m)) c)] (record_unapplied u c m)"
  using assms by (auto simp: accounts_def judge_def record_unapplied_def registers_of_def map_filter_Cons List.map_filter_def
      applied_item_def conflict_item_def not_found_item_def split: option.split)

lemma applied_accounts:
  assumes "takes R c" "logged c m m'"
  shows "accounts m [(c, judge R c)] m'"
  using assms by (simp add: accounts_def judge_def logged_def List.map_filter_def applied_item_def conflict_item_def not_found_item_def stamped_def)

lemma merge_one_registers:
  assumes "merge_one pinned bind u c m = Inr m'" "ids_ok (m_store m)"
  shows "registers_of u (m_store m') = register_step bind c (registers_of u (m_store m))
    \<and> accounts m [(c, judge (registers_of u (m_store m)) c)] m'"
  using assms(1)
proof (cases rule: merge_one_cases)
  case refused
  then have "\<not> takes (registers_of u (m_store m)) c" by (simp add: takes_def parent_there_owned split: option.split)
  with refused(3) show ?thesis by (simp add: unapplied_accounts not_taken)
next
  case stale
  have "\<not> takes (registers_of u (m_store m)) c"
    using stale(1) by (auto simp: takes_def registers_of_def decide_apply_aware writable_def split: option.splits dest!: load_rowD)
  with stale(2) show ?thesis by (simp add: unapplied_accounts not_taken)
next
  case deleted
  with assms(2) have "takes (registers_of u (m_store m)) c" by (subst takes_writable) auto
  with deleted assms(2) show ?thesis by (simp add: applied_accounts delete_registers)
next
  case (updated vals)
  with assms(2) have "takes (registers_of u (m_store m)) c" by (subst takes_writable) auto
  with updated show ?thesis using applied_accounts update_registers [OF updated(3,1)] by blast
qed

lemma merge_registers:
  "merge_changes pinned bind u cs m = Inr m' \<Longrightarrow> ids_ok (m_store m) \<Longrightarrow>
     registers_of u (m_store m') = fold (register_step bind) cs (registers_of u (m_store m))
   \<and> accounts m (verdicts bind cs (registers_of u (m_store m))) m'"
proof (induction cs arbitrary: m)
  case Nil
  then show ?case by (simp add: accounts_def List.map_filter_def)
next
  case (Cons c cs)
  then obtain m1 where m1: "merge_one pinned bind u c m = Inr m1" "merge_changes pinned bind u cs m1 = Inr m'" by auto
  note one = merge_one_registers [OF m1(1) Cons.prems(2)]
  from Cons.IH [OF m1(2) merge_one_ids [OF m1(1) Cons.prems(2)]] one show ?case
    by (auto simp: accounts_def map_filter_Cons List.map_filter_def)
qed

subsection \<open>Rows only move forward\<close>

text \<open>Every row of the later store is a row of the earlier one, at a timestamp no earlier.\<close>

definition advances :: "store \<Rightarrow> store \<Rightarrow> bool" where
  "advances st st' \<longleftrightarrow> (\<forall>e. \<forall>r' \<in> set (st' e). \<exists>r \<in> set (st e).
     r_id r = r_id r' \<and> r_user r = r_user r' \<and> r_updated r \<le> r_updated r')"

lemma advances_refl [simp]: "advances st st"
  by (auto simp: advances_def)

lemma advancesE:
  assumes "advances st st'" "r' \<in> set (st' e)"
  obtains r where "r \<in> set (st e)" "r_id r = r_id r'" "r_user r = r_user r'" "r_updated r \<le> r_updated r'"
  using assms unfolding advances_def by blast

lemma advances_trans:
  assumes "advances a b" "advances b c" shows "advances a c"
  unfolding advances_def
proof (intro allI ballI)
  fix e r' assume "r' \<in> set (c e)"
  then obtain r1 where "r1 \<in> set (b e)" and r1: "r_id r1 = r_id r'" "r_user r1 = r_user r'" "r_updated r1 \<le> r_updated r'"
    using advancesE [OF assms(2)] by blast
  then obtain r where "r \<in> set (a e)" "r_id r = r_id r1" "r_user r = r_user r1" "r_updated r \<le> r_updated r1"
    using advancesE [OF assms(1)] by blast
  with r1 show "\<exists>r \<in> set (a e). r_id r = r_id r' \<and> r_user r = r_user r' \<and> r_updated r \<le> r_updated r'"
    by (intro bexI [of _ r]) auto
qed

lemma advances_write: "advances st (st(e := map (write_row u c vals) (st e)))"
  by (auto simp: advances_def write_row_def writable_def)

lemma advances_delete: "delete_rows pinned u c st = Inr st' \<Longrightarrow> advances st st'"
  by (erule delete_rows_cases) (auto simp: advances_def)

lemma merge_one_advances: "merge_one pinned bind u c m = Inr m' \<Longrightarrow> advances (m_store m) (m_store m')"
  by (erule merge_one_cases) (simp_all add: advances_write advances_delete)

lemma merge_advances: "merge_changes pinned bind u cs m = Inr m' \<Longrightarrow> advances (m_store m) (m_store m')"
  by (induction cs arbitrary: m) (auto dest: merge_one_advances intro: advances_trans)

lemma advances_load: "advances st st' \<Longrightarrow> load_row st e i u = None \<Longrightarrow> load_row st' e i u = None"
  unfolding advances_def load_row_def find_None_iff by metis

lemma advances_fk: "advances st st' \<Longrightarrow> \<not> fk_target_owned st e d u \<Longrightarrow> \<not> fk_target_owned st' e d u"
  by (cases e) (auto simp: fk_target_owned_def dest: advances_load split: option.splits)

lemma advances_writable:
  "advances st st' \<Longrightarrow> \<forall>r \<in> set (st e). \<not> writable u c r \<Longrightarrow> \<forall>r \<in> set (st' e). \<not> writable u c r"
  by (fastforce simp: writable_def elim: advancesE)

text \<open>A change that is spent can no longer do anything but be reported.\<close>

definition spent :: "(sync_entity \<Rightarrow> string \<Rightarrow> json \<Rightarrow> json result) \<Rightarrow> int \<Rightarrow> change \<Rightarrow> store \<Rightarrow> bool" where
  "spent bind u c st \<longleftrightarrow> (c_op c = UPDATE \<and> \<not> fk_target_owned st (c_entity c) (merged_of c) u)
     \<or> ((\<forall>r \<in> set (st (c_entity c)). \<not> writable u c r)
        \<and> (c_op c = UPDATE \<longrightarrow> (\<exists>vals. bind_all bind (c_entity c) (merged_of c) = Inr vals)))"

lemma spent_advances: "advances st st' \<Longrightarrow> spent bind u c st \<Longrightarrow> spent bind u c st'"
  unfolding spent_def using advances_fk advances_writable by blast

lemma spent_merge: "spent bind u c (m_store m) \<Longrightarrow> merge_one pinned bind u c m = Inr (record_unapplied u c m)"
  unfolding spent_def merge_one_def Let_def merged_of_def [symmetric] by (cases "c_op c") auto

lemma merge_spends: "merge_one pinned bind u c m = Inr m' \<Longrightarrow> spent bind u c (m_store m')"
proof (erule merge_one_cases)
  assume "c_op c = DELETE" and del: "delete_rows pinned u c (m_store m) = Inr (m_store m')"
  from del have "\<forall>r \<in> set (m_store m' (c_entity c)). \<not> writable u c r"
    by (cases rule: delete_rows_cases) simp_all
  with \<open>c_op c = DELETE\<close> show ?thesis by (simp add: spent_def)
next
  fix vals assume vals: "bind_all bind (c_entity c) (merged_of c) = Inr vals"
    and "m_store m' = (m_store m)(c_entity c := map (write_row u c vals) (m_store m (c_entity c)))"
  then have "m_store m' (c_entity c) = map (write_row u c vals) (m_store m (c_entity c))" by simp
  then have "\<forall>r \<in> set (m_store m' (c_entity c)). \<not> writable u c r"
    by (simp add: written)
  with vals show ?thesis unfolding spent_def by blast
qed (simp_all add: spent_def)

lemma merge_spends_all:
  "merge_changes pinned bind u cs m = Inr m' \<Longrightarrow> \<forall>c \<in> set cs. spent bind u c (m_store m')"
proof (induction cs arbitrary: m)
  case (Cons c cs)
  then obtain m1 where m1: "merge_one pinned bind u c m = Inr m1" "merge_changes pinned bind u cs m1 = Inr m'"
    by auto
  from spent_advances [OF merge_advances [OF m1(2)] merge_spends [OF m1(1)]] Cons.IH [OF m1(2)] show ?case by simp
qed simp

lemma spent_merge_all:
  assumes "\<forall>c \<in> set cs. spent bind u c (m_store m)"
  shows "\<exists>m'. merge_changes pinned bind u cs m = Inr m' \<and> m_store m' = m_store m \<and> m_applied m' = m_applied m
    \<and> m_flips m' = m_flips m \<and> m_high m' = m_high m"
  using assms
proof (induction cs arbitrary: m)
  case (Cons c cs)
  then have "merge_one pinned bind u c m = Inr (record_unapplied u c m)" by (simp add: spent_merge)
  with Cons.IH [of "record_unapplied u c m"] Cons.prems show ?case by simp
qed simp

subsection \<open>Foreign keys and other users\<close>

definition refs_ok :: "store \<Rightarrow> bool" where
  "refs_ok st \<longleftrightarrow>
     (\<forall>t \<in> set (st TASK). \<forall>i. refers ''project_id'' i t \<longrightarrow> (\<exists>p \<in> set (st PROJECT). r_id p = i \<and> r_user p = r_user t))
   \<and> (\<forall>s \<in> set (st SUBTASK). \<forall>i. refers ''task_id'' i s \<longrightarrow> (\<exists>t \<in> set (st TASK). r_id t = i \<and> r_user t = r_user s))"

definition fk_val :: "json \<Rightarrow> int option" where
  "fk_val v = (case v of JInt n \<Rightarrow> Some n | JBool b \<Rightarrow> Some (of_bool b) | _ \<Rightarrow> None)"

definition bind_keeps_fk :: "(sync_entity \<Rightarrow> string \<Rightarrow> json \<Rightarrow> json result) \<Rightarrow> bool" where
  "bind_keeps_fk bind \<longleftrightarrow> (\<forall>e k v w. k \<in> {''project_id'', ''task_id''} \<longrightarrow> bind e k v = Inr w \<longrightarrow> fk_val w = fk_val v)"

lemma fk_of_val: "fk_of d k = Option.bind (map_of d k) fk_val"
  by (auto simp: fk_of_def dict_get_def fk_val_def split: option.splits json.splits)

lemma bind_all_fk:
  assumes "bind_keeps_fk bind" "k \<in> {''project_id'', ''task_id''}"
  shows "bind_all bind e d = Inr vals \<Longrightarrow>
    fk_of vals k = fk_of d k \<and> map fst vals = map fst d"
proof (induction d arbitrary: vals)
  case (Cons kv d)
  obtain k' v where kv: "kv = (k', v)" by force
  with Cons.prems obtain w vals' where w: "bind e k' v = Inr w" "bind_all bind e d = Inr vals'" "vals = (k', w) # vals'"
    by auto
  have "k' = k \<Longrightarrow> fk_val w = fk_val v" using assms w(1) unfolding bind_keeps_fk_def by blast
  with Cons.IH [OF w(2)] w(3) kv show ?case by (auto simp: fk_of_val)
qed simp

lemma dict_merge_get:
  "distinct (map fst b) \<Longrightarrow> map_of (dict_merge a b) k = (case map_of b k of None \<Rightarrow> map_of a k | Some v \<Rightarrow> Some v)"
  unfolding map_of_dict_merge
proof (induction b arbitrary: a rule: rev_induct)
  case (snoc kv b)
  then show ?case
    by (cases kv) (auto simp: map_add_def image_iff split: option.splits dest!: map_of_SomeD)
qed simp

text \<open>Payloads are Python dicts: no key twice.\<close>

definition wf_change :: "change \<Rightarrow> bool" where
  "wf_change c \<longleftrightarrow> distinct (map fst (c_payload c))"

lemma merged_distinct: "wf_change c \<Longrightarrow> distinct (map fst (merged_of c))"
  by (simp add: wf_change_def merged_of_def merge_payload_def distinct_map_filter)

lemma fk_written:
  assumes "bind_keeps_fk bind" "wf_change c" "bind_all bind e (merged_of c) = Inr vals"
    "key \<in> {''project_id'', ''task_id''}" "writable u c r"
  shows "fk_of (r_cols (write_row u c vals r)) key = (if key \<in> fst ` set (merged_of c) then fk_of (merged_of c) key
     else fk_of (r_cols r) key)"
proof -
  note b = bind_all_fk [OF assms(1,4,3)]
  have "distinct (map fst vals)" using b merged_distinct [OF assms(2)] by simp
  moreover have "map_of vals key = None \<longleftrightarrow> key \<notin> fst ` set (merged_of c)"
    using b by (metis map_of_eq_None_iff set_map)
  ultimately show ?thesis
    using b assms(5) by (cases "map_of vals key") (simp_all add: write_row_def fk_of_val dict_merge_get)
qed

lemma fk_of_null [simp]: "fk_of (dict_set d k JNull) k' = (if k' = k then None else fk_of d k')"
  by (simp add: fk_of_val fk_val_def)

lemma refers_clear: "refers ''project_id'' j (clear_project i t) \<longleftrightarrow> refers ''project_id'' j t \<and> j \<noteq> i"
  by (auto simp: refers_def clear_project_def)

lemma refs_okD:
  assumes "refs_ok st"
  shows "t \<in> set (st TASK) \<Longrightarrow> refers ''project_id'' i t \<Longrightarrow> \<exists>p \<in> set (st PROJECT). r_id p = i \<and> r_user p = r_user t"
    "s \<in> set (st SUBTASK) \<Longrightarrow> refers ''task_id'' i s \<Longrightarrow> \<exists>t \<in> set (st TASK). r_id t = i \<and> r_user t = r_user s"
  using assms unfolding refs_ok_def by blast+

lemma update_refs:
  assumes ok: "refs_ok st" and bind: "bind_keeps_fk bind" and wf: "wf_change c"
    and fk: "fk_target_owned st (c_entity c) (merged_of c) u"
    and vals: "bind_all bind (c_entity c) (merged_of c) = Inr vals"
    and st': "st' = st(c_entity c := map (write_row u c vals) (st (c_entity c)))"
  shows "refs_ok st'"
proof -
  have same: "(\<exists>p \<in> set (st' e). r_id p = i \<and> r_user p = v) \<longleftrightarrow> (\<exists>p \<in> set (st e). r_id p = i \<and> r_user p = v)" for e i v
    by (auto simp: st')
  have owned: "\<exists>p \<in> set (st parent). r_id p = i \<and> r_user p = r_user t"
    if t: "t \<in> set (st' e)" "refers key i t" and e: "(e, key, parent) \<in> {(TASK, ''project_id'', PROJECT), (SUBTASK, ''task_id'', TASK)}"
    for e key parent i t
  proof (cases "t \<in> set (st e)")
    case True
    with t e refs_okD [OF ok] show ?thesis by auto
  next
    case False
    with t st' obtain r where r: "e = c_entity c" "r \<in> set (st e)" "t = write_row u c vals r" by (auto split: if_splits)
    with False have w: "writable u c r" by (cases "writable u c r") (simp_all add: write_row_def)
    note cols = fk_written [OF bind wf vals _ w, of key]
    show ?thesis
    proof (cases "key \<in> fst ` set (merged_of c)")
      case True
      with cols r e t(2) have "fk_of (merged_of c) key = Some i" by (auto simp: refers_def)
      with fk r e have "load_row st parent i u \<noteq> None" by (auto simp: fk_target_owned_def)
      with r w show ?thesis by (auto simp: writable_def dest: load_rowD)
    next
      case False
      with cols r e t(2) have "refers key i r" by (auto simp: refers_def)
      with refs_okD [OF ok] r e show ?thesis by auto
    qed
  qed
  show ?thesis using owned [of _ TASK] owned [of _ SUBTASK] unfolding refs_ok_def same by blast
qed

lemma delete_refs:
  assumes ok: "refs_ok st" and ids: "ids_ok st" and del: "delete_rows pinned u c st = Inr st'"
  shows "refs_ok st'"
  using del
proof (cases rule: delete_rows_cases)
  case 1
  show ?thesis
  proof (cases "c_entity c")
    case TASK
    with 1 have st': "st' TASK = filter (\<lambda>r. \<not> writable u c r) (st TASK)" "st' SUBTASK = st SUBTASK" "st' PROJECT = st PROJECT"
      and free: "\<forall>s \<in> set (st SUBTASK). \<not> refers ''task_id'' (c_id c) s" by simp_all
    have "\<exists>t \<in> set (st' TASK). r_id t = i \<and> r_user t = r_user s"
      if s: "s \<in> set (st SUBTASK)" "refers ''task_id'' i s" for s i
    proof -
      from free s have "i \<noteq> c_id c" by auto
      with refs_okD(2) [OF ok s] st'(1) show ?thesis by (auto simp: writable_def)
    qed
    with refs_okD(1) [OF ok] st' show ?thesis by (simp add: refs_ok_def)
  next
    case SUBTASK
    with 1 ok show ?thesis by (simp add: refs_ok_def)
  qed (use 1 in simp)
next
  case 2
  show ?thesis
    unfolding refs_ok_def
  proof (intro conjI ballI allI impI)
    fix t' i assume "t' \<in> set (st' TASK)" "refers ''project_id'' i t'"
    then obtain t where t: "t \<in> set (st TASK)" "t' = clear_project (c_id c) t" "refers ''project_id'' i t" "i \<noteq> c_id c"
      using 2(2) by (auto simp: refers_clear)
    with refs_okD(1) [OF ok t(1,3)] 2(2) show "\<exists>p \<in> set (st' PROJECT). r_id p = i \<and> r_user p = r_user t'"
      by (auto simp: writable_def)
  next
    fix s i assume "s \<in> set (st' SUBTASK)" "refers ''task_id'' i s"
    with refs_okD(2) [OF ok, of s i] 2(2) obtain t where "t \<in> set (st TASK)" "r_id t = i" "r_user t = r_user s" by auto
    with 2(2) show "\<exists>t \<in> set (st' TASK). r_id t = i \<and> r_user t = r_user s" by (auto intro!: rev_image_eqI)
  qed
qed

definition rows_of_others :: "int \<Rightarrow> store \<Rightarrow> sync_entity \<Rightarrow> sync_row list" where
  "rows_of_others u st e = filter (\<lambda>r. r_user r \<noteq> u) (st e)"

lemma others_write: "rows_of_others u (st(e := map (write_row u c vals) (st e))) = rows_of_others u st"
proof -
  have "filter (\<lambda>r. r_user r \<noteq> u) (map (write_row u c vals) xs) = filter (\<lambda>r. r_user r \<noteq> u) xs" for xs
    by (induction xs) (auto simp: write_row_def writable_def)
  then show ?thesis by (auto simp: rows_of_others_def fun_eq_iff)
qed

lemma others_delete:
  assumes ok: "refs_ok st" and ids: "ids_ok st" and del: "delete_rows pinned u c st = Inr st'"
    and hit: "\<exists>r \<in> set (st (c_entity c)). writable u c r"
  shows "rows_of_others u st' = rows_of_others u st"
proof -
  from hit obtain r where hit: "r \<in> set (st (c_entity c))" "writable u c r" by blast
  have f: "filter (\<lambda>r. r_user r \<noteq> u) (filter (\<lambda>r. \<not> writable u c r) xs) = filter (\<lambda>r. r_user r \<noteq> u) xs" for xs
    by (induction xs) (auto simp: writable_def)
  from del show ?thesis
  proof (cases rule: delete_rows_cases)
    case 1
    with f show ?thesis by (auto simp: rows_of_others_def fun_eq_iff)
  next
    case 2
    have mine: "r_user t = u" if t: "t \<in> set (st TASK)" "refers ''project_id'' (c_id c) t" for t
    proof -
      obtain p where p: "p \<in> set (st PROJECT)" "r_id p = c_id c" "r_user p = r_user t"
        using refs_okD(1) [OF ok t] by blast
      have "p = r" using ids p(1,2) hit 2(1) by (auto simp: ids_ok_def distinct_map inj_on_def writable_def)
      with p(3) hit(2) show ?thesis by (simp add: writable_def)
    qed
    have "filter (\<lambda>r. r_user r \<noteq> u) (map (clear_project (c_id c)) xs) = filter (\<lambda>r. r_user r \<noteq> u) xs"
      if "set xs \<subseteq> set (st TASK)" for xs
      using that mine by (induction xs) (auto simp: clear_project_def)
    with 2 f show ?thesis by (auto simp: rows_of_others_def fun_eq_iff)
  qed
qed

lemma merge_refs:
  assumes "merge_changes pinned bind u cs m = Inr m'" "ids_ok (m_store m)" "refs_ok (m_store m)"
    and "bind_keeps_fk bind" "\<forall>c \<in> set cs. wf_change c"
  shows "refs_ok (m_store m') \<and> rows_of_others u (m_store m') = rows_of_others u (m_store m)"
  using assms
proof (induction cs arbitrary: m)
  case Nil
  then show ?case by simp
next
  case (Cons c cs)
  from Cons.prems(1) obtain m1 where m1: "merge_one pinned bind u c m = Inr m1" "merge_changes pinned bind u cs m1 = Inr m'"
    by auto
  have one: "refs_ok (m_store m1) \<and> rows_of_others u (m_store m1) = rows_of_others u (m_store m)"
    using m1(1)
  proof (cases rule: merge_one_cases)
    case deleted
    with delete_refs [OF Cons.prems(3,2) deleted(2)] others_delete [OF Cons.prems(3,2) deleted(2,3)]
    show ?thesis by simp
  next
    case (updated vals)
    with update_refs [OF Cons.prems(3,4) _ updated(2,3,4)] Cons.prems(5) show ?thesis
      by (simp add: others_write)
  qed (use Cons.prems(3) in simp_all)
  with Cons.IH [OF m1(2) merge_one_ids [OF m1(1) Cons.prems(2)]] Cons.prems(4,5) show ?case by simp
qed

subsection \<open>What the response accounts for\<close>

definition answered :: "merge_state \<Rightarrow> nat" where
  "answered m = length (m_applied m) + length (m_conflicts m) + length (m_not_found m)"

lemma answered_unapplied: "answered (record_unapplied u c m) = Suc (answered m)"
  by (simp add: answered_def record_unapplied_def split: option.splits)

lemma merge_one_answered: "merge_one pinned bind u c m = Inr m' \<Longrightarrow> answered m' = Suc (answered m)"
  by (cases rule: merge_one_cases, assumption) (simp_all add: answered_unapplied, simp_all add: logged_def answered_def)

lemma merge_answered: "merge_changes pinned bind u cs m = Inr m' \<Longrightarrow> answered m' = answered m + length cs"
  by (induction cs arbitrary: m) (auto dest: merge_one_answered)

lemma newer_raise: "newer (raise_high h s) t \<longleftrightarrow> newer h t \<and> s < t"
  by (auto simp: newer_def raise_high_def split: option.splits)

lemma newer_foldl: "newer (foldl (\<lambda>h r. raise_high h (f r)) h xs) t \<longleftrightarrow> newer h t \<and> (\<forall>r \<in> set xs. f r < t)"
  by (induction xs arbitrary: h) (auto simp: newer_raise)

subsection \<open>The delta\<close>

definition fresh :: "store \<Rightarrow> int \<Rightarrow> (datetime \<Rightarrow> bool) \<Rightarrow> sync_entity \<Rightarrow> sync_row list" where
  "fresh st u late e = filter (\<lambda>r. r_user r = u \<and> late (r_updated r)) (st e)"

lemma fetch_delta_fresh:
  "fetch_delta st u h =
    (let F = fresh st u (newer h) in
     (sort_key r_updated (F TASK),
      sort_key r_updated (filter (\<lambda>s. \<forall>t \<in> set (F TASK). r_updated t < r_updated s) (F SUBTASK)),
      sort_key r_updated (filter (\<lambda>p. \<forall>x \<in> set (F TASK) \<union> set (F SUBTASK). r_updated x < r_updated p) (F PROJECT))))"
proof -
  have late: "(\<forall>t \<in> T. f t < x) \<and> (\<forall>s \<in> {s \<in> S. \<forall>t \<in> T. f t < f s}. f s < x) \<longleftrightarrow> (\<forall>y \<in> T \<union> S. f y < x)"
    for T S :: "sync_row set" and f :: "sync_row \<Rightarrow> datetime" and x
    by (auto simp: ball_Un) (metis not_less order_le_less_trans)
  let ?F = "fresh st u (newer h)"
  let ?S = "filter (\<lambda>s. \<forall>t \<in> set (?F TASK). r_updated t < r_updated s) (?F SUBTASK)"
  define h1 where "h1 = snd (fetch_entity st u TASK h)"
  define h2 where "h2 = snd (fetch_entity st u SUBTASK h1)"
  have h1: "newer h1 x \<longleftrightarrow> newer h x \<and> (\<forall>t \<in> set (?F TASK). r_updated t < x)" for x
    by (simp add: h1_def fetch_entity_def Let_def newer_foldl fresh_def)
  have sub: "filter (\<lambda>r. r_user r = u \<and> newer h1 (r_updated r)) (st SUBTASK) = ?S"
    by (auto simp: h1 fresh_def intro: filter_cong)
  have h2: "newer h2 x \<longleftrightarrow> newer h x \<and> (\<forall>y \<in> set (?F TASK) \<union> set (?F SUBTASK). r_updated y < x)" for x
    using late [of "set (?F TASK)" r_updated x "set (?F SUBTASK)"]
    unfolding h2_def fetch_entity_def Let_def snd_conv newer_foldl set_sort sub unfolding h1 by simp
  have proj: "filter (\<lambda>r. r_user r = u \<and> newer h2 (r_updated r)) (st PROJECT) =
    filter (\<lambda>p. \<forall>x \<in> set (?F TASK) \<union> set (?F SUBTASK). r_updated x < r_updated p) (?F PROJECT)"
    unfolding fresh_def [of _ _ _ PROJECT] h2 by (auto intro: filter_cong)
  have "fetch_delta st u h = (fst (fetch_entity st u TASK h), fst (fetch_entity st u SUBTASK h1), fst (fetch_entity st u PROJECT h2))"
    by (simp add: fetch_delta_def h1_def h2_def split: prod.split)
  also have "\<dots> = (sort_key r_updated (?F TASK), sort_key r_updated ?S,
      sort_key r_updated (filter (\<lambda>p. \<forall>x \<in> set (?F TASK) \<union> set (?F SUBTASK). r_updated x < r_updated p) (?F PROJECT)))"
    unfolding fetch_entity_def Let_def fst_conv sub proj by (simp add: fresh_def)
  finally show ?thesis by (simp add: Let_def)
qed

end
