(* ===== verification/SyncSpec.thy ===== *)
theory SyncSpec
  imports SyncLaws "HOL-Library.Multiset"
begin

text \<open>
  The sync endpoint: what its response and the committed tables satisfy, each property with a concrete
  batch of two users' rows on which it applies.
\<close>

subsection \<open>From the merge to the endpoint\<close>

lemma sync_merge:
  assumes "sync iso_ok pinned bind now u since cs st = Inr (resp, st', flips)"
  obtains m where "validate_all iso_ok cs = Inr ()" "merge_changes pinned bind u cs (start_merge st since) = Inr m"
    "st' = m_store m" "flips = m_flips m" "s_applied resp = m_applied m" "s_conflicts resp = m_conflicts m"
    "s_not_found resp = m_not_found m" "s_since resp = (case m_high m of Some h \<Rightarrow> h | None \<Rightarrow> now)"
    "map serialize_row (fst (fetch_delta st' u (m_high m))) = s_tasks resp"
    "map serialize_row (fst (snd (fetch_delta st' u (m_high m)))) = s_subtasks resp"
    "map serialize_row (snd (snd (fetch_delta st' u (m_high m)))) = s_projects resp"
  using assms by (auto simp: sync_def split: prod.splits)

lemma start_merge_sel [simp]: "m_store (start_merge st h) = st" "m_applied (start_merge st h) = []"
  "m_conflicts (start_merge st h) = []" "m_not_found (start_merge st h) = []" "m_flips (start_merge st h) = []"
  "m_high (start_merge st h) = h"
  by (simp_all add: start_merge_def)

lemma sync_store:
  assumes "sync iso_ok pinned bind now u since cs st = Inr (resp, st', flips)"
  obtains m where "merge_changes pinned bind u cs (start_merge st since) = Inr m" "st' = m_store m"
  using assms by (elim sync_merge) blast

subsection \<open>A sample of two users\<close>

definition sync_sample_store :: store where
  "sync_sample_store e = (case e of
     TASK \<Rightarrow> [\<lparr>r_id = 1, r_user = 1, r_updated = 100, r_cols = [(''project_id'', JInt 5), (''title'', JStr ''write''), (''completed'', JBool False)]\<rparr>,
              \<lparr>r_id = 2, r_user = 2, r_updated = 100, r_cols = [(''project_id'', JInt 6), (''title'', JStr ''read'')]\<rparr>]
   | SUBTASK \<Rightarrow> [\<lparr>r_id = 9, r_user = 1, r_updated = 50, r_cols = [(''task_id'', JInt 1), (''title'', JStr ''draft'')]\<rparr>]
   | PROJECT \<Rightarrow> [\<lparr>r_id = 5, r_user = 1, r_updated = 90, r_cols = [(''name'', JStr ''thesis'')]\<rparr>,
                 \<lparr>r_id = 6, r_user = 2, r_updated = 90, r_cols = [(''name'', JStr ''thesis'')]\<rparr>])"

definition sync_sample_edits :: "change list" where
  "sync_sample_edits =
     [\<lparr>c_entity = TASK, c_id = 1, c_op = UPDATE, c_payload = [(''completed'', JBool True), (''user_id'', JInt 2)], c_ts = 200\<rparr>,
      \<lparr>c_entity = TASK, c_id = 1, c_op = UPDATE, c_payload = [(''title'', JStr ''old'')], c_ts = 150\<rparr>,
      \<lparr>c_entity = TASK, c_id = 2, c_op = DELETE, c_payload = [], c_ts = 300\<rparr>,
      \<lparr>c_entity = SUBTASK, c_id = 9, c_op = UPDATE, c_payload = [(''title'', JStr ''outline'')], c_ts = 120\<rparr>]"

definition sync_sample_batch :: "change list" where
  "sync_sample_batch = sync_sample_edits @ [\<lparr>c_entity = PROJECT, c_id = 5, c_op = DELETE, c_payload = [], c_ts = 250\<rparr>]"

definition sample_sync :: "change list \<Rightarrow> store \<Rightarrow> (sync_response \<times> store \<times> (int \<times> bool) list) result" where
  "sample_sync = sync (\<lambda>_. True) (\<lambda>_. False) (\<lambda>_ _ v. Inr v) 1000 1 (Some 40)"

lemma sync_entity_UNIV: "(\<forall>e. P e) \<longleftrightarrow> P TASK \<and> P SUBTASK \<and> P PROJECT"
  by (metis sync_entity.exhaust)

lemma sync_sample_ids: "ids_ok sync_sample_store"
  by (simp add: ids_ok_def sync_entity_UNIV sync_sample_store_def)

lemma sync_sample_refs: "refs_ok sync_sample_store"
  by (simp add: refs_ok_def sync_sample_store_def refers_def fk_of_def dict_get_def)

lemma sync_sample_bind: "bind_keeps_fk (\<lambda>_ _ v. Inr v)"
  by (simp add: bind_keeps_fk_def)

lemmas sync_sample_merge = sample_sync_def sync_def sync_sample_batch_def sync_sample_edits_def validate_payload.simps validate_field_def
  validate_string_field_def MODEL_WHITELISTS_def FIELD_TYPES_def STRING_LIMITS_def NULLABLE_def py_isinstance_def py_len_def
  merge_one_def Let_def merge_payload_def fk_target_owned_def fk_of_def dict_get_def dict_get_or_def load_row_def sync_sample_store_def
  writable_def write_row_def record_unapplied_def record_applied_def bump_def raise_high_def delete_rows_def clear_project_def
  refers_def dict_merge_def dict_set_def truthy_def start_merge_def

lemma sync_sample_runs:
  obtains resp st' flips where "sample_sync sync_sample_batch sync_sample_store = Inr (resp, st', flips)"
    "s_applied resp = [(TASK, 1, UPDATE, 200), (SUBTASK, 9, UPDATE, 120), (PROJECT, 5, DELETE, 250)]"
    "load_row st' PROJECT 5 1 = None" "flips = [(1, True)]"
    "map_option r_cols (load_row st' TASK 1 1) = Some [(''project_id'', JNull), (''title'', JStr ''write''), (''completed'', JBool True)]"
proof -
  have "case sample_sync sync_sample_batch sync_sample_store of Inl e \<Rightarrow> False | Inr (resp, st', flips) \<Rightarrow>
      s_applied resp = [(TASK, 1, UPDATE, 200), (SUBTASK, 9, UPDATE, 120), (PROJECT, 5, DELETE, 250)]
    \<and> load_row st' PROJECT 5 1 = None \<and> flips = [(1, True)]
    \<and> map_option r_cols (load_row st' TASK 1 1) = Some [(''project_id'', JNull), (''title'', JStr ''write''), (''completed'', JBool True)]"
    by (simp add: sync_sample_merge split: prod.split)
  with that show ?thesis by (auto split: sum.splits prod.splits)
qed

subsection \<open>Properties\<close>

text \<open>C5: the user's rows are last-writer-wins registers. Seen through the registers of the user, the
  tables after the request are the fold of the changes over the tables before it, in the order sent: a
  change takes exactly when \<open>decide_apply\<close> of \<open>lww.py\<close> says so on the row as it is at that moment and the
  parent an update names is then a row of the user; an update that takes writes the whitelisted columns
  and the client's time, a deletion empties the register and clears the \<open>project_id\<close> of a deleted
  project's tasks, and nothing else moves. The conditional SQL writes refine the pure module.\<close>

theorem sync_row_register:
  assumes "sync iso_ok pinned bind now u since cs st = Inr (resp, st', flips)" and "ids_ok st"
  shows "registers_of u st' = fold (register_step bind) cs (registers_of u st)"
  using assms(1)
proof (rule sync_store)
  fix m assume "merge_changes pinned bind u cs (start_merge st since) = Inr m" "st' = m_store m"
  with merge_registers [of pinned bind u cs "start_merge st since" m] assms(2) show ?thesis by simp
qed

theorem sync_row_register_witness:
  "\<exists>resp st' flips. sample_sync sync_sample_batch sync_sample_store = Inr (resp, st', flips)
     \<and> registers_of 1 st' = fold (register_step (\<lambda>_ _ v. Inr v)) sync_sample_batch (registers_of 1 sync_sample_store)
     \<and> load_row st' PROJECT 5 1 = None
     \<and> map_option r_cols (load_row st' TASK 1 1)
         = Some [(''project_id'', JNull), (''title'', JStr ''write''), (''completed'', JBool True)]"
proof (rule sync_sample_runs)
  fix resp st' flips
  assume run: "sample_sync sync_sample_batch sync_sample_store = Inr (resp, st', flips)"
    and rows: "load_row st' PROJECT 5 1 = None" "map_option r_cols (load_row st' TASK 1 1)
         = Some [(''project_id'', JNull), (''title'', JStr ''write''), (''completed'', JBool True)]"
  from sync_row_register [OF run [unfolded sample_sync_def] sync_sample_ids] run rows show ?thesis by blast
qed

text \<open>C26: a batch sent twice is applied once. Sending the same changes again, at any later time and from
  any mark, succeeds, applies none of them, schedules no completion flip and leaves every table as it
  was; in particular no error of the driver or of a constraint can surface on the retry.\<close>

theorem sync_replay:
  assumes "sync iso_ok pinned bind now u since cs st = Inr (resp, st', flips)"
  shows "\<exists>resp'. sync iso_ok pinned' bind now' u since' cs st' = Inr (resp', st', [])
    \<and> s_applied resp' = [] \<and> length (s_conflicts resp') + length (s_not_found resp') = length cs"
  using assms
proof (rule sync_merge)
  fix m assume v: "validate_all iso_ok cs = Inr ()"
    and m: "merge_changes pinned bind u cs (start_merge st since) = Inr m" "st' = m_store m"
  from merge_spends_all [OF m(1)] m(2) have "\<forall>c \<in> set cs. spent bind u c (m_store (start_merge st' since'))" by simp
  from spent_merge_all [OF this, of pinned'] obtain m'
    where m': "merge_changes pinned' bind u cs (start_merge st' since') = Inr m'" "m_store m' = st'" "m_applied m' = []" "m_flips m' = []"
    by auto
  moreover obtain a b d where "fetch_delta st' u (m_high m') = (a, b, d)" by (rule prod_cases3)
  ultimately show ?thesis
    using merge_answered [OF m'(1)] v by (simp add: sync_def answered_def)
qed

theorem sync_replay_witness:
  "\<exists>resp st' flips resp'. sample_sync sync_sample_batch sync_sample_store = Inr (resp, st', flips) \<and> length (s_applied resp) = 3
     \<and> sample_sync sync_sample_batch st' = Inr (resp', st', []) \<and> s_applied resp' = []"
proof (rule sync_sample_runs)
  fix resp st' flips
  assume run: "sample_sync sync_sample_batch sync_sample_store = Inr (resp, st', flips)"
    and app: "s_applied resp = [(TASK, 1, UPDATE, 200), (SUBTASK, 9, UPDATE, 120), (PROJECT, 5, DELETE, 250)]"
  from sync_replay [OF run [unfolded sample_sync_def], of "\<lambda>_. False" 1000 "Some 40"] run app show ?thesis
    unfolding sample_sync_def by auto
qed

text \<open>C19: a sync by one user leaves the rows of every other user exactly as they were, in all three
  tables, whatever ids and foreign keys the batch names, and it keeps primary keys unique and every
  foreign key pointing at an existing row of the same user.\<close>

theorem sync_isolated:
  assumes "sync iso_ok pinned bind now u since cs st = Inr (resp, st', flips)" and "ids_ok st" and "refs_ok st"
    and "bind_keeps_fk bind" and "\<forall>c \<in> set cs. wf_change c"
  shows "rows_of_others u st' = rows_of_others u st \<and> ids_ok st' \<and> refs_ok st'"
  using assms(1)
proof (rule sync_store)
  fix m assume "merge_changes pinned bind u cs (start_merge st since) = Inr m" "st' = m_store m"
  with merge_refs [of pinned bind u cs "start_merge st since" m] merge_ids [of pinned bind u cs "start_merge st since" m] assms(2-5)
  show ?thesis by simp
qed

theorem sync_isolated_witness:
  "\<exists>resp st' flips. sample_sync sync_sample_batch sync_sample_store = Inr (resp, st', flips) \<and> length (s_applied resp) = 3
     \<and> rows_of_others 1 st' = rows_of_others 1 sync_sample_store \<and> ids_ok st' \<and> refs_ok st'"
proof (rule sync_sample_runs)
  fix resp st' flips
  assume run: "sample_sync sync_sample_batch sync_sample_store = Inr (resp, st', flips)"
    and app: "s_applied resp = [(TASK, 1, UPDATE, 200), (SUBTASK, 9, UPDATE, 120), (PROJECT, 5, DELETE, 250)]"
  have "\<forall>c \<in> set sync_sample_batch. wf_change c" by (simp add: sync_sample_batch_def sync_sample_edits_def wf_change_def)
  with sync_isolated [OF run [unfolded sample_sync_def] sync_sample_ids sync_sample_refs sync_sample_bind] run app show ?thesis by auto
qed







end
