(* ===== verification/CharacterApi.thy ===== *)
theory CharacterApi
  imports Character
begin

text \<open>
  The character endpoints of \<open>app/api/routers/game_character.py\<close> and the profile response of
  \<open>app/schemas/game.py\<close>. A handler takes the database and returns the response, or the HTTP error or
  unhandled exception the client sees, with the committed database: what was not committed when the
  handler raises is rolled back with the session, and what a read seeds is never committed.
\<close>

subsection \<open>Responses\<close>

datatype http_error = HTTP int string | Fault py_error

type_synonym 'a reply = "http_error + 'a"

text \<open>\<open>except ValueError as exc: raise HTTPException(status_code=400, detail=str(exc))\<close>.\<close>

definition bad_request :: "py_error \<Rightarrow> http_error" where
  "bad_request e = (case e of ValueError msg \<Rightarrow> HTTP 400 msg | _ \<Rightarrow> Fault e)"

definition reply_of :: "('a \<Rightarrow> 'b) \<Rightarrow> 'a result \<Rightarrow> 'b reply" where
  "reply_of f r = (case r of Inl e \<Rightarrow> Inl (Fault e) | Inr a \<Rightarrow> Inr (f a))"

text \<open>\<open>GameProfileRead.from_profile\<close>; the counters of another day read as zero.\<close>

record profile_read =
  pr_level :: int
  pr_xp :: int
  pr_xp_to_next_level :: int
  pr_hp :: rat
  pr_max_hp :: rat
  pr_gold :: rat
  pr_stats :: "(stat \<times> int) list"
  pr_effective :: "(stat \<times> int) list"
  pr_unspent :: int
  pr_class :: "string option"
  pr_class_unlocked :: bool
  pr_auto_allocate :: bool
  pr_xp_today :: int
  pr_gold_today :: rat

definition from_profile :: "env \<Rightarrow> profile \<Rightarrow> int \<Rightarrow> bonus \<Rightarrow> profile_read" where
  "from_profile env p xp_to_next stat_bonus =
     (let is_today = (totals_day p = Some (date_of (e_now env))) in
      \<lparr>pr_level = level p, pr_xp = xp p, pr_xp_to_next_level = xp_to_next, pr_hp = hp p, pr_max_hp = max_hp p,
       pr_gold = gold p, pr_stats = map (\<lambda>s. (s, get_stat p s)) stat_columns,
       pr_effective = map (\<lambda>s. (s, effective_stat p s stat_bonus)) stat_columns,
       pr_unspent = unspent_stat_points p, pr_class = game_class p, pr_class_unlocked = class_unlocked p,
       pr_auto_allocate = auto_allocate p, pr_xp_today = (if is_today then xp_today p else 0),
       pr_gold_today = (if is_today then gold_today p else 0)\<rparr>)"

definition profile_read_of :: "env \<Rightarrow> int \<Rightarrow> db \<Rightarrow> game_rates \<Rightarrow> profile_read" where
  "profile_read_of env u db rates = (let p = profile_of db u
     in from_profile env p (xp_to_next_level (level p) rates) (gear_stat_bonus db u))"

text \<open>The catalog as a gear response lists it, and the two responses read after the commit.\<close>

type_synonym catalog_read = "(gear_item \<times> bool \<times> bool \<times> bool) list"

definition profile_reply :: "env \<Rightarrow> int \<Rightarrow> db \<Rightarrow> profile_read reply" where
  "profile_reply env u db = reply_of (profile_read_of env u db) (load_rates db)"

definition gear_reply :: "env \<Rightarrow> int \<Rightarrow> db \<Rightarrow> (catalog_read \<times> profile_read) reply" where
  "gear_reply env u db = reply_of (\<lambda>rates. (fst (list_catalog u db), profile_read_of env u (snd (list_catalog u db)) rates))
     (load_rates db)"

subsection \<open>Stats and class\<close>

definition update_character :: "env \<Rightarrow> int \<Rightarrow> bool \<Rightarrow> db \<Rightarrow> profile_read reply \<times> db" where
  "update_character env u on db =
     (let (p, db1) = get_or_create_profile db u;
          p1 = p\<lparr>auto_allocate := on\<rparr>;
          p2 = (if on then fst (distribute_unspent p1) else p1);
          db2 = put_profile u p2 db1
      in (profile_reply env u db2, db2))"

definition allocate_stats :: "env \<Rightarrow> int \<Rightarrow> json \<Rightarrow> db \<Rightarrow> profile_read reply \<times> db" where
  "allocate_stats env u points db =
     (let (p, db1) = get_or_create_profile db u in
      case allocate_points p points of
        Inl e \<Rightarrow> (Inl (bad_request e), db)
      | Inr p1 \<Rightarrow> let db2 = put_profile u p1 db1 in (profile_reply env u db2, db2))"

definition pick_class :: "env \<Rightarrow> int \<Rightarrow> string \<Rightarrow> db \<Rightarrow> profile_read reply \<times> db" where
  "pick_class env u klass db =
     (let (p, db1) = get_or_create_profile db u in
      case select_class p klass of
        Inl e \<Rightarrow> (Inl (bad_request e), db)
      | Inr p1 \<Rightarrow>
          let db2 = unequip_mismatched u (game_class p1) (put_profile u p1 db1);
              p2 = (if auto_allocate p1 then fst (distribute_unspent p1) else p1);
              db3 = snd (evaluate_grants env u (Some {}) False (put_profile u p2 db2))
          in (profile_reply env u db3, db3))"

definition respec_class :: "env \<Rightarrow> int \<Rightarrow> db \<Rightarrow> profile_read reply \<times> db" where
  "respec_class env u db =
     (let (p, db1) = get_or_create_profile db u in
      case load_rates db of
        Inl e \<Rightarrow> (Inl (Fault e), db)
      | Inr rates \<Rightarrow> (case respec p rates of
            Inl e \<Rightarrow> (Inl (bad_request e), db)
          | Inr (p1, cost) \<Rightarrow>
              let db2 = unequip_mismatched u None (put_profile u p1 db1)
              in (Inr (profile_read_of env u db2 rates), db2)))"

subsection \<open>Gear\<close>

definition list_gear :: "int \<Rightarrow> db \<Rightarrow> catalog_read reply \<times> db" where
  "list_gear u db = (Inr (fst (list_catalog u db)), db)"

definition buy_gear_request :: "env \<Rightarrow> int \<Rightarrow> string \<Rightarrow> db \<Rightarrow> (catalog_read \<times> profile_read) reply \<times> db" where
  "buy_gear_request env u key db =
     (let (p, db1) = get_or_create_profile db u; db2 = seed_gear_catalog db1 in
      case get_gear_item db2 key of
        None \<Rightarrow> (Inl (HTTP 404 (''unknown gear item '' @ quoted key)), db)
      | Some it \<Rightarrow> (case buy_gear u it db2 of
            Inl e \<Rightarrow> (Inl (bad_request e), db)
          | Inr (ug, db3) \<Rightarrow>
              let db4 = snd (evaluate_grants env u (Some {}) False db3) in (gear_reply env u db4, db4)))"

definition equip_gear :: "env \<Rightarrow> int \<Rightarrow> string \<Rightarrow> bool \<Rightarrow> db \<Rightarrow> (catalog_read \<times> profile_read) reply \<times> db" where
  "equip_gear env u key on db =
     (let (p, db1) = get_or_create_profile db u in
      case set_equipped u key on db1 of
        Inl e \<Rightarrow> (Inl (bad_request e), db)
      | Inr db2 \<Rightarrow> (gear_reply env u db2, db2))"

definition costume_gear :: "env \<Rightarrow> int \<Rightarrow> string \<Rightarrow> bool \<Rightarrow> db \<Rightarrow> (catalog_read \<times> profile_read) reply \<times> db" where
  "costume_gear env u key on db =
     (let (p, db1) = get_or_create_profile db u in
      case set_costume u key on db1 of
        Inl e \<Rightarrow> (Inl (bad_request e), db)
      | Inr db2 \<Rightarrow> (gear_reply env u db2, db2))"

definition list_badges :: "int \<Rightarrow> db \<Rightarrow> (achievement \<times> bool) list reply \<times> db" where
  "list_badges u db = (Inr (fst (list_achievements u db)), db)"

end
