(* ===== verification/CharacterLaws.thy ===== *)
theory CharacterLaws
  imports CharacterApi EngineFacts
begin

text \<open>
  What the character endpoints keep: the pool of stat points is conserved and the automatic
  distribution spends it evenly and to the end, and the wardrobe stays sound: one worn and one shown
  item per slot, worn items fit the class, no item owned twice.
\<close>

subsection \<open>Distributing points\<close>

definition pool :: "profile \<Rightarrow> int" where
  "pool p = unspent_stat_points p + allocated_total p"

lemma allocated_set [simp]: "allocated_total (set_stat s n p) = allocated_total p - get_stat p s + n"
  by (cases s) (simp_all add: allocated_total_def stat_columns_def set_stat_def get_stat_def)

lemma allocated_unspent [simp]: "allocated_total (p\<lparr>unspent_stat_points := n\<rparr>) = allocated_total p"
  "get_stat (p\<lparr>unspent_stat_points := n\<rparr>) s = get_stat p s"
  by (cases s; simp add: allocated_total_def stat_columns_def get_stat_def)+

lemma pick_stat_least: "order \<noteq> [] \<Longrightarrow> pick_stat p order \<in> set order \<and> (\<forall>t \<in> set order. get_stat p (pick_stat p order) \<le> get_stat p t)"
proof -
  have fold: "(let b = foldl (\<lambda>best s. if get_stat p s < get_stat p best then s else best) s0 ss
      in b \<in> set (s0 # ss) \<and> (\<forall>t \<in> set (s0 # ss). get_stat p b \<le> get_stat p t))" for s0 ss
    by (induction ss arbitrary: s0) (force simp: Let_def)+
  assume "order \<noteq> []"
  with fold [of "hd order" "tl order"] show ?thesis by (simp add: pick_stat_def Let_def)
qed

lemma affinity_order_nonempty: "affinity_order p \<noteq> []"
  by (auto simp: affinity_order_def CLASSES_def stat_columns_def split: option.splits if_splits)

text \<open>One round of the loop, and what is left of it when it ends.\<close>

definition give :: "stat list \<Rightarrow> profile \<Rightarrow> profile" where
  "give order p = (set_stat (pick_stat p order) (get_stat p (pick_stat p order) + 1) p)
     \<lparr>unspent_stat_points := unspent_stat_points p - 1\<rparr>"

lemma distribute_loop_step: "distribute_loop order p a =
   (if unspent_stat_points p > 0 \<and> allocated_total p < STAT_POINT_CAP
    then distribute_loop order (give order p) (a + 1) else (p, a))"
  by (subst distribute_loop.simps) (simp add: give_def)

lemma give_stats [simp]: "unspent_stat_points (give order p) = unspent_stat_points p - 1"
  "allocated_total (give order p) = allocated_total p + 1"
  "get_stat (give order p) s = get_stat p s + of_bool (s = pick_stat p order)"
  by (simp_all add: give_def)

definition same_sheet :: "profile \<Rightarrow> profile \<Rightarrow> bool" where
  "same_sheet p q \<longleftrightarrow> q = p\<lparr>str_stat := str_stat q, int_stat := int_stat q, con_stat := con_stat q,
     per_stat := per_stat q, unspent_stat_points := unspent_stat_points q\<rparr>"

lemma same_sheet_refl [simp]: "same_sheet p p" by (simp add: same_sheet_def)

lemma same_sheetD: "same_sheet p q \<Longrightarrow> game_class q = game_class p"
  by (cases p; cases q) (simp add: same_sheet_def)

lemma same_sheet_give: "same_sheet (give order p) q \<Longrightarrow> same_sheet p q"
  by (cases p; cases q) (auto simp: same_sheet_def give_def set_stat_def split: stat.splits)

lemma distribute_loop_spec:
  assumes "order \<noteq> []" "distribute_loop order p a = (q, n)"
  shows "n = a + max 0 (min (unspent_stat_points p) (STAT_POINT_CAP - allocated_total p))
    \<and> unspent_stat_points q = unspent_stat_points p - (n - a) \<and> allocated_total q = allocated_total p + (n - a)
    \<and> same_sheet p q \<and> (\<forall>s. get_stat p s \<le> get_stat q s) \<and> (\<forall>s. s \<notin> set order \<longrightarrow> get_stat q s = get_stat p s)
    \<and> (\<forall>s t. t \<in> set order \<longrightarrow> get_stat p s < get_stat q s \<longrightarrow> get_stat q s \<le> get_stat q t + 1)"
  using assms
proof (induction order p a arbitrary: q n rule: distribute_loop.induct)
  case (1 order p a)
  show ?case
  proof (cases "unspent_stat_points p > 0 \<and> allocated_total p < STAT_POINT_CAP")
    case False
    with "1.prems" show ?thesis by (auto simp: distribute_loop_step [of order p])
  next
    case True
    let ?k = "pick_stat p order"
    have loop: "distribute_loop order (give order p) (a + 1) = (q, n)"
      using "1.prems" True by (simp add: distribute_loop_step [of order p])
    note ih = "1.IH" [OF True "1.prems"(1), folded give_def, OF loop]
    note least = pick_stat_least [OF "1.prems"(1), of p]
    note k = conjunct1 [OF least] conjunct2 [OF least]
    have mono: "get_stat p s \<le> get_stat q s" for s
    proof -
      have "get_stat (give order p) s \<le> get_stat q s" using ih by blast
      then show ?thesis by (simp add: of_bool_def split: if_splits)
    qed
    have balance: "get_stat q s \<le> get_stat q t + 1" if "t \<in> set order" "get_stat p s < get_stat q s" for s t
    proof (cases "get_stat (give order p) s < get_stat q s")
      case True
      with ih that(1) show ?thesis by blast
    next
      case False
      with that(2) ih have "s = ?k" "get_stat q s = get_stat p s + 1"
        by (auto simp: of_bool_def split: if_splits)
      moreover have "get_stat p ?k \<le> get_stat p t" using k(2) that(1) by blast
      ultimately show ?thesis using mono [of t] by simp
    qed
    from ih mono balance True k(1) show ?thesis
      by (auto intro: same_sheet_give)
  qed
qed

text \<open>C31: the automatic distribution always ends, having handed out exactly as many points as the
  pool holds and the cap of 100 allocated points leaves room for. Only stats of the class's pair rise (all
  four without a class), evenly: a stat that was raised is at most one above every stat of the pair. The
  rest of the profile does not change.\<close>

theorem distribute_unspent_exact:
  "(let (q, n) = distribute_unspent p in
      n = max 0 (min (unspent_stat_points p) (STAT_POINT_CAP - allocated_total p))
    \<and> unspent_stat_points q = unspent_stat_points p - n \<and> allocated_total q = allocated_total p + n
    \<and> same_sheet p q
    \<and> list_all (\<lambda>s. get_stat q s = get_stat p s \<or> get_stat p s < get_stat q s \<and> s \<in> set (affinity_order p)
          \<and> list_all (\<lambda>t. get_stat q s \<le> get_stat q t + 1) (affinity_order p)) stat_columns)"
proof -
  obtain q n where d: "distribute_loop (affinity_order p) p 0 = (q, n)" by (cases "distribute_loop (affinity_order p) p 0")
  note spec = distribute_loop_spec [OF affinity_order_nonempty d]
  have "get_stat q s = get_stat p s \<or> get_stat p s < get_stat q s \<and> s \<in> set (affinity_order p)
      \<and> list_all (\<lambda>t. get_stat q s \<le> get_stat q t + 1) (affinity_order p)" for s
    using spec unfolding list_all_iff by (metis order_le_less)
  with spec show ?thesis by (simp add: distribute_unspent_def d list_all_iff)
qed

lemma distribute_keeps:
  "pool (fst (distribute_unspent p)) = pool p" "game_class (fst (distribute_unspent p)) = game_class p"
proof -
  obtain q n where d: "distribute_loop (affinity_order p) p 0 = (q, n)" by (cases "distribute_loop (affinity_order p) p 0")
  note spec = distribute_loop_spec [OF affinity_order_nonempty d]
  from spec show "pool (fst (distribute_unspent p)) = pool p" by (simp add: pool_def distribute_unspent_def d)
  from spec have "same_sheet p q" by blast
  from same_sheetD [OF this] show "game_class (fst (distribute_unspent p)) = game_class p"
    by (simp add: distribute_unspent_def d)
qed

end
