(* ===== verification/Wardrobe.thy ===== *)
theory Wardrobe
  imports CharacterLaws
begin

text \<open>
  Gear over the lifetime of an account. A flag that at most one item per slot may carry is a locale, with
  the two flags of the code (worn and shown) as its interpretations; the wardrobe invariant then follows
  through every endpoint, in any order and for any users.
\<close>

subsection \<open>One item per slot\<close>

definition one_per_slot :: "(user_gear \<Rightarrow> bool) \<Rightarrow> db \<Rightarrow> bool" where
  "one_per_slot flag db \<longleftrightarrow> (\<forall>g \<in> set (t_user_gear db). \<forall>h \<in> set (t_user_gear db). \<forall>slot.
     flag g \<longrightarrow> flag h \<longrightarrow> ug_user g = ug_user h \<longrightarrow> in_slot db slot g \<longrightarrow> in_slot db slot h \<longrightarrow> ug_id g = ug_id h)"

lemma one_per_slotD:
  assumes "one_per_slot flag db" "g \<in> set (t_user_gear db)" "h \<in> set (t_user_gear db)" "flag g" "flag h"
    and "ug_user g = ug_user h" "in_slot db slot g" "in_slot db slot h"
  shows "ug_id g = ug_id h"
  using assms unfolding one_per_slot_def by blast

lemma one_per_slot_cong:
  assumes "t_user_gear b = t_user_gear a" "t_gear_items b = t_gear_items a"
  shows "one_per_slot flag b = one_per_slot flag a"
proof -
  have "in_slot b = in_slot a" using assms(2) by (simp add: in_slot_def fun_eq_iff)
  with assms(1) show ?thesis by (simp only: one_per_slot_def)
qed

lemma one_per_slot_append:
  assumes "t_user_gear b = t_user_gear a @ [x]" "t_gear_items b = t_gear_items a" "\<not> flag x" "one_per_slot flag a"
  shows "one_per_slot flag b"
proof -
  have "in_slot b = in_slot a" using assms(2) by (simp add: in_slot_def fun_eq_iff)
  moreover have "g \<in> set (t_user_gear a)" if "g \<in> set (t_user_gear b)" "flag g" for g
    using that assms(1,3) by auto
  ultimately show ?thesis using assms(4) unfolding one_per_slot_def by metis
qed

definition gear_keys :: "user_gear \<Rightarrow> int \<times> int \<times> int" where
  "gear_keys g = (ug_id g, ug_user g, ug_item g)"

lemma in_slot_item: "ug_item g = ug_item h \<Longrightarrow> in_slot db slot g = in_slot db slot h"
  by (simp add: in_slot_def)

lemma in_slot_same: "t_gear_items b = t_gear_items a \<Longrightarrow> in_slot b = in_slot a"
  by (simp add: in_slot_def fun_eq_iff)

locale slot_flag =
  fixes flag :: "user_gear \<Rightarrow> bool" and put :: "bool \<Rightarrow> user_gear \<Rightarrow> user_gear"
  assumes flag_put: "flag (put b g) = b"
    and put_keys: "gear_keys (put b g) = gear_keys g"
begin

lemma put_key [simp]: "ug_id (put b g) = ug_id g" "ug_user (put b g) = ug_user g" "ug_item (put b g) = ug_item g"
  using put_keys [of b g] by (simp_all add: gear_keys_def)

lemma in_slot_put [simp]: "in_slot db slot (put b g) = in_slot db slot g"
  by (rule in_slot_item) simp

text \<open>Lowering the flag of any rows keeps the law.\<close>

lemma lower: "one_per_slot flag db \<Longrightarrow> one_per_slot flag (db\<lparr>t_user_gear := update_where p (put False) (t_user_gear db)\<rparr>)"
  by (auto simp: one_per_slot_def update_where_def flag_put in_slot_def)

text \<open>Clearing the slot and raising one row of it does as well.\<close>

lemma wear:
  assumes ok: "one_per_slot flag db" and ids: "distinct (map ug_id (t_user_gear db))" "distinct (map gi_id (t_gear_items db))"
    and ug: "ug \<in> set (t_user_gear db)" "ug_user ug = u" and it: "it \<in> set (t_gear_items db)" "gi_id it = ug_item ug"
  shows "one_per_slot flag (set_flag (put True) (ug_id ug) (clear_slot flag (put False) u (gi_slot it) (ug_id ug) db))"
proof -
  let ?c = "\<lambda>g. if ug_user g = u \<and> flag g \<and> in_slot db (gi_slot it) g \<and> ug_id g \<noteq> ug_id ug then put False g else g"
  let ?s = "\<lambda>g. if ug_id g = ug_id ug then put True g else g"
  have slot: "slot = gi_slot it" if "in_slot db slot g" "ug_item g = ug_item ug" for slot g
    using that it ids(2) by (auto simp: in_slot_def distinct_map inj_on_def)
  have one: "g = ug" if "g \<in> set (t_user_gear db)" "ug_id g = ug_id ug" for g
    using that ug ids(1) by (auto simp: distinct_map inj_on_def)
  have result: "ug_id g = ug_id h"
    if g: "g \<in> set (t_user_gear db)" "h \<in> set (t_user_gear db)" and f: "flag (?s (?c g))" "flag (?s (?c h))"
      and s: "ug_user g = ug_user h" "in_slot db slot g" "in_slot db slot h" for g h slot
  proof -
    consider "ug_id g = ug_id ug" "ug_id h = ug_id ug" | "ug_id g = ug_id ug" "ug_id h \<noteq> ug_id ug"
      | "ug_id g \<noteq> ug_id ug" "ug_id h = ug_id ug" | "ug_id g \<noteq> ug_id ug" "ug_id h \<noteq> ug_id ug" by blast
    then show ?thesis
    proof cases
      case 2
      with g one have "g = ug" by blast
      with s slot have "slot = gi_slot it" by blast
      with 2 f(2) s \<open>g = ug\<close> ug(2) show ?thesis by (auto simp: flag_put split: if_splits)
    next
      case 3
      with g one have "h = ug" by blast
      with s slot have "slot = gi_slot it" by blast
      with 3 f(1) s \<open>h = ug\<close> ug(2) show ?thesis by (auto simp: flag_put split: if_splits)
    next
      case 4
      with f have "flag g" "flag h" by (auto simp: flag_put split: if_splits)
      then show ?thesis by (rule one_per_slotD [OF ok g _ _ s])
    qed simp
  qed
  define f where "f g = ?s (?c g)" for g
  have keys: "ug_id (f g) = ug_id g" "ug_user (f g) = ug_user g" "in_slot db slot (f g) = in_slot db slot g" for g slot
    by (simp_all add: f_def)
  have rows: "t_user_gear (set_flag (put True) (ug_id ug) (clear_slot flag (put False) u (gi_slot it) (ug_id ug) db)) =
      map f (t_user_gear db)"
    by (simp add: f_def set_flag_def clear_slot_def update_where_def)
  have items: "in_slot (set_flag (put True) (ug_id ug) (clear_slot flag (put False) u (gi_slot it) (ug_id ug) db)) = in_slot db"
    by (intro in_slot_same) (simp add: set_flag_def clear_slot_def)
  show ?thesis
    unfolding one_per_slot_def rows items
  proof (intro ballI allI impI)
    fix g' h' slot assume mem: "g' \<in> set (map f (t_user_gear db))" "h' \<in> set (map f (t_user_gear db))"
      and fl: "flag g'" "flag h'" and s: "ug_user g' = ug_user h'" "in_slot db slot g'" "in_slot db slot h'"
    from mem obtain g h where g: "g \<in> set (t_user_gear db)" "g' = f g" "h \<in> set (t_user_gear db)" "h' = f h" by auto
    have "ug_id g = ug_id h"
      by (rule result [folded f_def, OF g(1,3) fl [unfolded g(2,4)] s [unfolded g(2,4) keys]])
    then show "ug_id g' = ug_id h'" by (simp add: g keys)
  qed
qed

end

interpretation worn: slot_flag ug_equipped "\<lambda>b g. g\<lparr>ug_equipped := b\<rparr>"
  by unfold_locales (simp_all add: gear_keys_def)

interpretation shown: slot_flag ug_costume "\<lambda>b g. g\<lparr>ug_costume := b\<rparr>"
  by unfold_locales (simp_all add: gear_keys_def)

subsection \<open>The wardrobe invariant\<close>

text \<open>What the player wears fits the class.\<close>

definition fits :: "db \<Rightarrow> bool" where
  "fits db \<longleftrightarrow> (\<forall>g \<in> set (t_user_gear db). \<forall>it \<in> set (t_gear_items db).
     ug_equipped g \<longrightarrow> gi_id it = ug_item g \<longrightarrow> \<not> class_locked it (profile_of db (ug_user g)))"

text \<open>Rows carry distinct keys below the next id, and seeded rows agree with the catalog literal.\<close>

definition gear_rows_ok :: "db \<Rightarrow> bool" where
  "gear_rows_ok db \<longleftrightarrow> distinct (map ug_id (t_user_gear db)) \<and> distinct (map gi_id (t_gear_items db))
     \<and> distinct (map (\<lambda>g. (ug_user g, ug_item g)) (t_user_gear db))
     \<and> (\<forall>g \<in> set (t_user_gear db). ug_id g < t_next_id db \<and> ug_item g < t_next_id db)
     \<and> (\<forall>it \<in> set (t_gear_items db). gi_id it < t_next_id db \<and> refresh_gear it = it)"

definition wardrobe_ok :: "db \<Rightarrow> bool" where
  "wardrobe_ok db \<longleftrightarrow> gear_rows_ok db \<and> one_per_slot ug_equipped db \<and> one_per_slot ug_costume db \<and> fits db"

text \<open>Steps that leave gear alone: profiles may change, but not their class.\<close>

definition same_wardrobe :: "db \<Rightarrow> db \<Rightarrow> bool" where
  "same_wardrobe a b \<longleftrightarrow> t_user_gear b = t_user_gear a \<and> t_gear_items b = t_gear_items a \<and> t_next_id a \<le> t_next_id b
     \<and> (\<forall>v. game_class (profile_of b v) = game_class (profile_of a v) \<and> pool (profile_of b v) = pool (profile_of a v))"

lemma same_wardrobe_refl [simp]: "same_wardrobe db db"
  by (simp add: same_wardrobe_def)

lemma same_wardrobe_trans: "same_wardrobe a b \<Longrightarrow> same_wardrobe b c \<Longrightarrow> same_wardrobe a c"
  by (simp add: same_wardrobe_def)

lemma profile_of_put [simp]: "profile_of (put_profile u p db) v = (if v = u then p else profile_of db v)"
  by (simp add: profile_of_def put_profile_def)

lemma profile_of_cong: "t_profiles b = t_profiles a \<Longrightarrow> profile_of b = profile_of a"
  by (simp add: profile_of_def fun_eq_iff)

lemma put_profile_tables [simp]: "t_user_gear (put_profile u p db) = t_user_gear db"
  "t_gear_items (put_profile u p db) = t_gear_items db" "t_next_id (put_profile u p db) = t_next_id db"
  by (simp_all add: put_profile_def)

lemma same_wardrobe_put:
  "game_class p = game_class (profile_of db u) \<Longrightarrow> pool p = pool (profile_of db u) \<Longrightarrow> same_wardrobe db (put_profile u p db)"
  by (simp add: same_wardrobe_def)

lemma same_wardrobe_game: "same_game a b \<Longrightarrow> same_wardrobe a b"
  by (simp add: same_wardrobe_def same_game_fields profile_of_def)

lemma pool_gold [simp]: "pool (p\<lparr>gold := x\<rparr>) = pool p"
  by (simp add: pool_def allocated_total_def stat_columns_def)

lemma same_wardrobe_grants: "same_wardrobe db (snd (evaluate_grants env u types full db))"
proof -
  have seed: "same_wardrobe db (seed_achievements db)" for db
    by (simp add: same_wardrobe_def seed_achievements_def profile_of_def)
  have grant: "same_wardrobe db (grant u a db)" for a db
    by (simp add: same_wardrobe_def grant_def) (simp add: profile_of_def)
  have loop: "same_wardrobe db (snd (grant_loop env u types full as db))" for as db
  proof (induction as arbitrary: db)
    case (Cons a as)
    from same_wardrobe_trans [OF grant Cons.IH] Cons.IH show ?case by (simp add: split_beta)
  qed simp
  have notify: "same_wardrobe db (notify_grants env u as db)" for as db
    unfolding notify_grants_def
    by (induction as arbitrary: db) (auto intro: same_wardrobe_trans [OF same_wardrobe_game [OF dispatch_same_game]])
  show ?thesis
    using same_wardrobe_trans [OF seed same_wardrobe_trans [OF loop notify]]
    by (simp add: evaluate_grants_def Let_def split_beta)
qed

lemma same_wardrobe_ok: "same_wardrobe a b \<Longrightarrow> wardrobe_ok a \<Longrightarrow> wardrobe_ok b"
proof -
  assume same: "same_wardrobe a b" and ok: "wardrobe_ok a"
  have g: "t_user_gear b = t_user_gear a" "t_gear_items b = t_gear_items a" "in_slot b = in_slot a"
    using same by (simp_all add: same_wardrobe_def in_slot_def fun_eq_iff)
  have nid: "t_next_id a \<le> t_next_id b" and klass: "class_locked it (profile_of b v) = class_locked it (profile_of a v)" for it v
    using same by (simp_all add: same_wardrobe_def class_locked_def)
  have "gear_rows_ok b" using ok nid unfolding wardrobe_ok_def gear_rows_ok_def g by (auto intro: less_le_trans)
  with ok show ?thesis unfolding wardrobe_ok_def one_per_slot_def fits_def g klass by blast
qed

subsection \<open>Gear operations\<close>

lemma update_keys: "(\<And>g. gear_keys (f g) = gear_keys g) \<Longrightarrow>
    map gear_keys (update_where p f rows) = map gear_keys rows"
  by (induction rows) (simp_all add: update_where_def)

lemma gear_rows_keys:
  assumes "map gear_keys (t_user_gear b) = map gear_keys (t_user_gear a)" "t_gear_items b = t_gear_items a" "t_next_id b = t_next_id a"
    "gear_rows_ok a"
  shows "gear_rows_ok b"
proof -
  have proj: "map h (t_user_gear b) = map h (t_user_gear a)" if "\<And>g. h g = k (gear_keys g)" for h :: "user_gear \<Rightarrow> 'a" and k
  proof -
    have "h = k \<circ> gear_keys" using that by (simp add: fun_eq_iff)
    with arg_cong [OF assms(1), of "map k"] show ?thesis by simp
  qed
  have ids: "map ug_id (t_user_gear b) = map ug_id (t_user_gear a)"
    by (rule proj [of _ fst]) (simp add: gear_keys_def)
  have pairs: "map (\<lambda>g. (ug_user g, ug_item g)) (t_user_gear b) = map (\<lambda>g. (ug_user g, ug_item g)) (t_user_gear a)"
    by (rule proj [of _ snd]) (simp add: gear_keys_def)
  have below: "(\<forall>g \<in> set gs. ug_id g < n \<and> ug_item g < n) \<longleftrightarrow> (\<forall>(i, v, t) \<in> set (map gear_keys gs). i < n \<and> t < n)" for gs n
    by (simp add: gear_keys_def)
  have "(\<forall>g \<in> set (t_user_gear b). ug_id g < n \<and> ug_item g < n) \<longleftrightarrow> (\<forall>g \<in> set (t_user_gear a). ug_id g < n \<and> ug_item g < n)" for n
    unfolding below assms(1) ..
  with assms(2-4) ids pairs show ?thesis by (simp add: gear_rows_ok_def)
qed

lemma one_per_slot_frame:
  assumes "\<And>g. flag (f g) = flag g" "\<And>g. gear_keys (f g) = gear_keys g" "one_per_slot flag db"
  shows "one_per_slot flag (db\<lparr>t_user_gear := update_where p f (t_user_gear db)\<rparr>)"
proof -
  have k: "ug_id (f g) = ug_id g" "ug_user (f g) = ug_user g" "in_slot d slot (f g) = in_slot d slot g" for g d slot
    using assms(2) [of g] in_slot_item [of "f g" g] by (simp_all add: gear_keys_def)
  have i: "in_slot (db\<lparr>t_user_gear := x\<rparr>) = in_slot db" for x by (rule in_slot_same) simp
  show ?thesis
    unfolding one_per_slot_def i
  proof (intro ballI allI impI)
    fix g' h' slot
    assume m: "g' \<in> set (t_user_gear (db\<lparr>t_user_gear := update_where p f (t_user_gear db)\<rparr>))"
      "h' \<in> set (t_user_gear (db\<lparr>t_user_gear := update_where p f (t_user_gear db)\<rparr>))"
      and h: "flag g'" "flag h'" "ug_user g' = ug_user h'" "in_slot db slot g'" "in_slot db slot h'"
    from m obtain g h where g: "g \<in> set (t_user_gear db)" "h \<in> set (t_user_gear db)"
      and e: "g' = g \<or> g' = f g" "h' = h \<or> h' = f h" by (auto dest!: update_where_set)
    from one_per_slotD [OF assms(3) g, of slot] h e show "ug_id g' = ug_id h'" by (auto simp: assms(1) k)
  qed
qed

definition fits_others :: "int \<Rightarrow> db \<Rightarrow> bool" where
  "fits_others u db \<longleftrightarrow> (\<forall>g \<in> set (t_user_gear db). \<forall>it \<in> set (t_gear_items db). ug_user g \<noteq> u \<longrightarrow>
     ug_equipped g \<longrightarrow> gi_id it = ug_item g \<longrightarrow> \<not> class_locked it (profile_of db (ug_user g)))"

lemma fits_lower:
  assumes "fits db" shows "fits (db\<lparr>t_user_gear := update_where p (\<lambda>g. g\<lparr>ug_equipped := False\<rparr>) (t_user_gear db)\<rparr>)"
proof -
  have pr: "profile_of (db\<lparr>t_user_gear := x\<rparr>) = profile_of db" for x by (rule profile_of_cong) simp
  show ?thesis
    unfolding fits_def pr
  proof (intro ballI impI)
    fix g' it assume "g' \<in> set (t_user_gear (db\<lparr>t_user_gear := update_where p (\<lambda>g. g\<lparr>ug_equipped := False\<rparr>) (t_user_gear db)\<rparr>))"
      and it: "it \<in> set (t_gear_items (db\<lparr>t_user_gear := update_where p (\<lambda>g. g\<lparr>ug_equipped := False\<rparr>) (t_user_gear db)\<rparr>))"
      and on: "ug_equipped g'" "gi_id it = ug_item g'"
    then obtain g where "g \<in> set (t_user_gear db)" "g' = g \<or> g' = g\<lparr>ug_equipped := False\<rparr>" by (auto dest!: update_where_set)
    with on it assms show "\<not> class_locked it (profile_of db (ug_user g'))" by (force simp: fits_def)
  qed
qed

lemma unequip_ok:
  assumes rows: "gear_rows_ok db" and slots: "one_per_slot ug_equipped db" "one_per_slot ug_costume db"
    and fit: "fits_others u db" and klass: "klass = game_class (profile_of db u)"
  shows "wardrobe_ok (unequip_mismatched u klass db)"
proof -
  define off where "off = map (ug_id \<circ> fst) (filter (\<lambda>(_, it). gi_klass it \<noteq> ''all'' \<and> Some (gi_klass it) \<noteq> klass) (list_equipped_gear db u))"
  let ?b = "db\<lparr>t_user_gear := update_where (\<lambda>g. ug_id g \<in> set off) (\<lambda>g. g\<lparr>ug_equipped := False\<rparr>) (t_user_gear db)\<rparr>"
  have b: "unequip_mismatched u klass db = ?b" by (simp add: unequip_mismatched_def off_def Let_def)
  have "gear_rows_ok ?b"
    by (rule gear_rows_keys [OF _ _ _ rows]) (simp_all add: update_keys gear_keys_def)
  moreover have "one_per_slot ug_equipped ?b" using worn.lower [OF slots(1)] .
  moreover have "one_per_slot ug_costume ?b" by (rule one_per_slot_frame [OF _ _ slots(2)]) (simp_all add: gear_keys_def)
  moreover have "fits ?b"
  proof -
    have pr: "profile_of ?b = profile_of db" by (rule profile_of_cong) simp
    have stripped: "ug_id g \<in> set off"
      if "g \<in> set (t_user_gear db)" "it \<in> set (t_gear_items db)" "ug_equipped g" "gi_id it = ug_item g"
        "ug_user g = u" "class_locked it (profile_of db u)" for g it
      unfolding off_def list_equipped_gear_def join_gear_def
      using that klass by (auto simp: class_locked_def intro!: image_eqI [of _ _ "(g, it)"])
    show ?thesis
      unfolding fits_def pr
    proof (intro ballI impI)
      fix g' it assume m: "g' \<in> set (t_user_gear ?b)" "it \<in> set (t_gear_items ?b)" and on: "ug_equipped g'" "gi_id it = ug_item g'"
      from m(1) on(1) have g: "g' \<in> set (t_user_gear db)" "ug_id g' \<notin> set off"
        by (auto simp: update_where_def split: if_splits)
      with m(2) on stripped fit show "\<not> class_locked it (profile_of db (ug_user g'))"
        by (cases "ug_user g' = u") (auto simp: fits_others_def)
    qed
  qed
  ultimately show ?thesis by (simp add: b wardrobe_ok_def)
qed

lemma owned_itemD:
  assumes "owned_item u key db = Inr (it, ug)"
  shows "it \<in> set (t_gear_items db) \<and> ug \<in> set (t_user_gear db) \<and> ug_user ug = u \<and> gi_id it = ug_item ug"
  using assms by (auto simp: owned_item_def get_gear_item_def get_user_gear_def find_Some_iff split: option.splits)

lemma flag_tables [simp]:
  "t_gear_items (set_flag f i db) = t_gear_items db" "t_gear_items (clear_slot flag f u slot i db) = t_gear_items db"
  "t_next_id (set_flag f i db) = t_next_id db" "t_next_id (clear_slot flag f u slot i db) = t_next_id db"
  "t_profiles (set_flag f i db) = t_profiles db" "t_profiles (clear_slot flag f u slot i db) = t_profiles db"
  by (simp_all add: set_flag_def clear_slot_def)

lemma flag_rows:
  assumes "\<And>g. gear_keys (f g) = gear_keys g"
  shows "gear_rows_ok db \<Longrightarrow> gear_rows_ok (set_flag f i db)" "gear_rows_ok db \<Longrightarrow> gear_rows_ok (clear_slot flag f u slot i db)"
  by (rule gear_rows_keys, simp_all, simp_all add: set_flag_def clear_slot_def update_keys assms)+

lemma flag_frame:
  assumes "\<And>g. gear_keys (f g) = gear_keys g" "\<And>g. flag (f g) = flag g" "one_per_slot flag db"
  shows "one_per_slot flag (set_flag f i db)" "one_per_slot flag (clear_slot flag' f u slot i db)"
  unfolding set_flag_def clear_slot_def by (rule one_per_slot_frame, fact+)+

lemma set_equipped_ok:
  assumes set: "set_equipped u key on db = Inr db'" and ok: "wardrobe_ok db"
  shows "wardrobe_ok db' \<and> t_profiles db' = t_profiles db"
proof -
  let ?put = "\<lambda>b g. g\<lparr>ug_equipped := b\<rparr>"
  from set obtain it ug where own: "owned_item u key db = Inr (it, ug)"
    and unlocked: "on \<longrightarrow> \<not> class_locked it (profile_of db u)"
    and db': "db' = set_flag (?put on) (ug_id ug)
      (if on then clear_slot ug_equipped (?put False) u (gi_slot it) (ug_id ug) db else db)"
    by (auto simp: set_equipped_def Let_def split: if_splits)
  note ow = owned_itemD [OF own]
  have k: "gear_keys (?put b g) = gear_keys g" for b g by (simp add: gear_keys_def)
  have parts: "gear_rows_ok db" "one_per_slot ug_equipped db" "one_per_slot ug_costume db" "fits db"
    using ok by (simp_all add: wardrobe_ok_def)
  have ids: "distinct (map ug_id (t_user_gear db))" "distinct (map gi_id (t_gear_items db))"
    using parts(1) by (simp_all add: gear_rows_ok_def)
  show ?thesis
  proof (cases on)
    case False
    have e: "db' = db\<lparr>t_user_gear := update_where (\<lambda>g. ug_id g = ug_id ug) (?put False) (t_user_gear db)\<rparr>"
      using False db' by (simp add: set_flag_def)
    have "one_per_slot ug_equipped db'" "fits db'"
      unfolding e by (rule worn.lower [OF parts(2)], rule fits_lower [OF parts(4)])
    moreover have "gear_rows_ok db'" "one_per_slot ug_costume db'"
      using flag_rows(1) [OF k parts(1)] flag_frame(1) [OF k _ parts(3)] False db' by simp_all
    ultimately show ?thesis by (simp add: wardrobe_ok_def e)
  next
    case True
    let ?c = "clear_slot ug_equipped (?put False) u (gi_slot it) (ug_id ug) db"
    have "one_per_slot ug_equipped db'" using worn.wear [OF parts(2) ids] ow True db' by simp
    moreover have "one_per_slot ug_costume db'" using flag_frame [OF k _ flag_frame(2) [OF k _ parts(3)]] True db' by simp
    moreover have "gear_rows_ok db'" using flag_rows [OF k flag_rows(2) [OF k parts(1)]] True db' by simp
    moreover have "fits db'"
    proof -
      have c: "fits ?c" unfolding clear_slot_def by (rule fits_lower [OF parts(4)])
      have pr: "profile_of db' = profile_of db" "profile_of ?c = profile_of db" by (rule profile_of_cong, simp add: db')+
      have one: "it' = it" if "it' \<in> set (t_gear_items db)" "gi_id it' = ug_item ug" for it'
        using that ow ids(2) by (auto simp: distinct_map inj_on_def)
      have row: "gear_keys g = gear_keys ug" if "g \<in> set (t_user_gear ?c)" "ug_id g = ug_id ug" for g
      proof -
        from that obtain g0 where "g0 \<in> set (t_user_gear db)" "gear_keys g = gear_keys g0" "ug_id g0 = ug_id ug"
          by (auto simp: clear_slot_def gear_keys_def dest!: update_where_set)
        moreover from this have "g0 = ug" using ow ids(1) by (auto simp: distinct_map inj_on_def)
        ultimately show ?thesis by simp
      qed
      show ?thesis
        unfolding fits_def pr
      proof (intro ballI impI)
        fix g' it' assume g': "g' \<in> set (t_user_gear db')" and it': "it' \<in> set (t_gear_items db')"
          and worn: "ug_equipped g'" "gi_id it' = ug_item g'"
        from g' True db' obtain g where g: "g \<in> set (t_user_gear ?c)" "g' = g \<or> ug_id g = ug_id ug \<and> g' = ?put True g"
          by (auto simp: set_flag_def dest!: update_where_set)
        from g(2) show "\<not> class_locked it' (profile_of db (ug_user g'))"
        proof
          assume "g' = g"
          with c g(1) it' worn db' True show ?thesis by (auto simp: fits_def pr)
        next
          assume h: "ug_id g = ug_id ug \<and> g' = ?put True g"
          with row [OF g(1)] have "ug_item g' = ug_item ug" "ug_user g' = u" using ow by (auto simp: gear_keys_def)
          with one it' worn(2) db' True unlocked show ?thesis by auto
        qed
      qed
    qed
    ultimately show ?thesis by (simp add: wardrobe_ok_def db' True)
  qed
qed

lemma fits_frame:
  assumes "\<And>g. ug_equipped (f g) = ug_equipped g" "\<And>g. gear_keys (f g) = gear_keys g" "fits db"
  shows "fits (db\<lparr>t_user_gear := update_where p f (t_user_gear db)\<rparr>)"
proof -
  have pr: "profile_of (db\<lparr>t_user_gear := x\<rparr>) = profile_of db" for x by (rule profile_of_cong) simp
  show ?thesis
    unfolding fits_def pr
  proof (intro ballI impI)
    fix g' it assume "g' \<in> set (t_user_gear (db\<lparr>t_user_gear := update_where p f (t_user_gear db)\<rparr>))"
      and it: "it \<in> set (t_gear_items (db\<lparr>t_user_gear := update_where p f (t_user_gear db)\<rparr>))"
      and on: "ug_equipped g'" "gi_id it = ug_item g'"
    then obtain g where "g \<in> set (t_user_gear db)" "g' = g \<or> g' = f g" by (auto dest!: update_where_set)
    with on it assms(1,3) assms(2) [of g] show "\<not> class_locked it (profile_of db (ug_user g'))"
      by (auto simp: fits_def gear_keys_def)
  qed
qed

lemma set_costume_ok:
  assumes set: "set_costume u key on db = Inr db'" and ok: "wardrobe_ok db"
  shows "wardrobe_ok db' \<and> t_profiles db' = t_profiles db"
proof -
  let ?put = "\<lambda>b g. g\<lparr>ug_costume := b\<rparr>"
  from set obtain it ug where own: "owned_item u key db = Inr (it, ug)"
    and db': "db' = set_flag (?put on) (ug_id ug)
      (if on then clear_slot ug_costume (?put False) u (gi_slot it) (ug_id ug) db else db)"
    by (auto simp: set_costume_def Let_def split: if_splits)
  note ow = owned_itemD [OF own]
  have k: "gear_keys (?put b g) = gear_keys g" "ug_equipped (?put b g) = ug_equipped g" for b g by (simp_all add: gear_keys_def)
  have parts: "gear_rows_ok db" "one_per_slot ug_equipped db" "one_per_slot ug_costume db" "fits db"
    using ok by (simp_all add: wardrobe_ok_def)
  have ids: "distinct (map ug_id (t_user_gear db))" "distinct (map gi_id (t_gear_items db))"
    using parts(1) by (simp_all add: gear_rows_ok_def)
  have fit: "fits (set_flag (?put b) i db)" "fits (clear_slot flag (?put b) v slot i db)" if "fits db" for b i flag v slot db
    unfolding set_flag_def clear_slot_def by (rule fits_frame [OF k(2) k(1) that])+
  show ?thesis
  proof (cases on)
    case False
    have e: "db' = db\<lparr>t_user_gear := update_where (\<lambda>g. ug_id g = ug_id ug) (?put False) (t_user_gear db)\<rparr>"
      using False db' by (simp add: set_flag_def)
    have "one_per_slot ug_costume db'" unfolding e by (rule shown.lower [OF parts(3)])
    with fit(1) [OF parts(4)] flag_rows(1) [OF k(1) parts(1)] flag_frame(1) [OF k parts(2)] False db'
    show ?thesis by (simp add: wardrobe_ok_def)
  next
    case True
    have "one_per_slot ug_costume db'" using shown.wear [OF parts(3) ids] ow True db' by simp
    with fit(1) [OF fit(2) [OF parts(4)]] flag_rows(1) [OF k(1) flag_rows(2) [OF k(1) parts(1)]]
      flag_frame(1) [OF k flag_frame(2) [OF k parts(2)]] True db'
    show ?thesis by (simp add: wardrobe_ok_def)
  qed
qed

lemma catalog_find: "s \<in> set GEAR_CATALOG \<Longrightarrow> find (\<lambda>x. gi_key x = gi_key s) GEAR_CATALOG = Some s"
proof -
  have "list_all (\<lambda>s. find (\<lambda>x. gi_key x = gi_key s) GEAR_CATALOG = Some s) GEAR_CATALOG" by code_simp
  then show "s \<in> set GEAR_CATALOG \<Longrightarrow> ?thesis" by (simp add: list_all_iff)
qed

lemma catalog_losable: "s \<in> set GEAR_CATALOG \<Longrightarrow> gi_losable s"
proof -
  have "list_all gi_losable GEAR_CATALOG" by code_simp
  then show "s \<in> set GEAR_CATALOG \<Longrightarrow> ?thesis" by (simp add: list_all_iff)
qed

lemma refresh_seed: "s \<in> set GEAR_CATALOG \<Longrightarrow> refresh_gear (s\<lparr>gi_id := n\<rparr>) = s\<lparr>gi_id := n\<rparr>"
  by (cases s) (use catalog_find [of s] catalog_losable [of s] in \<open>simp add: refresh_gear_def\<close>)

lemma number_gear_ids: "map gi_id (number_gear n ss) = [n..n + int (length ss) - 1]"
proof (induction ss arbitrary: n)
  case (Cons s ss)
  then show ?case by (subst upto.simps) (simp add: algebra_simps)
qed simp

lemma number_gear_rows: "it \<in> set (number_gear n ss) \<Longrightarrow> \<exists>s \<in> set ss. \<exists>m. it = s\<lparr>gi_id := m\<rparr>"
  by (induction ss arbitrary: n) auto

lemma seed_ok:
  assumes ok: "wardrobe_ok db" shows "wardrobe_ok (seed_gear_catalog db)"
proof -
  let ?new = "number_gear (t_next_id db) (missing_gear db)"
  have rows: "gear_rows_ok db" using ok by (simp add: wardrobe_ok_def)
  then have same: "map refresh_gear (t_gear_items db) = t_gear_items db"
    by (auto simp: gear_rows_ok_def intro: map_idI)
  let ?b = "seed_gear_catalog db"
  have b: "t_user_gear ?b = t_user_gear db" "t_gear_items ?b = t_gear_items db @ ?new"
    "t_next_id ?b = t_next_id db + int (length (missing_gear db))" "profile_of ?b = profile_of db"
    by (simp_all add: seed_gear_catalog_def same profile_of_def fun_eq_iff)
  have ids: "set (map gi_id ?new) = {t_next_id db ..< t_next_id db + int (length (missing_gear db))}"
    unfolding number_gear_ids by auto
  then have fresh: "it \<in> set ?new \<Longrightarrow> t_next_id db \<le> gi_id it \<and> gi_id it < t_next_id db + int (length (missing_gear db))" for it
    by (metis atLeastLessThan_iff image_eqI set_map)
  have new: "it \<in> set ?new \<Longrightarrow> refresh_gear it = it" for it
    by (auto simp: missing_gear_def refresh_seed dest!: number_gear_rows)
  have "gear_rows_ok ?b"
    using rows fresh new unfolding gear_rows_ok_def b
    by(auto simp: number_gear_ids simp del: map_map)
  moreover have "fits ?b"
    using ok rows fresh by (force simp: fits_def b wardrobe_ok_def gear_rows_ok_def)
  moreover have slots: "one_per_slot flag ?b" if "one_per_slot flag db" for flag
  proof -
    have "in_slot ?b slot g = in_slot db slot g" if "g \<in> set (t_user_gear db)" for g slot
      using rows that fresh by (force simp: in_slot_def b gear_rows_ok_def)
    with that show ?thesis unfolding one_per_slot_def b by blast
  qed
  ultimately show ?thesis
    using ok slots unfolding wardrobe_ok_def by blast
qed

lemma buy_ok:
  assumes buy: "buy_gear u it db = Inr (ug, db')" and it: "it \<in> set (t_gear_items db)" and ok: "wardrobe_ok db"
  shows "wardrobe_ok db' \<and> (\<forall>v. game_class (profile_of db' v) = game_class (profile_of db v)
    \<and> pool (profile_of db' v) = pool (profile_of db v))"
proof -
  from buy have new: "get_user_gear db u (gi_id it) = None"
    and ug: "ug = \<lparr>ug_id = t_next_id db, ug_user = u, ug_item = gi_id it, ug_equipped = False, ug_costume = False\<rparr>"
    and db': "db' = put_profile u ((profile_of db u)\<lparr>gold := fsub (gold (profile_of db u)) (of_int (gi_cost it))\<rparr>)
             (db\<lparr>t_user_gear := t_user_gear db @ [ug], t_next_id := t_next_id db + 1\<rparr>)"
    by (auto simp: buy_gear_def Let_def split: if_splits)
  have rows: "t_user_gear db' = t_user_gear db @ [ug]" "t_gear_items db' = t_gear_items db" "t_next_id db' = t_next_id db + 1"
    by (simp_all add: db' put_profile_def)
  have pr: "game_class (profile_of db' v) = game_class (profile_of db v)" "pool (profile_of db' v) = pool (profile_of db v)" for v
    by (simp_all add: db') (simp_all add: profile_of_def)
  have locked: "class_locked x (profile_of db' v) = class_locked x (profile_of db v)" for x v
    by (simp add: class_locked_def pr)
  from new have "(u, gi_id it) \<notin> (\<lambda>g. (ug_user g, ug_item g)) ` set (t_user_gear db)"
    by (auto simp: get_user_gear_def find_None_iff)
  moreover have "gear_rows_ok db" using ok by (simp add: wardrobe_ok_def)
  ultimately have "gear_rows_ok db'"
    using it unfolding gear_rows_ok_def rows ug by (auto simp: less_le)
  moreover have "one_per_slot flag db'" if "one_per_slot flag db" "\<not> flag ug" for flag
    by (rule one_per_slot_append [OF rows(1,2) that(2,1)])
  moreover have "fits db'" using ok by (auto simp: fits_def rows locked wardrobe_ok_def ug)
  ultimately show ?thesis using ok pr by (simp add: wardrobe_ok_def ug)
qed

subsection \<open>Changing class\<close>

lemma class_change_ok:
  assumes ok: "wardrobe_ok db" and klass: "klass = game_class p"
  shows "wardrobe_ok (unequip_mismatched u klass (put_profile u p db))"
proof (rule unequip_ok)
  show "klass = game_class (profile_of (put_profile u p db) u)" using klass by simp
  show "gear_rows_ok (put_profile u p db)" "one_per_slot ug_equipped (put_profile u p db)" "one_per_slot ug_costume (put_profile u p db)"
    using ok one_per_slot_cong [of "put_profile u p db" db] by (simp_all add: wardrobe_ok_def gear_rows_ok_def)
  show "fits_others u (put_profile u p db)"
    using ok by (simp add: wardrobe_ok_def fits_def fits_others_def)
qed

lemma unequip_profiles [simp]: "t_profiles (unequip_mismatched u klass db) = t_profiles db"
  "profile_of (unequip_mismatched u klass db) = profile_of db"
proof -
  show "t_profiles (unequip_mismatched u klass db) = t_profiles db"
    by (simp add: unequip_mismatched_def Let_def)
  then show "profile_of (unequip_mismatched u klass db) = profile_of db" by (rule profile_of_cong)
qed

lemma select_class_pool: "select_class p klass = Inr p1 \<Longrightarrow> pool p1 = pool p"
  by (auto simp: select_class_def pool_def allocated_total_def stat_columns_def split: if_splits)

lemma respec_pool: "respec p r = Inr (p1, cost) \<Longrightarrow> pool p1 = pool p \<and> game_class p1 = None"
  by (auto simp: respec_def pool_def allocated_total_def stat_columns_def get_stat_def split: if_splits)

end
