(* ===== verification/CharacterRuns.thy ===== *)
theory CharacterRuns
  imports Wardrobe
begin

text \<open>
  Runs of the character endpoints: any requests by any users, in any order. The wardrobe stays sound,
  profiles keep their types and ranges, and the points of a character are conserved.
\<close>

subsection \<open>Requests\<close>

datatype character_call = UpdateCharacter bool | AllocateStats json | PickClass string | RespecClass
  | ListGear | BuyGear string | EquipGear string bool | CostumeGear string bool | ListBadges

definition refusal :: "'a reply \<times> db \<Rightarrow> http_error option \<times> db" where
  "refusal = map_prod (\<lambda>r. case r of Inl e \<Rightarrow> Some e | Inr _ \<Rightarrow> None) id"

text \<open>The error a request is answered with, if any, and the database after it.\<close>

definition character_request :: "env \<Rightarrow> int \<Rightarrow> character_call \<Rightarrow> db \<Rightarrow> http_error option \<times> db" where
  "character_request env u c db =
     (case c of
        UpdateCharacter on \<Rightarrow> refusal (update_character env u on db)
      | AllocateStats points \<Rightarrow> refusal (allocate_stats env u points db)
      | PickClass klass \<Rightarrow> refusal (pick_class env u klass db)
      | RespecClass \<Rightarrow> refusal (respec_class env u db)
      | ListGear \<Rightarrow> refusal (list_gear u db)
      | BuyGear key \<Rightarrow> refusal (buy_gear_request env u key db)
      | EquipGear key on \<Rightarrow> refusal (equip_gear env u key on db)
      | CostumeGear key on \<Rightarrow> refusal (costume_gear env u key on db)
      | ListBadges \<Rightarrow> refusal (list_badges u db))"

definition character_run :: "(env \<times> int \<times> character_call) list \<Rightarrow> db \<Rightarrow> db" where
  "character_run calls db = fold (\<lambda>(env, u, c) db. snd (character_request env u c db)) calls db"

subsection \<open>The profile\<close>

lemma select_class_ok: "select_class p klass = Inr q \<Longrightarrow> profile_ok p \<Longrightarrow> profile_ok q \<and> pool q = pool p"
  by (auto simp: select_class_def profile_ok_def pool_def allocated_total_def stat_columns_def split: if_splits)

lemma respec_ok: "respec p r = Inr (q, cost) \<Longrightarrow> profile_ok p \<Longrightarrow> profile_ok q"
  by (auto simp: respec_def profile_ok_def fsub_nonneg allocated_total_def stat_columns_def split: if_splits)

lemma distribute_ok: "profile_ok p \<Longrightarrow> profile_ok (fst (distribute_unspent p))"
proof -
  assume ok: "profile_ok p"
  obtain q n where d: "distribute_loop (affinity_order p) p 0 = (q, n)" by (cases "distribute_loop (affinity_order p) p 0")
  note spec = distribute_loop_spec [OF affinity_order_nonempty d]
  have "0 \<le> get_stat q s" for s using spec get_stat_nonneg [OF ok, of s] by (meson order_trans)
  then have "0 \<le> str_stat q \<and> 0 \<le> int_stat q \<and> 0 \<le> con_stat q \<and> 0 \<le> per_stat q" by (rule get_stat_all)
  moreover have "0 \<le> unspent_stat_points q" using spec ok by (auto simp: profile_ok_def)
  moreover have "same_sheet p q" using spec by blast
  ultimately have "profile_ok q" using ok by (cases p; cases q) (simp add: same_sheet_def profile_ok_def)
  then show ?thesis by (simp add: distribute_unspent_def d)
qed

lemma clean_points_pos: "clean_points d = Inr clean \<Longrightarrow> \<forall>(s, n) \<in> set clean. 1 \<le> n"
proof (induction d arbitrary: clean)
  case (Cons x d)
  obtain key n where x: "x = (key, n)" by force
  with Cons.prems obtain s k rest where "clean = (s, k) # rest" "1 \<le> k" "clean_points d = Inr rest"
    by (auto split: option.splits json.splits if_splits)
  with Cons.IH show ?case by simp
qed simp

lemma spend_points:
  assumes "\<forall>(s, n) \<in> set clean. (1::int) \<le> n"
  shows "same_sheet p (fold (\<lambda>(s, n) q. set_stat s (get_stat q s + n) q) clean p)
    \<and> allocated_total (fold (\<lambda>(s, n) q. set_stat s (get_stat q s + n) q) clean p) = allocated_total p + sum_list (map snd clean)
    \<and> (\<forall>s. get_stat p s \<le> get_stat (fold (\<lambda>(s, n) q. set_stat s (get_stat q s + n) q) clean p) s)"
  using assms
proof (induction clean arbitrary: p)
  case (Cons x clean)
  obtain s n where x: "x = (s, n)" by force
  have sheet: "same_sheet (set_stat s m p) q \<Longrightarrow> same_sheet p q" for m q
    by (cases p; cases q) (auto simp: same_sheet_def set_stat_def split: stat.splits)
  have ge: "get_stat p t \<le> get_stat (set_stat s (get_stat p s + n) p) t" for t using Cons.prems x by auto
  from Cons.IH [of "set_stat s (get_stat p s + n) p"] Cons.prems x show ?case
    by (auto intro: sheet order_trans [OF ge])
qed simp

lemma allocate_ok:
  assumes "allocate_points p points = Inr q"
  shows "pool q = pool p \<and> (profile_ok p \<longrightarrow> profile_ok q) \<and> game_class q = game_class p"
proof -
  from assms obtain d clean where clean: "clean_points d = Inr clean"
    and le: "sum_list (map snd clean) \<le> unspent_stat_points p"
    and q: "q = (fold (\<lambda>(s, n) q. set_stat s (get_stat q s + n) q) clean p)
       \<lparr>unspent_stat_points := unspent_stat_points p - sum_list (map snd clean)\<rparr>"
    by (auto simp: allocate_points_def Let_def split: json.splits if_splits)
  define r where "r = fold (\<lambda>(s, n) q. set_stat s (get_stat q s + n) q) clean p"
  have r: "same_sheet p r" "allocated_total r = allocated_total p + sum_list (map snd clean)" "\<And>s. get_stat p s \<le> get_stat r s"
    using spend_points [OF clean_points_pos [OF clean], of p] by (simp_all add: r_def)
  have q: "q = r\<lparr>unspent_stat_points := unspent_stat_points p - sum_list (map snd clean)\<rparr>" by (simp add: q r_def)
  have "profile_ok q" if ok: "profile_ok p"
  proof -
    have "0 \<le> get_stat r s" for s using r(3) [of s] get_stat_nonneg [OF ok, of s] by simp
    then have "0 \<le> str_stat r \<and> 0 \<le> int_stat r \<and> 0 \<le> con_stat r \<and> 0 \<le> per_stat r" by (rule get_stat_all)
    with r(1) ok le show ?thesis by (cases p; cases r) (simp add: q same_sheet_def profile_ok_def)
  qed
  with r q same_sheetD [OF r(1)] show ?thesis by (simp add: pool_def)
qed

subsection \<open>One request\<close>

lemma refusal_snd [simp]: "snd (refusal (r, db)) = db" "fst (refusal (Inr x, db)) = None" "fst (refusal (Inl e, db)) = Some e"
  by (simp_all add: refusal_def)

lemma refusal_late [simp]: "fst (refusal (reply_of f r, db)) \<noteq> Some (HTTP status detail)"
  by (cases r) (simp_all add: reply_of_def refusal_def)

lemmas late_reply = profile_reply_def gear_reply_def

lemma same_created [simp]: "same_wardrobe db (put_profile u (profile_of db u) db)"
  by (simp add: same_wardrobe_put)

text \<open>What a request does to gear and class is one of these steps.\<close>

inductive wardrobe_step :: "db \<Rightarrow> db \<Rightarrow> bool" where
  keep: "same_wardrobe a b \<Longrightarrow> wardrobe_step a b"
| worn_item: "set_equipped u key on a = Inr b \<Longrightarrow> wardrobe_step a b"
| shown_item: "set_costume u key on a = Inr b \<Longrightarrow> wardrobe_step a b"
| seeded: "wardrobe_step a (seed_gear_catalog a)"
| bought: "buy_gear u it a = Inr (ug, b) \<Longrightarrow> it \<in> set (t_gear_items a) \<Longrightarrow> wardrobe_step a b"
| reclass: "pool p = pool (profile_of a u) \<Longrightarrow> wardrobe_step a (unequip_mismatched u (game_class p) (put_profile u p a))"

lemma step_ok: "wardrobe_step a b \<Longrightarrow> wardrobe_ok a \<Longrightarrow> wardrobe_ok b"
  by (induction rule: wardrobe_step.induct)
    (auto dest: same_wardrobe_ok set_equipped_ok set_costume_ok buy_ok intro: seed_ok class_change_ok)

lemma step_pool: "wardrobe_step a b \<Longrightarrow> pool (profile_of b v) = pool (profile_of a v)"
proof (induction rule: wardrobe_step.induct)
  case (worn_item u key on a b)
  then have "t_profiles b = t_profiles a" by (auto simp: set_equipped_def Let_def split: if_splits)
  then show ?case by (simp add: profile_of_def)
next
  case (shown_item u key on a b)
  then have "t_profiles b = t_profiles a" by (auto simp: set_costume_def Let_def split: if_splits)
  then show ?case by (simp add: profile_of_def)
next
  case (bought u it a ug b)
  then obtain rows n x where "b = put_profile u ((profile_of a u)\<lparr>gold := x\<rparr>) (a\<lparr>t_user_gear := rows, t_next_id := n\<rparr>)"
    by (auto simp: buy_gear_def Let_def split: if_splits)
  then show ?case by simp (simp add: profile_of_def)
next
  case (seeded a)
  have "t_profiles (seed_gear_catalog a) = t_profiles a" by (simp add: seed_gear_catalog_def)
  then show ?case by (simp add: profile_of_def)
qed (auto simp: same_wardrobe_def)

lemma pool_auto [simp]: "pool (p\<lparr>auto_allocate := b\<rparr>) = pool p"
  by (simp add: pool_def allocated_total_def stat_columns_def)

text \<open>A chain of two or three steps.\<close>

lemma steps2: "wardrobe_step a b \<Longrightarrow> wardrobe_step b c \<Longrightarrow> wardrobe_step\<^sup>*\<^sup>* a c"
  by (meson converse_rtranclp_into_rtranclp r_into_rtranclp)

lemma steps3: "wardrobe_step a b \<Longrightarrow> wardrobe_step b c \<Longrightarrow> wardrobe_step c d \<Longrightarrow> wardrobe_step\<^sup>*\<^sup>* a d"
  by (meson converse_rtranclp_into_rtranclp steps2)

lemma created: "wardrobe_step db (put_profile u (profile_of db u) db)"
  by (rule keep) simp

lemma request_steps: "wardrobe_step\<^sup>*\<^sup>* db (snd (character_request env u c db))"
proof (cases c)
  case (UpdateCharacter on)
  then have e: "snd (character_request env u c db) = (let p = (profile_of db u)\<lparr>auto_allocate := on\<rparr> in
      put_profile u (if on then fst (distribute_unspent p) else p) (put_profile u (profile_of db u) db))"
    by (simp add: character_request_def update_character_def get_or_create_profile_def Let_def)
  have "same_wardrobe (put_profile u (profile_of db u) db) (snd (character_request env u c db))"
    unfolding e Let_def by (rule same_wardrobe_put) (simp_all add: distribute_keeps)
  then show ?thesis by (rule steps2 [OF created keep])
next
  case (AllocateStats points)
  show ?thesis
  proof (cases "allocate_points (profile_of db u) points")
    case (Inr p1)
    then have "snd (character_request env u c db) = put_profile u p1 (put_profile u (profile_of db u) db)"
      using AllocateStats by (simp add: character_request_def allocate_stats_def get_or_create_profile_def Let_def)
    with allocate_ok [OF Inr] show ?thesis by (auto intro!: steps2 [OF created keep] same_wardrobe_put)
  qed (simp add: AllocateStats character_request_def allocate_stats_def get_or_create_profile_def)
next
  case (PickClass klass)
  show ?thesis
  proof (cases "select_class (profile_of db u) klass")
    case (Inr p1)
    let ?db1 = "put_profile u (profile_of db u) db"
    let ?db2 = "unequip_mismatched u (game_class p1) (put_profile u p1 ?db1)"
    let ?db3 = "put_profile u (if auto_allocate p1 then fst (distribute_unspent p1) else p1) ?db2"
    have e: "snd (character_request env u c db) = snd (evaluate_grants env u (Some {}) False ?db3)"
      using Inr PickClass by (simp add: character_request_def pick_class_def get_or_create_profile_def Let_def)
    have "pool p1 = pool (profile_of db u)"
      using Inr by (auto simp: select_class_def pool_def allocated_total_def stat_columns_def split: if_splits)
    then have "wardrobe_step ?db1 ?db2" by (intro reclass) simp
    moreover have "same_wardrobe ?db2 ?db3" by (rule same_wardrobe_put) (simp_all add: distribute_keeps)
    then have "wardrobe_step ?db2 (snd (evaluate_grants env u (Some {}) False ?db3))"
      by (intro keep same_wardrobe_trans [OF _ same_wardrobe_grants])
    ultimately show ?thesis unfolding e by (rule steps3 [OF created])
  qed (simp add: PickClass character_request_def pick_class_def get_or_create_profile_def)
next
  case RespecClass
  show ?thesis
  proof (cases "load_rates db")
    case (Inr rates)
    show ?thesis
    proof (cases "respec (profile_of db u) rates")
      case (Inr pc)
      obtain p1 cost where pc: "pc = (p1, cost)" by force
      note rp = respec_pool [OF Inr [unfolded pc]]
      have "wardrobe_step (put_profile u (profile_of db u) db)
          (unequip_mismatched u (game_class p1) (put_profile u p1 (put_profile u (profile_of db u) db)))"
        using rp by (intro reclass) simp
      with rp Inr \<open>load_rates db = Inr rates\<close> pc RespecClass show ?thesis
        by (simp add: character_request_def respec_class_def get_or_create_profile_def Let_def steps2 [OF created])
    qed (use Inr RespecClass in \<open>simp add: character_request_def respec_class_def get_or_create_profile_def\<close>)
  qed (simp add: RespecClass character_request_def respec_class_def get_or_create_profile_def)
next
  case (BuyGear key)
  let ?db1 = "put_profile u (profile_of db u) db" let ?db2 = "seed_gear_catalog ?db1"
  show ?thesis
  proof (cases "get_gear_item ?db2 key")
    case (Some it)
    show ?thesis
    proof (cases "buy_gear u it ?db2")
      case (Inr r)
      obtain ug db3 where r: "r = (ug, db3)" by force
      have "it \<in> set (t_gear_items ?db2)" using Some by (auto simp: get_gear_item_def find_Some_iff)
      with Inr r have "wardrobe_step ?db2 db3" by (auto intro: bought)
      moreover have "wardrobe_step db3 (snd (evaluate_grants env u (Some {}) False db3))"
        by (rule keep [OF same_wardrobe_grants])
      ultimately have "wardrobe_step\<^sup>*\<^sup>* ?db1 (snd (evaluate_grants env u (Some {}) False db3))"
        by (rule steps3 [OF seeded])
      then have "wardrobe_step\<^sup>*\<^sup>* db (snd (evaluate_grants env u (Some {}) False db3))"
        using created by (rule converse_rtranclp_into_rtranclp [rotated])
      with Inr Some r BuyGear show ?thesis
        by (simp add: character_request_def buy_gear_request_def get_or_create_profile_def Let_def)
    qed (use Some BuyGear in \<open>simp add: character_request_def buy_gear_request_def get_or_create_profile_def Let_def\<close>)
  qed (simp add: BuyGear character_request_def buy_gear_request_def get_or_create_profile_def Let_def)
next
  case (EquipGear key on)
  then show ?thesis
    by (auto simp: character_request_def equip_gear_def get_or_create_profile_def Let_def
        split: sum.splits intro: steps2 [OF created worn_item])
next
  case (CostumeGear key on)
  then show ?thesis
    by (auto simp: character_request_def costume_gear_def get_or_create_profile_def Let_def
        split: sum.splits intro: steps2 [OF created shown_item])
qed (simp_all add: character_request_def list_gear_def list_badges_def)

subsection \<open>Profiles stay in range\<close>

definition sheets_ok :: "db \<Rightarrow> bool" where
  "sheets_ok db \<longleftrightarrow> (\<forall>v. profile_ok (profile_of db v)) \<and> (\<forall>a \<in> set (t_achievements db). 0 \<le> a_gold_reward a)
     \<and> (\<forall>it \<in> set (t_gear_items db). 0 \<le> gi_cost it)"

lemma sheets_cong: "t_profiles b = t_profiles a \<Longrightarrow> t_achievements b = t_achievements a \<Longrightarrow> t_gear_items b = t_gear_items a
    \<Longrightarrow> sheets_ok b = sheets_ok a"
  by (simp add: sheets_ok_def profile_of_def)

lemma sheets_put [inv_intros]: "sheets_ok db \<Longrightarrow> profile_ok p \<Longrightarrow> sheets_ok (put_profile u p db)"
  by (simp add: sheets_ok_def) (simp add: put_profile_def)

lemma sheets_profile [inv_intros]: "sheets_ok db \<Longrightarrow> profile_ok (profile_of db u)"
  by (simp add: sheets_ok_def)

lemma profile_ok_auto [inv_intros]: "profile_ok p \<Longrightarrow> profile_ok (p\<lparr>auto_allocate := b\<rparr>)"
  by (simp add: profile_ok_def)

lemma badges_rewarded: "s \<in> set ACHIEVEMENTS \<Longrightarrow> 0 \<le> a_gold_reward s"
proof -
  have "list_all (\<lambda>s. 0 \<le> a_gold_reward s) ACHIEVEMENTS" by (simp add: ACHIEVEMENTS_def badge_def)
  then show "s \<in> set ACHIEVEMENTS \<Longrightarrow> ?thesis" by (simp add: list_all_iff)
qed

lemma catalog_priced: "s \<in> set GEAR_CATALOG \<Longrightarrow> 0 \<le> gi_cost s"
proof -
  have "list_all (\<lambda>s. 0 \<le> gi_cost s) GEAR_CATALOG" by (simp add: GEAR_CATALOG_def CLASS_GEAR_1_def CLASS_GEAR_2_def gear_def)
  then show "s \<in> set GEAR_CATALOG \<Longrightarrow> ?thesis" by (simp add: list_all_iff)
qed

lemma number_badges_rows: "a \<in> set (number_badges n ss) \<Longrightarrow> \<exists>s \<in> set ss. a_gold_reward a = a_gold_reward s"
  by (induction ss arbitrary: n) force+

lemma sheets_seed_badges [inv_intros]: "sheets_ok db \<Longrightarrow> sheets_ok (seed_achievements db)"
proof -
  assume ok: "sheets_ok db"
  have "0 \<le> a_gold_reward (refresh_badge a)" if "a \<in> set (t_achievements db)" for a
    using ok that badges_rewarded by (auto simp: refresh_badge_def sheets_ok_def find_Some_iff split: option.splits)
  moreover have "0 \<le> a_gold_reward a" if "a \<in> set (number_badges (t_next_id db) (missing_badges db))" for a
    using number_badges_rows [OF that] badges_rewarded by (auto simp: missing_badges_def)
  moreover have "profile_of (seed_achievements db) = profile_of db" by (rule profile_of_cong) (simp add: seed_achievements_def)
  ultimately show ?thesis using ok by (auto simp: sheets_ok_def) (auto simp: seed_achievements_def)
qed

lemma sheets_seed_gear [inv_intros]: "sheets_ok db \<Longrightarrow> sheets_ok (seed_gear_catalog db)"
proof -
  assume ok: "sheets_ok db"
  have "0 \<le> gi_cost (refresh_gear it)" if "it \<in> set (t_gear_items db)" for it
    using ok that catalog_priced by (auto simp: refresh_gear_def sheets_ok_def find_Some_iff split: option.splits)
  moreover have "0 \<le> gi_cost it" if "it \<in> set (number_gear (t_next_id db) (missing_gear db))" for it
    using number_gear_rows [OF that] catalog_priced by (auto simp: missing_gear_def)
  moreover have "profile_of (seed_gear_catalog db) = profile_of db" by (rule profile_of_cong) (simp add: seed_gear_catalog_def)
  ultimately show ?thesis using ok by (auto simp: sheets_ok_def) (auto simp: seed_gear_catalog_def)
qed

lemma sheets_grants [inv_intros]: "sheets_ok db \<Longrightarrow> sheets_ok (snd (evaluate_grants env u types full db))"
proof -
  have grant: "sheets_ok (grant u a db)" if "sheets_ok db" "0 \<le> a_gold_reward a" for a db
  proof -
    have "profile_ok ((profile_of db u)\<lparr>gold := fadd (gold (profile_of db u)) (of_int (a_gold_reward a))\<rparr>)"
      using sheets_profile [OF that(1), of u] that(2) by (simp add: profile_ok_def fadd_nonneg)
    moreover have "sheets_ok (db\<lparr>t_user_achievements := x\<rparr>)" for x using that(1) sheets_cong [of "db\<lparr>t_user_achievements := x\<rparr>" db] by simp
    ultimately show ?thesis by (simp add: grant_def sheets_put)
  qed
  have loop: "sheets_ok (snd (grant_loop env u types full as db))" if "sheets_ok db" "\<forall>a \<in> set as. 0 \<le> a_gold_reward a" for as db
    using that by (induction as arbitrary: db) (auto simp: grant split_beta)
  have notify: "sheets_ok (notify_grants env u as db)" if "sheets_ok db" for as db
    unfolding notify_grants_def using that
  proof (induction as arbitrary: db)
    case (Cons a as)
    have "sheets_ok (dispatch_notification env u k t m url meta ex db) = sheets_ok db" for k t m url meta ex
      by (rule sheets_cong) (simp_all add: same_game_fields [OF dispatch_same_game])
    with Cons show ?case by simp
  qed simp
  assume "sheets_ok db"
  then have s: "sheets_ok (seed_achievements db)" by (rule sheets_seed_badges)
  moreover have "\<forall>a \<in> set (pending_badges (seed_achievements db) u). 0 \<le> a_gold_reward a"
    using s by (auto simp: pending_badges_def sheets_ok_def)
  ultimately show ?thesis using loop notify by (simp add: evaluate_grants_def Let_def split_beta)
qed

lemma sheets_unequip [inv_intros]: "sheets_ok db \<Longrightarrow> sheets_ok (unequip_mismatched u klass db)"
  using sheets_cong [of "unequip_mismatched u klass db" db] by (simp add: unequip_mismatched_def Let_def)

lemma sheets_flags [inv_intros]:
  "set_equipped u key on db = Inr db' \<Longrightarrow> sheets_ok db \<Longrightarrow> sheets_ok db'"
  "set_costume u key on db = Inr db' \<Longrightarrow> sheets_ok db \<Longrightarrow> sheets_ok db'"
  using sheets_cong [of db' db]
  by (auto simp: set_equipped_def set_costume_def set_flag_def clear_slot_def Let_def split: if_splits)

lemma sheets_buy [inv_intros]:
  assumes "buy_gear u it db = Inr (ug, db')" "it \<in> set (t_gear_items db)" "sheets_ok db" shows "sheets_ok db'"
proof -
  from assms(1) obtain rows n where le: "of_int (gi_cost it) \<le> gold (profile_of db u)"
    and db': "db' = put_profile u ((profile_of db u)\<lparr>gold := fsub (gold (profile_of db u)) (of_int (gi_cost it))\<rparr>)
      (db\<lparr>t_user_gear := rows, t_next_id := n\<rparr>)"
    by (auto simp: buy_gear_def Let_def split: if_splits)
  have "profile_ok ((profile_of db u)\<lparr>gold := fsub (gold (profile_of db u)) (of_int (gi_cost it))\<rparr>)"
    using sheets_profile [OF assms(3), of u] le by (simp add: profile_ok_def fsub_nonneg)
  moreover have "sheets_ok (db\<lparr>t_user_gear := rows, t_next_id := n\<rparr>)"
    using assms(3) sheets_cong [of "db\<lparr>t_user_gear := rows, t_next_id := n\<rparr>" db] by simp
  ultimately show ?thesis by (simp add: db' sheets_put)
qed

lemmas sheets = sheets_put sheets_profile sheets_unequip sheets_grants sheets_seed_gear distribute_ok profile_ok_auto

lemmas handler_defs = character_request_def get_or_create_profile_def Let_def

lemma request_sheets: "sheets_ok db \<Longrightarrow> sheets_ok (snd (character_request env u c db))"
proof (cases c)
  case (AllocateStats points)
  assume ok: "sheets_ok db"
  have "allocate_points (profile_of db u) points = Inr q \<Longrightarrow> profile_ok q" for q
    using allocate_ok sheets_profile [OF ok] by blast
  with AllocateStats ok show ?thesis by (simp add: handler_defs allocate_stats_def sheets split: sum.split)
next
  case (PickClass klass)
  assume ok: "sheets_ok db"
  have "select_class (profile_of db u) klass = Inr q \<Longrightarrow> profile_ok q" for q
    using select_class_ok sheets_profile [OF ok] by blast
  with PickClass ok show ?thesis by (simp add: handler_defs pick_class_def sheets split: sum.split)
next
  case RespecClass
  assume ok: "sheets_ok db"
  have "respec (profile_of db u) rates = Inr (q, cost) \<Longrightarrow> profile_ok q" for rates q cost
    using respec_ok sheets_profile [OF ok] by blast
  with RespecClass ok show ?thesis by (simp add: handler_defs respec_class_def sheets split: sum.split)
next
  case (BuyGear key)
  let ?db2 = "seed_gear_catalog (put_profile u (profile_of db u) db)"
  assume ok: "sheets_ok db"
  then have ok2: "sheets_ok ?db2" by (simp add: sheets)
  have "sheets_ok db3" if "get_gear_item ?db2 key = Some it" "buy_gear u it ?db2 = Inr (ug, db3)" for it ug db3
    using that(1) by (intro sheets_buy [OF that(2) _ ok2]) (auto simp: get_gear_item_def find_Some_iff)
  with BuyGear ok show ?thesis by (simp add: handler_defs buy_gear_request_def sheets split: sum.split option.split)
next
  case (EquipGear key on)
  assume "sheets_ok db"
  with EquipGear sheets_flags(1) [of u key on "put_profile u (profile_of db u) db"] show ?thesis
    by (auto simp: handler_defs equip_gear_def sheets split: sum.split)
next
  case (CostumeGear key on)
  assume "sheets_ok db"
  with CostumeGear sheets_flags(2) [of u key on "put_profile u (profile_of db u) db"] show ?thesis
    by (auto simp: handler_defs costume_gear_def sheets split: sum.split)
qed (simp_all add: handler_defs update_character_def list_gear_def list_badges_def sheets)

lemma run_induct [consumes 1]:
  assumes "P db" "\<And>env u c db. P db \<Longrightarrow> P (snd (character_request env u c db))"
  shows "P (character_run calls db)"
  using assms(1) unfolding character_run_def
  by (induction calls arbitrary: db) (auto simp: assms(2))

subsection \<open>A sample closet\<close>

definition closet_db :: db where
  "closet_db = empty_db\<lparr>t_profiles := [1 \<mapsto> new_profile\<lparr>level := 12, gold := 500, game_class := Some ''mage'', int_stat := 3,
       unspent_stat_points := 5\<rparr>],
     t_gear_items := number_gear 1 (take 2 (drop 5 GEAR_CATALOG)),
     t_user_gear := [\<lparr>ug_id = 10, ug_user = 1, ug_item = 1, ug_equipped = True, ug_costume = False\<rparr>,
                     \<lparr>ug_id = 11, ug_user = 1, ug_item = 2, ug_equipped = False, ug_costume = True\<rparr>],
     t_next_id := 20\<rparr>"

lemma closet_items: "t_gear_items closet_db =
    [(gear ''mage-weapon-1'' ''Apprentice Staff'' ''weapon'' ''mage'' 1 [(''int'', 3)] 100)\<lparr>gi_id := 1\<rparr>,
     (gear ''mage-weapon-2'' ''Wizard Staff'' ''weapon'' ''mage'' 2 [(''int'', 6)] 250)\<lparr>gi_id := 2\<rparr>]"
  by (simp add: closet_db_def GEAR_CATALOG_def CLASS_GEAR_1_def)

lemma closet_gear: "t_user_gear closet_db = [\<lparr>ug_id = 10, ug_user = 1, ug_item = 1, ug_equipped = True, ug_costume = False\<rparr>,
    \<lparr>ug_id = 11, ug_user = 1, ug_item = 2, ug_equipped = False, ug_costume = True\<rparr>]"
  by (simp add: closet_db_def)

lemma closet_profile: "profile_of closet_db v = (if v = 1 then new_profile\<lparr>level := 12, gold := 500,
    game_class := Some ''mage'', int_stat := 3, unspent_stat_points := 5\<rparr> else new_profile)"
  by (simp add: closet_db_def profile_of_def empty_db_def)

lemma closet_ok: "wardrobe_ok closet_db"
proof -
  have "t_next_id closet_db = 20" by (simp add: closet_db_def)
  note rows = closet_gear this
  have "s \<in> set GEAR_CATALOG" if "s \<in> set (take 2 (drop 5 GEAR_CATALOG))" for s
    using that by (meson in_set_dropD in_set_takeD)
  moreover have "t_gear_items closet_db = number_gear 1 (take 2 (drop 5 GEAR_CATALOG))" by (simp add: closet_db_def)
  ultimately have "\<forall>it \<in> set (t_gear_items closet_db). refresh_gear it = it"
    by (auto simp: refresh_seed dest!: number_gear_rows)
  then have "gear_rows_ok closet_db" by (simp add: gear_rows_ok_def closet_items rows)
  moreover have "one_per_slot ug_equipped closet_db" "one_per_slot ug_costume closet_db"
    by (simp_all add: one_per_slot_def rows)
  moreover have "fits closet_db"
    by (simp add: fits_def rows closet_items class_locked_def closet_profile gear_def)
  ultimately show ?thesis by (simp add: wardrobe_ok_def)
qed

lemma closet_sheets: "sheets_ok closet_db"
proof -
  have "profile_ok (profile_of closet_db v)" for v
    using new_profile_ok by (simp add: closet_profile profile_ok_def)
  then show ?thesis by (simp add: sheets_ok_def closet_items gear_def) (simp add: closet_db_def empty_db_def)
qed

definition closet_env :: env where
  "closet_env = \<lparr>e_pf = \<lparr>pow_fn = (\<lambda>_ _. Inr 1), repr_fn = (\<lambda>_. [])\<rparr>, e_now = 0, e_zone = Map.empty, e_digest = id\<rparr>"

definition sample_calls :: "env \<Rightarrow> (env \<times> int \<times> character_call) list" where
  "sample_calls env = [(env, 1, EquipGear ''mage-weapon-2'' True), (env, 1, AllocateStats (JObj [(''int'', JInt 2)])),
     (env, 2, BuyGear ''all-shield-1''), (env, 1, RespecClass)]"

subsection \<open>Properties\<close>

text \<open>C10: through any sequence of character requests by any users the wardrobe stays sound: at most
  one worn and one shown item per slot, everything worn fits the wearer's class, nobody owns an item
  twice, and all keys stay distinct.\<close>

theorem wardrobe_runs:
  assumes "wardrobe_ok db"
  shows "wardrobe_ok (character_run calls db)"
proof -
  have "wardrobe_step\<^sup>*\<^sup>* a b \<Longrightarrow> wardrobe_ok a \<Longrightarrow> wardrobe_ok b" for a b
    by (induction rule: rtranclp_induct) (auto dest: step_ok)
  then have "wardrobe_ok a \<Longrightarrow> wardrobe_ok (snd (character_request env u c a))" for env u c a
    using request_steps by blast
  with assms show ?thesis by (intro run_induct [of wardrobe_ok])
qed

theorem wardrobe_runs_witness:
  "wardrobe_ok closet_db \<and> wardrobe_ok (character_run (sample_calls closet_env) closet_db)
    \<and> map ug_equipped (t_user_gear (snd (equip_gear closet_env 1 ''mage-weapon-2'' True closet_db))) = [False, True]"
proof (intro conjI)
  show "map ug_equipped (t_user_gear (snd (equip_gear closet_env 1 ''mage-weapon-2'' True closet_db))) = [False, True]"
    by (simp add: equip_gear_def get_or_create_profile_def set_equipped_def owned_item_def get_gear_item_def get_user_gear_def
        closet_items closet_profile class_locked_def gear_def set_flag_def clear_slot_def update_where_def in_slot_def Let_def)
      (simp add: set_flag_def clear_slot_def update_where_def in_slot_def closet_items closet_gear gear_def)
qed (rule closet_ok, rule wardrobe_runs [OF closet_ok])

text \<open>C28: requests never create or destroy stat points: the sum of the unspent pool and the
  allocated stats of every user is the same after any sequence of requests, whatever is allocated by
  hand or automatically, picked or refunded.\<close>

theorem points_conserved:
  "pool (profile_of (character_run calls db) v) = pool (profile_of db v)"
proof -
  have "wardrobe_step\<^sup>*\<^sup>* a b \<Longrightarrow> pool (profile_of b v) = pool (profile_of a v)" for a b
    by (induction rule: rtranclp_induct) (simp_all add: step_pool)
  then have "pool (profile_of (snd (character_request env u c a)) v) = pool (profile_of a v)" for env u c a
    using request_steps by blast
  then show ?thesis by (intro run_induct [of "\<lambda>b. pool (profile_of b v) = pool (profile_of db v)"]) simp_all
qed

text \<open>C37: every profile keeps its types and ranges through any sequence of requests: level at least
  one, health within its maximum, no negative gold, stat or point count, every amount a double. No
  purchase, respec or allocation can overdraw.\<close>

theorem sheets_runs:
  assumes "sheets_ok db"
  shows "sheets_ok (character_run calls db)"
  by (rule run_induct) (rule assms, rule request_sheets)

text \<open>Witnesses.\<close>

theorem sheets_runs_witness:
  "sheets_ok closet_db \<and> sheets_ok (character_run (sample_calls closet_env) closet_db)
    \<and> unspent_stat_points (profile_of (snd (allocate_stats closet_env 1 (JObj [(''int'', JInt 2)]) closet_db)) 1) = 3"
proof (intro conjI)
  show "unspent_stat_points (profile_of (snd (allocate_stats closet_env 1 (JObj [(''int'', JInt 2)]) closet_db)) 1) = 3"
    by (simp add: allocate_stats_def get_or_create_profile_def allocate_points_def stat_of_key_def stat_columns_def stat_key_def
        STAT_POINT_CAP_def closet_profile allocated_total_def new_profile_def get_stat_def Let_def)
qed (rule closet_sheets, rule sheets_runs [OF closet_sheets])

end
