(* ===== verification/AchievementLaws.thy ===== *)
theory AchievementLaws
  imports Achievements
begin

text \<open>
  The grant pass: what it grants is exactly the unearned badges whose criteria hold, it pays their gold
  once, and a second pass finds nothing left to do. What a criterion reads is not what a grant writes.
\<close>

subsection \<open>Seeding\<close>

lemma badge_find: "s \<in> set ACHIEVEMENTS \<Longrightarrow> find (\<lambda>x. a_key x = a_key s) ACHIEVEMENTS = Some s"
proof -
  have "list_all (\<lambda>s. find (\<lambda>x. a_key x = a_key s) ACHIEVEMENTS = Some s) ACHIEVEMENTS" by code_simp
  then show "s \<in> set ACHIEVEMENTS \<Longrightarrow> ?thesis" by (simp add: list_all_iff)
qed

lemma refresh_badge_cases:
  obtains "refresh_badge a = a" "find (\<lambda>s. a_key s = a_key a) ACHIEVEMENTS = None"
  | s where "refresh_badge a = s\<lparr>a_id := a_id a\<rparr>" "find (\<lambda>s. a_key s = a_key a) ACHIEVEMENTS = Some s" "a_key s = a_key a"
  by (cases "find (\<lambda>s. a_key s = a_key a) ACHIEVEMENTS") (auto simp: refresh_badge_def find_Some_iff)

lemma refresh_badge_key [simp]: "a_key (refresh_badge a) = a_key a"
  by (cases a rule: refresh_badge_cases) simp_all

lemma refresh_badge_idem [simp]: "refresh_badge (refresh_badge a) = refresh_badge a"
  by (cases a rule: refresh_badge_cases) (simp_all add: refresh_badge_def)

lemma refresh_new: "s \<in> set ACHIEVEMENTS \<Longrightarrow> refresh_badge (s\<lparr>a_id := n\<rparr>) = s\<lparr>a_id := n\<rparr>"
  using badge_find [of s] by (simp add: refresh_badge_def)

lemma number_badges_from: "a \<in> set (number_badges n ss) \<Longrightarrow> \<exists>s \<in> set ss. \<exists>m. a = s\<lparr>a_id := m\<rparr>"
  by (induction ss arbitrary: n) auto

lemma number_badges_keys: "map a_key (number_badges n ss) = map a_key ss"
  by (induction ss arbitrary: n) auto

lemma seed_idem [simp]: "seed_achievements (seed_achievements db) = seed_achievements db"
proof -
  let ?new = "number_badges (t_next_id db) (missing_badges db)"
  have new: "map refresh_badge ?new = ?new"
    by (rule map_idI) (auto simp: missing_badges_def refresh_new dest!: number_badges_from)
  have "set (map a_key ?new) = a_key ` set (missing_badges db)" unfolding number_badges_keys by simp
  then have keys: "a_key ` set ?new = a_key ` set (missing_badges db)" by simp
  have old: "(\<lambda>x. a_key (refresh_badge x)) ` set (t_achievements db) = a_key ` set (t_achievements db)" by simp
  have "missing_badges (seed_achievements db) = []"
    unfolding missing_badges_def [of "seed_achievements db"] filter_empty_conv
  proof
    fix s assume "s \<in> set ACHIEVEMENTS"
    then have "a_key s \<in> a_key ` set (t_achievements db) \<union> a_key ` set (missing_badges db)"
      by (cases "a_key s \<in> a_key ` set (t_achievements db)") (auto simp: missing_badges_def)
    then show "\<not> a_key s \<notin> a_key ` set (t_achievements (seed_achievements db))"
      by (simp add: seed_achievements_def image_Un image_image old keys)
  qed
  moreover have "map refresh_badge (t_achievements (seed_achievements db)) = t_achievements (seed_achievements db)"
    by (simp add: seed_achievements_def new)
  ultimately show ?thesis unfolding seed_achievements_def [of "seed_achievements db"] by simp
qed

subsection \<open>What criteria read\<close>

definition same_facts :: "int \<Rightarrow> db \<Rightarrow> db \<Rightarrow> bool" where
  "same_facts u a b \<longleftrightarrow> level (profile_of b u) = level (profile_of a u) \<and> game_class (profile_of b u) = game_class (profile_of a u)
     \<and> t_events b = t_events a \<and> t_user_gear b = t_user_gear a \<and> t_dailies b = t_dailies a \<and> t_habits b = t_habits a
     \<and> t_daily_checks b = t_daily_checks a"

lemma same_facts_trans: "same_facts u a b \<Longrightarrow> same_facts u b c \<Longrightarrow> same_facts u a c"
  by (simp add: same_facts_def)

lemma meets_same: "same_facts u a b \<Longrightarrow> meets env b u c full = meets env a u c full"
proof -
  assume same: "same_facts u a b"
  then have rows: "t_events b = t_events a" "t_user_gear b = t_user_gear a" "t_dailies b = t_dailies a" "t_habits b = t_habits a"
    "t_daily_checks b = t_daily_checks a" by (simp_all add: same_facts_def)
  have "scored_events b u t = scored_events a u t" for t by (simp add: scored_events_def rows)
  moreover from this have "focus_minutes b u = focus_minutes a u" by (simp add: focus_minutes_def)
  moreover have "done_marks env b u full = done_marks env a u full" by (simp add: done_marks_def rows)
  then have "perfect_day env b u full = perfect_day env a u full" by (simp add: perfect_day_def rows)
  moreover have "list_user_gear b u = list_user_gear a u" by (simp add: list_user_gear_def rows)
  ultimately have "meets_db env b u d full = meets_db env a u d full" for d
    unfolding meets_db_def rows by presburger
  with same show ?thesis by (simp add: meets_def same_facts_def cong: json.case_cong)
qed

lemma same_facts_grant: "same_facts u db (grant u a db)"
  by (simp add: same_facts_def grant_def put_profile_def profile_of_def)

lemma same_facts_game: "same_game a b \<Longrightarrow> same_facts u a b"
  by (simp add: same_facts_def same_game_fields profile_of_def)

lemma notify_grants_same: "same_game db (notify_grants env u as db)"
  unfolding notify_grants_def
  by (induction as arbitrary: db) (auto intro: same_game_trans [OF dispatch_same_game])

subsection \<open>The pass\<close>

definition earns :: "env \<Rightarrow> int \<Rightarrow> string set option \<Rightarrow> bool \<Rightarrow> db \<Rightarrow> achievement \<Rightarrow> bool" where
  "earns env u types full db a \<longleftrightarrow> event_relevant (criteria_of a) types \<and> meets env db u (criteria_of a) full"

lemma grant_rows: "t_user_achievements (grant u a db) = t_user_achievements db @ [\<lparr>ua_user = u, ua_achievement = a_id a\<rparr>]"
  "t_achievements (grant u a db) = t_achievements db" "t_next_id (grant u a db) = t_next_id db"
  "gold (profile_of (grant u a db) u) = fadd (gold (profile_of db u)) (of_int (a_gold_reward a))"
  by (simp_all add: grant_def put_profile_def profile_of_def)

lemma grant_loop_exact:
  "(let (granted, db') = grant_loop env u types full as db in
      granted = filter (earns env u types full db) as \<and> same_facts u db db'
    \<and> t_user_achievements db' = t_user_achievements db @ map (\<lambda>a. \<lparr>ua_user = u, ua_achievement = a_id a\<rparr>) granted
    \<and> t_achievements db' = t_achievements db \<and> t_next_id db' = t_next_id db
    \<and> gold (profile_of db' u) = foldl (\<lambda>g a. fadd g (of_int (a_gold_reward a))) (gold (profile_of db u)) granted)"
proof (induction as arbitrary: db)
  case Nil
  then show ?case by (simp add: same_facts_def)
next
  case (Cons a as)
  show ?case
  proof (cases "earns env u types full db a")
    case True
    obtain g db' where loop: "grant_loop env u types full as (grant u a db) = (g, db')" by force
    have "earns env u types full (grant u a db) = earns env u types full db"
      by (simp add: earns_def fun_eq_iff meets_same [OF same_facts_grant])
    with Cons.IH [of "grant u a db"] True loop show ?thesis
      by (auto simp: earns_def grant_rows intro: same_facts_trans [OF same_facts_grant])
  next
    case False
    with Cons.IH [of db] show ?thesis by (auto simp: earns_def)
  qed
qed

lemma seed_rows: "t_user_achievements (seed_achievements db) = t_user_achievements db"
  "same_facts u db (seed_achievements db)" "profile_of (seed_achievements db) u = profile_of db u"
  by (simp_all add: seed_achievements_def same_facts_def profile_of_def)

lemma seed_fixed:
  assumes "t_achievements b = t_achievements (seed_achievements a)" "t_next_id b = t_next_id (seed_achievements a)"
  shows "seed_achievements b = b"
proof -
  let ?a = "seed_achievements a"
  have "t_next_id (seed_achievements ?a) = t_next_id ?a" "t_achievements (seed_achievements ?a) = t_achievements ?a" by simp_all
  then have "missing_badges ?a = []" "map refresh_badge (t_achievements ?a) = t_achievements ?a"
    unfolding seed_achievements_def [of ?a] by simp_all
  then have "missing_badges b = []" "map refresh_badge (t_achievements b) = t_achievements b"
    using assms(1) by (simp_all add: missing_badges_def)
  then show ?thesis unfolding seed_achievements_def [of b] by simp
qed

lemma grant_loop_none: "\<forall>a \<in> set as. \<not> earns env u types full db a \<Longrightarrow> grant_loop env u types full as db = ([], db)"
  by (induction as) (auto simp: earns_def)

text \<open>C27: an evaluation grants exactly the badges the user has not earned and whose criteria the stored
  history meets (gated ones only when the write could matter), records each once, pays their gold in
  order, and settles: evaluating again at once grants nothing and leaves the database as it is.\<close>

theorem grant_pass_exact:
  "(let (granted, db') = evaluate_grants env u types full db in
      granted = filter (earns env u types full db) (pending_badges (seed_achievements db) u)
    \<and> t_user_achievements db' = t_user_achievements db @ map (\<lambda>a. \<lparr>ua_user = u, ua_achievement = a_id a\<rparr>) granted
    \<and> gold (profile_of db' u) = foldl (\<lambda>g a. fadd g (of_int (a_gold_reward a))) (gold (profile_of db u)) granted
    \<and> evaluate_grants env u types full db' = ([], db'))"
proof -
  let ?db1 = "seed_achievements db"
  obtain granted db2 where loop: "grant_loop env u types full (pending_badges ?db1 u) ?db1 = (granted, db2)" by force
  define db' where "db' = notify_grants env u granted db2"
  have eval: "evaluate_grants env u types full db = (granted, db')"
    by (simp add: evaluate_grants_def Let_def loop db'_def)
  note exact = grant_loop_exact [of env u types full "pending_badges ?db1 u" ?db1, unfolded loop Let_def prod.case]
  note fields = same_game_fields [OF notify_grants_same [of db2 env u granted], folded db'_def]
  have "same_facts u db db2" by (rule same_facts_trans [OF seed_rows(2)]) (use exact in blast)
  then have facts: "same_facts u db db'"
    using same_facts_game [OF notify_grants_same] unfolding db'_def by (rule same_facts_trans)
  have same: "earns env u types full b = earns env u types full db" if "same_facts u db b" for b
    by (simp add: earns_def fun_eq_iff meets_same [OF that])
  have granted: "granted = filter (earns env u types full db) (pending_badges ?db1 u)"
    using exact same [OF seed_rows(2)] by simp
  have rows: "t_user_achievements db' = t_user_achievements db @ map (\<lambda>a. \<lparr>ua_user = u, ua_achievement = a_id a\<rparr>) granted"
    using exact by (simp add: fields seed_rows(1))
  have gold: "gold (profile_of db' u) = foldl (\<lambda>g a. fadd g (of_int (a_gold_reward a))) (gold (profile_of db u)) granted"
    using exact seed_rows(3) [of db u] fields(1) by (simp add: profile_of_def)
  have ach: "t_achievements db' = t_achievements ?db1" using exact by (simp add: fields)
  have seeded: "seed_achievements db' = db'" by (rule seed_fixed [of _ db]) (use exact fields in simp_all)
  have "\<forall>a \<in> set (pending_badges db' u). \<not> earns env u types full db' a"
  proof
    fix a assume "a \<in> set (pending_badges db' u)"
    then have a: "a \<in> set (pending_badges ?db1 u)" "a \<notin> set granted"
      unfolding pending_badges_def ach rows seed_rows(1) by (auto simp: ball_Un)
    with granted show "\<not> earns env u types full db' a" by (simp add: same [OF facts])
  qed
  then have "evaluate_grants env u types full db' = ([], db')"
    by (simp add: evaluate_grants_def Let_def seeded grant_loop_none notify_grants_def)
  with eval granted rows gold show ?thesis by simp
qed

end
