(* ===== verification/DailyLaws.thy ===== *)
theory DailyLaws
  imports DailyService EngineFacts
begin

text \<open>
  What a daily pays. The shares recorded for one user, daily and day are summed the way the code sums
  them; over any run of checks and unchecks, with anything else happening to marks, items and other
  tables in between, the sum stays at most one whole check.
\<close>

subsection \<open>Shares\<close>

lemma even_significand_1: "even_significand 1"
  by code_simp

lemma residual_fits:
  assumes "is_b64 paid" "paid \<le> 1" "share \<le> 1" "share \<le> max 0 (fsub 1 paid)"
  shows "fadd paid share \<le> 1"
proof (cases "0 \<le> paid")
  case True
  have "fadd paid share \<le> fadd paid (max 0 (fsub 1 paid))" by (rule fadd_mono) (use assms in auto)
  also have "max 0 (fsub 1 paid) = fsub 1 paid" using fsub_nonneg [OF assms(2)] by simp
  also have "fadd paid (fsub 1 paid) \<le> 1"
    by (rule fadd_fsub_le [OF True assms(2,1) _ even_significand_1]) simp
  finally show ?thesis .
next
  case False
  then have "fadd paid share \<le> fadd 0 1" using assms(3) by (intro fadd_mono) auto
  then show ?thesis by simp
qed

definition claim_rows :: "db \<Rightarrow> int \<Rightarrow> int \<Rightarrow> date \<Rightarrow> event list" where
  "claim_rows db u did day = filter (\<lambda>e. ev_user e = u \<and> ev_type e = ''daily_check'' \<and> scored (ev_outcome e)
     \<and> dict_get (ev_payload e) ''daily_id'' = Some (JInt did)
     \<and> dict_get (ev_payload e) ''check_date'' = Some (JStr (isoformat day))) (t_events db)"

definition claimed :: "db \<Rightarrow> int \<Rightarrow> int \<Rightarrow> date \<Rightarrow> rat" where
  "claimed db u did day = foldl fadd 0 (map payload_share (claim_rows db u did day))"

lemma claimed_b64 [simp]: "is_b64 (claimed db u did day)"
proof -
  have "is_b64 x \<Longrightarrow> is_b64 (foldl fadd x xs)" for x xs by (induction xs arbitrary: x) auto
  then show ?thesis by (simp add: claimed_def)
qed

text \<open>Checks are stamped within the window \<open>_paid_totals\<close> scans: on their own day, or at some later
  instant already past.\<close>

definition stamped_ok :: "datetime \<Rightarrow> db \<Rightarrow> bool" where
  "stamped_ok now db \<longleftrightarrow> (\<forall>u did day. date_ok day \<longrightarrow> (\<forall>e \<in> set (claim_rows db u did day).
     midnight day \<le> ev_ts e \<and> ev_ts e \<le> max now (midnight day + us_per_day)))"

lemma paid_rows_claims:
  assumes "stamped_ok (e_now env) db" "date_ok day"
  shows "paid_rows env db d day = claim_rows db (d_user d) (d_id d) day"
  unfolding paid_rows_def claim_rows_def list_daily_check_events_def Let_def filter_filter
proof (rule filter_cong [OF refl])
  fix e assume e: "e \<in> set (t_events db)"
  show "(ev_user e = d_user d \<and> ev_type e = ''daily_check'' \<and> midnight day \<le> ev_ts e
          \<and> ev_ts e \<le> max (e_now env) (midnight day + us_per_day))
        \<and> dict_get (ev_payload e) ''daily_id'' = Some (JInt (d_id d))
        \<and> dict_get (ev_payload e) ''check_date'' = Some (JStr (isoformat day)) \<and> scored (ev_outcome e)
      \<longleftrightarrow> ev_user e = d_user d \<and> ev_type e = ''daily_check'' \<and> scored (ev_outcome e)
        \<and> dict_get (ev_payload e) ''daily_id'' = Some (JInt (d_id d))
        \<and> dict_get (ev_payload e) ''check_date'' = Some (JStr (isoformat day))"
    using assms e unfolding stamped_ok_def claim_rows_def by fastforce
qed

lemma paid_totals_share:
  assumes "stamped_ok (e_now env) db" "date_ok day"
  shows "fst (paid_totals env db d day) = claimed db (d_user d) (d_id d) day"
  by (simp add: paid_totals_def Let_def paid_rows_claims [OF assms] claimed_def)

subsection \<open>One check\<close>

lemma fdiv_le_1: "x \<le> y \<Longrightarrow> 0 \<le> y \<Longrightarrow> fdiv x y \<le> 1"
proof -
  assume "x \<le> y" "0 \<le> y"
  then have "b64 x \<le> b64 y" "0 \<le> b64 y" by (simp_all add: b64_mono b64_nonneg)
  then have "b64 x / b64 y \<le> 1" by (cases "b64 y = 0") (simp_all add: divide_le_eq_1)
  then show ?thesis using dbl.rnd_le_int [of 1] by (simp add: fdiv_def)
qed

lemma transition_share:
  assumes "transition_marks env did n item day b db = (tr, db')" "item \<noteq> None \<longrightarrow> 1 \<le> n" "0 \<le> n"
  shows "tr_share tr \<le> 1 \<and> t_events db' = t_events db \<and> (tr_uncheck tr \<longrightarrow> tr_share tr = 0)"
proof -
  have one: "1 \<le> n \<Longrightarrow> fdiv 1 (of_int n) \<le> 1" by (rule fdiv_le_1) auto
  have rest: "fdiv (of_int (n - done_items db did day)) (of_int n) \<le> 1"
    by (rule fdiv_le_1) (use assms(3) in \<open>simp_all add: done_items_def\<close>)
  show ?thesis
    using assms one rest
    by (auto simp: transition_marks_def Let_def no_transition_def set_mark_def add_mark_def split: if_splits prod.splits)
qed

lemma apply_share_events:
  assumes "apply_share env did share0 day rates today bs db g = (res, db', g')"
  shows "t_events db' = t_events db"
proof -
  have death: "resolve_death_gear u oc a h = (oc', b, h') \<Longrightarrow> t_events b = t_events a" for u oc a h oc' b h'
    by (auto simp: resolve_death_gear_def lose_random_gear_def Let_def split: if_splits prod.splits)
  show ?thesis
    using assms unfolding apply_share_def
    by (auto simp: Let_def same_game_fields(3) [OF notify_same_game(1)] put_profile_def
        split: option.splits prod.splits sum.splits if_splits dest!: death)
qed

lemma apply_share_residual:
  assumes "apply_share env did share0 day rates today bs db g = (Inr (oc, share), db', g')" "daily_row db did = Some d"
  shows "share \<le> share0 \<and> share \<le> max 0 (fsub 1 (fst (paid_totals env db d day)))"
  using assms unfolding apply_share_def
  by (auto simp: Let_def split: prod.splits sum.splits if_splits)

lemma find_map_row: "(\<And>x. P (f x) = P x) \<Longrightarrow> find P (map f xs) = map_option f (find P xs)"
  by (induction xs) auto

lemma score_check_row:
  assumes check: "score_check env did items item day rates today eid ts extra flag bs db g = (res, db', g')"
  obtains (none) "t_events db' = t_events db"
  | (row) d share streak is_done oc where "daily_row db did = Some d" "d_id d = did"
      "t_events db' = t_events db @ [\<lparr>ev_user = d_user d, ev_eid = eid, ev_type = ''daily_check'',
          ev_payload = check_payload extra did item day is_done share streak, ev_outcome = oc, ev_ts = ts\<rparr>]"
      "scored oc \<Longrightarrow> share \<le> 1 \<and> share \<le> max 0 (fsub 1 (fst (paid_totals env db d day)))"
proof (cases "daily_row db did")
  case None
  with check none show thesis by (simp add: score_check_def)
next
  case (Some d)
  then have id: "d_id d = did" by (auto simp: daily_row_def find_Some_iff)
  show thesis
  proof (cases "check_guard d items item day today flag")
    case (Inl e)
    with check Some none show thesis by (simp add: score_check_def)
  next
    case (Inr is_done)
    then have n: "item \<noteq> None \<longrightarrow> 1 \<le> int (length items)"
      by (auto simp: check_guard_def Suc_le_eq split: if_splits)
    obtain tr db1 where tr: "transition_marks env did (int (length items)) item day is_done db = (tr, db1)" by force
    note share = transition_share [OF tr n]
    define bump where "bump = earns_streak db1 d day (tr_first tr)"
    define db2 where "db2 = (if bump then update_daily did (\<lambda>r. r\<lparr>d_streak := d_streak r + 1\<rparr>) db1 else db1)"
    have ev2: "t_events db2 = t_events db" using share by (simp add: db2_def update_daily_def)
    have "t_dailies db1 = t_dailies db"
      using tr by (auto simp: transition_marks_def Let_def set_mark_def add_mark_def split: if_splits prod.splits)
    then have row1: "find (\<lambda>d. d_id d = did) (t_dailies db1) = Some d" using Some by (simp add: daily_row_def)
    obtain d2 where d2: "daily_row db2 did = Some d2" "d_id d2 = did" "d_user d2 = d_user d"
    proof (cases bump)
      case True
      then have "daily_row db2 did = Some (d\<lparr>d_streak := d_streak d + 1\<rparr>)"
        using row1 id by (simp add: daily_row_def db2_def update_daily_def update_where_def find_map_row)
      with that id show thesis by simp
    next
      case False
      with that row1 id show thesis by (simp add: daily_row_def db2_def)
    qed
    have paid: "paid_totals env db2 d2 day = paid_totals env db d day"
      using d2 id by (simp add: paid_totals_def paid_rows_def list_daily_check_events_def ev2 Let_def)
    define r3 where "r3 = (case tr_reason tr of Some why \<Rightarrow> (Inr (unscored why, tr_share tr), db2, g)
      | None \<Rightarrow> if tr_uncheck tr then (Inr ((zero_outcome d)\<lparr>o_uncheck := Some True\<rparr>, tr_share tr), db2, g)
          else apply_share env did (tr_share tr) day rates today bs db2 g)"
    have unf: "(case r3 of (r, db3, g3) \<Rightarrow> (case r of Inl e \<Rightarrow> (Inl e, db3, g3) | Inr (oc, sh) \<Rightarrow> (Inr oc,
        add_event \<lparr>ev_user = d_user d, ev_eid = eid, ev_type = ''daily_check'',
          ev_payload = check_payload extra did item day is_done sh (if bump then d_streak d + 1 else d_streak d),
          ev_outcome = oc, ev_ts = ts\<rparr> db3, g3))) = (res, db', g')"
      using check Some Inr tr unfolding r3_def db2_def bump_def by (simp add: score_check_def Let_def)
    consider why where "tr_reason tr = Some why" | "tr_reason tr = None" "tr_uncheck tr"
      | "tr_reason tr = None" "\<not> tr_uncheck tr" by (cases "tr_reason tr") auto
    then show thesis
    proof cases
      case 1
      with unf ev2 show thesis
        by (intro row [OF Some id, of is_done "tr_share tr" "if bump then d_streak d + 1 else d_streak d" "unscored why"])
          (auto simp: r3_def add_event_def scored_def unscored_def)
    next
      case 2
      with unf ev2 share show thesis
        by (intro row [OF Some id, of is_done "tr_share tr" "if bump then d_streak d + 1 else d_streak d" "(zero_outcome d)\<lparr>o_uncheck := Some True\<rparr>"])
          (auto simp: r3_def add_event_def)
    next
      case 3
      obtain r db3 g3 where ap: "apply_share env did (tr_share tr) day rates today bs db2 g = (r, db3, g3)" by (rule prod_cases3)
      note ev3 = apply_share_events [OF ap]
      show thesis
      proof (cases r)
        case (Inl e)
        with 3 unf ap ev2 ev3 show thesis by (intro none) (auto simp: r3_def)
      next
        case (Inr os)
        obtain oc sh where os: "os = (oc, sh)" by force
        from 3 unf ap ev2 ev3 Inr os apply_share_residual [OF ap [unfolded Inr os] d2(1)] paid share show thesis
          by (intro row [OF Some id, of is_done sh "if bump then d_streak d + 1 else d_streak d" oc])
            (auto simp: r3_def add_event_def)
      qed
    qed
  qed
qed

subsection \<open>A day's history\<close>

text \<open>A state is the clock and the tables. A check runs at an instant not before the clock and is
  stamped in its window; anything else may happen in between as long as it writes no check rows: items
  edited, marks deleted, other events scored, dailies switched on and off.\<close>

definition check_rows :: "db \<Rightarrow> event list" where
  "check_rows db = filter (\<lambda>e. ev_type e = ''daily_check'') (t_events db)"

inductive check_step :: "datetime \<times> db \<Rightarrow> datetime \<times> db \<Rightarrow> bool" where
  check: "score_check env did items item day rates today eid ts extra flag bs a g = (res, b, g') \<Longrightarrow>
     now \<le> e_now env \<Longrightarrow> date_ok day \<Longrightarrow> midnight day \<le> ts \<Longrightarrow> ts \<le> max (e_now env) (midnight day + us_per_day) \<Longrightarrow>
     check_step (now, a) (e_now env, b)"
| other: "check_rows b = check_rows a \<Longrightarrow> now \<le> later \<Longrightarrow> check_step (now, a) (later, b)"

definition shares_ok :: "datetime \<Rightarrow> db \<Rightarrow> bool" where
  "shares_ok now db \<longleftrightarrow> stamped_ok now db \<and> (\<forall>u did day. date_ok day \<longrightarrow> claimed db u did day \<le> 1)"

lemma claim_rows_checks: "claim_rows db u did day = filter (\<lambda>e. ev_user e = u \<and> scored (ev_outcome e)
     \<and> dict_get (ev_payload e) ''daily_id'' = Some (JInt did)
     \<and> dict_get (ev_payload e) ''check_date'' = Some (JStr (isoformat day))) (check_rows db)"
  by (auto simp: claim_rows_def check_rows_def intro: filter_cong)

lemma payload_keys:
  "dict_get (check_payload extra did item day b share streak) ''daily_id'' = Some (JInt did)"
  "dict_get (check_payload extra did item day b share streak) ''check_date'' = Some (JStr (isoformat day))"
  "dict_get (check_payload extra did item day b share streak) ''share'' = Some (JFloat share)"
  by (simp_all add: check_payload_def dict_get_def map_of_dict_merge)

lemma stamped_later: "stamped_ok now db \<Longrightarrow> now \<le> later \<Longrightarrow> stamped_ok later db"
  unfolding stamped_ok_def by (meson max.mono order_refl order_trans)

lemma claims_append:
  assumes "t_events b = t_events a @ [e]" "ev_type e = ''daily_check''" "dict_get (ev_payload e) ''daily_id'' = Some (JInt i)"
    "dict_get (ev_payload e) ''check_date'' = Some (JStr (isoformat dt))" "date_ok dt" "date_ok day"
  shows "claim_rows b u did day = claim_rows a u did day
    @ (if ev_user e = u \<and> scored (ev_outcome e) \<and> i = did \<and> dt = day then [e] else [])"
  using assms by (auto simp: claim_rows_def dest: isoformat_inj)

lemma check_shares_ok:
  assumes check: "score_check env did items item day rates today eid ts extra flag bs a g = (res, b, g')"
    and ok: "shares_ok now a" and clock: "now \<le> e_now env" and day: "date_ok day"
    and ts: "midnight day \<le> ts" "ts \<le> max (e_now env) (midnight day + us_per_day)"
  shows "shares_ok (e_now env) b"
  using check
proof (cases rule: score_check_row)
  case none
  then have "claim_rows b = claim_rows a" by (simp add: claim_rows_def fun_eq_iff)
  with ok stamped_later [OF _ clock, of a] show ?thesis by (simp add: shares_ok_def stamped_ok_def claimed_def)
next
  case (row d share streak is_done oc)
  let ?e = "\<lparr>ev_user = d_user d, ev_eid = eid, ev_type = ''daily_check'',
    ev_payload = check_payload extra did item day is_done share streak, ev_outcome = oc, ev_ts = ts\<rparr>"
  have st: "stamped_ok (e_now env) a" using ok stamped_later [OF _ clock] by (simp add: shares_ok_def)
  have rows: "claim_rows b u i dt = claim_rows a u i dt @ (if d_user d = u \<and> scored oc \<and> did = i \<and> day = dt then [?e] else [])"
    if "date_ok dt" for u i dt
    using claims_append [OF row(3) _ _ _ day that, of did u i] by (simp add: payload_keys)
  have "stamped_ok (e_now env) b"
    using st ts rows unfolding stamped_ok_def by (auto split: if_splits)
  moreover have "claimed b u i dt \<le> 1" if dt: "date_ok dt" for u i dt
  proof (cases "d_user d = u \<and> scored oc \<and> did = i \<and> day = dt")
    case True
    have "payload_share ?e = share" by (simp add: payload_share_def dict_get_or_def payload_keys [unfolded dict_get_def] py_float_def)
    with True have "claimed b u i dt = fadd (claimed a u i dt) share" by (simp add: claimed_def rows [OF dt])
    moreover have "claimed a u i dt \<le> 1" using ok dt by (simp add: shares_ok_def)
    ultimately show ?thesis
      using row(4) True residual_fits [OF claimed_b64, of a u i dt share] paid_totals_share [OF st day, of d] row(2) by simp
  next
    case False
    then have "claimed b u i dt = claimed a u i dt"
      by (simp only: claimed_def rows [OF dt] if_False append_Nil2)
    with ok dt show ?thesis by (simp add: shares_ok_def)
  qed
  ultimately show ?thesis by (simp add: shares_ok_def)
qed

text \<open>C13: a day of a daily never pays more than one whole check. Start from tables where that holds and
  run any checks and unchecks of any users, with items edited, marks deleted and other events scored in
  between and the clock only moving forward: for every user, daily and day the shares on the scored ledger
  rows, added up in the float arithmetic of the code, stay at most 1.\<close>

theorem day_share_capped:
  assumes "check_step\<^sup>*\<^sup>* (now, a) (later, b)" and "shares_ok now a"
  shows "shares_ok later b"
  using assms
proof (induction rule: rtranclp_induct2)
  case (step t1 d1 t2 d2)
  from step.hyps(2) step.IH [OF step.prems] show ?case
  proof (cases rule: check_step.cases)
    case (check env did items item day rates today eid ts extra flag bs g res g')
    with check_shares_ok [OF check(2)] step.IH [OF step.prems] show ?thesis by simp
  next
    case other
    then have "claim_rows d2 = claim_rows d1" by (simp add: claim_rows_checks fun_eq_iff)
    with step.IH [OF step.prems] stamped_later [OF _ other(2), of d1] show ?thesis
      by (simp add: shares_ok_def stamped_ok_def claimed_def)
  qed
qed

text \<open>A daily of one user, checked twice on the tenth day with its mark deleted in between.\<close>

definition chore_db :: db where
  "chore_db = empty_db\<lparr>t_dailies := [\<lparr>d_id = 3, d_user = 1, d_title = ''stretch'', d_difficulty = ''easy'',
     d_recurrence = JNull, d_streak = 0, d_active = True, d_reminder_times = [], d_created_at = us_per_day, d_notes = None\<rparr>]\<rparr>"

definition chore_env :: env where
  "chore_env = \<lparr>e_pf = \<lparr>pow_fn = (\<lambda>_ _. Inr 1), repr_fn = (\<lambda>_. [])\<rparr>, e_now = 737000 * us_per_day + us_per_day div 2,
     e_zone = Map.empty, e_digest = id\<rparr>"

definition chore_rng :: rng where
  "chore_rng = \<lparr>rng_roll = (\<lambda>_. 1), rng_pick = (\<lambda>_. 0), rng_pos = 0\<rparr>"

definition chore_check :: "string \<Rightarrow> db \<Rightarrow> outcome result \<times> db \<times> rng" where
  "chore_check eid db = score_check chore_env 3 [] None 737000 default_rates 737000 eid (e_now chore_env) [] None
     (Some Map.empty) db chore_rng"

definition chore_end :: db where
  "chore_end = fst (snd (chore_check ''b'' ((fst (snd (chore_check ''a'' chore_db)))\<lparr>t_daily_checks := []\<rparr>)))"

lemma chore_steps: "check_step\<^sup>*\<^sup>* (0, chore_db) (e_now chore_env, chore_end)"
proof -
  have day: "date_ok 737000" by code_simp
  have c: "check_step (t, a) (e_now chore_env, fst (snd (chore_check eid a)))" if "t \<le> e_now chore_env" for t eid a
    by (rule check_step.check [of chore_env 3 "[]" None 737000 default_rates 737000 eid "e_now chore_env" "[]" None "Some Map.empty"
          a chore_rng "fst (chore_check eid a)" _ "snd (snd (chore_check eid a))"])
      (use that day in \<open>simp_all add: chore_check_def chore_env_def midnight_def us_per_day_def\<close>)
  let ?b = "fst (snd (chore_check ''a'' chore_db))"
  have "check_step (0, chore_db) (e_now chore_env, ?b)" by (rule c) (simp add: chore_env_def us_per_day_def)
  moreover have "check_step (e_now chore_env, ?b) (e_now chore_env, ?b\<lparr>t_daily_checks := []\<rparr>)"
    by (rule check_step.other) (simp_all add: check_rows_def)
  moreover have "check_step (e_now chore_env, ?b\<lparr>t_daily_checks := []\<rparr>) (e_now chore_env, chore_end)"
    unfolding chore_end_def by (rule c) simp
  ultimately show ?thesis by (meson rtranclp.rtrancl_into_rtrancl rtranclp.rtrancl_refl)
qed

lemma chore_start: "shares_ok 0 chore_db"
  by (simp add: shares_ok_def stamped_ok_def claimed_def claim_rows_def chore_db_def empty_db_def)

theorem day_share_capped_witness:
  "check_step\<^sup>*\<^sup>* (0, chore_db) (e_now chore_env, chore_end) \<and> shares_ok 0 chore_db \<and> shares_ok (e_now chore_env) chore_end"
  using chore_steps chore_start day_share_capped [OF chore_steps chore_start] by blast

end
