(* ===== verification/SweepLaws.thy ===== *)
theory SweepLaws
  imports Sweep
begin

text \<open>
  What the sweep guarantees: the paged tick is one pass over every active daily, an evaluation settles the
  due units of a daily for good, each unit is charged at most once, and no two frozen misses fall within
  seven units of one another.
\<close>

subsection \<open>The window before a unit\<close>

lemma weeks_down_desc: "sorted_wrt (>) (weeks_down w lo n) \<and> (\<forall>x \<in> set (weeks_down w lo n). x \<le> w)"
proof (induction n arbitrary: w)
  case (Suc n)
  from Suc [of "w - 7"] show ?case by (auto simp: weeks_down.simps [of w])
qed (simp add: weeks_down.simps)

lemma scan_down_desc: "sorted_wrt (>) (scan_down rec anchor lo d n k) \<and> (\<forall>x \<in> set (scan_down rec anchor lo d n k). x \<le> d)"
proof (induction k arbitrary: d n)
  case (Suc k)
  from Suc [of "d - 1" n] Suc [of "d - 1" "n - 1"] show ?case by (auto simp: Let_def)
qed simp

lemma prior_units_desc: "sorted_wrt (>) (prior_units rec anchor u n) \<and> (\<forall>x \<in> set (prior_units rec anchor u n). x < u)"
  using weeks_down_desc [of "u - 7"] scan_down_desc [of rec anchor _ "u - 1"]
  by (fastforce simp: prior_units_def Let_def split: schedule.splits)

subsection \<open>One unit\<close>

definition daily_rules :: "db \<Rightarrow> (int \<times> bool \<times> json \<times> datetime) list" where
  "daily_rules db = map (\<lambda>d. (d_id d, d_active d, d_recurrence d, d_created_at d)) (t_dailies db)"

definition miss_keys :: "db \<Rightarrow> (int \<times> date) list" where
  "miss_keys db = map (\<lambda>m. (dm_daily m, dm_day m)) (t_daily_misses db)"

lemma get_daily_miss_keys: "get_daily_miss db did u = None \<longleftrightarrow> (did, u) \<notin> set (miss_keys db)"
  by (auto simp: get_daily_miss_def find_None_iff miss_keys_def)

lemma score_miss_frame:
  assumes "score_miss env d rates today db g = (Inr (db', oc), g')"
  shows "t_dailies db' = t_dailies db" "t_daily_misses db' = t_daily_misses db" "t_daily_checks db' = t_daily_checks db"
proof -
  have death: "resolve_death_gear u oc a h = (oc', b, h') \<Longrightarrow>
      t_dailies b = t_dailies a \<and> t_daily_misses b = t_daily_misses a \<and> t_daily_checks b = t_daily_checks a" for u oc a h oc' b h'
    by (auto simp: resolve_death_gear_def lose_random_gear_def Let_def split: if_splits prod.splits)
  have "t_dailies db' = t_dailies db \<and> t_daily_misses db' = t_daily_misses db \<and> t_daily_checks db' = t_daily_checks db"
    using assms by (auto simp: score_miss_def Let_def put_profile_def dest!: death split: option.splits prod.splits sum.splits)
  then show "t_dailies db' = t_dailies db" "t_daily_misses db' = t_daily_misses db" "t_daily_checks db' = t_daily_checks db" by simp_all
qed

lemma record_miss_frame:
  "t_daily_checks (record_miss env d u frozen h oc db) = t_daily_checks db"
  "daily_rules (record_miss env d u frozen h oc db) = daily_rules db"
  "t_daily_misses (record_miss env d u frozen h oc db) = t_daily_misses db
     @ [(claim_row d u)\<lparr>dm_frozen := frozen, dm_hp_lost := or_zero (o_hp_lost oc)\<rparr>]"
proof -
  note notify = same_game_fields [OF notify_miss_same_game]
  show "t_daily_checks (record_miss env d u frozen h oc db) = t_daily_checks db"
    by (simp add: record_miss_def Let_def notify add_event_def update_daily_def)
  show "t_daily_misses (record_miss env d u frozen h oc db) = t_daily_misses db
     @ [(claim_row d u)\<lparr>dm_frozen := frozen, dm_hp_lost := or_zero (o_hp_lost oc)\<rparr>]"
    by (simp add: record_miss_def Let_def notify add_event_def update_daily_def)
  show "daily_rules (record_miss env d u frozen h oc db) = daily_rules db"
    by (simp add: record_miss_def Let_def daily_rules_def notify add_event_def update_daily_def map_update_where)
qed

lemma unit_guard_id: "unit_guard did u rec anchor db = Inr d \<Longrightarrow> d_id d = did \<and> (did, u) \<notin> set (miss_keys db)"
  by (auto simp: unit_guard_def Let_def daily_row_def find_Some_iff get_daily_miss_keys split: if_splits option.splits)

lemma unit_guard_out: "unit_guard did u rec anchor db = Inl out \<Longrightarrow> out \<noteq> Recorded"
  by (auto simp: unit_guard_def Let_def split: if_splits option.splits)

lemma evaluate_unit_cases:
  assumes "evaluate_unit env did u rec anchor missed rates today db g = (res, db', g')"
  obtains (settled) out where "unit_guard did u rec anchor db = Inl out" "res = Inr out" "db' = db" "g' = g"
  | (failed) e where "res = Inl e" "db' = db"
  | (charged) d h where "unit_guard did u rec anchor db = Inr d" "res = Inr Recorded" "t_daily_checks db' = t_daily_checks db"
      "daily_rules db' = daily_rules db"
      "t_daily_misses db' = t_daily_misses db
        @ [(claim_row d u)\<lparr>dm_frozen := unit_frozen d u rec anchor missed db, dm_hp_lost := h\<rparr>]"
proof (cases "unit_guard did u rec anchor db")
  case (Inl out)
  show thesis by (rule settled [OF Inl]) (use assms Inl in \<open>simp_all add: evaluate_unit_def\<close>)
next
  case (Inr d)
  obtain r g1 where sm: "score_miss env d rates today db g = (r, g1)" by force
  show thesis
  proof (cases r)
    case (Inl e)
    show thesis by (rule failed [of e]) (use assms sm Inl \<open>unit_guard did u rec anchor db = Inr d\<close> in \<open>simp_all add: evaluate_unit_def\<close>)
  next
    case (Inr x)
    obtain db1 oc where x: "x = (db1, oc)" by force
    define db2 where "db2 = record_miss env d u (unit_frozen d u rec anchor missed db) (map_option hp (t_profiles db (d_user d))) oc db1"
    have e: "(if ledger_unique db2 then (Inr Recorded, db2, g1) else (Inl IntegrityError, db, g1)) = (res, db', g')"
      using assms sm Inr x \<open>unit_guard did u rec anchor db = Inr d\<close> by (simp add: evaluate_unit_def db2_def Let_def split: if_splits)
    note frame = score_miss_frame [OF sm [unfolded Inr x]]
    show thesis
    proof (cases "ledger_unique db2")
      case True
      with e have "res = Inr Recorded" "db' = db2" by simp_all
      moreover have "daily_rules db1 = daily_rules db" by (simp add: frame daily_rules_def)
      ultimately show thesis
        by (intro charged [of d "or_zero (o_hp_lost oc)"])
          (simp_all add: \<open>unit_guard did u rec anchor db = Inr d\<close> db2_def record_miss_frame frame)
    next
      case False
      with e show thesis by (intro failed [of IntegrityError]) simp_all
    qed
  qed
qed

subsection \<open>What a run leaves of the other tables\<close>

definition grown :: "db \<Rightarrow> db \<Rightarrow> daily_miss list \<Rightarrow> bool" where
  "grown db db' ms \<longleftrightarrow> t_daily_misses db' = t_daily_misses db @ ms \<and> daily_rules db' = daily_rules db
     \<and> t_daily_checks db' = t_daily_checks db"

lemma grown_refl [simp]: "grown db db []"
  by (simp add: grown_def)

lemma grown_trans: "grown a b xs \<Longrightarrow> grown b c ys \<Longrightarrow> grown a c (xs @ ys)"
  by (simp add: grown_def)

lemma evaluate_unit_grown:
  assumes "evaluate_unit env did u rec anchor missed rates today db g = (res, db', g')"
  shows "\<exists>ms. grown db db' ms \<and> (\<forall>m \<in> set ms. dm_daily m = did \<and> dm_day m = u)
    \<and> length ms = (if res = Inr Recorded then 1 else 0)"
  using assms
proof (cases rule: evaluate_unit_cases)
  case (settled out)
  then show ?thesis by (intro exI [of _ "[]"]) (auto dest: unit_guard_out)
next
  case (failed e)
  then show ?thesis by (intro exI [of _ "[]"]) auto
next
  case (charged d h)
  then show ?thesis
    by (intro exI [of _ "[_]"]) (auto simp: grown_def claim_row_def dest: unit_guard_id)
qed

text \<open>The queue, one unit at a time: what every unit keeps, the queue keeps.\<close>

lemma queue_cases:
  assumes "evaluate_queue env did rec anchor rates today (u # us) missed done_days n db g = (res, db', g')"
  obtains (passed) "u \<in> missed \<or> unit_satisfied rec u done_days anchor"
      "evaluate_queue env did rec anchor rates today us missed done_days n db g = (res, db', g')"
  | (raised) e where "evaluate_unit env did u rec anchor missed rates today db g = (Inl e, db', g')" "res = Inl e"
  | (recorded) a h where "evaluate_unit env did u rec anchor missed rates today db g = (Inr Recorded, a, h)"
      "evaluate_queue env did rec anchor rates today us (insert u missed) done_days (n + 1) a h = (res, db', g')"
  | (gone) out a where "evaluate_unit env did u rec anchor missed rates today db g = (Inr out, db', a)" "out \<noteq> Recorded"
      "\<forall>d. daily_row db' did = Some d \<longrightarrow> \<not> d_active d" "res = Inr n"
  | (rolled_back) out a h where "evaluate_unit env did u rec anchor missed rates today db g = (Inr out, a, h)" "out \<noteq> Recorded"
      "evaluate_queue env did rec anchor rates today us
         (case out of Claimed_elsewhere \<Rightarrow> insert u missed | _ \<Rightarrow> missed)
         (case out of Suppressed days \<Rightarrow> done_days \<union> days | _ \<Rightarrow> done_days) n a h = (res, db', g')"
proof (cases "u \<in> missed \<or> unit_satisfied rec u done_days anchor")
  case True
  with assms passed show thesis by simp
next
  case False
  obtain r a h where e: "evaluate_unit env did u rec anchor missed rates today db g = (r, a, h)" by (rule prod_cases3)
  show thesis
  proof (cases r)
    case (Inl x)
    with assms False e raised show thesis by simp
  next
    case (Inr out)
    show thesis
    proof (cases "out = Recorded")
      case True
      with assms False e Inr recorded show thesis by simp
    next
      case other: False
      show thesis
      proof (cases "\<exists>d. daily_row a did = Some d \<and> d_active d")
        case True
        with assms False e Inr other rolled_back [of out a h] show thesis by (cases out) auto
      next
        case stop: False
        with assms False e Inr other have "res = Inr n" "db' = a" "g' = h"
          by (cases out; auto split: option.splits if_splits)+
        with stop e Inr other gone [of out h] show thesis by auto
      qed
    qed
  qed
qed

lemma evaluate_queue_grown:
  "evaluate_queue env did rec anchor rates today us missed done_days n db g = (res, db', g') \<Longrightarrow>
     \<exists>ms. grown db db' ms \<and> (\<forall>m \<in> set ms. dm_daily m = did \<and> dm_day m \<in> set us)
       \<and> (\<forall>k. res = Inr k \<longrightarrow> k = n + int (length ms))"
proof (induction us arbitrary: missed done_days n db g)
  case Nil
  then show ?case by (intro exI [of _ "[]"]) auto
next
  case (Cons u us)
  from Cons.prems show ?case
  proof (cases rule: queue_cases)
    case passed
    from Cons.IH [OF passed(2)] show ?thesis by (auto intro: exI)
  next
    case (raised e)
    from evaluate_unit_grown [OF raised(1)] raised(2) show ?thesis by force
  next
    case (recorded a h)
    from evaluate_unit_grown [OF recorded(1)] obtain xs where xs: "grown db a xs"
      "\<forall>m \<in> set xs. dm_daily m = did \<and> dm_day m = u" "length xs = 1" by auto
    from Cons.IH [OF recorded(2)] obtain ys where ys: "grown a db' ys"
      "\<forall>m \<in> set ys. dm_daily m = did \<and> dm_day m \<in> set us" "\<forall>k. res = Inr k \<longrightarrow> k = n + 1 + int (length ys)" by auto
    from grown_trans [OF xs(1) ys(1)] xs ys show ?thesis by (intro exI [of _ "xs @ ys"]) auto
  next
    case (gone out a)
    with evaluate_unit_grown [OF gone(1)] show ?thesis by force
  next
    case (rolled_back out a h)
    with evaluate_unit_grown [OF rolled_back(1)] have "grown db a []" by auto
    moreover obtain ys where ys: "grown a db' ys" "\<forall>m \<in> set ys. dm_daily m = did \<and> dm_day m \<in> set us"
      "\<forall>k. res = Inr k \<longrightarrow> k = n + int (length ys)" using Cons.IH [OF rolled_back(3)] by blast
    ultimately have "grown db db' ys" using grown_trans [of db a "[]"] by simp
    with ys show ?thesis by (intro exI [of _ ys]) simp
  qed
qed

lemma evaluate_queue_keeps:
  assumes "evaluate_queue env did rec anchor rates today us missed done_days n db g = (res, db', g')" "P db"
    and "\<And>u missed a h r b h'. evaluate_unit env did u rec anchor missed rates today a h = (r, b, h') \<Longrightarrow> P a \<Longrightarrow> P b"
  shows "P db'"
  using assms(1,2)
proof (induction us arbitrary: missed done_days n db g)
  case (Cons u us)
  from Cons.prems(1) show ?case by (cases rule: queue_cases) (use Cons.prems(2) Cons.IH assms(3) in blast)+
qed simp

subsection \<open>Settled units\<close>

text \<open>A unit is settled for good when the checks made under the lock turn it away.\<close>

definition settled :: "db \<Rightarrow> int \<Rightarrow> recurrence \<Rightarrow> date \<Rightarrow> date \<Rightarrow> bool" where
  "settled db did rec anchor u \<longleftrightarrow> (case unit_guard did u rec anchor db of Inl out \<Rightarrow> True | Inr d \<Rightarrow> False)"

definition done_dates :: "db \<Rightarrow> int \<Rightarrow> date set" where
  "done_dates db did = set (map dc_date (filter (\<lambda>c. dc_daily c = did \<and> dc_item c = None \<and> dc_done c) (t_daily_checks db)))"

lemma completed_days_dates: "completed_days db did a b = {d \<in> done_dates db did. a \<le> d \<and> d \<le> b}"
  by (auto simp: completed_days_def done_dates_def list_daily_checks_def)

lemma satisfied_fresh:
  assumes "unit_satisfied rec u days anchor" "days \<subseteq> done_dates db did"
  shows "unit_satisfied rec u (completed_days db did (case r_schedule rec of TimesPerWeek _ \<Rightarrow> u - 6 | _ \<Rightarrow> u) u) anchor"
proof (cases "\<exists>count. r_schedule rec = TimesPerWeek count")
  case True
  then obtain count where c: "r_schedule rec = TimesPerWeek count" by blast
  have fin: "finite (done_dates db did)" by (simp add: done_dates_def)
  have "card (Set.filter (\<lambda>d. u - 6 \<le> d \<and> d \<le> u \<and> effective_anchor rec anchor \<le> d) days)
      \<le> card (Set.filter (\<lambda>d. u - 6 \<le> d \<and> d \<le> u \<and> effective_anchor rec anchor \<le> d) (completed_days db did (u - 6) u))"
    using assms(2) fin by (intro card_mono) (auto simp: completed_days_dates)
  with assms(1) c show ?thesis by (simp add: unit_satisfied_def)
next
  case False
  with assms show ?thesis by (auto simp: unit_satisfied_def completed_days_dates split: schedule.splits)
qed

lemma settled_missed: "(did, u) \<in> set (miss_keys db) \<Longrightarrow> settled db did rec anchor u"
  by (simp add: settled_def unit_guard_def get_daily_miss_keys)

lemma settled_satisfied:
  "unit_satisfied rec u days anchor \<Longrightarrow> days \<subseteq> done_dates db did \<Longrightarrow> settled db did rec anchor u"
  using satisfied_fresh [of rec u days anchor db did] by (auto simp: settled_def unit_guard_def Let_def split: option.splits)

lemma settled_gone: "\<forall>d. daily_row db did = Some d \<longrightarrow> \<not> d_active d \<Longrightarrow> settled db did rec anchor u"
  by (auto simp: settled_def unit_guard_def split: option.splits)

lemma daily_row_rules: "map_option (\<lambda>d. (d_id d, d_active d, d_recurrence d, d_created_at d)) (daily_row db i)
  = find (\<lambda>r. fst r = i) (daily_rules db)"
proof -
  have "map_option (\<lambda>d. (d_id d, d_active d, d_recurrence d, d_created_at d)) (find (\<lambda>d. d_id d = i) xs)
    = find (\<lambda>r. fst r = i) (map (\<lambda>d. (d_id d, d_active d, d_recurrence d, d_created_at d)) xs)" for xs
    by (induction xs) auto
  then show ?thesis by (simp add: daily_row_def daily_rules_def)
qed

lemma settled_grown:
  assumes g: "grown db db' ms" and s: "settled db did rec anchor u"
  shows "settled db' did rec anchor u"
proof -
  have rows: "map_option (\<lambda>d. (d_id d, d_active d, d_recurrence d, d_created_at d)) (daily_row db' did)
      = map_option (\<lambda>d. (d_id d, d_active d, d_recurrence d, d_created_at d)) (daily_row db did)"
    using g by (simp add: daily_row_rules grown_def)
  have days: "completed_days db' = completed_days db"
    using g by (simp add: grown_def completed_days_def list_daily_checks_def fun_eq_iff)
  have keys: "get_daily_miss db did u \<noteq> None \<Longrightarrow> get_daily_miss db' did u \<noteq> None"
    using g by (auto simp: get_daily_miss_keys miss_keys_def grown_def)
  from s rows keys show ?thesis
    by (cases "daily_row db did"; cases "daily_row db' did"; cases "get_daily_miss db did u = None";
      cases "get_daily_miss db' did u = None")
      (auto simp: settled_def unit_guard_def days Let_def split: option.splits if_splits)
qed

lemma evaluate_queue_settles:
  "evaluate_queue env did rec anchor rates today us missed done_days n db g = (Inr k, db', g') \<Longrightarrow>
     Pair did ` missed \<subseteq> set (miss_keys db) \<Longrightarrow> done_days \<subseteq> done_dates db did \<Longrightarrow>
     (\<forall>u \<in> set us. settled db' did rec anchor u)"
proof (induction us arbitrary: missed done_days n db g)
  case (Cons u us)
  have rest: "settled db' did rec anchor u" if run: "evaluate_queue env did rec anchor rates today us ms ds i a h = (Inr k, db', g')"
    and "settled a did rec anchor u" for ms ds i a h
    using evaluate_queue_grown [OF run] that(2) settled_grown by blast
  have unit: "settled a did rec anchor u" if "evaluate_unit env did u rec anchor missed rates today db g = (Inr out, a, h)"
    "out \<noteq> Recorded" for out a h
    using that by (cases rule: evaluate_unit_cases) (auto simp: settled_def)
  from Cons.prems(1) show ?case
  proof (cases rule: queue_cases)
    case passed
    from passed(1) Cons.prems(2,3) have "settled db did rec anchor u" by (auto intro: settled_missed settled_satisfied)
    with Cons.IH [OF passed(2) Cons.prems(2,3)] rest [OF passed(2)] show ?thesis by simp
  next
    case (recorded a h)
    from evaluate_unit_grown [OF recorded(1)] obtain m where m: "grown db a [m]" "dm_daily m = did" "dm_day m = u"
      by (auto simp: length_Suc_conv)
    then have keys: "Pair did ` insert u missed \<subseteq> set (miss_keys a)" and days: "done_days \<subseteq> done_dates a did"
      using Cons.prems(2,3) by (auto simp: grown_def miss_keys_def done_dates_def)
    from keys have "settled a did rec anchor u" by (intro settled_missed) simp
    with Cons.IH [OF recorded(2) keys days] rest [OF recorded(2)] show ?thesis by simp
  next
    case (gone out a)
    then show ?thesis by (auto intro: settled_gone)
  next
    case (rolled_back out a h)
    from rolled_back(1,2) have a: "a = db" and guard: "unit_guard did u rec anchor db = Inl out"
      by (cases rule: evaluate_unit_cases; simp)+
    have "Pair did ` (case out of Claimed_elsewhere \<Rightarrow> insert u missed | _ \<Rightarrow> missed) \<subseteq> set (miss_keys a)"
      "(case out of Suppressed days \<Rightarrow> done_days \<union> days | _ \<Rightarrow> done_days) \<subseteq> done_dates a did"
      using guard Cons.prems(2,3) a unfolding unit_guard_def
      by (auto simp: get_daily_miss_keys Let_def completed_days_dates split: if_splits option.splits unit_outcome.splits)
    from Cons.IH [OF rolled_back(3) this] rest [OF rolled_back(3)] unit [OF rolled_back(1,2)] show ?thesis by simp
  qed simp
qed simp

lemma settled_queue:
  "(\<forall>u \<in> set us. settled db did rec anchor u) \<Longrightarrow>
     evaluate_queue env did rec anchor rates today us missed done_days n db g = (Inr n, db, g)"
proof (induction us arbitrary: missed done_days)
  case (Cons u us)
  then obtain out where out: "unit_guard did u rec anchor db = Inl out" by (auto simp: settled_def split: sum.splits)
  then have "evaluate_unit env did u rec anchor missed rates today db g = (Inr out, db, g)" by (simp add: evaluate_unit_def)
  with Cons unit_guard_out [OF out] show ?case by (cases out) (auto split: option.splits)
qed simp

text \<open>C14: evaluating a daily settles it. An evaluation that returns the count of misses it recorded has
  appended exactly that many, all of them misses of due units of this daily; evaluating
  the same rule again on the tables it left, at the same instant, with whatever rates and random draws, records
  nothing and writes nothing. Retrying a tick never charges twice.\<close>

theorem evaluate_daily_settles:
  assumes run: "evaluate_daily env d rates today db g = (Inr n, db', g')"
  shows "(\<exists>ms. t_daily_misses db' = t_daily_misses db @ ms \<and> n = int (length ms) \<and> (\<forall>m \<in> set ms. dm_daily m = d_id d
      \<and> (\<exists>rec. parse_recurrence (d_recurrence d) = Some rec \<and>
           dm_day m \<in> set (due_units rec (daily_anchor d) (max (daily_anchor d) (today - LOOKBACK_DAYS)) today (e_now env)))))
    \<and> evaluate_daily env (d\<lparr>d_streak := s, d_user := u, d_title := title, d_difficulty := diff\<rparr>) rates2 today db' h = (Inr 0, db', h)"
proof (cases "parse_recurrence (d_recurrence d)")
  case None
  with run show ?thesis by (simp add: evaluate_daily_def)
next
  case (Some rec)
  define units where "units = due_units rec (daily_anchor d) (max (daily_anchor d) (today - LOOKBACK_DAYS)) today (e_now env)"
  have anchor: "daily_anchor (d\<lparr>d_streak := s, d_user := u, d_title := title, d_difficulty := diff\<rparr>) = daily_anchor d"
    by (simp add: daily_anchor_def)
  show ?thesis
  proof (cases "units = []")
    case True
    with Some run show ?thesis by (simp add: evaluate_daily_def units_def Let_def anchor)
  next
    case False
    with Some run obtain missed done_days where q:
      "evaluate_queue env (d_id d) rec (daily_anchor d) rates today units missed done_days 0 db g = (Inr n, db', g')"
      and missed: "missed = set (map dm_day (list_daily_misses db (d_id d)
        (miss_since rec (daily_anchor d) (max (daily_anchor d) (today - LOOKBACK_DAYS)) units)))"
      and days: "done_days = completed_days db (d_id d) (max (daily_anchor d) (today - LOOKBACK_DAYS)) today"
      by (simp add: evaluate_daily_def units_def Let_def)
    have "Pair (d_id d) ` missed \<subseteq> set (miss_keys db)" by (force simp: missed list_daily_misses_def miss_keys_def)
    moreover have "done_days \<subseteq> done_dates db (d_id d)" by (auto simp: days completed_days_dates)
    ultimately have "\<forall>u \<in> set units. settled db' (d_id d) rec (daily_anchor d) u" using evaluate_queue_settles [OF q] by blast
    then have again: "evaluate_queue env (d_id d) rec (daily_anchor d) rates2 today units ms ds 0 db' h = (Inr 0, db', h)" for ms ds
      by (rule settled_queue)
    from evaluate_queue_grown [OF q] Some False again show ?thesis
      by (auto simp: evaluate_daily_def units_def Let_def anchor grown_def)
  qed
qed

subsection \<open>At most one frozen miss per window\<close>

definition rule_of :: "db \<Rightarrow> int \<Rightarrow> (recurrence \<times> date) option" where
  "rule_of db did = (case daily_row db did of None \<Rightarrow> None
     | Some d \<Rightarrow> map_option (\<lambda>rec. (rec, daily_anchor d)) (parse_recurrence (d_recurrence d)))"

definition freezes_apart :: "db \<Rightarrow> bool" where
  "freezes_apart db \<longleftrightarrow> (\<forall>a \<in> set (t_daily_misses db). \<forall>b \<in> set (t_daily_misses db).
     dm_frozen a \<longrightarrow> dm_frozen b \<longrightarrow> dm_daily a = dm_daily b \<longrightarrow>
     (case rule_of db (dm_daily a) of None \<Rightarrow> True
      | Some (rec, anchor) \<Rightarrow> dm_day a \<notin> set (prior_units rec anchor (dm_day b) freeze_window)))"

definition misses_ok :: "db \<Rightarrow> bool" where
  "misses_ok db \<longleftrightarrow> distinct (miss_keys db) \<and> freezes_apart db"

lemma rule_of_rules: "daily_rules a = daily_rules b \<Longrightarrow> rule_of a = rule_of b"
proof
  fix did assume "daily_rules a = daily_rules b"
  then have "map_option (\<lambda>d. (d_id d, d_active d, d_recurrence d, d_created_at d)) (daily_row a did)
      = map_option (\<lambda>d. (d_id d, d_active d, d_recurrence d, d_created_at d)) (daily_row b did)"
    by (simp add: daily_row_rules)
  then show "rule_of a did = rule_of b did"
    by (cases "daily_row a did"; cases "daily_row b did") (auto simp: rule_of_def daily_anchor_def)
qed

lemma prior_last: "x \<in> set (prior_units rec anchor u n) \<Longrightarrow> last (prior_units rec anchor u n) \<le> x"
proof -
  have "sorted_wrt (>) xs \<Longrightarrow> x \<in> set xs \<Longrightarrow> last xs \<le> x" for xs :: "int list"
    by (induction xs) (auto dest: order.strict_implies_order)
  then show "x \<in> set (prior_units rec anchor u n) \<Longrightarrow> last (prior_units rec anchor u n) \<le> x"
    using prior_units_desc by blast
qed

text \<open>The verdict on a new miss keeps it clear of every frozen one, in both directions.\<close>

lemma frozen_clear:
  assumes fz: "unit_frozen d u rec anchor missed db" and m: "m \<in> set (t_daily_misses db)" "dm_daily m = d_id d" "dm_frozen m"
  shows "dm_day m \<notin> set (prior_units rec anchor u freeze_window) \<and> u \<notin> set (prior_units rec anchor (dm_day m) freeze_window)"
proof -
  let ?priors = "prior_units rec anchor u freeze_window"
  define since where "since = (if ?priors = [] then u else last ?priors)"
  have since: "since \<le> u" using prior_units_desc [of rec anchor u freeze_window] by (auto simp: since_def intro: order.strict_implies_order)
  show ?thesis
  proof (cases "since \<le> dm_day m")
    case True
    with m fz show ?thesis
      by (auto simp: unit_frozen_def freeze_granted_def Let_def list_daily_misses_def since_def [symmetric])
  next
    case False
    then have "dm_day m \<notin> set ?priors" using prior_last [of "dm_day m" rec anchor u freeze_window] by (auto simp: since_def split: if_splits)
    moreover have "u \<notin> set (prior_units rec anchor (dm_day m) freeze_window)"
      using prior_units_desc [of rec anchor "dm_day m" freeze_window] False since by auto
    ultimately show ?thesis by simp
  qed
qed

lemma evaluate_unit_ok:
  assumes run: "evaluate_unit env did u rec anchor missed rates today db g = (res, db', g')"
    and ok: "misses_ok db" and rule: "rule_of db did = Some (rec, anchor)"
  shows "misses_ok db' \<and> rule_of db' did = Some (rec, anchor)"
  using run
proof (cases rule: evaluate_unit_cases)
  case (charged d h)
  let ?m = "(claim_row d u)\<lparr>dm_frozen := unit_frozen d u rec anchor missed db, dm_hp_lost := h\<rparr>"
  note id = unit_guard_id [OF charged(1)]
  have rules: "rule_of db' = rule_of db" using rule_of_rules [OF charged(4)] .
  have "distinct (miss_keys db')" using ok id by (simp add: misses_ok_def miss_keys_def charged(5) claim_row_def)
  moreover have "freezes_apart db'"
    unfolding freezes_apart_def
  proof (intro ballI impI)
    fix a b
    assume ab: "a \<in> set (t_daily_misses db')" "b \<in> set (t_daily_misses db')" "dm_frozen a" "dm_frozen b" "dm_daily a = dm_daily b"
    have self: "u \<notin> set (prior_units rec anchor u freeze_window)" using prior_units_desc by blast
    from ab(1,2) consider "a \<in> set (t_daily_misses db)" "b \<in> set (t_daily_misses db)" | "a = ?m" | "b = ?m"
      by (auto simp: charged(5))
    then show "case rule_of db' (dm_daily a) of None \<Rightarrow> True
        | Some (rec, anchor) \<Rightarrow> dm_day a \<notin> set (prior_units rec anchor (dm_day b) freeze_window)"
    proof cases
      case 1
      with ok ab show ?thesis by (simp add: misses_ok_def freezes_apart_def rules)
    next
      case 2
      show ?thesis
      proof (cases "b \<in> set (t_daily_misses db)")
        case True
        with 2 ab id rule frozen_clear [of d u rec anchor missed db b] show ?thesis by (auto simp: rules claim_row_def)
      next
        case False
        with ab(2) have "b = ?m" by (simp add: charged(5))
        with 2 id rule self show ?thesis by (auto simp: rules claim_row_def)
      qed
    next
      case 3
      show ?thesis
      proof (cases "a \<in> set (t_daily_misses db)")
        case True
        with 3 ab id rule frozen_clear [of d u rec anchor missed db a] show ?thesis by (auto simp: rules claim_row_def)
      next
        case False
        with ab(1) have "a = ?m" by (simp add: charged(5))
        with 3 id rule self show ?thesis by (auto simp: rules claim_row_def)
      qed
    qed
  qed
  ultimately show ?thesis using rule by (simp add: misses_ok_def rules)
qed (use ok rule in simp_all)

lemma evaluate_daily_ok:
  assumes run: "evaluate_daily env d rates today db g = (res, db', g')" and d: "daily_row db i = Some d" and ok: "misses_ok db"
  shows "misses_ok db'"
proof (cases "parse_recurrence (d_recurrence d)")
  case None
  with run ok show ?thesis by (simp add: evaluate_daily_def)
next
  case (Some rec)
  have id: "d_id d = i" using d by (auto simp: daily_row_def find_Some_iff)
  with Some d have rule: "rule_of db (d_id d) = Some (rec, daily_anchor d)" by (simp add: rule_of_def)
  show ?thesis
  proof (cases "due_units rec (daily_anchor d) (max (daily_anchor d) (today - LOOKBACK_DAYS)) today (e_now env) = []")
    case True
    with run Some ok show ?thesis by (simp add: evaluate_daily_def Let_def)
  next
    case False
    with run Some obtain us missed done_days where
      "evaluate_queue env (d_id d) rec (daily_anchor d) rates today us missed done_days 0 db g = (res, db', g')"
      by (auto simp: evaluate_daily_def Let_def)
    then have "misses_ok db' \<and> rule_of db' (d_id d) = Some (rec, daily_anchor d)"
      by (rule evaluate_queue_keeps) (use ok rule evaluate_unit_ok in auto)
    then show ?thesis ..
  qed
qed

lemma evaluate_daily_grown:
  assumes "evaluate_daily env d rates today db g = (res, db', g')"
  shows "\<exists>ms. grown db db' ms \<and> (\<forall>k. res = Inr k \<longrightarrow> k = int (length ms))"
proof (cases "res = Inr 0 \<and> db' = db")
  case True
  then show ?thesis by (intro exI [of _ "[]"]) simp
next
  case False
  with assms obtain rec us missed done_days where
    "evaluate_queue env (d_id d) rec (daily_anchor d) rates today us missed done_days 0 db g = (res, db', g')"
    by (auto simp: evaluate_daily_def Let_def split: option.splits if_splits)
  from evaluate_queue_grown [OF this] show ?thesis by auto
qed

subsection \<open>The tick\<close>

lemma sweep_page_cons:
  assumes "sweep_page env rates today (i # ids) n db g = (n', db', g')"
  obtains (skipped) "sweep_page env rates today ids n db g = (n', db', g')"
  | (ran) d res a h where "daily_row db i = Some d" "evaluate_daily env d rates today db g = (res, a, h)"
      "sweep_page env rates today ids (case res of Inr k \<Rightarrow> n + k | _ \<Rightarrow> n) a h = (n', db', g')"
proof (cases "\<exists>d. daily_row db i = Some d \<and> d_active d")
  case True
  then obtain d where d: "daily_row db i = Some d" "d_active d" by blast
  obtain r a h where e: "evaluate_daily env d rates today db g = (r, a, h)" by (rule prod_cases3)
  from assms d e ran [OF d(1) e] show thesis by (cases r) auto
next
  case False
  with assms skipped show thesis by (auto split: option.splits)
qed

lemma sweep_page_grown:
  "sweep_page env rates today ids n db g = (n', db', g') \<Longrightarrow> misses_ok db \<Longrightarrow>
     misses_ok db' \<and> (\<exists>ms. grown db db' ms \<and> n \<le> n' \<and> n' \<le> n + int (length ms))"
proof (induction ids arbitrary: n db g)
  case Nil
  then show ?case by (auto intro: exI [of _ "[]"])
next
  case (Cons i ids)
  from Cons.prems(1) show ?case
  proof (cases rule: sweep_page_cons)
    case skipped
    with Cons show ?thesis by blast
  next
    case (ran d res a h)
    from evaluate_daily_grown [OF ran(2)] obtain xs where xs: "grown db a xs" "\<forall>k. res = Inr k \<longrightarrow> k = int (length xs)" by blast
    from Cons.IH [OF ran(3) evaluate_daily_ok [OF ran(2,1) Cons.prems(2)]] obtain ys where ys: "misses_ok db'" "grown a db' ys"
      "(case res of Inr k \<Rightarrow> n + k | _ \<Rightarrow> n) \<le> n'" "n' \<le> (case res of Inr k \<Rightarrow> n + k | _ \<Rightarrow> n) + int (length ys)" by auto
    from grown_trans [OF xs(1) ys(2)] xs(2) ys show ?thesis
      by (intro conjI exI [of _ "xs @ ys"]) (auto split: sum.splits)
  qed
qed

lemma sweep_page_append: "sweep_page env rates today (xs @ ys) n db g =
  (case sweep_page env rates today xs n db g of (n', db', g') \<Rightarrow> sweep_page env rates today ys n' db' g')"
  by (induction xs arbitrary: n db g) (auto split: option.splits prod.splits sum.splits)

lemma drop_after: "sorted_wrt (<) s \<Longrightarrow> 0 < n \<Longrightarrow> s \<noteq> [] \<Longrightarrow> filter (\<lambda>i. last (take n s) < i) s = drop n s"
  for s :: "int list"
proof -
  assume s: "sorted_wrt (<) s" and n: "0 < n" "s \<noteq> []"
  have split: "sorted_wrt (<) (take n s @ drop n s)" using s by simp
  then have "\<forall>x \<in> set (drop n s). last (take n s) < x" using n unfolding sorted_wrt_append by simp
  moreover have "x \<le> last (take n s)" if "x \<in> set (take n s)" for x
  proof -
    have "sorted_wrt (<) xs \<Longrightarrow> x \<in> set xs \<Longrightarrow> x \<le> last xs" for xs :: "int list"
      by (induction xs) (auto dest: order.strict_implies_order)
    with split that show ?thesis by (simp add: sorted_wrt_append)
  qed
  ultimately have "filter (\<lambda>i. last (take n s) < i) (take n s @ drop n s) = drop n s"
    unfolding filter_append by (force simp: filter_empty_conv filter_id_conv)
  then show ?thesis by simp
qed

lemma ids_after_keys: "daily_keys a = daily_keys b \<Longrightarrow> ids_after a k = ids_after b k"
  by (simp add: ids_after_def)

lemma ids_after_next:
  assumes dist: "distinct (map d_id (t_dailies db))" and ids: "ids = list_active_daily_ids db k SWEEP_BATCH_SIZE" "ids \<noteq> []"
  shows "sort (ids_after db k) = ids @ sort (ids_after db (last ids))"
proof -
  let ?s = "sort (ids_after db k)"
  have keys: "map fst (daily_keys db) = map d_id (t_dailies db)" by (simp add: daily_keys_def)
  have "distinct (ids_after db j)" for j
    unfolding ids_after_def using dist keys by (metis distinct_map_filter)
  then have strict: "sorted_wrt (<) ?s" by (simp add: strict_sorted_iff)
  have ne: "?s \<noteq> []" "ids = take SWEEP_BATCH_SIZE ?s" using ids by (auto simp: list_active_ids_after)
  have "last ids \<in> set (ids_after db k)" using ne ids(2) by (metis in_set_takeD last_in_set set_sort)
  then have "k < last ids" by (auto simp: ids_after_def)
  then have "ids_after db (last ids) = filter (\<lambda>i. last ids < i) (ids_after db k)"
    by (auto simp: ids_after_def filter_map comp_def case_prod_unfold intro!: arg_cong [of _ _ "map fst"] filter_cong)
  then have "sort (ids_after db (last ids)) = filter (\<lambda>i. last ids < i) ?s" by (simp add: filter_sort)
  also have "\<dots> = drop SWEEP_BATCH_SIZE ?s" using drop_after [OF strict _ ne(1), of SWEEP_BATCH_SIZE] ne(2) by (simp add: SWEEP_BATCH_SIZE_def)
  finally show ?thesis using ne(2) by simp
qed

lemma sweep_pages_page:
  "distinct (map d_id (t_dailies db)) \<Longrightarrow>
     sweep_pages env rates today k n db g = sweep_page env rates today (sort (ids_after db k)) n db g"
proof (induction env rates today k n db g rule: sweep_pages.induct)
  case (1 env rates today k n db g)
  define ids where "ids = list_active_daily_ids db k SWEEP_BATCH_SIZE"
  show ?case
  proof (cases "ids = []")
    case True
    then have "sort (ids_after db k) = []" by (auto simp: ids_def list_active_ids_after SWEEP_BATCH_SIZE_def)
    with True show ?thesis by (simp add: sweep_pages.simps [of _ _ _ k] ids_def)
  next
    case False
    obtain n' db' g' where page: "sweep_page env rates today ids n db g = (n', db', g')" by (rule prod_cases3)
    have keys: "daily_keys db' = daily_keys db" using sweep_page_keys [OF page] .
    then have "map fst (daily_keys db') = map fst (daily_keys db)" by simp
    then have dist: "distinct (map d_id (t_dailies db'))" using "1.prems" by (simp add: daily_keys_def comp_def)
    have "sweep_pages env rates today k n db g = sweep_pages env rates today (last ids) n' db' g'"
      using False page by (simp add: sweep_pages.simps [of _ _ _ k] ids_def Let_def)
    moreover have "sweep_pages env rates today (last ids) n' db' g' = sweep_page env rates today (sort (ids_after db' (last ids))) n' db' g'"
      using False page dist by (intro "1.IH" [OF ids_def]) simp_all
    ultimately show ?thesis
      using ids_after_next [OF "1.prems" ids_def False] page ids_after_keys [OF keys] by (simp add: sweep_page_append)
  qed
qed

text \<open>C32: the paged tick is one pass. However the ids are cut into pages of 200 and whatever the evaluations
  of one page write, the tick from a cursor is the walk over the active dailies past it in ascending id,
  each of them once: no daily is skipped at a page boundary and none is visited twice.\<close>

theorem sweep_one_pass:
  assumes "distinct (map d_id (t_dailies db))"
  shows "sweep_pages env rates today k n db g = sweep_page env rates today (sort (ids_after db k)) n db g
    \<and> distinct (sort (ids_after db k)) \<and> set (ids_after db k) = {d_id d |d. d \<in> set (t_dailies db) \<and> d_active d \<and> k < d_id d}"
proof -
  have "map fst (daily_keys db) = map d_id (t_dailies db)" by (simp add: daily_keys_def)
  then have "distinct (ids_after db k)" unfolding ids_after_def using assms by (metis distinct_map_filter)
  moreover have "set (ids_after db k) = {d_id d |d. d \<in> set (t_dailies db) \<and> d_active d \<and> k < d_id d}"
    by (auto simp: ids_after_def daily_keys_def) (force simp: image_iff)
  ultimately show ?thesis using sweep_pages_page [OF assms] by simp
qed

text \<open>C6: a tick over all active dailies, whatever raises on the way, only appends to the misses: every
  miss recorded before stays as it was, no daily is charged twice for the same unit, and under the stored
  rule of the daily no two frozen misses lie within seven scheduled units of each other, so a freeze is
  granted at most once per window. The count returned never exceeds the misses written.\<close>

theorem sweep_misses_sound:
  assumes "run_daily_miss_sweep env db g = Inr (n, db', g')"
    and "distinct (map d_id (t_dailies db))" and "misses_ok db"
  shows "misses_ok db' \<and> (\<exists>ms. t_daily_misses db' = t_daily_misses db @ ms \<and> 0 \<le> n \<and> n \<le> int (length ms))"
proof -
  from assms(1) obtain rates where "sweep_pages env rates (date_of (e_now env)) 0 0 db g = (n, db', g')"
    by (auto simp: run_daily_miss_sweep_def bind_r_def split: sum.splits)
  then have "sweep_page env rates (date_of (e_now env)) (sort (ids_after db 0)) 0 db g = (n, db', g')"
    by (simp add: sweep_pages_page [OF assms(2)])
  from sweep_page_grown [OF this assms(3)] show ?thesis by (auto simp: grown_def)
qed

subsection \<open>A chore left unchecked for two days\<close>

definition plants :: daily where
  "plants = \<lparr>d_id = 4, d_user = 1, d_title = ''water'', d_difficulty = ''easy'', d_recurrence = JObj [(''kind'', JStr ''daily'')],
     d_streak = 6, d_active = True, d_reminder_times = [], d_created_at = 737000 * us_per_day, d_notes = None\<rparr>"

definition plants_db :: db where
  "plants_db = empty_db\<lparr>t_dailies := [plants]\<rparr>"

definition plants_env :: env where
  "plants_env = \<lparr>e_pf = \<lparr>pow_fn = (\<lambda>_ _. Inr 1), repr_fn = (\<lambda>_. [])\<rparr>, e_now = 737002 * us_per_day + us_per_day div 2,
     e_zone = Map.empty, e_digest = id\<rparr>"

definition plants_rng :: rng where
  "plants_rng = \<lparr>rng_roll = (\<lambda>_. 1), rng_pick = (\<lambda>_. 0), rng_pos = 0\<rparr>"

definition plants_end :: "int result \<times> db \<times> rng" where
  "plants_end = evaluate_daily plants_env plants default_rates 737002 plants_db plants_rng"

lemma plants_end_ok: "fst plants_end = Inr 2 \<and> map dm_frozen (t_daily_misses (fst (snd plants_end))) = [True, False]"
  by code_simp

theorem evaluate_daily_settles_witness:
  "evaluate_daily plants_env plants default_rates 737002 (fst (snd plants_end)) plants_rng = (Inr 0, fst (snd plants_end), plants_rng)
    \<and> length (t_daily_misses (fst (snd plants_end))) = 2"
proof -
  have run: "evaluate_daily plants_env plants default_rates 737002 plants_db plants_rng = (Inr 2, fst (snd plants_end), snd (snd plants_end))"
    using plants_end_ok by (simp add: plants_end_def prod_eq_iff)
  have same: "plants\<lparr>d_streak := 6, d_user := 1, d_title := ''water'', d_difficulty := ''easy''\<rparr> = plants" by (simp add: plants_def)
  from evaluate_daily_settles [OF run, where s = 6 and u = 1 and title = "''water''" and diff = "''easy''"
      and ?rates2.0 = default_rates and h = plants_rng] show ?thesis
    by (auto simp: same plants_db_def empty_db_def)
qed

theorem sweep_one_pass_witness:
  "sweep_pages plants_env default_rates 737002 0 0 plants_db plants_rng = sweep_page plants_env default_rates 737002 [4] 0 plants_db plants_rng"
  using sweep_one_pass [of plants_db plants_env default_rates 737002 0 0 plants_rng]
  by (simp add: ids_after_def daily_keys_def plants_db_def plants_def)

lemma plants_ok: "misses_ok plants_db"
  by (simp add: misses_ok_def miss_keys_def freezes_apart_def plants_db_def empty_db_def)

lemma plants_rates: "case load_rates plants_db of Inr r \<Rightarrow> True | Inl e \<Rightarrow> False"
  by code_simp

theorem sweep_misses_sound_witness:
  "case run_daily_miss_sweep plants_env plants_db plants_rng of Inr (n, db', g') \<Rightarrow> misses_ok db' \<and> n \<le> int (length (t_daily_misses db')) | _ \<Rightarrow> False"
proof -
  obtain rates where "load_rates plants_db = Inr rates" using plants_rates by (auto split: sum.splits)
  then obtain n db' g' where run: "run_daily_miss_sweep plants_env plants_db plants_rng = Inr (n, db', g')"
    unfolding run_daily_miss_sweep_def by (metis bind_r_simps(2) prod_cases3)
  have "distinct (map d_id (t_dailies plants_db))" by (simp add: plants_db_def)
  from sweep_misses_sound [OF run this plants_ok] have "misses_ok db' \<and> n \<le> int (length (t_daily_misses db'))"
    by (auto simp: plants_db_def empty_db_def)
  with run show ?thesis by simp
qed

end
