(* ===== verification/Budget.thy ===== *)
theory Budget
  imports Prelude PyTime
begin

text \<open>
  The daily token budget of the LLM endpoints: the reservation counters of
  \<open>app/knowledge/budget.py\<close> and the way every endpoint that spends tokens opens and closes a
  reservation (\<open>app/api/routers/plan.py\<close>, \<open>breakdown.py\<close>, \<open>voice.py\<close> and the two ask endpoints of
  \<open>knowledge.py\<close>). What the provider does between the two is an argument: the tokens it reports or
  the exception it raises.
\<close>

subsection \<open>Counters\<close>

text \<open>\<open>tbl_llm_usage_reservations\<close>, keyed by user and UTC day; its check constraint keeps a counter
  from going negative.\<close>

type_synonym counters = "int \<times> date \<rightharpoonup> int"

datatype budget_error = BudgetExceeded | CheckViolation

text \<open>A keyed UPDATE: the rows it counts and the table after it.\<close>

definition update_counter ::
  "int \<times> date \<Rightarrow> (int \<Rightarrow> bool) \<Rightarrow> int \<Rightarrow> counters \<Rightarrow> budget_error + nat \<times> counters" where
  "update_counter key guard delta t = (case t key of
       None \<Rightarrow> Inr (0, t)
     | Some n \<Rightarrow> if \<not> guard n then Inr (0, t)
         else if n + delta < 0 then Inl CheckViolation
         else Inr (1, t(key \<mapsto> n + delta)))"

definition lazy_create :: "int \<times> date \<Rightarrow> counters \<Rightarrow> counters" where
  "lazy_create key t = (case t key of None \<Rightarrow> t(key \<mapsto> 0) | Some n \<Rightarrow> t)"

text \<open>The three operations; a raised error rolls the statement's transaction back.\<close>

definition reserve_llm_budget :: "int \<Rightarrow> int \<Rightarrow> date \<Rightarrow> int \<Rightarrow> counters \<Rightarrow> budget_error + counters" where
  "reserve_llm_budget cap u today estimate t =
     (if cap \<le> 0 then Inr t
      else case update_counter (u, today) (\<lambda>n. n + estimate \<le> cap) estimate (lazy_create (u, today) t) of
             Inl e \<Rightarrow> Inl e
           | Inr (rowcount, t') \<Rightarrow> if rowcount = 0 then Inl BudgetExceeded else Inr t')"

definition refund_llm_reservation :: "int \<Rightarrow> int \<Rightarrow> date \<Rightarrow> int \<Rightarrow> counters \<Rightarrow> budget_error + counters" where
  "refund_llm_reservation cap u today estimate t =
     (if cap \<le> 0 then Inr t
      else case update_counter (u, today) (\<lambda>n. True) (- estimate) t of
             Inl e \<Rightarrow> Inl e | Inr (rowcount, t') \<Rightarrow> Inr t')"

definition reconcile_llm_usage :: "int \<Rightarrow> int \<Rightarrow> date \<Rightarrow> int \<Rightarrow> int \<Rightarrow> counters \<Rightarrow> budget_error + counters" where
  "reconcile_llm_usage cap u today estimate actual t =
     (if cap \<le> 0 then Inr t
      else case update_counter (u, today) (\<lambda>n. True) (actual - estimate) t of
             Inl e \<Rightarrow> Inl e
           | Inr (rowcount, t') \<Rightarrow> if rowcount = 0 then Inl BudgetExceeded else Inr t')"

subsection \<open>The superseded gate\<close>

record usage_row =
  us_user :: int
  us_tokens :: "int option"
  us_created :: datetime

definition used_since :: "int \<Rightarrow> datetime \<Rightarrow> usage_row list \<Rightarrow> int" where
  "used_since u since rows = sum_list (List.map_filter
     (\<lambda>r. if us_user r = u \<and> since \<le> us_created r then us_tokens r else None) rows)"

definition daily_llm_tokens_used ::
  "datetime \<Rightarrow> int \<Rightarrow> usage_row list \<Rightarrow> usage_row list \<Rightarrow> usage_row list \<Rightarrow> int" where
  "daily_llm_tokens_used now u asks plans breakdowns =
     (let start_of_day = midnight (date_of now)
      in used_since u start_of_day asks + used_since u start_of_day plans + used_since u start_of_day breakdowns)"

definition check_llm_budget ::
  "int \<Rightarrow> datetime \<Rightarrow> int \<Rightarrow> usage_row list \<Rightarrow> usage_row list \<Rightarrow> usage_row list \<Rightarrow> budget_error + unit" where
  "check_llm_budget cap now u asks plans breakdowns =
     (if cap \<le> 0 then Inr ()
      else if daily_llm_tokens_used now u asks plans breakdowns \<ge> cap then Inl BudgetExceeded else Inr ())"

subsection \<open>Configuration\<close>

record llm_config =
  daily_budget :: int
  plan_reserve :: int
  breakdown_reserve :: int
  voice_reserve :: int
  ask_reserve :: int

definition default_llm_config :: llm_config where
  "default_llm_config = \<lparr>daily_budget = 200000, plan_reserve = 8000, breakdown_reserve = 4000,
     voice_reserve = 12000, ask_reserve = 6000\<rparr>"

subsection \<open>Endpoints\<close>

text \<open>The exceptions the endpoints tell apart; \<open>AssistantNotConfiguredError\<close> is a \<open>RuntimeError\<close>.\<close>

datatype failure = Not_configured | Api_error | Runtime_error | Other_error

text \<open>What the client gets: the result, an HTTP error, or the 500 of an exception nobody caught.\<close>

datatype llm_reply = Answered | Http int | Raised

definition open_reservation :: "llm_config \<Rightarrow> int \<Rightarrow> date \<Rightarrow> int \<Rightarrow> counters \<Rightarrow> llm_reply option \<times> counters" where
  "open_reservation cfg u today estimate t = (case reserve_llm_budget (daily_budget cfg) u today estimate t of
       Inr t' \<Rightarrow> (None, t')
     | Inl BudgetExceeded \<Rightarrow> (Some (Http 429), t)
     | Inl CheckViolation \<Rightarrow> (Some Raised, t))"

text \<open>Refund, then answer; when the refund itself raises, its error is what the client sees.\<close>

definition refund_then :: "llm_config \<Rightarrow> int \<Rightarrow> date \<Rightarrow> int \<Rightarrow> llm_reply \<Rightarrow> counters \<Rightarrow> llm_reply \<times> counters" where
  "refund_then cfg u today estimate answer t =
     (case refund_llm_reservation (daily_budget cfg) u today estimate t of
        Inl e \<Rightarrow> (Raised, t) | Inr t' \<Rightarrow> (answer, t'))"

text \<open>Reconcile in the transaction of the answer rows; \<open>saved\<close> tells whether what follows up to the
  commit goes through.\<close>

definition reconcile_then :: "llm_config \<Rightarrow> int \<Rightarrow> date \<Rightarrow> int \<Rightarrow> int \<Rightarrow> bool \<Rightarrow> counters \<Rightarrow> llm_reply \<times> counters" where
  "reconcile_then cfg u today estimate actual saved t =
     (case reconcile_llm_usage (daily_budget cfg) u today estimate actual t of
        Inl e \<Rightarrow> (Raised, t) | Inr t' \<Rightarrow> if saved then (Answered, t') else (Raised, t))"

definition plan_close :: "llm_config \<Rightarrow> int \<Rightarrow> date \<Rightarrow> failure + int \<Rightarrow> bool \<Rightarrow> counters \<Rightarrow> llm_reply \<times> counters" where
  "plan_close cfg u today res saved t = (case res of
       Inl Other_error \<Rightarrow> (Raised, t)
     | Inl f \<Rightarrow> refund_then cfg u today (plan_reserve cfg) (Http 503) t
     | Inr total_tokens \<Rightarrow> reconcile_then cfg u today (plan_reserve cfg) total_tokens saved t)"

definition breakdown_close :: "llm_config \<Rightarrow> int \<Rightarrow> date \<Rightarrow> failure + int \<Rightarrow> bool \<Rightarrow> counters \<Rightarrow> llm_reply \<times> counters" where
  "breakdown_close cfg u today res saved t = (case res of
       Inl f \<Rightarrow> if f = Not_configured \<or> f = Api_error
         then refund_then cfg u today (breakdown_reserve cfg) (Http 503) t else (Raised, t)
     | Inr total_tokens \<Rightarrow> reconcile_then cfg u today (breakdown_reserve cfg) total_tokens saved t)"

definition ask_close :: "llm_config \<Rightarrow> int \<Rightarrow> date \<Rightarrow> failure + int \<Rightarrow> bool \<Rightarrow> counters \<Rightarrow> llm_reply \<times> counters" where
  "ask_close cfg u today res saved t = (case res of
       Inl Other_error \<Rightarrow> (Raised, t)
     | Inl f \<Rightarrow> refund_then cfg u today (ask_reserve cfg) (Http 503) t
     | Inr total_tokens \<Rightarrow> reconcile_then cfg u today (ask_reserve cfg) total_tokens saved t)"

text \<open>How far a voice request gets: the recording is too large or cannot be read, the transcription
  fails or is blank, or the planner runs on it.\<close>

datatype voice_run = Too_large | Unreadable | Transcription_failed failure | Blank | Planned "failure + int"

text \<open>\<open>_provider_call_or_503\<close>, which knows two exceptions, and the planner's wrapper, which turns
  every \<open>RuntimeError\<close> into the first of them.\<close>

definition provider_call_or_503 :: "llm_config \<Rightarrow> int \<Rightarrow> date \<Rightarrow> failure \<Rightarrow> counters \<Rightarrow> llm_reply \<times> counters" where
  "provider_call_or_503 cfg u today f t = (if f = Not_configured \<or> f = Api_error
     then refund_then cfg u today (voice_reserve cfg) (Http 503) t else (Raised, t))"

definition plan_or_503 :: "failure \<Rightarrow> failure" where
  "plan_or_503 f = (if f = Runtime_error \<or> f = Not_configured then Not_configured else f)"

definition voice_close :: "llm_config \<Rightarrow> int \<Rightarrow> date \<Rightarrow> voice_run \<Rightarrow> bool \<Rightarrow> counters \<Rightarrow> llm_reply \<times> counters" where
  "voice_close cfg u today run saved t = (case run of
       Too_large \<Rightarrow> refund_then cfg u today (voice_reserve cfg) (Http 413) t
     | Unreadable \<Rightarrow> (Raised, t)
     | Transcription_failed f \<Rightarrow> provider_call_or_503 cfg u today f t
     | Blank \<Rightarrow> refund_then cfg u today (voice_reserve cfg) (Http 422) t
     | Planned (Inl f) \<Rightarrow> provider_call_or_503 cfg u today (plan_or_503 f) t
     | Planned (Inr total_tokens) \<Rightarrow> reconcile_then cfg u today (voice_reserve cfg) total_tokens saved t)"

subsection \<open>The streamed answer\<close>

text \<open>The events of \<open>ask_stream\<close>: a record says whether usage was reported and how many tokens, an answer
  carries the tokens of its row and whether the commit behind the final frame goes through. The stream
  runs out, raises, or is cut off by the client, and then either after \<open>ask_stream\<close> was resumed or not.\<close>

datatype ask_event = Citations | Token | Rec bool int | Verdict | Answer int bool
datatype ending = Exhausted | Api_failed | Failed | Disconnected bool

record stream =
  usage_reported :: bool
  stream_tokens :: int
  generation_started :: bool
  sm_settled :: bool
  sm_counts :: counters

definition start_stream :: "llm_config \<Rightarrow> counters \<Rightarrow> stream" where
  "start_stream cfg t = \<lparr>usage_reported = True, stream_tokens = ask_reserve cfg, generation_started = False,
     sm_settled = False, sm_counts = t\<rparr>"

text \<open>\<open>_done_frame\<close>: \<open>None\<close> is an exception, after which the transaction is rolled back.\<close>

definition done_frame :: "llm_config \<Rightarrow> int \<Rightarrow> date \<Rightarrow> int \<Rightarrow> bool \<Rightarrow> bool \<Rightarrow> counters \<Rightarrow> counters option" where
  "done_frame cfg u today tokens reported commits t =
     (case reconcile_llm_usage (daily_budget cfg) u today (ask_reserve cfg)
             (if reported then tokens else ask_reserve cfg) t of
        Inl e \<Rightarrow> None | Inr t' \<Rightarrow> if commits then Some t' else None)"

definition refund_reservation :: "llm_config \<Rightarrow> int \<Rightarrow> date \<Rightarrow> counters \<Rightarrow> bool \<times> counters" where
  "refund_reservation cfg u today t =
     (case refund_llm_reservation (daily_budget cfg) u today (ask_reserve cfg) t of
        Inl e \<Rightarrow> (False, t) | Inr t' \<Rightarrow> (True, t'))"

definition settle_reservation :: "llm_config \<Rightarrow> int \<Rightarrow> date \<Rightarrow> int \<Rightarrow> counters \<Rightarrow> counters" where
  "settle_reservation cfg u today actual t =
     (case reconcile_llm_usage (daily_budget cfg) u today (ask_reserve cfg) actual t of
        Inl e \<Rightarrow> t | Inr t' \<Rightarrow> t')"

text \<open>The loop over the events; \<open>cited\<close> says that the citations went out, so that pulling the next event
  starts the generation. It ends with the way the stream ends.\<close>

fun stream_loop :: "llm_config \<Rightarrow> int \<Rightarrow> date \<Rightarrow> bool \<Rightarrow> ask_event list \<Rightarrow> ending \<Rightarrow> stream \<Rightarrow> ending \<times> stream" where
  "stream_loop cfg u today cited [] how s =
     (how, s\<lparr>generation_started := generation_started s \<or> cited \<and> how \<noteq> Disconnected False\<rparr>)"
| "stream_loop cfg u today cited (e # es) how s =
     (let s1 = s\<lparr>generation_started := generation_started s \<or> cited\<rparr> in
      case e of
        Rec reported n \<Rightarrow>
          stream_loop cfg u today cited es how (s1\<lparr>usage_reported := reported, stream_tokens := n\<rparr>)
      | Answer tokens commits \<Rightarrow>
          (case done_frame cfg u today tokens (usage_reported s1) commits (sm_counts s1) of
             None \<Rightarrow> (Failed, s1)
           | Some t' \<Rightarrow> stream_loop cfg u today cited es how (s1\<lparr>sm_counts := t', sm_settled := True\<rparr>))
      | Citations \<Rightarrow> stream_loop cfg u today True es how s1
      | _ \<Rightarrow> stream_loop cfg u today cited es how s1)"

text \<open>The \<open>except\<close> clauses, then the \<open>finally\<close> clause.\<close>

definition stream_except :: "llm_config \<Rightarrow> int \<Rightarrow> date \<Rightarrow> ending \<Rightarrow> stream \<Rightarrow> stream" where
  "stream_except cfg u today how s = (if how = Api_failed \<or> how = Failed
     then let (ok, t') = refund_reservation cfg u today (sm_counts s) in s\<lparr>sm_settled := ok, sm_counts := t'\<rparr>
     else s)"

definition stream_finally :: "llm_config \<Rightarrow> int \<Rightarrow> date \<Rightarrow> stream \<Rightarrow> counters" where
  "stream_finally cfg u today s =
     (if sm_settled s then sm_counts s
      else if generation_started s
      then settle_reservation cfg u today (if usage_reported s then stream_tokens s else ask_reserve cfg) (sm_counts s)
      else snd (refund_reservation cfg u today (sm_counts s)))"

definition knowledge_sse_stream :: "llm_config \<Rightarrow> int \<Rightarrow> date \<Rightarrow> ask_event list \<Rightarrow> ending \<Rightarrow> counters \<Rightarrow> counters" where
  "knowledge_sse_stream cfg u today events how t =
     (let (how', s) = stream_loop cfg u today False events how (start_stream cfg t)
      in stream_finally cfg u today (stream_except cfg u today how' s))"

text \<open>The endpoint: a failed preparation is refunded whatever raised, a prepared stream runs.\<close>

definition ask_stream_close ::
  "llm_config \<Rightarrow> int \<Rightarrow> date \<Rightarrow> failure + ask_event list \<times> ending \<Rightarrow> counters \<Rightarrow> llm_reply \<times> counters" where
  "ask_stream_close cfg u today res t = (case res of
       Inl f \<Rightarrow> refund_then cfg u today (ask_reserve cfg) (if f = Other_error then Raised else Http 503) t
     | Inr (events, how) \<Rightarrow> (Answered, knowledge_sse_stream cfg u today events how t))"

end
