(* ===== verification/BudgetLaws.thy ===== *)
theory BudgetLaws
  imports Budget "HOL-Library.Multiset"
begin

text \<open>
  What the reservations guarantee: what one streamed answer is charged however it ends, the ledger kept
  by any interleaving of requests on one day, and what a reservation does that is closed after midnight.
\<close>

subsection \<open>Operations on a row that covers the estimate\<close>

lemma refund_row:
  "0 < cap \<Longrightarrow> t (u, today) = Some n \<Longrightarrow> refund_llm_reservation cap u today est t =
     (if n < est then Inl CheckViolation else Inr (t((u, today) \<mapsto> n - est)))"
  by (simp add: refund_llm_reservation_def update_counter_def)

lemma reconcile_row:
  "0 < cap \<Longrightarrow> t (u, today) = Some n \<Longrightarrow> reconcile_llm_usage cap u today est actual t =
     (if n + actual < est then Inl CheckViolation else Inr (t((u, today) \<mapsto> n + actual - est)))"
  by (simp add: reconcile_llm_usage_def update_counter_def algebra_simps)

lemma reserve_row:
  assumes "0 < cap" "0 < est"
  shows "reserve_llm_budget cap u today est t = (let n = (case t (u, today) of Some n \<Rightarrow> n | None \<Rightarrow> 0) in
    if n + est \<le> cap \<and> 0 \<le> n + est then Inr (t((u, today) \<mapsto> n + est))
    else if n + est \<le> cap then Inl CheckViolation else Inl BudgetExceeded)"
  using assms by (auto simp: reserve_llm_budget_def update_counter_def lazy_create_def split: option.splits)

subsection \<open>One streamed answer\<close>

text \<open>The events of \<open>ask_stream\<close>: the citations, the tokens, the record, the verdict and the answer row, cut
  off anywhere. After the row there is nothing left that could raise, and without it the stream does not
  run out.\<close>

definition ask_trace :: "nat \<Rightarrow> bool \<Rightarrow> int \<Rightarrow> bool \<Rightarrow> ask_event list" where
  "ask_trace k reported n commits = Citations # replicate k Token @ [Rec reported n, Verdict, Answer n commits]"

definition has_answer :: "ask_event list \<Rightarrow> bool" where
  "has_answer es \<longleftrightarrow> (\<exists>e \<in> set es. case e of Answer n c \<Rightarrow> True | _ \<Rightarrow> False)"

definition ask_run :: "ask_event list \<Rightarrow> ending \<Rightarrow> bool" where
  "ask_run es how \<longleftrightarrow> (case how of Exhausted \<Rightarrow> has_answer es | Disconnected r \<Rightarrow> True | _ \<Rightarrow> \<not> has_answer es)"

text \<open>What a run ought to cost: nothing when it fails or never starts, what the provider reports once it
  does, the whole estimate when it does not.\<close>

definition stream_charge :: "llm_config \<Rightarrow> ask_event list \<Rightarrow> ending \<Rightarrow> int" where
  "stream_charge cfg es how =
     (let used = (case List.map_filter (\<lambda>e. case e of Rec True n \<Rightarrow> Some n | _ \<Rightarrow> None) es of
                    n # _ \<Rightarrow> n | [] \<Rightarrow> ask_reserve cfg)
      in if has_answer es then (if \<exists>e \<in> set es. case e of Answer n c \<Rightarrow> c | _ \<Rightarrow> False then used else 0)
         else if how = Api_failed \<or> how = Failed then 0
         else if es = [] \<or> es = [Citations] \<and> how = Disconnected False then 0
         else used)"

lemma stream_loop_tokens:
  "stream_loop cfg u today cited (replicate k Token @ es) how s =
     stream_loop cfg u today cited es how (if k = 0 then s else s\<lparr>generation_started := generation_started s \<or> cited\<rparr>)"
  by (induction k arbitrary: s) (auto simp: Let_def)

lemmas stream_loop_all_tokens = stream_loop_tokens [of _ _ _ _ _ "[]", unfolded append_Nil2]

lemma tokens_no_record:
  "f Token = None \<Longrightarrow> List.map_filter f (replicate k Token @ es) = List.map_filter f es"
  "f Token = None \<Longrightarrow> List.map_filter f (replicate k Token) = []"
  by (induction k) (auto simp: map_filter_simps)

lemma take3_cases:
  "take i [a, b, c] = [] \<or> take i [a, b, c] = [a] \<or> take i [a, b, c] = [a, b] \<or> take i [a, b, c] = [a, b, c]"
  by (auto simp: take_Cons')

lemma ask_prefix:
  obtains (none) "take j (ask_trace k r n c) = []"
  | (tokens) m where "take j (ask_trace k r n c) = Citations # replicate m Token"
  | (recorded) "take j (ask_trace k r n c) = Citations # replicate k Token @ [Rec r n]"
  | (verdict) "take j (ask_trace k r n c) = Citations # replicate k Token @ [Rec r n, Verdict]"
  | (full) "take j (ask_trace k r n c) = Citations # replicate k Token @ [Rec r n, Verdict, Answer n c]"
proof (cases j)
  case 0
  with none show thesis by simp
next
  case (Suc i)
  then have t: "take j (ask_trace k r n c) = Citations # replicate (min i k) Token @ take (i - k) [Rec r n, Verdict, Answer n c]"
    by (simp add: ask_trace_def)
  show thesis
  proof (cases "i \<le> k")
    case True
    with t tokens show thesis by simp
  next
    case False
    then have "min i k = k" by simp
    note t = t [unfolded this]
    from take3_cases [of "i - k" "Rec r n" Verdict "Answer n c"] show thesis
    proof (elim disjE)
      assume "take (i - k) [Rec r n, Verdict, Answer n c] = []"
      with t show thesis by (intro tokens [of k]) simp
    next
      assume "take (i - k) [Rec r n, Verdict, Answer n c] = [Rec r n]"
      with t show thesis by (intro recorded) simp
    next
      assume "take (i - k) [Rec r n, Verdict, Answer n c] = [Rec r n, Verdict]"
      with t show thesis by (intro verdict) simp
    next
      assume "take (i - k) [Rec r n, Verdict, Answer n c] = [Rec r n, Verdict, Answer n c]"
      with t show thesis by (intro full) simp
    qed
  qed
qed

lemma stream_runs:
  assumes cap: "0 < daily_budget cfg" and row: "t (u, today) = Some m" "ask_reserve cfg \<le> m" and n: "0 \<le> n"
    and est: "0 < ask_reserve cfg" and run: "ask_run (take j (ask_trace k r n c)) how"
  shows "knowledge_sse_stream cfg u today (take j (ask_trace k r n c)) how t =
    t((u, today) \<mapsto> m - ask_reserve cfg + stream_charge cfg (take j (ask_trace k r n c)) how)"
proof -
  note ops = refund_row [of "daily_budget cfg" t u today m "ask_reserve cfg", OF cap row(1)]
    reconcile_row [of "daily_budget cfg" t u today m "ask_reserve cfg", OF cap row(1)]
  note defs = knowledge_sse_stream_def start_stream_def stream_loop_tokens stream_loop_all_tokens stream_except_def stream_finally_def
    done_frame_def refund_reservation_def settle_reservation_def stream_charge_def ask_run_def has_answer_def ops Let_def
    map_filter_simps tokens_no_record case_prod_unfold
  show ?thesis
  proof (cases rule: ask_prefix [of j k r n c])
    case none
    have "how \<noteq> Exhausted" using run by (auto simp: none ask_run_def has_answer_def)
    with row n est show ?thesis unfolding none
      by (cases how) (auto simp: knowledge_sse_stream_def start_stream_def stream_except_def stream_finally_def
          refund_reservation_def stream_charge_def ops Let_def map_filter_simps)
  next
    case (tokens i)
    with run row n est show ?thesis by (cases how; cases i) (auto simp: defs fun_upd_idem)
  next
    case recorded
    with run row n est show ?thesis by (cases how; cases r; cases "k = 0") (auto simp: defs fun_upd_idem)
  next
    case verdict
    with run row n est show ?thesis by (cases how; cases r; cases "k = 0") (auto simp: defs fun_upd_idem)
  next
    case full
    with run row n est show ?thesis by (cases how; cases r; cases "k = 0"; cases c) (auto simp: defs fun_upd_idem)
  qed
qed

subsection \<open>The endpoints alike\<close>

datatype endpoint = Plan | Breakdown | Voice | Ask | Ask_stream

datatype closing =
    Close_plan "failure + int" bool
  | Close_breakdown "failure + int" bool
  | Close_voice voice_run bool
  | Close_ask "failure + int" bool
  | Close_stream "failure + (nat \<times> nat \<times> bool \<times> int \<times> bool) \<times> ending"

fun endpoint_of :: "closing \<Rightarrow> endpoint" where
  "endpoint_of (Close_plan res saved) = Plan"
| "endpoint_of (Close_breakdown res saved) = Breakdown"
| "endpoint_of (Close_voice run saved) = Voice"
| "endpoint_of (Close_ask res saved) = Ask"
| "endpoint_of (Close_stream res) = Ask_stream"

fun estimate_of :: "llm_config \<Rightarrow> endpoint \<Rightarrow> int" where
  "estimate_of cfg Plan = plan_reserve cfg"
| "estimate_of cfg Breakdown = breakdown_reserve cfg"
| "estimate_of cfg Voice = voice_reserve cfg"
| "estimate_of cfg Ask = ask_reserve cfg"
| "estimate_of cfg Ask_stream = ask_reserve cfg"

text \<open>A stream is given by where its trace is cut and how it ends.\<close>

definition cut_trace :: "nat \<times> nat \<times> bool \<times> int \<times> bool \<Rightarrow> ask_event list" where
  "cut_trace = (\<lambda>(j, k, reported, n, commits). take j (ask_trace k reported n commits))"

fun close :: "llm_config \<Rightarrow> int \<Rightarrow> date \<Rightarrow> closing \<Rightarrow> counters \<Rightarrow> llm_reply \<times> counters" where
  "close cfg u today (Close_plan res saved) t = plan_close cfg u today res saved t"
| "close cfg u today (Close_breakdown res saved) t = breakdown_close cfg u today res saved t"
| "close cfg u today (Close_voice run saved) t = voice_close cfg u today run saved t"
| "close cfg u today (Close_ask res saved) t = ask_close cfg u today res saved t"
| "close cfg u today (Close_stream res) t =
     ask_stream_close cfg u today (case res of Inl f \<Rightarrow> Inl f | Inr (pos, how) \<Rightarrow> Inr (cut_trace pos, how)) t"

text \<open>What a request is meant to cost, and what its client is meant to see.\<close>

fun run_charge :: "int \<Rightarrow> failure set \<Rightarrow> failure + int \<Rightarrow> bool \<Rightarrow> int" where
  "run_charge est caught (Inl f) saved = (if f \<in> caught then 0 else est)"
| "run_charge est caught (Inr n) saved = (if saved then n else est)"

fun run_promise :: "failure set \<Rightarrow> failure + int \<Rightarrow> bool \<Rightarrow> llm_reply" where
  "run_promise caught (Inl f) saved = (if f \<in> caught then Http 503 else Raised)"
| "run_promise caught (Inr n) saved = (if saved then Answered else Raised)"

definition runtime_errors :: "failure set" where
  "runtime_errors = {Not_configured, Api_error, Runtime_error}"

fun charge :: "llm_config \<Rightarrow> closing \<Rightarrow> int" where
  "charge cfg (Close_plan res saved) = run_charge (plan_reserve cfg) runtime_errors res saved"
| "charge cfg (Close_breakdown res saved) = run_charge (breakdown_reserve cfg) {Not_configured, Api_error} res saved"
| "charge cfg (Close_voice (Planned res) saved) = run_charge (voice_reserve cfg) runtime_errors res saved"
| "charge cfg (Close_voice (Transcription_failed f) saved) = run_charge (voice_reserve cfg) {Not_configured, Api_error} (Inl f) saved"
| "charge cfg (Close_voice run saved) = (if run = Unreadable then voice_reserve cfg else 0)"
| "charge cfg (Close_ask res saved) = run_charge (ask_reserve cfg) runtime_errors res saved"
| "charge cfg (Close_stream res) = (case res of Inl f \<Rightarrow> 0 | Inr (pos, how) \<Rightarrow> stream_charge cfg (cut_trace pos) how)"

fun promised_reply :: "closing \<Rightarrow> llm_reply" where
  "promised_reply (Close_plan res saved) = run_promise runtime_errors res saved"
| "promised_reply (Close_breakdown res saved) = run_promise {Not_configured, Api_error} res saved"
| "promised_reply (Close_voice (Planned res) saved) = run_promise runtime_errors res saved"
| "promised_reply (Close_voice (Transcription_failed f) saved) = run_promise {Not_configured, Api_error} (Inl f) saved"
| "promised_reply (Close_voice run saved) = (case run of Too_large \<Rightarrow> Http 413 | Blank \<Rightarrow> Http 422 | _ \<Rightarrow> Raised)"
| "promised_reply (Close_ask res saved) = run_promise runtime_errors res saved"
| "promised_reply (Close_stream res) = (case res of Inl f \<Rightarrow> if f = Other_error then Raised else Http 503 | Inr r \<Rightarrow> Answered)"

text \<open>Tokens are not negative, and a stream is one \<open>ask_stream\<close> can produce.\<close>

fun closing_ok :: "closing \<Rightarrow> bool" where
  "closing_ok (Close_plan res saved) = (case res of Inr n \<Rightarrow> 0 \<le> n | Inl f \<Rightarrow> True)"
| "closing_ok (Close_breakdown res saved) = (case res of Inr n \<Rightarrow> 0 \<le> n | Inl f \<Rightarrow> True)"
| "closing_ok (Close_voice run saved) = (case run of Planned (Inr n) \<Rightarrow> 0 \<le> n | _ \<Rightarrow> True)"
| "closing_ok (Close_ask res saved) = (case res of Inr n \<Rightarrow> 0 \<le> n | Inl f \<Rightarrow> True)"
| "closing_ok (Close_stream res) = (case res of Inl f \<Rightarrow> True
     | Inr ((j, k, r, n, c), how) \<Rightarrow> 0 \<le> n \<and> ask_run (cut_trace (j, k, r, n, c)) how)"

definition llm_config_ok :: "llm_config \<Rightarrow> bool" where
  "llm_config_ok cfg \<longleftrightarrow> 0 < daily_budget cfg \<and> 0 < plan_reserve cfg \<and> 0 < breakdown_reserve cfg
     \<and> 0 < voice_reserve cfg \<and> 0 < ask_reserve cfg"

lemma estimate_pos: "llm_config_ok cfg \<Longrightarrow> 0 < estimate_of cfg e"
  by (cases e) (auto simp: llm_config_ok_def)

text \<open>A request closed on the day it was opened takes its estimate back and leaves its charge.\<close>

lemma refund_then_row: "0 < daily_budget cfg \<Longrightarrow> t (u, today) = Some m \<Longrightarrow> est \<le> m \<Longrightarrow>
  refund_then cfg u today est answer t = (answer, t((u, today) \<mapsto> m - est))"
  by (simp add: refund_then_def refund_row)

lemma reconcile_then_row: "0 < daily_budget cfg \<Longrightarrow> t (u, today) = Some m \<Longrightarrow> est \<le> m \<Longrightarrow> 0 \<le> n \<Longrightarrow>
  reconcile_then cfg u today est n saved t =
    (if saved then (Answered, t((u, today) \<mapsto> m - est + n)) else (Raised, t((u, today) \<mapsto> m - est + est)))"
  by (simp add: reconcile_then_def reconcile_row algebra_simps fun_upd_idem)

lemma close_row:
  assumes cfg: "llm_config_ok cfg" and c: "closing_ok c" and row: "t (u, today) = Some m" "estimate_of cfg (endpoint_of c) \<le> m"
  shows "close cfg u today c t = (promised_reply c, t((u, today) \<mapsto> m - estimate_of cfg (endpoint_of c) + charge cfg c))"
proof -
  have cap: "0 < daily_budget cfg" using cfg by (simp add: llm_config_ok_def)
  note ops = refund_then_row [where t = t, OF cap row(1)] reconcile_then_row [where t = t, OF cap row(1)]
  note idem = fun_upd_idem [of t "(u, today)" "Some m", OF row(1)]
  show ?thesis
  proof (cases c)
    case (Close_plan res saved)
    with c row show ?thesis by (cases res; cases "projl res")
      (auto simp: plan_close_def ops runtime_errors_def idem)
  next
    case (Close_breakdown res saved)
    with c row show ?thesis by (cases res) (auto simp: breakdown_close_def ops idem)
  next
    case (Close_voice run saved)
    with c row show ?thesis
      by (cases run) (auto simp: voice_close_def provider_call_or_503_def plan_or_503_def ops runtime_errors_def idem
          split: sum.splits intro: failure.exhaust)
  next
    case (Close_ask res saved)
    with c row show ?thesis by (cases res; cases "projl res")
      (auto simp: ask_close_def ops runtime_errors_def idem)
  next
    case (Close_stream res)
    have est: "0 < ask_reserve cfg" using cfg by (simp add: llm_config_ok_def)
    show ?thesis
    proof (cases res)
      case (Inl f)
      with Close_stream row show ?thesis by (simp add: ask_stream_close_def ops)
    next
      case (Inr r)
      obtain j k rep n com how where r: "r = ((j, k, rep, n, com), how)" by (metis prod.exhaust)
      with c Close_stream Inr have "0 \<le> n" "ask_run (take j (ask_trace k rep n com)) how" by (simp_all add: cut_trace_def)
      from stream_runs [where t = t, OF cap row(1) _ this(1) est this(2)] row Close_stream Inr r show ?thesis
        by (simp add: ask_stream_close_def cut_trace_def)
    qed
  qed
qed

subsection \<open>A day of requests\<close>

text \<open>The counters together with what is open and, for each user, what the closed requests cost and by how
  much they went over their estimates.\<close>

record ledger =
  lg_counts :: counters
  lg_held :: "(endpoint \<times> int) multiset"
  lg_spent :: "int \<Rightarrow> int"
  lg_over :: "int \<Rightarrow> int"

inductive budget_step :: "llm_config \<Rightarrow> date \<Rightarrow> ledger \<Rightarrow> ledger \<Rightarrow> bool" for cfg today where
  admitted: "open_reservation cfg u today (estimate_of cfg e) (lg_counts l) = (None, t) \<Longrightarrow>
     budget_step cfg today l (l\<lparr>lg_counts := t, lg_held := add_mset (e, u) (lg_held l)\<rparr>)"
| refused: "open_reservation cfg u today (estimate_of cfg e) (lg_counts l) = (Some r, t) \<Longrightarrow>
     budget_step cfg today l (l\<lparr>lg_counts := t\<rparr>)"
| closed: "(endpoint_of c, u) \<in># lg_held l \<Longrightarrow> closing_ok c \<Longrightarrow> close cfg u today c (lg_counts l) = (r, t) \<Longrightarrow>
     budget_step cfg today l (l\<lparr>lg_counts := t, lg_held := lg_held l - {#(endpoint_of c, u)#},
       lg_spent := (lg_spent l)(u := lg_spent l u + charge cfg c),
       lg_over := (lg_over l)(u := lg_over l u + max 0 (charge cfg c - estimate_of cfg (endpoint_of c)))\<rparr>)"

definition fresh_day :: "date \<Rightarrow> ledger \<Rightarrow> bool" where
  "fresh_day today l \<longleftrightarrow> (\<forall>u. lg_counts l (u, today) = None \<and> lg_spent l u = 0 \<and> lg_over l u = 0) \<and> lg_held l = {#}"

definition reserved :: "date \<Rightarrow> ledger \<Rightarrow> int \<Rightarrow> int" where
  "reserved today l u = (case lg_counts l (u, today) of Some n \<Rightarrow> n | None \<Rightarrow> 0)"

definition held_by :: "llm_config \<Rightarrow> ledger \<Rightarrow> int \<Rightarrow> int" where
  "held_by cfg l u = (\<Sum>(e, v) \<in># lg_held l. if v = u then estimate_of cfg e else 0)"

definition budget_inv :: "llm_config \<Rightarrow> date \<Rightarrow> ledger \<Rightarrow> bool" where
  "budget_inv cfg today l \<longleftrightarrow> (\<forall>u. reserved today l u = held_by cfg l u + lg_spent l u \<and> 0 \<le> lg_spent l u
     \<and> 0 \<le> lg_over l u \<and> reserved today l u \<le> daily_budget cfg + lg_over l u)"

lemma held_by_add: "held_by cfg (l\<lparr>lg_held := add_mset (e, v) (lg_held l)\<rparr>) u = held_by cfg l u + (if v = u then estimate_of cfg e else 0)"
  by (simp add: held_by_def)

lemma held_by_remove:
  assumes "(e, v) \<in># lg_held l"
  shows "held_by cfg l u = held_by cfg (l\<lparr>lg_held := lg_held l - {#(e, v)#}\<rparr>) u + (if v = u then estimate_of cfg e else 0)"
proof -
  obtain M where "lg_held l = add_mset (e, v) M" using multi_member_split [OF assms] by blast
  then show ?thesis by (simp add: held_by_def)
qed

lemma held_by_nonneg: "llm_config_ok cfg \<Longrightarrow> 0 \<le> held_by cfg l u"
proof -
  assume cfg: "llm_config_ok cfg"
  have "0 \<le> (\<Sum>(e, v) \<in># M. if v = u then estimate_of cfg e else 0)" for M
    using estimate_pos [OF cfg] by (induction M) (auto simp: order.strict_implies_order intro: add_nonneg_nonneg)
  then show ?thesis by (simp add: held_by_def)
qed

text \<open>An open request has its row, and the row covers its estimate.\<close>

lemma held_row:
  assumes cfg: "llm_config_ok cfg" and inv: "budget_inv cfg today l" and held: "(e, u) \<in># lg_held l"
  obtains m where "lg_counts l (u, today) = Some m" "estimate_of cfg e \<le> m"
proof -
  have "estimate_of cfg e \<le> held_by cfg l u"
    using held_by_remove [OF held, of cfg u] held_by_nonneg [OF cfg, of "l\<lparr>lg_held := lg_held l - {#(e, u)#}\<rparr>" u] by simp
  also have "\<dots> \<le> reserved today l u" using inv by (simp add: budget_inv_def)
  finally have "estimate_of cfg e \<le> reserved today l u" .
  with that estimate_pos [OF cfg, of e] show thesis by (auto simp: reserved_def split: option.splits)
qed

lemma stream_charge_nonneg: "0 < ask_reserve cfg \<Longrightarrow> 0 \<le> n \<Longrightarrow> 0 \<le> stream_charge cfg (take j (ask_trace k r n c)) how"
  by (rule ask_prefix [of j k r n c])
    (auto simp: stream_charge_def has_answer_def map_filter_simps tokens_no_record Let_def split: bool.splits)

lemma run_charge_nonneg: "0 < est \<Longrightarrow> (case res of Inr n \<Rightarrow> 0 \<le> n | Inl f \<Rightarrow> True) \<Longrightarrow> 0 \<le> run_charge est caught res saved"
  by (cases res) auto

lemma charge_nonneg: "llm_config_ok cfg \<Longrightarrow> closing_ok c \<Longrightarrow> 0 \<le> charge cfg c"
proof (cases c)
  case (Close_voice run saved)
  then show "llm_config_ok cfg \<Longrightarrow> closing_ok c \<Longrightarrow> ?thesis"
    by (cases run) (auto simp: llm_config_ok_def intro!: run_charge_nonneg split: sum.splits)
qed (auto simp: llm_config_ok_def cut_trace_def intro!: run_charge_nonneg stream_charge_nonneg split: sum.splits)

lemma budget_step_inv:
  assumes cfg: "llm_config_ok cfg" and "budget_step cfg today l l'" and inv: "budget_inv cfg today l"
  shows "budget_inv cfg today l'"
  using assms(2)
proof cases
  case (admitted u e t)
  have pos: "0 < daily_budget cfg" "0 < estimate_of cfg e" using cfg estimate_pos [OF cfg] by (auto simp: llm_config_ok_def)
  have t: "t = (lg_counts l)((u, today) \<mapsto> reserved today l u + estimate_of cfg e)"
    "reserved today l u + estimate_of cfg e \<le> daily_budget cfg"
    using admitted(2) pos by (auto simp: open_reservation_def reserve_row reserved_def Let_def
        split: option.splits sum.splits budget_error.splits if_splits)
  have "reserved today l' v = reserved today l v + (if v = u then estimate_of cfg e else 0)" for v
    by (simp add: admitted(1) t(1) reserved_def)
  moreover have "held_by cfg l' v = held_by cfg l v + (if v = u then estimate_of cfg e else 0)" for v
    by (simp add: admitted(1) held_by_def)
  moreover have "lg_spent l' = lg_spent l" "lg_over l' = lg_over l" by (simp_all add: admitted(1))
  ultimately show ?thesis using inv t(2) unfolding budget_inv_def by (smt (verit))
next
  case (refused u e r t)
  then have "t = lg_counts l" by (auto simp: open_reservation_def split: sum.splits budget_error.splits)
  with refused(1) have "l' = l" by simp
  with inv show ?thesis by simp
next
  case (closed c u r t)
  obtain m where m: "lg_counts l (u, today) = Some m" "estimate_of cfg (endpoint_of c) \<le> m"
    using held_row [OF cfg inv closed(2)] .
  have t: "t = (lg_counts l)((u, today) \<mapsto> m - estimate_of cfg (endpoint_of c) + charge cfg c)"
    using close_row [where t = "lg_counts l", OF cfg closed(3) m] closed(4) by simp
  have "reserved today l' v = reserved today l v + (if v = u then charge cfg c - estimate_of cfg (endpoint_of c) else 0)" for v
    using m by (simp add: closed(1) t reserved_def)
  moreover have "held_by cfg l v = held_by cfg l' v + (if u = v then estimate_of cfg (endpoint_of c) else 0)" for v
    using held_by_remove [OF closed(2), of cfg v] by (simp add: closed(1) held_by_def)
  moreover have "lg_spent l' v = lg_spent l v + (if v = u then charge cfg c else 0)"
    "lg_over l' v = lg_over l v + (if v = u then max 0 (charge cfg c - estimate_of cfg (endpoint_of c)) else 0)" for v
    by (simp_all add: closed(1))
  ultimately show ?thesis using inv charge_nonneg [OF cfg closed(3)] unfolding budget_inv_def by (smt (verit))
qed

text \<open>C4: the counters are an exact ledger. Through any interleaving, on one UTC day, of requests to the five
  endpoints by any users, each failing, answering or being cut off wherever it may, the counter of every
  user is the estimates of the requests still open plus what the closed ones cost (nothing when the
  provider failed, the reported tokens when it answered, the estimate when nobody can tell), and it
  exceeds the daily cap at most by what answers overran their estimates. And whatever is still open can
  be closed: no refund or reconciliation fails, so the client sees the reply meant for the case.\<close>

theorem budget_ledger:
  assumes "llm_config_ok cfg" and "fresh_day today l0" and "(budget_step cfg today)\<^sup>*\<^sup>* l0 l"
  shows "reserved today l u = held_by cfg l u + lg_spent l u \<and> 0 \<le> lg_spent l u
    \<and> reserved today l u \<le> daily_budget cfg + lg_over l u
    \<and> (\<forall>c. (endpoint_of c, u) \<in># lg_held l \<longrightarrow> closing_ok c \<longrightarrow> fst (close cfg u today c (lg_counts l)) = promised_reply c)"
proof -
  have "budget_inv cfg today l0" using assms(1,2)
    by (simp add: budget_inv_def fresh_day_def reserved_def held_by_def llm_config_ok_def)
  with assms(3) have inv: "budget_inv cfg today l"
    by (induction rule: rtranclp_induct) (auto intro: budget_step_inv [OF assms(1)])
  moreover have "fst (close cfg u today c (lg_counts l)) = promised_reply c"
    if "(endpoint_of c, u) \<in># lg_held l" "closing_ok c" for c
    using held_row [OF assms(1) inv that(1)] close_row [OF assms(1) that(2)] by (metis fst_conv)
  ultimately show ?thesis unfolding budget_inv_def by blast
qed

text \<open>C20: a streamed answer is settled exactly once. From the reservation to the last \<open>finally\<close>, wherever
  \<open>ask_stream\<close> is cut, whether it runs out, raises or the client hangs up, and whether or not the final
  commit goes through, the user's counter of the day ends at what it was plus what the run ought to cost;
  nothing else in the table moves.\<close>

theorem stream_settled_once:
  assumes "llm_config_ok cfg" and "open_reservation cfg u today (ask_reserve cfg) t = (None, t1)"
    and "ask_run (take j (ask_trace k r n c)) how" and "0 \<le> n" and "0 \<le> (case t (u, today) of Some m \<Rightarrow> m | None \<Rightarrow> 0)"
  shows "knowledge_sse_stream cfg u today (take j (ask_trace k r n c)) how t1 =
    t((u, today) \<mapsto> (case t (u, today) of Some m \<Rightarrow> m | None \<Rightarrow> 0) + stream_charge cfg (take j (ask_trace k r n c)) how)"
proof -
  have pos: "0 < daily_budget cfg" "0 < ask_reserve cfg" using assms(1) by (auto simp: llm_config_ok_def)
  then have t1: "t1 = t((u, today) \<mapsto> (case t (u, today) of Some m \<Rightarrow> m | None \<Rightarrow> 0) + ask_reserve cfg)"
    using assms(2) by (auto simp: open_reservation_def reserve_row Let_def split: option.splits sum.splits budget_error.splits if_splits)
  then have row: "t1 (u, today) = Some ((case t (u, today) of Some m \<Rightarrow> m | None \<Rightarrow> 0) + ask_reserve cfg)" by simp
  from stream_runs [where t = t1, OF pos(1) row _ assms(4) pos(2) assms(3)] assms(5) show ?thesis by (simp add: t1)
qed

subsection \<open>A user's afternoon\<close>

definition quiet_ledger :: ledger where
  "quiet_ledger = \<lparr>lg_counts = Map.empty, lg_held = {#}, lg_spent = (\<lambda>_. 0), lg_over = (\<lambda>_. 0)\<rparr>"

definition asked_ledger :: ledger where
  "asked_ledger = quiet_ledger\<lparr>lg_counts := [(1, 737000) \<mapsto> 6000], lg_held := {#(Ask_stream, 1)#}\<rparr>"

lemma default_config_ok: "llm_config_ok default_llm_config"
  by (simp add: llm_config_ok_def default_llm_config_def)

lemma quiet_fresh: "fresh_day 737000 quiet_ledger"
  by (simp add: fresh_day_def quiet_ledger_def)

lemma asked_step: "budget_step default_llm_config 737000 quiet_ledger asked_ledger"
proof -
  have "open_reservation default_llm_config 1 737000 (estimate_of default_llm_config Ask_stream) (lg_counts quiet_ledger)
      = (None, [(1, 737000) \<mapsto> 6000])"
    by (simp add: open_reservation_def reserve_row default_llm_config_def quiet_ledger_def)
  from budget_step.admitted [OF this] show ?thesis by (simp add: asked_ledger_def quiet_ledger_def)
qed

text \<open>The stream of the request is cut off while its tokens arrive; the estimate is charged.\<close>

theorem budget_ledger_witness:
  "reserved 737000 asked_ledger 1 = 6000 \<and> reserved 737000 asked_ledger 1 = held_by default_llm_config asked_ledger 1 + lg_spent asked_ledger 1
    \<and> fst (close default_llm_config 1 737000 (Close_stream (Inr ((2, 5, True, 900, True), Disconnected True))) (lg_counts asked_ledger)) = Answered"
proof -
  have held: "(endpoint_of (Close_stream (Inr ((2, 5, True, 900, True), Disconnected True))), 1) \<in># lg_held asked_ledger"
    by (simp add: asked_ledger_def)
  have ok: "closing_ok (Close_stream (Inr ((2, 5, True, 900, True), Disconnected True)))" by (simp add: ask_run_def)
  note ledger = budget_ledger [OF default_config_ok quiet_fresh r_into_rtranclp [of "budget_step default_llm_config 737000", OF asked_step], of 1]
  have "reserved 737000 asked_ledger 1 = 6000" by (simp add: reserved_def asked_ledger_def)
  with ledger held ok show ?thesis by (auto simp del: closing_ok.simps endpoint_of.simps close.simps)
qed

theorem stream_settled_once_witness:
  "knowledge_sse_stream default_llm_config 1 737000 (take 2 (ask_trace 5 True 900 True)) (Disconnected True) [(1, 737000) \<mapsto> 6000]
    = [(1, 737000) \<mapsto> 6000]"
proof -
  have "open_reservation default_llm_config 1 737000 (ask_reserve default_llm_config) Map.empty = (None, [(1, 737000) \<mapsto> 6000])"
    by (simp add: open_reservation_def reserve_row default_llm_config_def)
  from stream_settled_once [OF default_config_ok this, of 2 5 True 900 True "Disconnected True"] show ?thesis
    by (simp add: ask_run_def stream_charge_def ask_trace_def has_answer_def map_filter_simps default_llm_config_def)
qed

end
