(* ===== verification/Idempotency.thy ===== *)
theory Idempotency
  imports PyStr
begin

text \<open>
  Request deduplication, \<open>app/middleware/idempotency.py\<close>: which requests are guarded and under which
  cache key, the lookup, the lock, and what becomes of a response. The functions take the Redis store and
  the clock (in seconds) as arguments; whether a call to Redis raises is an argument too. Strings are the
  characters of a header or the bytes of a body. \<open>token_user\<close> stands for the token library (the user a
  valid token names), \<open>sha256\<close> for the digest.
\<close>

definition IDEMPOTENCY_TTL :: int where "IDEMPOTENCY_TTL = 3600"
definition LOCK_TTL :: int where "LOCK_TTL = 120"
definition MAX_BODY_BYTES :: nat where "MAX_BODY_BYTES = 1048576"
definition CACHE_PREFIX :: string where "CACHE_PREFIX = ''idempotency:''"

definition EXCLUDED_PATHS :: "string list" where
  "EXCLUDED_PATHS = [''/api/v1/users/token'', ''/api/v1/users/register'', ''/api/v1/users/forgot-password'',
     ''/api/v1/users/reset-password'', ''/api/v1/users/resend-confirmation'']"

subsection \<open>The key\<close>

definition hex_digit :: "char \<Rightarrow> bool" where
  "hex_digit c \<longleftrightarrow> (let n = (of_char c :: nat) in 48 \<le> n \<and> n \<le> 57 \<or> 65 \<le> n \<and> n \<le> 70 \<or> 97 \<le> n \<and> n \<le> 102)"

definition blank :: "char \<Rightarrow> bool" where
  "blank c \<longleftrightarrow> (let n = (of_char c :: nat) in 9 \<le> n \<and> n \<le> 13 \<or> 28 \<le> n \<and> n \<le> 32 \<or> n = 133 \<or> n = 160)"

text \<open>What \<open>int(s, 16)\<close> accepts: blanks around, a sign, a prefix, single underscores between digits.\<close>

fun hex_run :: "string \<Rightarrow> bool" where
  "hex_run [] = False"
| "hex_run [c] = hex_digit c"
| "hex_run (c # d # ds) = (hex_digit c \<and> (if d = CHR ''_'' then hex_run ds else hex_run (d # ds)))"

definition int_base16 :: "string \<Rightarrow> bool" where
  "int_base16 s =
     (let s1 = strip_chars blank s;
          s2 = (case s1 of c # cs \<Rightarrow> if c = CHR ''+'' \<or> c = CHR ''-'' then cs else s1 | [] \<Rightarrow> []);
          s3 = (if starts ''0x'' s2 \<or> starts ''0X'' s2
                then (case drop 2 s2 of c # cs \<Rightarrow> if c = CHR ''_'' then cs else c # cs | [] \<Rightarrow> []) else s2)
      in hex_run s3)"

text \<open>\<open>uuid.UUID(key)\<close> succeeds.\<close>

definition uuid_ok :: "string \<Rightarrow> bool" where
  "uuid_ok key =
     (let h = remove_all ''-'' (strip_chars (\<lambda>c. c = CHR ''{'' \<or> c = CHR ''}'')
                (remove_all ''uuid:'' (remove_all ''urn:'' key)))
      in length h = 32 \<and> int_base16 h)"

text \<open>\<open>re.match\<close> with \<open>$\<close>, which lets a final newline pass.\<close>

definition sha256_hex :: "string \<Rightarrow> bool" where
  "sha256_hex key \<longleftrightarrow> length (takeWhile hex_digit key) = 64 \<and> (drop 64 key = [] \<or> drop 64 key = [CHR 0x0A])"

definition key_ok :: "string \<Rightarrow> bool" where
  "key_ok key \<longleftrightarrow> 8 \<le> length key \<and> (uuid_ok key \<or> sha256_hex key)"

subsection \<open>Admission\<close>

record http_request =
  hr_method :: string
  hr_path :: string
  hr_key :: "string option"
  hr_authorization :: "string option"
  hr_cookie :: "string option"
  hr_content_length :: "int option"
  hr_body :: string

definition should_apply :: "http_request \<Rightarrow> bool" where
  "should_apply r \<longleftrightarrow> hr_method r = ''POST'' \<and> rstrip_chars (\<lambda>c. c = CHR ''/'') (hr_path r) \<notin> set EXCLUDED_PATHS"

text \<open>The second piece of \<open>split(" ")\<close>.\<close>

definition bearer_token :: "string \<Rightarrow> string" where
  "bearer_token h = takeWhile (\<lambda>c. c \<noteq> CHR '' '') (drop 7 h)"

definition request_user :: "(string \<Rightarrow> string option) \<Rightarrow> http_request \<Rightarrow> string option" where
  "request_user token_user r =
     (let token = (case hr_authorization r of
            Some h \<Rightarrow> if starts ''Bearer '' h then Some (bearer_token h) else hr_cookie r
          | None \<Rightarrow> hr_cookie r)
      in case token of None \<Rightarrow> None
         | Some t \<Rightarrow> if t = [] then None
             else (case token_user t of Some u \<Rightarrow> if u = [] then None else Some u | None \<Rightarrow> None))"

text \<open>A request passes straight to the application, is refused with a 400, or is guarded under its cache
  key and the digest of its body. \<open>hr_content_length\<close> is the header where it is an integer.\<close>

datatype admission = Pass | Malformed_key | Guarded string string

definition cache_key :: "string \<Rightarrow> string \<Rightarrow> string" where
  "cache_key u key = CACHE_PREFIX @ u @ '':'' @ key"

definition admit :: "(string \<Rightarrow> string option) \<Rightarrow> (string \<Rightarrow> string) \<Rightarrow> bool \<Rightarrow> http_request \<Rightarrow> admission" where
  "admit token_user sha256 redis r =
     (if \<not> should_apply r then Pass
      else case hr_key r of None \<Rightarrow> Pass
        | Some key \<Rightarrow>
            if key = [] then Pass
            else if \<not> key_ok key then Malformed_key
            else case request_user token_user r of None \<Rightarrow> Pass
              | Some u \<Rightarrow>
                  if \<not> redis then Pass
                  else if (case hr_content_length r of Some n \<Rightarrow> n > int MAX_BODY_BYTES | None \<Rightarrow> False) then Pass
                  else if length (hr_body r) > MAX_BODY_BYTES then Pass
                  else Guarded (cache_key u key) (sha256 (hr_body r)))"

subsection \<open>Bodies as text\<close>

text \<open>What a strict UTF-8 decoder accepts: no overlong forms, no surrogates, nothing past the last plane.\<close>

definition continuation :: "nat \<Rightarrow> bool" where
  "continuation b \<longleftrightarrow> 128 \<le> b \<and> b \<le> 191"

fun utf8_ok :: "nat list \<Rightarrow> bool" where
  "utf8_ok [] = True"
| "utf8_ok (b # bs) =
     (if b < 128 then utf8_ok bs
      else if 194 \<le> b \<and> b \<le> 223 then
        (case bs of c # cs \<Rightarrow> continuation c \<and> utf8_ok cs | _ \<Rightarrow> False)
      else if 224 \<le> b \<and> b \<le> 239 then
        (case bs of c # d # ds \<Rightarrow> continuation c \<and> (b = 224 \<longrightarrow> 160 \<le> c) \<and> (b = 237 \<longrightarrow> c \<le> 159)
             \<and> continuation d \<and> utf8_ok ds
         | _ \<Rightarrow> False)
      else if 240 \<le> b \<and> b \<le> 244 then
        (case bs of c # d # e # es \<Rightarrow> continuation c \<and> (b = 240 \<longrightarrow> 144 \<le> c) \<and> (b = 244 \<longrightarrow> c \<le> 143)
             \<and> continuation d \<and> continuation e \<and> utf8_ok es
         | _ \<Rightarrow> False)
      else False)"

definition bytes_of :: "string \<Rightarrow> nat list" where
  "bytes_of s = map (\<lambda>c. of_char c) s"

definition hex_char :: "nat \<Rightarrow> char" where
  "hex_char n = (if n < 10 then char_of (48 + n) else char_of (87 + n))"

definition hex_of :: "string \<Rightarrow> string" where
  "hex_of s = concat (map (\<lambda>c. let n = (of_char c :: nat) in [hex_char (n div 16), hex_char (n mod 16)]) s)"

text \<open>The body as cached, given by the bytes a replay sends: text as it is, anything else as its hex digits.\<close>

definition cached_body :: "string \<Rightarrow> string" where
  "cached_body body = (if utf8_ok (bytes_of body) then body else hex_of body)"

subsection \<open>Responses\<close>

record response =
  rs_status :: int
  rs_headers :: "(string \<times> string) list"
  rs_body :: string
  rs_media :: "string option"

text \<open>\<open>dict(response.headers)\<close>: every name once, with the value it has first.\<close>

definition header_dict :: "(string \<times> string) list \<Rightarrow> (string \<times> string) list" where
  "header_dict hs = map (\<lambda>k. (k, the (map_of hs k))) (remdups (map fst hs))"

definition event_stream :: "response \<Rightarrow> bool" where
  "event_stream r = (case map_of (rs_headers r) ''content-type'' of
       Some v \<Rightarrow> starts ''text/event-stream'' (to_lower v) | None \<Rightarrow> False)"

definition successful :: "response \<Rightarrow> bool" where
  "successful r \<longleftrightarrow> 200 \<le> rs_status r \<and> rs_status r < 300"

text \<open>A cache entry; entries of an older version have no digest.\<close>

datatype entry = In_progress | Cached response "string option"

definition cache_entry :: "response \<Rightarrow> string \<Rightarrow> entry" where
  "cache_entry r body_hash =
     Cached (r\<lparr>rs_headers := header_dict (rs_headers r), rs_body := cached_body (rs_body r)\<rparr>) (Some body_hash)"

text \<open>What the middleware answers: a conflict, a reused key, a replay, the application's response, or the
  exception that went through it.\<close>

datatype gate_reply = In_flight | Key_reused | Replay response | Fresh response | Failure

subsection \<open>Redis\<close>

text \<open>Values with the second they expire at.\<close>

type_synonym redis = "string \<rightharpoonup> entry \<times> int"

definition redis_get :: "int \<Rightarrow> redis \<Rightarrow> string \<Rightarrow> entry option" where
  "redis_get now db k = (case db k of Some (e, expiry) \<Rightarrow> if now < expiry then Some e else None | None \<Rightarrow> None)"

definition get_cached_response :: "int \<Rightarrow> redis \<Rightarrow> bool \<Rightarrow> string \<Rightarrow> string \<Rightarrow> gate_reply option" where
  "get_cached_response now db fault k body_hash =
     (if fault then None
      else case redis_get now db k of
             None \<Rightarrow> None
           | Some In_progress \<Rightarrow> Some In_flight
           | Some (Cached r h) \<Rightarrow>
               if (case h of Some h' \<Rightarrow> h' \<noteq> body_hash | None \<Rightarrow> False) then Some Key_reused else Some (Replay r))"

definition set_lock :: "int \<Rightarrow> redis \<Rightarrow> bool \<Rightarrow> string \<Rightarrow> bool \<times> redis" where
  "set_lock now db fault k =
     (if fault \<or> redis_get now db k \<noteq> None then (False, db) else (True, db(k \<mapsto> (In_progress, now + LOCK_TTL))))"

definition redis_delete :: "bool \<Rightarrow> string \<Rightarrow> redis \<Rightarrow> redis" where
  "redis_delete fault k db = (if fault then db else db(k := None))"

subsection \<open>After the application\<close>

text \<open>\<open>_handle_response\<close> under the \<open>try\<close> of its caller. \<open>fault\<close> says that its Redis call raises and
  \<open>fault2\<close> that the deletion in the \<open>except\<close> clause does; the result is the reply with the store, or
  \<open>None\<close> for a stream, which keeps the lock.\<close>

definition handle_response ::
  "int \<Rightarrow> redis \<Rightarrow> bool \<Rightarrow> bool \<Rightarrow> string \<Rightarrow> string \<Rightarrow> response \<Rightarrow> gate_reply option \<times> redis" where
  "handle_response now db fault fault2 k body_hash r =
     (if \<not> successful r then
        (if fault then (Some Failure, redis_delete fault2 k db) else (Some (Fresh r), redis_delete False k db))
      else if event_stream r then (None, db)
      else if fault then (Some Failure, redis_delete fault2 k db)
      else (Some (Fresh (r\<lparr>rs_headers := header_dict (rs_headers r)\<rparr>)),
            db(k \<mapsto> (cache_entry r body_hash, now + IDEMPOTENCY_TTL))))"

text \<open>The application raised.\<close>

definition handle_exception :: "bool \<Rightarrow> string \<Rightarrow> redis \<Rightarrow> gate_reply \<times> redis" where
  "handle_exception fault k db = (Failure, redis_delete fault k db)"

end
