(* ===== verification/IdempotencyLaws.thy ===== *)
theory IdempotencyLaws
  imports Idempotency
begin

text \<open>
  What deduplication guarantees when requests interleave: the requests are threads, one moves at a time,
  and between two moves the clock may advance by any amount, past the expiry of locks too. Whether the run
  of some request outlived its lock is a condition on the run, \<open>overran\<close>, not on the steps.
\<close>

subsection \<open>Interleaved requests\<close>

text \<open>Where a guarded request stands; a lock holder remembers when it took the lock.\<close>

datatype place = Looking | Locking | Rechecking | Running int | Streaming int response | Finished gate_reply

text \<open>A run of the application for a guarded request, from the lock to the reply (or the end of the stream,
  or the exception), with the response that was stored, if any.\<close>

record execution =
  ex_thread :: nat
  ex_start :: int
  ex_stop :: int
  ex_stored :: "response option"

record gate =
  gt_now :: int
  gt_store :: redis
  gt_place :: "nat \<Rightarrow> place"
  gt_log :: "execution list"

text \<open>\<open>key\<close> and \<open>digest\<close> give the cache key and the body digest of every thread. The log records every
  run that ended. A call to Redis that raises has had no effect there; a cancelled request, which no
  \<open>except\<close> clause sees, ends like one whose deletion raises: its lock is left to expire.\<close>

definition after_lookup :: "gate_reply option \<Rightarrow> place \<Rightarrow> place" where
  "after_lookup res otherwise = (case res of Some a \<Rightarrow> Finished a | None \<Rightarrow> otherwise)"

inductive gate_step :: "(nat \<Rightarrow> string) \<Rightarrow> (nat \<Rightarrow> string) \<Rightarrow> gate \<Rightarrow> gate \<Rightarrow> bool" for key digest where
  look: "gt_place s i = Looking \<Longrightarrow>
     gate_step key digest s (s\<lparr>gt_place := (gt_place s)(i :=
       after_lookup (get_cached_response (gt_now s) (gt_store s) fault (key i) (digest i)) Locking)\<rparr>)"
| lock: "gt_place s i = Locking \<Longrightarrow> set_lock (gt_now s) (gt_store s) fault (key i) = (got, db) \<Longrightarrow>
     gate_step key digest s (s\<lparr>gt_store := db,
       gt_place := (gt_place s)(i := (if got then Running (gt_now s) else Rechecking))\<rparr>)"
| recheck: "gt_place s i = Rechecking \<Longrightarrow>
     gate_step key digest s (s\<lparr>gt_place := (gt_place s)(i :=
       after_lookup (get_cached_response (gt_now s) (gt_store s) fault (key i) (digest i)) (Finished In_flight))\<rparr>)"
| respond: "gt_place s i = Running t \<Longrightarrow>
     handle_response (gt_now s) (gt_store s) fault fault2 (key i) (digest i) r = (Some a, db) \<Longrightarrow>
     gate_step key digest s (s\<lparr>gt_store := db, gt_place := (gt_place s)(i := Finished a),
       gt_log := gt_log s @ [\<lparr>ex_thread = i, ex_start = t, ex_stop = gt_now s,
         ex_stored = (if successful r \<and> \<not> fault then Some r else None)\<rparr>]\<rparr>)"
| stream: "gt_place s i = Running t \<Longrightarrow>
     handle_response (gt_now s) (gt_store s) fault fault2 (key i) (digest i) r = (None, db) \<Longrightarrow>
     gate_step key digest s (s\<lparr>gt_store := db, gt_place := (gt_place s)(i := Streaming t r)\<rparr>)"
| fail: "gt_place s i = Running t \<Longrightarrow> handle_exception fault (key i) (gt_store s) = (a, db) \<Longrightarrow>
     gate_step key digest s (s\<lparr>gt_store := db, gt_place := (gt_place s)(i := Finished a),
       gt_log := gt_log s @ [\<lparr>ex_thread = i, ex_start = t, ex_stop = gt_now s, ex_stored = None\<rparr>]\<rparr>)"
| stream_end: "gt_place s i = Streaming t r \<Longrightarrow>
     gate_step key digest s (s\<lparr>gt_store := redis_delete fault (key i) (gt_store s),
       gt_place := (gt_place s)(i := Finished (Fresh r)),
       gt_log := gt_log s @ [\<lparr>ex_thread = i, ex_start = t, ex_stop = gt_now s, ex_stored = None\<rparr>]\<rparr>)"
| tick: "gt_now s \<le> later \<Longrightarrow> gate_step key digest s (s\<lparr>gt_now := later\<rparr>)"

definition gate_start :: "gate \<Rightarrow> bool" where
  "gate_start s \<longleftrightarrow> gt_store s = Map.empty \<and> (\<forall>i. gt_place s i = Looking) \<and> gt_log s = []"

subsection \<open>Runs of a key\<close>

definition running_since :: "gate \<Rightarrow> nat \<Rightarrow> int option" where
  "running_since s i = (case gt_place s i of Running t \<Rightarrow> Some t | Streaming t r \<Rightarrow> Some t | _ \<Rightarrow> None)"

definition runs :: "(nat \<Rightarrow> string) \<Rightarrow> string \<Rightarrow> gate \<Rightarrow> execution list" where
  "runs key k s = filter (\<lambda>e. key (ex_thread e) = k) (gt_log s)"

text \<open>Some run of the key has lasted as long as its lock.\<close>

definition overran :: "(nat \<Rightarrow> string) \<Rightarrow> string \<Rightarrow> gate \<Rightarrow> bool" where
  "overran key k s \<longleftrightarrow> (\<exists>i t. key i = k \<and> running_since s i = Some t \<and> t + LOCK_TTL \<le> gt_now s)
     \<or> (\<exists>e \<in> set (runs key k s). ex_start e + LOCK_TTL \<le> ex_stop e)"

text \<open>A run that starts at \<open>t\<close> starts after \<open>e\<close> ended, and an hour after where the response of \<open>e\<close> was stored.\<close>

definition clear_of :: "execution \<Rightarrow> int \<Rightarrow> bool" where
  "clear_of e t \<longleftrightarrow> ex_stop e \<le> t \<and> (ex_stored e \<noteq> None \<longrightarrow> ex_stop e + IDEMPOTENCY_TTL \<le> t)"

definition one_at_a_time :: "(nat \<Rightarrow> string) \<Rightarrow> string \<Rightarrow> gate \<Rightarrow> bool" where
  "one_at_a_time key k s \<longleftrightarrow>
     (\<forall>i j. key i = k \<longrightarrow> key j = k \<longrightarrow> running_since s i \<noteq> None \<longrightarrow> running_since s j \<noteq> None \<longrightarrow> i = j)
   \<and> sorted_wrt (\<lambda>e f. clear_of e (ex_start f)) (runs key k s)
   \<and> (\<forall>i t. key i = k \<longrightarrow> running_since s i = Some t \<longrightarrow> (\<forall>e \<in> set (runs key k s). clear_of e t))"

definition replay_of :: "response \<Rightarrow> response" where
  "replay_of r = r\<lparr>rs_headers := header_dict (rs_headers r), rs_body := cached_body (rs_body r)\<rparr>"

subsection \<open>The invariant\<close>

text \<open>While no run of the key overran, its lock is where the lock holder put it, and a response stored less
  than an hour ago is in the cache.\<close>

definition key_inv :: "(nat \<Rightarrow> string) \<Rightarrow> string \<Rightarrow> gate \<Rightarrow> bool" where
  "key_inv key k s \<longleftrightarrow> one_at_a_time key k s
   \<and> (\<forall>i t. key i = k \<longrightarrow> running_since s i = Some t \<longrightarrow> gt_store s k = Some (In_progress, t + LOCK_TTL))
   \<and> (\<forall>e \<in> set (runs key k s). ex_stored e \<noteq> None \<longrightarrow> gt_now s < ex_stop e + IDEMPOTENCY_TTL \<longrightarrow>
        (\<exists>r h. gt_store s k = Some (Cached r h, ex_stop e + IDEMPOTENCY_TTL)))"

text \<open>Overrun or not: the clock, the origin of cached responses and of replays, and what a client with a
  success knows.\<close>

definition clock_inv :: "gate \<Rightarrow> bool" where
  "clock_inv s \<longleftrightarrow> (\<forall>i t. running_since s i = Some t \<longrightarrow> t \<le> gt_now s) \<and> (\<forall>e \<in> set (gt_log s). ex_stop e \<le> gt_now s)"

definition stored_by :: "(nat \<Rightarrow> string) \<Rightarrow> (nat \<Rightarrow> string) \<Rightarrow> execution list \<Rightarrow> string \<Rightarrow> string \<Rightarrow> response \<Rightarrow> bool" where
  "stored_by key digest log k h r \<longleftrightarrow> (\<exists>e \<in> set log. \<exists>r0. key (ex_thread e) = k \<and> digest (ex_thread e) = h
     \<and> ex_stored e = Some r0 \<and> r = replay_of r0)"

definition origin_inv :: "(nat \<Rightarrow> string) \<Rightarrow> (nat \<Rightarrow> string) \<Rightarrow> gate \<Rightarrow> bool" where
  "origin_inv key digest s \<longleftrightarrow>
     (\<forall>k r h x. gt_store s k = Some (Cached r h, x) \<longrightarrow> (\<exists>d. h = Some d \<and> stored_by key digest (gt_log s) k d r))
   \<and> (\<forall>i t r. gt_place s i = Streaming t r \<longrightarrow> event_stream r)
   \<and> (\<forall>i r. gt_place s i = Finished (Replay r) \<longrightarrow> stored_by key digest (gt_log s) (key i) (digest i) r)
   \<and> (\<forall>i r. gt_place s i = Finished (Fresh r) \<longrightarrow> successful r \<longrightarrow> \<not> event_stream r \<longrightarrow>
        (\<exists>e \<in> set (gt_log s). \<exists>r0. ex_thread e = i \<and> ex_stored e = Some r0 \<and> r = r0\<lparr>rs_headers := header_dict (rs_headers r0)\<rparr>))"

definition gate_inv :: "(nat \<Rightarrow> string) \<Rightarrow> (nat \<Rightarrow> string) \<Rightarrow> gate \<Rightarrow> bool" where
  "gate_inv key digest s \<longleftrightarrow> clock_inv s \<and> origin_inv key digest s \<and> (\<forall>k. overran key k s \<or> key_inv key k s)"

lemma running_simps [simp]:
  "gt_place s i = Looking \<Longrightarrow> running_since s i = None" "gt_place s i = Locking \<Longrightarrow> running_since s i = None"
  "gt_place s i = Rechecking \<Longrightarrow> running_since s i = None" "gt_place s i = Finished a \<Longrightarrow> running_since s i = None"
  "gt_place s i = Running t \<Longrightarrow> running_since s i = Some t" "gt_place s i = Streaming t r \<Longrightarrow> running_since s i = Some t"
  by (simp_all add: running_since_def)

text \<open>Only what concerns a key matters to it.\<close>

lemma key_frame:
  assumes "gt_store s' k = gt_store s k" "runs key k s' = runs key k s" "gt_now s' = gt_now s"
    and "\<And>i. key i = k \<Longrightarrow> running_since s' i = running_since s i"
  shows "overran key k s' = overran key k s" "key_inv key k s' = key_inv key k s"
  using assms by (simp_all add: overran_def key_inv_def one_at_a_time_def cong: conj_cong)

lemma stored_by_more: "stored_by key digest log k h r \<Longrightarrow> set log \<subseteq> set log' \<Longrightarrow> stored_by key digest log' k h r"
  by (auto simp: stored_by_def)

subsection \<open>Steps\<close>

text \<open>A thread that takes no lock and ends no run.\<close>

lemma inv_idle:
  assumes inv: "gate_inv key digest s" and p: "running_since (s\<lparr>gt_place := (gt_place s)(i := p)\<rparr>) i = running_since s i"
    and r: "\<And>r. p = Finished (Replay r) \<Longrightarrow> stored_by key digest (gt_log s) (key i) (digest i) r"
    and f: "\<And>r. p \<noteq> Finished (Fresh r)" "\<And>t r. p = Streaming t r \<Longrightarrow> event_stream r"
  shows "gate_inv key digest (s\<lparr>gt_place := (gt_place s)(i := p)\<rparr>)"
proof -
  let ?s = "s\<lparr>gt_place := (gt_place s)(i := p)\<rparr>"
  have same: "running_since ?s j = running_since s j" for j using p by (cases "j = i") (simp_all add: running_since_def)
  have "overran key k ?s \<or> key_inv key k ?s" for k
    using inv key_frame [of ?s k s key] by (simp add: same gate_inv_def runs_def)
  moreover have "clock_inv ?s" using inv by (simp add: gate_inv_def clock_inv_def same)
  moreover have "origin_inv key digest ?s" using inv r f by (auto simp: gate_inv_def origin_inv_def)
  ultimately show ?thesis by (simp add: gate_inv_def)
qed

text \<open>What a lookup finds was stored by a run with the same key and body.\<close>

lemma lookup_replay:
  assumes "gate_inv key digest s" "get_cached_response (gt_now s) (gt_store s) fault (key i) (digest i) = Some (Replay r)"
  shows "stored_by key digest (gt_log s) (key i) (digest i) r"
proof -
  obtain h x where "gt_store s (key i) = Some (Cached r h, x)" "h = None \<or> h = Some (digest i)"
    using assms(2) by (auto simp: get_cached_response_def redis_get_def split: if_splits option.splits entry.splits)
  with assms(1) show ?thesis unfolding gate_inv_def origin_inv_def by fastforce
qed

lemma inv_lookup:
  assumes inv: "gate_inv key digest s" and i: "running_since s i = None"
    and p: "p = after_lookup (get_cached_response (gt_now s) (gt_store s) fault (key i) (digest i)) q"
    and q: "q = Locking \<or> q = Finished In_flight"
  shows "gate_inv key digest (s\<lparr>gt_place := (gt_place s)(i := p)\<rparr>)"
proof (rule inv_idle [OF inv])
  note got = get_cached_response_def redis_get_def after_lookup_def
  show "running_since (s\<lparr>gt_place := (gt_place s)(i := p)\<rparr>) i = running_since s i"
    unfolding i using q by (auto simp: p running_since_def after_lookup_def split: option.splits)
  show "stored_by key digest (gt_log s) (key i) (digest i) r" if "p = Finished (Replay r)" for r
    using that q lookup_replay [OF inv, of fault i r] by (auto simp: p after_lookup_def split: option.splits)
  show "p \<noteq> Finished (Fresh r)" for r using q by (auto simp: p got split: option.splits entry.splits)
  show "event_stream r" if "p = Streaming t r" for t r using that q by (auto simp: p after_lookup_def split: option.splits)
qed

text \<open>While the key did not overrun, a lock or an unlocked cache says that no stored response is recent.\<close>

lemma held_old:
  assumes "key_inv key k s" "key i = k" "running_since s i = Some t" "e \<in> set (runs key k s)" "ex_stored e \<noteq> None"
  shows "ex_stop e + IDEMPOTENCY_TTL \<le> gt_now s"
  using assms unfolding key_inv_def by force

lemma free_old:
  assumes "key_inv key k s" "redis_get (gt_now s) (gt_store s) k = None" "e \<in> set (runs key k s)" "ex_stored e \<noteq> None"
  shows "ex_stop e + IDEMPOTENCY_TTL \<le> gt_now s"
  using assms unfolding key_inv_def redis_get_def by (force split: if_splits)

lemma free_idle:
  assumes "key_inv key k s" "\<not> overran key k s" "redis_get (gt_now s) (gt_store s) k = None" "key j = k"
  shows "running_since s j = None"
  using assms unfolding key_inv_def redis_get_def overran_def by (force split: if_splits)

lemma inv_lock:
  assumes inv: "gate_inv key digest s" and i: "gt_place s i = Locking" and free: "redis_get (gt_now s) (gt_store s) (key i) = None"
  shows "gate_inv key digest (s\<lparr>gt_store := (gt_store s)(key i \<mapsto> (In_progress, gt_now s + LOCK_TTL)),
    gt_place := (gt_place s)(i := Running (gt_now s))\<rparr>)"
proof -
  let ?s = "s\<lparr>gt_store := (gt_store s)(key i \<mapsto> (In_progress, gt_now s + LOCK_TTL)), gt_place := (gt_place s)(i := Running (gt_now s))\<rparr>"
  have live: "running_since ?s j = (if j = i then Some (gt_now s) else running_since s j)" for j by (simp add: running_since_def)
  have r: "runs key k ?s = runs key k s" for k by (simp add: runs_def)
  have "overran key k ?s \<or> key_inv key k ?s" for k
  proof (cases "k = key i")
    case False
    then have same: "running_since ?s j = running_since s j" if "key j = k" for j using that by (auto simp: live)
    have "gt_store ?s k = gt_store s k" "runs key k ?s = runs key k s" "gt_now ?s = gt_now s" using False by (simp_all add: r)
    from key_frame [OF this same] inv show ?thesis by (simp add: gate_inv_def)
  next
    case k: True
    show ?thesis
    proof (cases "overran key k s")
      case True
      then have "overran key k ?s" using i unfolding overran_def by (auto simp: live r)
      then show ?thesis ..
    next
      case False
      then have ok: "key_inv key k s" using inv by (auto simp: gate_inv_def)
      have "running_since s j = None" if "key j = k" for j using free_idle [OF ok False _ that] free k by simp
      moreover have "clear_of e (gt_now s)" if "e \<in> set (runs key k s)" for e
        using free_old [OF ok _ that] free k inv that by (auto simp: clear_of_def gate_inv_def clock_inv_def runs_def)
      moreover have "sorted_wrt (\<lambda>e f. clear_of e (ex_start f)) (runs key k s)" using ok by (simp add: key_inv_def one_at_a_time_def)
      moreover have "\<not> gt_now s < ex_stop e + IDEMPOTENCY_TTL" if "e \<in> set (runs key k s)" "ex_stored e \<noteq> None" for e
        using free_old [OF ok _ that] free k by simp
      ultimately have "key_inv key k ?s" using k by (auto simp: key_inv_def one_at_a_time_def live r)
      then show ?thesis ..
    qed
  qed
  moreover have "clock_inv ?s" using inv by (auto simp: gate_inv_def clock_inv_def live)
  moreover have "origin_inv key digest ?s" using inv by (auto simp: gate_inv_def origin_inv_def)
  ultimately show ?thesis by (simp add: gate_inv_def)
qed

text \<open>A run ends: its lock is deleted, left, or replaced by the response it leaves.\<close>

lemma inv_end:
  assumes inv: "gate_inv key digest s" and i: "running_since s i = Some t"
    and db: "stored = None \<and> (db = gt_store s \<or> db = (gt_store s)(key i := None))
      \<or> (\<exists>r. stored = Some r \<and> db = (gt_store s)(key i \<mapsto> (cache_entry r (digest i), gt_now s + IDEMPOTENCY_TTL)))"
    and a: "\<And>r. a \<noteq> Replay r"
    and fresh: "\<And>r. a = Fresh r \<Longrightarrow> successful r \<Longrightarrow> \<not> event_stream r \<Longrightarrow> \<exists>r0. stored = Some r0 \<and> r = r0\<lparr>rs_headers := header_dict (rs_headers r0)\<rparr>"
  shows "gate_inv key digest (s\<lparr>gt_store := db, gt_place := (gt_place s)(i := Finished a),
    gt_log := gt_log s @ [\<lparr>ex_thread = i, ex_start = t, ex_stop = gt_now s, ex_stored = stored\<rparr>]\<rparr>)"
proof -
  let ?e = "\<lparr>ex_thread = i, ex_start = t, ex_stop = gt_now s, ex_stored = stored\<rparr>"
  let ?s = "s\<lparr>gt_store := db, gt_place := (gt_place s)(i := Finished a), gt_log := gt_log s @ [?e]\<rparr>"
  have live: "running_since ?s j = (if j = i then None else running_since s j)" for j by (simp add: running_since_def)
  have r: "runs key k ?s = runs key k s @ (if key i = k then [?e] else [])" for k by (simp add: runs_def)
  have else_same: "db k = gt_store s k" if "k \<noteq> key i" for k using db that by auto
  have "overran key k ?s \<or> key_inv key k ?s" for k
  proof (cases "k = key i")
    case False
    then have same: "running_since ?s j = running_since s j" if "key j = k" for j using that by (auto simp: live)
    have "gt_store ?s k = gt_store s k" "runs key k ?s = runs key k s" "gt_now ?s = gt_now s"
      using False else_same by (simp_all add: r)
    from key_frame [OF this same] inv show ?thesis by (simp add: gate_inv_def)
  next
    case k: True
    show ?thesis
    proof (cases "overran key k s")
      case True
      then consider (self) "t + LOCK_TTL \<le> gt_now s"
        | (other) j u where "key j = k" "j \<noteq> i" "running_since s j = Some u" "u + LOCK_TTL \<le> gt_now s"
        | (past) e where "e \<in> set (runs key k s)" "ex_start e + LOCK_TTL \<le> ex_stop e"
        using i unfolding overran_def by (metis option.inject)
      then have "overran key k ?s"
      proof cases
        case self
        then show ?thesis using k by (simp add: overran_def r)
      next
        case other
        then show ?thesis unfolding overran_def using live [of j] by auto
      next
        case past
        then show ?thesis unfolding overran_def r by auto
      qed
      then show ?thesis ..
    next
      case False
      then have ok: "key_inv key k s" using inv by (auto simp: gate_inv_def)
      have only: "running_since s j = None" if "key j = k" "j \<noteq> i" for j
        using ok that i k unfolding key_inv_def one_at_a_time_def by (metis option.distinct(1))
      have "clear_of e t" if "e \<in> set (runs key k s)" for e using ok that i k by (simp add: key_inv_def one_at_a_time_def)
      then have "sorted_wrt (\<lambda>e f. clear_of e (ex_start f)) (runs key k s @ [?e])"
        using ok by (simp add: key_inv_def one_at_a_time_def sorted_wrt_append)
      moreover have "\<exists>r h. db k = Some (Cached r h, gt_now s + IDEMPOTENCY_TTL)" if "stored \<noteq> None"
        using db that k by (auto simp: cache_entry_def)
      moreover have "\<not> gt_now s < ex_stop e + IDEMPOTENCY_TTL" if "e \<in> set (runs key k s)" "ex_stored e \<noteq> None" for e
        using held_old [OF ok _ i that] k by simp
      ultimately have "key_inv key k ?s" using only k by (auto simp: key_inv_def one_at_a_time_def live r)
      then show ?thesis ..
    qed
  qed
  moreover have "clock_inv ?s" using inv by (auto simp: gate_inv_def clock_inv_def live)
  moreover have "origin_inv key digest ?s"
  proof -
    have o: "origin_inv key digest s" using inv by (simp add: gate_inv_def)
    have more: "stored_by key digest (gt_log ?s) k h r" if "stored_by key digest (gt_log s) k h r" for k h r
      using that by (rule stored_by_more) auto
    have "\<exists>d. h = Some d \<and> stored_by key digest (gt_log ?s) k d r" if c: "db k = Some (Cached r h, x)" for k r h x
    proof (cases "gt_store s k = Some (Cached r h, x)")
      case True
      with o more show ?thesis unfolding origin_inv_def by blast
    next
      case False
      with db c have "k = key i" "\<exists>r0. stored = Some r0 \<and> r = replay_of r0 \<and> h = Some (digest i)"
        by (auto simp: cache_entry_def replay_of_def split: if_splits)
      then show ?thesis by (auto simp: stored_by_def)
    qed
    with o a fresh more show ?thesis unfolding origin_inv_def by (auto split: if_splits)
  qed
  ultimately show ?thesis by (simp add: gate_inv_def)
qed

lemma overran_later: "overran key k s \<Longrightarrow> gt_now s \<le> later \<Longrightarrow> overran key k (s\<lparr>gt_now := later\<rparr>)"
  unfolding overran_def by (auto simp: runs_def running_since_def intro: order_trans)

lemma inv_tick:
  assumes inv: "gate_inv key digest s" and "gt_now s \<le> later"
  shows "gate_inv key digest (s\<lparr>gt_now := later\<rparr>)"
proof -
  let ?s = "s\<lparr>gt_now := later\<rparr>"
  have same: "running_since ?s = running_since s" "runs key k ?s = runs key k s" for k by (auto simp: running_since_def runs_def)
  have "overran key k ?s \<or> key_inv key k ?s" for k
    using inv overran_later [OF _ assms(2), of key k] assms(2) by (fastforce simp: gate_inv_def key_inv_def one_at_a_time_def same)
  moreover have "clock_inv ?s" using inv assms(2) by (auto simp: gate_inv_def clock_inv_def same intro: order_trans)
  moreover have "origin_inv key digest ?s" using inv by (simp add: gate_inv_def origin_inv_def)
  ultimately show ?thesis by (simp add: gate_inv_def)
qed

lemma gate_step_inv:
  assumes "gate_step key digest s s'" and inv: "gate_inv key digest s"
  shows "gate_inv key digest s'"
  using assms(1)
proof cases
  case (look i fault)
  then show ?thesis using inv_lookup [OF inv _ refl, of i Locking fault] by simp
next
  case (recheck i fault)
  then show ?thesis using inv_lookup [OF inv _ refl, of i "Finished In_flight" fault] by simp
next
  case (lock i fault got db)
  show ?thesis
  proof (cases got)
    case True
    with lock have "redis_get (gt_now s) (gt_store s) (key i) = None" "db = (gt_store s)(key i \<mapsto> (In_progress, gt_now s + LOCK_TTL))"
      by (auto simp: set_lock_def split: if_splits)
    with inv_lock [OF inv lock(2)] True lock(1) show ?thesis by simp
  next
    case False
    with lock have db: "db = gt_store s" by (auto simp: set_lock_def split: if_splits)
    have "gate_inv key digest (s\<lparr>gt_place := (gt_place s)(i := Rechecking)\<rparr>)"
      by (rule inv_idle [OF inv]) (use lock in \<open>simp_all add: running_since_def\<close>)
    with False lock(1) db show ?thesis by simp
  qed
next
  case (respond i t fault fault2 r a db)
  have "gate_inv key digest (s\<lparr>gt_store := db, gt_place := (gt_place s)(i := Finished a),
    gt_log := gt_log s @ [\<lparr>ex_thread = i, ex_start = t, ex_stop = gt_now s, ex_stored = (if successful r \<and> \<not> fault then Some r else None)\<rparr>]\<rparr>)"
    by (rule inv_end [OF inv]) (use respond in \<open>auto simp: handle_response_def redis_delete_def split: if_splits\<close>)
  with respond show ?thesis by simp
next
  case (stream i t fault fault2 r db)
  then have db: "db = gt_store s" "event_stream r" by (auto simp: handle_response_def split: if_splits)
  have "gate_inv key digest (s\<lparr>gt_place := (gt_place s)(i := Streaming t r)\<rparr>)"
    by (rule inv_idle [OF inv]) (use stream db in \<open>simp_all add: running_since_def\<close>)
  with stream db show ?thesis by simp
next
  case (fail i t fault a db)
  have "gate_inv key digest (s\<lparr>gt_store := db, gt_place := (gt_place s)(i := Finished a),
    gt_log := gt_log s @ [\<lparr>ex_thread = i, ex_start = t, ex_stop = gt_now s, ex_stored = None\<rparr>]\<rparr>)"
    by (rule inv_end [OF inv]) (use fail in \<open>auto simp: handle_exception_def redis_delete_def\<close>)
  with fail show ?thesis by simp
next
  case (stream_end i t r fault)
  have "gate_inv key digest (s\<lparr>gt_store := redis_delete fault (key i) (gt_store s), gt_place := (gt_place s)(i := Finished (Fresh r)),
    gt_log := gt_log s @ [\<lparr>ex_thread = i, ex_start = t, ex_stop = gt_now s, ex_stored = None\<rparr>]\<rparr>)"
    by (rule inv_end [OF inv]) (use stream_end inv in \<open>auto simp: redis_delete_def gate_inv_def origin_inv_def\<close>)
  with stream_end show ?thesis by simp
next
  case (tick later)
  then show ?thesis using inv_tick [OF inv] by simp
qed

text \<open>C8: a guarded request runs at most once. Through any interleaving of requests, with the clock
  advancing freely, calls to Redis raising anywhere, streams and requests that end in an exception
  included: for every cache key of which no run has outlived the 120 seconds of its lock, no two requests
  are with the application at the same time, the runs that ended did so one after the other, and after a
  run whose response was stored the next one (ended or still going) starts an hour later or more. Whatever
  the locks did, a request that is answered from the cache gets the response of a run under its own key
  that came with its own body, byte for byte when that body is text, with its headers folded to one value
  per name; and a client that was given a success which is not a stream knows that it was stored.\<close>

theorem idempotency_once:
  assumes "gate_start s0" and "(gate_step key digest)\<^sup>*\<^sup>* s0 s"
  shows "(overran key k s \<or> one_at_a_time key k s)
    \<and> (\<forall>r. gt_place s i = Finished (Replay r) \<longrightarrow> (\<exists>e \<in> set (runs key (key i) s). \<exists>r0. digest (ex_thread e) = digest i
         \<and> ex_stored e = Some r0 \<and> rs_status r = rs_status r0 \<and> rs_headers r = header_dict (rs_headers r0)
         \<and> rs_media r = rs_media r0 \<and> (utf8_ok (bytes_of (rs_body r0)) \<longrightarrow> rs_body r = rs_body r0)))
    \<and> (\<forall>r. gt_place s i = Finished (Fresh r) \<longrightarrow> successful r \<longrightarrow> \<not> event_stream r \<longrightarrow>
         (\<exists>e \<in> set (runs key (key i) s). \<exists>r0. ex_thread e = i \<and> ex_stored e = Some r0
           \<and> r = r0\<lparr>rs_headers := header_dict (rs_headers r0)\<rparr>))"
proof -
  have "gate_inv key digest s0" using assms(1)
    by (simp add: gate_inv_def gate_start_def clock_inv_def origin_inv_def key_inv_def one_at_a_time_def runs_def)
  with assms(2) have inv: "gate_inv key digest s" by (induction rule: rtranclp_induct) (auto intro: gate_step_inv)
  then have "overran key k s \<or> one_at_a_time key k s" by (auto simp: gate_inv_def key_inv_def)
  moreover have "origin_inv key digest s" using inv by (simp add: gate_inv_def)
  ultimately show ?thesis
    unfolding origin_inv_def stored_by_def by (fastforce simp: replay_of_def cached_body_def runs_def)
qed

subsection \<open>A retried request\<close>

definition reply_201 :: response where
  "reply_201 = \<lparr>rs_status = 201, rs_headers = [(''content-type'', ''application/json'')], rs_body = ''{}'', rs_media = None\<rparr>"

definition first_gate :: gate where
  "first_gate = \<lparr>gt_now = 0, gt_store = Map.empty, gt_place = (\<lambda>_. Looking), gt_log = []\<rparr>"

definition running_gate :: gate where
  "running_gate = \<lparr>gt_now = 0, gt_store = [''k'' \<mapsto> (In_progress, 120)], gt_place = (\<lambda>_. Looking)(0 := Running 0), gt_log = []\<rparr>"

definition stored_gate :: gate where
  "stored_gate = \<lparr>gt_now = 0, gt_store = [''k'' \<mapsto> (cache_entry reply_201 ''h'', 3600)],
     gt_place = (\<lambda>_. Looking)(0 := Finished (Fresh reply_201)),
     gt_log = [\<lparr>ex_thread = 0, ex_start = 0, ex_stop = 0, ex_stored = Some reply_201\<rparr>]\<rparr>"

definition retried_gate :: gate where
  "retried_gate = stored_gate\<lparr>gt_now := 10, gt_place := (gt_place stored_gate)(1 := Finished (Replay reply_201))\<rparr>"

lemma reply_201_facts: "successful reply_201" "\<not> event_stream reply_201" "reply_201\<lparr>rs_headers := header_dict (rs_headers reply_201)\<rparr> = reply_201"
  "cache_entry reply_201 h = Cached reply_201 (Some h)"
  by (simp_all add: reply_201_def successful_def event_stream_def starts_def to_lower_def header_dict_def cache_entry_def
      cached_body_def bytes_of_def)

lemma running_run: "(gate_step (\<lambda>_. ''k'') (\<lambda>_. ''h''))\<^sup>*\<^sup>* first_gate running_gate"
proof -
  let ?step = "gate_step (\<lambda>_. ''k'') (\<lambda>_. ''h'')"
  let ?a = "first_gate\<lparr>gt_place := (gt_place first_gate)(0 := Locking)\<rparr>"
  have "?step first_gate ?a"
    using gate_step.look [of first_gate 0 "\<lambda>_. ''k''" "\<lambda>_. ''h''" False]
    by (simp add: first_gate_def get_cached_response_def redis_get_def after_lookup_def)
  moreover have "?step ?a running_gate"
    using gate_step.lock [of ?a 0 False "\<lambda>_. ''k''" True "[''k'' \<mapsto> (In_progress, 120)]" "\<lambda>_. ''h''"]
    by (simp add: first_gate_def running_gate_def set_lock_def redis_get_def LOCK_TTL_def)
  ultimately show ?thesis by (meson rtranclp.rtrancl_into_rtrancl rtranclp.rtrancl_refl)
qed

lemma retry_run: "(gate_step (\<lambda>_. ''k'') (\<lambda>_. ''h''))\<^sup>*\<^sup>* first_gate retried_gate"
proof -
  let ?step = "gate_step (\<lambda>_. ''k'') (\<lambda>_. ''h'')"
  note running_run
  moreover have "?step running_gate stored_gate"
    using gate_step.respond [of running_gate 0 0 False False "\<lambda>_. ''k''" "\<lambda>_. ''h''" reply_201 "Fresh reply_201"
        "[''k'' \<mapsto> (cache_entry reply_201 ''h'', 3600)]"]
    by (simp add: running_gate_def stored_gate_def handle_response_def reply_201_facts IDEMPOTENCY_TTL_def)
  moreover have "?step stored_gate (stored_gate\<lparr>gt_now := 10\<rparr>)"
    by (rule gate_step.tick) (simp add: stored_gate_def)
  moreover have "?step (stored_gate\<lparr>gt_now := 10\<rparr>) retried_gate"
    using gate_step.look [of "stored_gate\<lparr>gt_now := 10\<rparr>" 1 "\<lambda>_. ''k''" "\<lambda>_. ''h''" False]
    by (simp add: retried_gate_def stored_gate_def get_cached_response_def redis_get_def after_lookup_def reply_201_facts)
  ultimately show ?thesis by (meson rtranclp.rtrancl_into_rtrancl rtranclp.rtrancl_refl)
qed

text \<open>The condition on the locks is needed: once a run has outlived its lock, a second request with its key
  runs beside it.\<close>

lemma lock_outlived:
  "\<exists>s. (gate_step (\<lambda>_. ''k'') (\<lambda>_. ''h''))\<^sup>*\<^sup>* first_gate s \<and> overran (\<lambda>_. ''k'') ''k'' s \<and> \<not> one_at_a_time (\<lambda>_. ''k'') ''k'' s"
proof -
  let ?step = "gate_step (\<lambda>_. ''k'') (\<lambda>_. ''h'')"
  let ?a = "running_gate\<lparr>gt_now := 120\<rparr>"
  let ?b = "?a\<lparr>gt_place := (gt_place running_gate)(1 := Locking)\<rparr>"
  let ?c = "?b\<lparr>gt_store := [''k'' \<mapsto> (In_progress, 240)], gt_place := (gt_place running_gate)(1 := Running 120)\<rparr>"
  note running_run
  moreover have "?step running_gate ?a" by (rule gate_step.tick) (simp add: running_gate_def)
  moreover have "?step ?a ?b"
    using gate_step.look [of ?a 1 "\<lambda>_. ''k''" "\<lambda>_. ''h''" False]
    by (simp add: running_gate_def get_cached_response_def redis_get_def after_lookup_def)
  moreover have "?step ?b ?c"
    using gate_step.lock [of ?b 1 False "\<lambda>_. ''k''" True "[''k'' \<mapsto> (In_progress, 240)]" "\<lambda>_. ''h''"]
    by (simp add: running_gate_def set_lock_def redis_get_def LOCK_TTL_def)
  ultimately have "?step\<^sup>*\<^sup>* first_gate ?c" by (meson rtranclp.rtrancl_into_rtrancl)
  moreover have "overran (\<lambda>_. ''k'') ''k'' ?c"
    by (simp add: overran_def LOCK_TTL_def) (intro disjI1 exI [of _ 0], simp add: running_since_def running_gate_def)
  moreover have "running_since ?c 0 \<noteq> None" "running_since ?c 1 \<noteq> None" by (simp_all add: running_since_def running_gate_def)
  then have "\<not> one_at_a_time (\<lambda>_. ''k'') ''k'' ?c" unfolding one_at_a_time_def by (metis zero_neq_one)
  ultimately show ?thesis by blast
qed

theorem idempotency_once_witness:
  "gate_start first_gate \<and> gt_place retried_gate 1 = Finished (Replay reply_201)
    \<and> \<not> overran (\<lambda>_. ''k'') ''k'' retried_gate \<and> one_at_a_time (\<lambda>_. ''k'') ''k'' retried_gate
    \<and> (\<exists>e \<in> set (gt_log retried_gate). \<exists>r0. ex_stored e = Some r0 \<and> rs_status reply_201 = rs_status r0)"
proof -
  have start: "gate_start first_gate" by (simp add: gate_start_def first_gate_def)
  moreover have place: "gt_place retried_gate 1 = Finished (Replay reply_201)" by (simp add: retried_gate_def)
  moreover have "\<not> overran (\<lambda>_. ''k'') ''k'' retried_gate"
    by (simp add: overran_def runs_def running_since_def retried_gate_def stored_gate_def LOCK_TTL_def fun_upd_apply)
  ultimately show ?thesis using idempotency_once [OF start retry_run, of "''k''" 1]
    by (auto simp: runs_def)
qed

end
