(* ===== verification/Tracking.thy ===== *)
theory Tracking
  imports GameDb PyStr
begin

text \<open>
  The activity grid and the profile statistics: the rules of \<open>app/game/tracking.py\<close>, the per-day
  aggregates of \<open>app/crud/game_tracking.py\<close> and the window checks and the two read endpoints of
  \<open>app/api/routers/game_tracking.py\<close>. Groups of a query come in the order of their first row; the
  Postgres variants of the queries are the ones modelled.
\<close>

subsection \<open>Rates\<close>

definition DEFAULT_WEIGHTS :: "(string \<times> rat) list" where
  "DEFAULT_WEIGHTS = [(''focus_phase_completed'', 0), (''habit_click'', 2), (''daily_check'', 3),
     (''stopwatch_milestone'', 1), (''damage'', 0), (''session_abandoned'', 0), (''speedrun_completed'', 0),
     (''speedrun_failed'', 0), (''record_set'', 1)]"

definition DEFAULT_TIER_THRESHOLDS :: "rat list" where
  "DEFAULT_TIER_THRESHOLDS = [1, 15, 35, 60]"

definition MAX_RANGE_DAYS :: int where "MAX_RANGE_DAYS = 366"
definition DEFAULT_WINDOW_DAYS :: int where "DEFAULT_WINDOW_DAYS = 365"

text \<open>\<open>math.isfinite\<close> raises on an integer no float can hold.\<close>

definition finite_nonneg :: "json \<Rightarrow> rat option result" where
  "finite_nonneg v = bind_r (num_guard v) (\<lambda>ok.
     Inr (if ok \<and> num_val v \<ge> 0 then Some (py_float v) else None))"

record activity_rates =
  ar_weights :: "(string \<times> rat) list"
  ar_tiers :: "rat list"

definition default_activity :: activity_rates where
  "default_activity = \<lparr>ar_weights = DEFAULT_WEIGHTS, ar_tiers = DEFAULT_TIER_THRESHOLDS\<rparr>"

fun merge_weights :: "dict \<Rightarrow> (string \<times> rat) list \<Rightarrow> (string \<times> rat) list result" where
  "merge_weights [] merged = Inr merged"
| "merge_weights ((name, v) # rest) merged = bind_r (finite_nonneg v) (\<lambda>clean.
     merge_weights rest (case clean of Some x \<Rightarrow> dict_set merged name x | None \<Rightarrow> merged))"

definition clean_weights :: "dict \<Rightarrow> (string \<times> rat) list result" where
  "clean_weights raw = bind_r (merge_weights raw DEFAULT_WEIGHTS) (\<lambda>merged.
     Inr (dict_set (dict_set merged ''focus_phase_completed'' 0) ''speedrun_completed'' 0))"

text \<open>The ladder; the first bad cutoff ends the loop.\<close>

fun clean_tiers :: "json list \<Rightarrow> rat list option result" where
  "clean_tiers [] = Inr (Some [])"
| "clean_tiers (v # vs) = bind_r (finite_nonneg v) (\<lambda>c. case c of
       None \<Rightarrow> Inr None
     | Some x \<Rightarrow> if x \<le> 0 then Inr None else bind_r (clean_tiers vs) (\<lambda>rest. Inr (map_option ((#) x) rest)))"

definition activity_from_dict :: "dict \<Rightarrow> activity_rates result" where
  "activity_from_dict data =
     (if data = [] then Inr default_activity
      else bind_r (case dict_get data ''weights'' of Some (JObj raw) \<Rightarrow> clean_weights raw | _ \<Rightarrow> Inr DEFAULT_WEIGHTS) (\<lambda>weights.
        bind_r (case dict_get data ''tier_thresholds'' of
            Some (JArr raw) \<Rightarrow> if 1 \<le> length raw \<and> length raw \<le> 8 then clean_tiers raw else Inr None
          | _ \<Rightarrow> Inr None) (\<lambda>cleaned.
        Inr \<lparr>ar_weights = weights, ar_tiers = (case cleaned of
               Some ts \<Rightarrow> if distinct ts \<and> ts = sort ts then ts else DEFAULT_TIER_THRESHOLDS
             | None \<Rightarrow> DEFAULT_TIER_THRESHOLDS)\<rparr>)))"

definition get_activity_config :: "db \<Rightarrow> dict" where
  "get_activity_config db = (case get_config db ''activity_weights'' of Some (JObj d) \<Rightarrow> d | _ \<Rightarrow> [])"

definition load_activity :: "db \<Rightarrow> activity_rates result" where
  "load_activity db = activity_from_dict (get_activity_config db)"

subsection \<open>A day\<close>

text \<open>\<open>round(x, 2)\<close>: the nearest hundredth of the exact value, ties to even, as a float.\<close>

definition round2 :: "rat \<Rightarrow> rat" where
  "round2 x = b64 (of_int (round_even (x * 100)) / 100)"

definition tier_for :: "rat \<Rightarrow> rat list \<Rightarrow> int" where
  "tier_for score ladder = int (length (filter (\<lambda>t. score \<ge> t) ladder))"

definition day_score :: "rat \<Rightarrow> (string \<times> int) list \<Rightarrow> activity_rates \<Rightarrow> rat" where
  "day_score minutes counts rates = fadd minutes (foldl fadd 0
     (map (\<lambda>(t, n). fmul (case map_of (ar_weights rates) t of Some w \<Rightarrow> w | None \<Rightarrow> 0) (of_int n)) counts))"

record day_row =
  dr_date :: date
  dr_score :: rat
  dr_minutes :: rat
  dr_events :: "(string \<times> int) list"
  dr_tier :: int

definition day_row_of ::
  "(date \<rightharpoonup> rat) \<Rightarrow> (date \<Rightarrow> (string \<times> int) list) \<Rightarrow> activity_rates \<Rightarrow> date \<Rightarrow> day_row" where
  "day_row_of minutes_by counts_by rates day =
     (let minutes = (case minutes_by day of Some m \<Rightarrow> m | None \<Rightarrow> 0);
          counts = counts_by day;
          score = round2 (day_score minutes counts rates)
      in \<lparr>dr_date = day, dr_score = score, dr_minutes = round2 minutes, dr_events = counts,
          dr_tier = tier_for score (ar_tiers rates)\<rparr>)"

definition build_days ::
  "date \<Rightarrow> date \<Rightarrow> (date \<rightharpoonup> rat) \<Rightarrow> (date \<Rightarrow> (string \<times> int) list) \<Rightarrow> activity_rates \<Rightarrow> day_row list" where
  "build_days start end' minutes_by counts_by rates = map (day_row_of minutes_by counts_by rates) [start..end']"

subsection \<open>Streaks and totals\<close>

text \<open>The two loops of \<open>_streaks\<close>.\<close>

fun longest_loop :: "day_row list \<Rightarrow> int \<Rightarrow> int \<Rightarrow> int" where
  "longest_loop [] run longest = longest"
| "longest_loop (r # rs) run longest =
     (if dr_score r > 0 then longest_loop rs (run + 1) (max longest (run + 1)) else longest_loop rs 0 longest)"

fun current_loop :: "day_row list \<Rightarrow> int \<Rightarrow> int" where
  "current_loop [] current = current"
| "current_loop (r # rs) current = (if dr_score r > 0 then current_loop rs (current + 1) else current)"

definition streaks :: "day_row list \<Rightarrow> date \<Rightarrow> int \<times> int" where
  "streaks days today =
     (let backwards = rev days;
          from_end = (case backwards of r # rs \<Rightarrow> if dr_date r = today \<and> dr_score r \<le> 0 then rs else backwards | [] \<Rightarrow> [])
      in (current_loop from_end 0, longest_loop days 0 0))"

record speedrun_pb =
  pb_label :: string
  pb_seconds :: int
  pb_attempts :: int
  pb_set_at :: datetime
  pb_recent :: "(int \<times> datetime) list"

record activity_stats =
  as_avg_hours :: rat
  as_total_hours :: rat
  as_current :: int
  as_longest :: int
  as_best :: "(date \<times> rat) option"
  as_weekly :: rat
  as_pbs :: "speedrun_pb list"

text \<open>The highest score, the earliest day on ties; \<open>max\<close> keeps the first of equal keys.\<close>

definition best_day :: "day_row list \<Rightarrow> day_row option" where
  "best_day days = (case filter (\<lambda>r. dr_score r > 0) days of
       [] \<Rightarrow> None
     | r # rs \<Rightarrow> Some (foldl (\<lambda>b x. if dr_score b < dr_score x \<or> dr_score b = dr_score x \<and> dr_date x < dr_date b
                                  then x else b) r rs))"

definition summarize :: "day_row list \<Rightarrow> date \<Rightarrow> speedrun_pb list \<Rightarrow> activity_stats" where
  "summarize days today pbs =
     (let total_minutes = foldl fadd 0 (map dr_minutes days);
          total_hours = fdiv total_minutes 60;
          (current, longest) = streaks days today;
          weekly_total = foldl fadd 0 (map dr_score (filter (\<lambda>r. dr_date r \<ge> today - 6) days))
      in \<lparr>as_avg_hours = (if days = [] then 0 else round2 (fdiv total_hours (of_int (int (length days))))),
          as_total_hours = round2 total_hours, as_current = current, as_longest = longest,
          as_best = map_option (\<lambda>r. (dr_date r, dr_score r)) (best_day days),
          as_weekly = round2 weekly_total, as_pbs = pbs\<rparr>)"

subsection \<open>Aggregates\<close>

definition weight_bearing :: "event \<Rightarrow> bool" where
  "weight_bearing e \<longleftrightarrow> o_scored (ev_outcome e) \<noteq> Some False"

definition window_events :: "db \<Rightarrow> int \<Rightarrow> datetime \<Rightarrow> datetime \<Rightarrow> event list" where
  "window_events db u start end' =
     filter (\<lambda>e. ev_user e = u \<and> start \<le> ev_ts e \<and> ev_ts e < end' \<and> weight_bearing e) (t_events db)"

definition event_counts_by_day :: "db \<Rightarrow> int \<Rightarrow> datetime \<Rightarrow> datetime \<Rightarrow> date \<Rightarrow> (string \<times> int) list" where
  "event_counts_by_day db u start end' day =
     (let types = map ev_type (filter (\<lambda>e. date_of (ev_ts e) = day) (window_events db u start end'))
      in map (\<lambda>t. (t, int (count_list types t))) (rev (remdups (rev types))))"

definition focus_phases :: "db \<Rightarrow> int \<Rightarrow> datetime \<Rightarrow> datetime \<Rightarrow> phase list" where
  "focus_phases db u start end' = filter (\<lambda>p. ph_kind p \<noteq> BREAK \<and> ph_status p = COMPLETED \<and>
       (case ph_ended_at p of Some t \<Rightarrow> start \<le> t \<and> t < end' | None \<Rightarrow> False))
     (concat (map (\<lambda>s. t_phases db (s_id s)) (filter (\<lambda>s. s_user s = u) (t_sessions db))))"

definition ended_on :: "date \<Rightarrow> phase \<Rightarrow> bool" where
  "ended_on day p \<longleftrightarrow> (case ph_ended_at p of Some t \<Rightarrow> date_of t = day | None \<Rightarrow> False)"

definition focus_minutes_by_day :: "db \<Rightarrow> int \<Rightarrow> datetime \<Rightarrow> datetime \<Rightarrow> date \<rightharpoonup> rat" where
  "focus_minutes_by_day db u start end' day =
     (let ps = filter (ended_on day) (focus_phases db u start end')
      in if ps = [] then None
         else Some (fdiv (of_int (sum_list (List.map_filter actual_seconds ps))) 60))"

text \<open>\<open>client_event_id ILIKE 'server:%'\<close>.\<close>

definition server_authored :: "event \<Rightarrow> bool" where
  "server_authored e \<longleftrightarrow> starts ''server:'' (to_lower (ev_eid e))"

definition client_minutes_by_day :: "db \<Rightarrow> int \<Rightarrow> datetime \<Rightarrow> datetime \<Rightarrow> date \<rightharpoonup> rat" where
  "client_minutes_by_day db u start end' day =
     (let es = filter (\<lambda>e. ev_type e = ''focus_phase_completed'' \<and> \<not> server_authored e
                   \<and> finite_num (dict_get_or (ev_payload e) ''minutes'' JNull) \<and> date_of (ev_ts e) = day)
                 (window_events db u start end')
      in if es = [] then None
         else Some (foldl fadd 0 (map (\<lambda>e. py_float (dict_get_or (ev_payload e) ''minutes'' JNull)) es)))"

text \<open>Board-eligible runs, latest first.\<close>

definition beat_best_run :: "session \<Rightarrow> phase \<Rightarrow> (string \<times> int \<times> datetime) option" where
  "beat_best_run s p = (case (activity_label s, actual_seconds p, ph_ended_at p) of
       (Some label, Some secs, Some t) \<Rightarrow>
         if s_mode s = ''speedrun'' \<and> (case speedrun s of JObj d \<Rightarrow> dict_get d ''type'' = Some (JStr ''beat_best'') | _ \<Rightarrow> False)
            \<and> ph_kind p = SPEEDRUN \<and> ph_status p = COMPLETED \<and> secs \<ge> MIN_RECORD_SECONDS
         then Some (label, secs, t) else None
     | _ \<Rightarrow> None)"

definition pb_runs :: "db \<Rightarrow> int \<Rightarrow> (string \<times> int \<times> datetime) list" where
  "pb_runs db u = rev (sort_key (\<lambda>(label, secs, t). t) (rev (concat (map (\<lambda>s. List.map_filter (beat_best_run s) (t_phases db (s_id s)))
     (filter (\<lambda>s. s_user s = u) (t_sessions db))))))"

definition pb_row :: "string \<times> int \<times> datetime \<Rightarrow> speedrun_pb \<Rightarrow> speedrun_pb" where
  "pb_row = (\<lambda>(label, secs, t) row.
     let row1 = row\<lparr>pb_attempts := pb_attempts row + 1,
                    pb_recent := (if length (pb_recent row) < 5 then pb_recent row @ [(secs, t)] else pb_recent row)\<rparr>
     in if secs < pb_seconds row1 then row1\<lparr>pb_seconds := secs, pb_set_at := t\<rparr>
        else if secs = pb_seconds row1 \<and> t < pb_set_at row1 then row1\<lparr>pb_set_at := t\<rparr> else row1)"

definition pb_add :: "string \<times> int \<times> datetime \<Rightarrow> (string \<times> speedrun_pb) list \<Rightarrow> (string \<times> speedrun_pb) list" where
  "pb_add = (\<lambda>(label, secs, t) best.
     dict_set best label (pb_row (label, secs, t) (case map_of best label of Some row \<Rightarrow> row
       | None \<Rightarrow> \<lparr>pb_label = label, pb_seconds = secs, pb_attempts = 0, pb_set_at = t, pb_recent = []\<rparr>)))"

definition speedrun_pbs :: "db \<Rightarrow> int \<Rightarrow> speedrun_pb list" where
  "speedrun_pbs db u = sort_key pb_label (map snd (foldl (\<lambda>best r. pb_add r best) [] (pb_runs db u)))"

subsection \<open>Endpoints\<close>

definition date_min :: date where "date_min = date_of_ymd 1 1 1"
definition date_max :: date where "date_max = date_of_ymd 9999 12 31"

text \<open>A 400 with its detail, or the window.\<close>

definition resolve_range :: "date \<Rightarrow> date option \<Rightarrow> date option \<Rightarrow> string + date \<times> date" where
  "resolve_range today start end' =
     (if (case end' of Some e \<Rightarrow> \<not> (date_min + DEFAULT_WINDOW_DAYS \<le> e \<and> e \<le> date_max - 1) | None \<Rightarrow> False)
      then Inl ''end date out of supported range''
      else
        let resolved_end = (case end' of Some e \<Rightarrow> min e today | None \<Rightarrow> today);
            resolved_start = (case start of Some s \<Rightarrow> s | None \<Rightarrow> resolved_end - (DEFAULT_WINDOW_DAYS - 1))
        in if resolved_start > resolved_end then Inl ''start must be on or before end''
           else if resolved_end - resolved_start \<ge> MAX_RANGE_DAYS then Inl ''date range exceeds 366 days''
           else Inr (resolved_start, resolved_end))"

definition minutes_by_day :: "db \<Rightarrow> int \<Rightarrow> datetime \<Rightarrow> datetime \<Rightarrow> date \<rightharpoonup> rat" where
  "minutes_by_day db u start end' day =
     (case (focus_minutes_by_day db u start end' day, client_minutes_by_day db u start end' day) of
        (None, None) \<Rightarrow> None
      | (a, b) \<Rightarrow> Some (fadd (case a of Some x \<Rightarrow> x | None \<Rightarrow> 0) (case b of Some x \<Rightarrow> x | None \<Rightarrow> 0)))"

definition day_rows :: "db \<Rightarrow> int \<Rightarrow> date \<Rightarrow> date \<Rightarrow> (day_row list \<times> rat list) result" where
  "day_rows db u start end' = bind_r (load_activity db) (\<lambda>rates.
     let start_dt = midnight start; end_dt = midnight end' + us_per_day
     in Inr (build_days start end' (minutes_by_day db u start_dt end_dt)
               (event_counts_by_day db u start_dt end_dt) rates, ar_tiers rates))"

datatype 'a tracking_reply = Window_error string | Grid_raised py_error | Window date date 'a

definition get_activity_grid :: "env \<Rightarrow> int \<Rightarrow> date option \<Rightarrow> date option \<Rightarrow> db \<Rightarrow> (day_row list \<times> rat list) tracking_reply" where
  "get_activity_grid env u start end' db = (case resolve_range (date_of (e_now env)) start end' of
       Inl why \<Rightarrow> Window_error why
     | Inr (s, e) \<Rightarrow> (case day_rows db u s e of Inl err \<Rightarrow> Grid_raised err | Inr grid \<Rightarrow> Window s e grid))"

definition get_activity_stats :: "env \<Rightarrow> int \<Rightarrow> date option \<Rightarrow> date option \<Rightarrow> db \<Rightarrow> activity_stats tracking_reply" where
  "get_activity_stats env u start end' db = (case resolve_range (date_of (e_now env)) start end' of
       Inl why \<Rightarrow> Window_error why
     | Inr (s, e) \<Rightarrow> (case day_rows db u s e of
           Inl err \<Rightarrow> Grid_raised err
         | Inr (days, ladder) \<Rightarrow> Window s e (summarize days (date_of (e_now env)) (speedrun_pbs db u))))"

end
