(* ===== verification/TrackingLaws.thy ===== *)
theory TrackingLaws
  imports Tracking
begin

text \<open>
  What the activity views guarantee: rates that make sense whatever the stored row holds, a grid that
  accounts for every event of its window exactly once, streaks that are the longest and the latest run,
  and a record board that is the minimum of the runs behind it.
\<close>

subsection \<open>Rates\<close>

lemma finite_nonneg_ok: "finite_nonneg v = Inr (Some x) \<Longrightarrow> 0 \<le> x"
  by (auto simp: finite_nonneg_def num_guard_eq finite_num_def num_val_def py_float_def b64_nonneg split: if_splits json.splits)

lemma merge_weights_nonneg:
  "merge_weights raw m = Inr m' \<Longrightarrow> (\<forall>x \<in> ran (map_of m). 0 \<le> x) \<Longrightarrow>
     (\<forall>x \<in> ran (map_of m'). 0 \<le> x) \<and> dom (map_of m) \<subseteq> dom (map_of m')"
proof (induction raw arbitrary: m)
  case (Cons p raw)
  obtain name v where p: "p = (name, v)" by force
  from Cons.prems(1) obtain c where c: "finite_nonneg v = Inr c"
    "merge_weights raw (case c of Some x \<Rightarrow> dict_set m name x | None \<Rightarrow> m) = Inr m'" by (auto simp: p)
  show ?case
  proof (cases c)
    case None
    with c Cons show ?thesis by simp
  next
    case (Some x)
    have "\<forall>y \<in> ran (map_of (dict_set m name x)). 0 \<le> y"
      using Cons.prems(2) finite_nonneg_ok [of v x] c(1) Some by (auto simp: ran_def split: if_splits)
    moreover have "merge_weights raw (dict_set m name x) = Inr m'" using c(2) Some by simp
    ultimately have "(\<forall>x \<in> ran (map_of m'). 0 \<le> x) \<and> dom ((map_of m)(name \<mapsto> x)) \<subseteq> dom (map_of m')"
      using Cons.IH unfolding map_of_dict_set [symmetric] by blast
    moreover have "dom (map_of m) \<subseteq> dom ((map_of m)(name \<mapsto> x))" by auto
    ultimately show ?thesis by blast
  qed
qed simp

lemma default_weights_nonneg: "\<forall>x \<in> ran (map_of DEFAULT_WEIGHTS). 0 \<le> x"
proof -
  have "\<forall>p \<in> set DEFAULT_WEIGHTS. 0 \<le> snd p" by (simp add: DEFAULT_WEIGHTS_def)
  then show ?thesis by (auto simp: ran_def dest!: map_of_SomeD)
qed

lemma clean_tiers_ok: "clean_tiers raw = Inr (Some ts) \<Longrightarrow> length ts = length raw \<and> (\<forall>t \<in> set ts. 0 < t)"
proof (induction raw arbitrary: ts)
  case (Cons v raw)
  then obtain x rest where "finite_nonneg v = Inr (Some x)" "0 < x" "clean_tiers raw = Inr (Some rest)" "ts = x # rest"
    by (auto split: option.splits if_splits)
  with Cons.IH [of rest] show ?case by simp
qed simp

definition weights_ok :: "(string \<times> rat) list \<Rightarrow> bool" where
  "weights_ok ws \<longleftrightarrow> (\<forall>x \<in> ran (map_of ws). 0 \<le> x) \<and> map_of ws ''focus_phase_completed'' = Some 0
     \<and> map_of ws ''speedrun_completed'' = Some 0 \<and> dom (map_of DEFAULT_WEIGHTS) \<subseteq> dom (map_of ws)"

definition ladder_ok :: "rat list \<Rightarrow> bool" where
  "ladder_ok ts \<longleftrightarrow> 1 \<le> length ts \<and> length ts \<le> 8 \<and> sorted_wrt (<) ts \<and> (\<forall>t \<in> set ts. 0 < t)"

lemma weights_ok_default: "weights_ok DEFAULT_WEIGHTS"
  using default_weights_nonneg by (simp add: weights_ok_def DEFAULT_WEIGHTS_def)

lemma weights_ok_clean:
  assumes "clean_weights raw = Inr ws"
  shows "weights_ok ws"
proof -
  from assms obtain m where m: "merge_weights raw DEFAULT_WEIGHTS = Inr m"
    "ws = dict_set (dict_set m ''focus_phase_completed'' 0) ''speedrun_completed'' 0" by (auto simp: clean_weights_def)
  from merge_weights_nonneg [OF m(1) default_weights_nonneg] show ?thesis
    by (auto simp: weights_ok_def m(2) ran_def split: if_splits)
qed

lemma ladder_ok_default: "ladder_ok DEFAULT_TIER_THRESHOLDS"
  by (simp add: ladder_ok_def DEFAULT_TIER_THRESHOLDS_def)

lemma ladder_ok_sorted: "distinct ts \<Longrightarrow> ts = sort ts \<Longrightarrow> sorted_wrt (<) ts" for ts :: "rat list"
  by (metis sorted_sort strict_sorted_iff)

lemma activity_sound:
  assumes "activity_from_dict data = Inr r"
  shows "weights_ok (ar_weights r) \<and> ladder_ok (ar_tiers r)"
proof (cases "data = []")
  case True
  with assms weights_ok_default ladder_ok_default show ?thesis by (auto simp: activity_from_dict_def default_activity_def)
next
  case False
  from assms False obtain ws cleaned where
    ws: "(case dict_get data ''weights'' of Some (JObj raw) \<Rightarrow> clean_weights raw | _ \<Rightarrow> Inr DEFAULT_WEIGHTS) = Inr ws"
    and cl: "(case dict_get data ''tier_thresholds'' of
            Some (JArr raw) \<Rightarrow> if 1 \<le> length raw \<and> length raw \<le> 8 then clean_tiers raw else Inr None
          | _ \<Rightarrow> Inr None) = Inr cleaned"
    and r: "r = \<lparr>ar_weights = ws, ar_tiers = (case cleaned of
               Some ts \<Rightarrow> if distinct ts \<and> ts = sort ts then ts else DEFAULT_TIER_THRESHOLDS
             | None \<Rightarrow> DEFAULT_TIER_THRESHOLDS)\<rparr>"
    unfolding activity_from_dict_def by (auto simp del: One_nat_def)
  have "weights_ok ws" using ws weights_ok_default weights_ok_clean by (auto split: option.splits json.splits)
  moreover have "ladder_ok (ar_tiers r)"
  proof (cases "\<exists>ts. cleaned = Some ts \<and> distinct ts \<and> ts = sort ts")
    case True
    then obtain ts where ts: "cleaned = Some ts" "distinct ts" "ts = sort ts" by blast
    with cl obtain raw where "1 \<le> length raw" "length raw \<le> 8" "clean_tiers raw = Inr (Some ts)"
      by (auto split: option.splits json.splits if_splits)
    with clean_tiers_ok [of raw ts] ladder_ok_sorted [OF ts(2,3)] ts show ?thesis by (simp add: r ladder_ok_def)
  next
    case False
    then have "ar_tiers r = DEFAULT_TIER_THRESHOLDS" unfolding r by (cases cleaned) auto
    then show ?thesis using ladder_ok_default by simp
  qed
  ultimately show ?thesis by (simp add: r)
qed

subsection \<open>The grid\<close>

lemma count_sum: "sum_list (map (count_list xs) (rev (remdups (rev xs)))) = length xs"
proof -
  have "sum_list (map (count_list xs) (rev (remdups (rev xs)))) = sum (count_list xs) (set xs)"
    by (subst sum_list_distinct_conv_sum_set) auto
  then show ?thesis by (simp add: sum_count_set)
qed

definition row_events :: "day_row \<Rightarrow> int" where
  "row_events r = sum_list (map snd (dr_events r))"

lemma events_of_day:
  "sum_list (map snd (event_counts_by_day db u s e day)) = int (length (filter (\<lambda>x. date_of (ev_ts x) = day) (window_events db u s e)))"
proof -
  define types where "types = map ev_type (filter (\<lambda>x. date_of (ev_ts x) = day) (window_events db u s e))"
  have "sum_list (map (\<lambda>t. int (count_list types t)) ts) = int (sum_list (map (count_list types) ts))" for ts
    by (induction ts) auto
  with count_sum [of types] show ?thesis by (simp add: event_counts_by_day_def types_def [symmetric] comp_def Let_def) (simp add: types_def)
qed

lemma sum_days:
  "(\<forall>x \<in> set xs. a \<le> f x \<and> f x \<le> b) \<Longrightarrow> (\<Sum>d\<leftarrow>[a..b]. int (length (filter (\<lambda>x. f x = d) xs))) = int (length xs)" for a b :: int
proof (induction xs)
  case (Cons x xs)
  have one: "(\<Sum>d\<leftarrow>[a..b]. if f x = d then 1 else 0) = (1 :: int)"
  proof -
    have "(\<Sum>d\<leftarrow>[a..b]. if f x = d then 1 else 0) = (\<Sum>d \<in> {a..b}. if f x = d then 1 else (0 :: int))"
      by (subst sum_list_distinct_conv_sum_set) auto
    also have "\<dots> = 1" using Cons.prems by simp
    finally show ?thesis .
  qed
  have "(\<Sum>d\<leftarrow>[a..b]. int (length (filter (\<lambda>y. f y = d) (x # xs))))
      = (\<Sum>d\<leftarrow>[a..b]. (if f x = d then 1 else 0) + int (length (filter (\<lambda>y. f y = d) xs)))"
    by (intro arg_cong [of _ _ sum_list] map_cong) auto
  also have "\<dots> = 1 + int (length xs)" using one Cons by (simp add: sum_list_addf)
  finally show ?case by simp
qed (simp add: sum_list_0)

lemma window_dates: "x \<in> set (window_events db u (midnight s) (midnight e + us_per_day)) \<Longrightarrow> s \<le> date_of (ev_ts x) \<and> date_of (ev_ts x) \<le> e"
proof -
  assume "x \<in> set (window_events db u (midnight s) (midnight e + us_per_day))"
  then have "s * us_per_day \<le> ev_ts x" "ev_ts x < (e + 1) * us_per_day" by (auto simp: window_events_def midnight_def algebra_simps)
  then show ?thesis by (simp add: date_of_def us_per_day_def) linarith
qed

lemma tier_bounds: "0 \<le> tier_for x ts \<and> tier_for x ts \<le> int (length ts)"
  by (simp add: tier_for_def)

lemma tier_mono: "x \<le> y \<Longrightarrow> tier_for x ts \<le> tier_for y ts"
  unfolding tier_for_def by (induction ts) auto

lemma resolve_range_ok:
  "resolve_range today start end' = Inr (s, e) \<Longrightarrow> s \<le> e \<and> e \<le> today \<and> e - s < MAX_RANGE_DAYS"
  by (auto simp: resolve_range_def Let_def split: if_splits option.splits)

text \<open>C24: the grid is complete and honest. A window that is answered lies before tomorrow and spans at most
  366 days; the rows are its days in order, each once; their event counts add up to the weight-bearing
  events of the window, none dropped and none counted twice; a day's tier is between 0 and the length of
  the ladder shipped with it, is the number of cutoffs its own shipped score reaches, and never falls
  when the score rises; the ladder is strictly increasing and positive.\<close>

theorem grid_exact:
  assumes "get_activity_grid env u start end' db = Window s e (days, ladder)"
  shows "s \<le> e \<and> e \<le> date_of (e_now env) \<and> map dr_date days = [s..e] \<and> length days \<le> 366
    \<and> (\<Sum>r\<leftarrow>days. row_events r) = int (length (window_events db u (midnight s) (midnight e + us_per_day)))
    \<and> (\<forall>r \<in> set days. dr_tier r = tier_for (dr_score r) ladder \<and> 0 \<le> dr_tier r \<and> dr_tier r \<le> int (length ladder))
    \<and> (\<forall>r \<in> set days. \<forall>q \<in> set days. dr_score r \<le> dr_score q \<longrightarrow> dr_tier r \<le> dr_tier q) \<and> ladder_ok ladder"
proof -
  from assms obtain rates where win: "resolve_range (date_of (e_now env)) start end' = Inr (s, e)"
    and rates: "load_activity db = Inr rates" "ladder = ar_tiers rates"
    and days: "days = build_days s e (minutes_by_day db u (midnight s) (midnight e + us_per_day))
       (event_counts_by_day db u (midnight s) (midnight e + us_per_day)) rates"
    by (auto simp: get_activity_grid_def day_rows_def Let_def split: sum.splits)
  note range = resolve_range_ok [OF win]
  have dates: "map dr_date days = [s..e]" by (simp add: days build_days_def day_row_of_def Let_def comp_def)
  then have "length days = nat (e - s + 1)" by (metis length_map length_upto)
  with range have len: "length days \<le> 366" by (simp add: MAX_RANGE_DAYS_def nat_le_iff)
  have "(\<Sum>r\<leftarrow>days. row_events r) = (\<Sum>d\<leftarrow>[s..e]. int (length (filter (\<lambda>x. date_of (ev_ts x) = d)
      (window_events db u (midnight s) (midnight e + us_per_day)))))"
    by (simp add: days build_days_def day_row_of_def Let_def comp_def row_events_def events_of_day)
  also have "\<dots> = int (length (window_events db u (midnight s) (midnight e + us_per_day)))"
    by (rule sum_days) (use window_dates in blast)
  finally have total: "(\<Sum>r\<leftarrow>days. row_events r) = int (length (window_events db u (midnight s) (midnight e + us_per_day)))" .
  have tier: "\<forall>r \<in> set days. dr_tier r = tier_for (dr_score r) ladder"
    by (auto simp: days build_days_def day_row_of_def Let_def rates)
  have "ladder_ok ladder" using activity_sound rates by (auto simp: load_activity_def)
  with range dates len total tier tier_bounds tier_mono show ?thesis by auto
qed

subsection \<open>Streaks\<close>

definition scoring :: "day_row list \<Rightarrow> bool" where
  "scoring rs \<longleftrightarrow> (\<forall>r \<in> set rs. dr_score r > 0)"

definition streak_in :: "day_row list \<Rightarrow> nat \<Rightarrow> bool" where
  "streak_in rs n \<longleftrightarrow> (\<exists>xs ys zs. rs = xs @ ys @ zs \<and> length ys = n \<and> scoring ys)"

lemma streak_in_cons: "streak_in (r # rs) n \<longleftrightarrow> streak_in rs n \<or> (\<exists>ys zs. r # rs = ys @ zs \<and> length ys = n \<and> scoring ys)"
proof
  assume "streak_in (r # rs) n"
  then obtain xs ys zs where split: "r # rs = xs @ ys @ zs" "length ys = n" "scoring ys" unfolding streak_in_def by blast
  then show "streak_in rs n \<or> (\<exists>ys zs. r # rs = ys @ zs \<and> length ys = n \<and> scoring ys)"
    unfolding streak_in_def by (cases xs) auto
next
  assume "streak_in rs n \<or> (\<exists>ys zs. r # rs = ys @ zs \<and> length ys = n \<and> scoring ys)"
  then show "streak_in (r # rs) n"
  proof
    assume "streak_in rs n"
    then obtain xs ys zs where "r # rs = (r # xs) @ ys @ zs" "length ys = n" "scoring ys" unfolding streak_in_def by auto
    then show ?thesis unfolding streak_in_def by blast
  next
    assume "\<exists>ys zs. r # rs = ys @ zs \<and> length ys = n \<and> scoring ys"
    then obtain ys zs where "r # rs = [] @ ys @ zs" "length ys = n" "scoring ys" by auto
    then show ?thesis unfolding streak_in_def by blast
  qed
qed

lemma longest_loop_upper:
  "run \<le> longest \<Longrightarrow> 0 \<le> run \<Longrightarrow> longest \<le> longest_loop rs run longest
     \<and> (\<forall>ys zs. rs = ys @ zs \<longrightarrow> scoring ys \<longrightarrow> run + int (length ys) \<le> longest_loop rs run longest)
     \<and> (\<forall>n. streak_in rs n \<longrightarrow> int n \<le> longest_loop rs run longest)"
proof (induction rs arbitrary: run longest)
  case Nil
  then show ?case by (auto simp: streak_in_def)
next
  case (Cons r rs)
  show ?case
  proof (cases "dr_score r > 0")
    case True
    note ih = Cons.IH [of "run + 1" "max longest (run + 1)"]
    have blocks: "run + int (length ys) \<le> longest_loop (r # rs) run longest" if "r # rs = ys @ zs" "scoring ys" for ys zs
    proof (cases ys)
      case Nil
      with True ih Cons.prems show ?thesis by simp
    next
      case (Cons y ys')
      with that have "rs = ys' @ zs" "scoring ys'" by (auto simp: scoring_def)
      with ih Cons.prems True Cons show ?thesis by (auto simp: algebra_simps)
    qed
    then have "int n \<le> longest_loop (r # rs) run longest" if "streak_in (r # rs) n" for n
      using that ih Cons.prems True unfolding streak_in_cons by fastforce
    with blocks ih Cons.prems True show ?thesis by auto
  next
    case False
    note ih = Cons.IH [of 0 longest]
    have blocks: "ys = []" if "r # rs = ys @ zs" "scoring ys" for ys zs
      using that False by (cases ys) (auto simp: scoring_def)
    then have "int n \<le> longest_loop (r # rs) run longest" if "streak_in (r # rs) n" for n
      using that ih Cons.prems False unfolding streak_in_cons by fastforce
    with blocks ih Cons.prems False show ?thesis by fastforce
  qed
qed

lemma longest_loop_attained:
  "longest_loop rs run longest = longest \<or> (\<exists>ys zs. rs = ys @ zs \<and> scoring ys \<and> longest_loop rs run longest = run + int (length ys))
     \<or> (\<exists>n. streak_in rs n \<and> longest_loop rs run longest = int n)"
proof (induction rs arbitrary: run longest)
  case (Cons r rs)
  show ?case
  proof (cases "dr_score r > 0")
    case True
    from Cons.IH [of "run + 1" "max longest (run + 1)"]
    consider "longest_loop rs (run + 1) (max longest (run + 1)) = longest" | "longest_loop rs (run + 1) (max longest (run + 1)) = run + 1"
      | ys zs where "rs = ys @ zs" "scoring ys" "longest_loop rs (run + 1) (max longest (run + 1)) = run + 1 + int (length ys)"
      | n where "streak_in rs n" "longest_loop rs (run + 1) (max longest (run + 1)) = int n" by (metis max_def)
    then show ?thesis
    proof cases
      case 2
      with True show ?thesis by (intro disjI2 disjI1 exI [of _ "[r]"] exI [of _ rs]) (simp add: scoring_def)
    next
      case 3
      with True show ?thesis by (intro disjI2 disjI1 exI [of _ "r # ys"] exI [of _ zs]) (simp add: scoring_def)
    qed (use True streak_in_cons in auto)
  next
    case False
    from Cons.IH [of 0 longest] show ?thesis
    proof (elim disjE exE conjE)
      fix ys zs assume "rs = ys @ zs" "scoring ys" "longest_loop rs 0 longest = 0 + int (length ys)"
      then have "streak_in (r # rs) (length ys)" unfolding streak_in_def
        by (intro exI [of _ "[r]"] exI [of _ ys] exI [of _ zs]) simp
      with \<open>longest_loop rs 0 longest = 0 + int (length ys)\<close> False show ?thesis by auto
    qed (use False streak_in_cons in auto)
  qed
qed simp

lemma current_loop_eq: "current_loop rs n = n + int (length (takeWhile (\<lambda>r. dr_score r > 0) rs))"
  by (induction rs arbitrary: n) auto

lemma longest_streak:
  obtains n where "longest_loop days 0 0 = int n" "streak_in days n" "\<And>m. streak_in days m \<Longrightarrow> m \<le> n"
proof -
  have zero: "streak_in days 0" unfolding streak_in_def
    by (intro exI [of _ days] exI [of _ "[]"]) (simp add: scoring_def)
  have pre: "streak_in days (length ys)" if "days = ys @ zs" "scoring ys" for ys zs
    unfolding streak_in_def using that by (intro exI [of _ "[]"] exI [of _ ys] exI [of _ zs]) simp
  from longest_loop_attained [of days 0 0] obtain n where n: "longest_loop days 0 0 = int n" "streak_in days n"
    using zero pre by (metis add_0 of_nat_0)
  moreover have "m \<le> n" if "streak_in days m" for m using longest_loop_upper [of 0 0 days] that n by fastforce
  ultimately show thesis using that by blast
qed

text \<open>The latest streak: the scoring days the window ends in, today left out while it has no score yet.\<close>

definition closing_days :: "day_row list \<Rightarrow> date \<Rightarrow> day_row list" where
  "closing_days days today = (if days \<noteq> [] \<and> dr_date (last days) = today \<and> dr_score (last days) \<le> 0 then butlast days else days)"

lemma current_streak: "fst (streaks days today) = int (length (takeWhile (\<lambda>r. dr_score r > 0) (rev (closing_days days today))))"
  by (cases days rule: rev_cases) (auto simp: streaks_def Let_def current_loop_eq closing_days_def)

text \<open>C35: the two loops compute the streaks. The longest streak is the length of the longest block of
  consecutive scoring days of the window; the current one is the longest scoring block the window ends
  in, where a scoreless today does not break it; and the current one never exceeds the longest.\<close>

theorem streaks_exact:
  "(\<exists>n. snd (streaks days today) = int n \<and> streak_in days n \<and> (\<forall>m. streak_in days m \<longrightarrow> m \<le> n))
    \<and> (\<exists>xs ys. closing_days days today = xs @ ys \<and> scoring ys \<and> fst (streaks days today) = int (length ys)
        \<and> (xs \<noteq> [] \<longrightarrow> dr_score (last xs) \<le> 0))
    \<and> fst (streaks days today) \<le> snd (streaks days today)"
proof -
  obtain n where n: "longest_loop days 0 0 = int n" "streak_in days n" "\<And>m. streak_in days m \<Longrightarrow> m \<le> n"
    using longest_streak [of days] by metis
  have longest: "snd (streaks days today) = int n" using n(1) by (simp add: streaks_def Let_def)
  define tail_rows where "tail_rows = rev (closing_days days today)"
  define ys where "ys = rev (takeWhile (\<lambda>r. dr_score r > 0) tail_rows)"
  define xs where "xs = rev (dropWhile (\<lambda>r. dr_score r > 0) tail_rows)"
  have split: "closing_days days today = xs @ ys" unfolding xs_def ys_def rev_append [symmetric] by (simp add: tail_rows_def)
  have ys: "scoring ys" by (auto simp: ys_def scoring_def dest: set_takeWhileD)
  have cur: "fst (streaks days today) = int (length ys)" by (simp add: current_streak ys_def tail_rows_def)
  have lastx: "dr_score (last xs) \<le> 0" if "xs \<noteq> []"
    using that hd_dropWhile [of "\<lambda>r. dr_score r > 0" tail_rows] by (simp add: xs_def last_rev not_less)
  have "\<exists>zs. days = closing_days days today @ zs"
    by (cases "days = []") (auto simp: closing_days_def intro: exI [of _ "[last days]"] exI [of _ "[]"])
  then obtain zs where "days = xs @ ys @ zs" unfolding split by auto
  then have "streak_in days (length ys)" using ys unfolding streak_in_def by blast
  with n(3) have "length ys \<le> n" by blast
  then have le: "fst (streaks days today) \<le> snd (streaks days today)" by (simp add: cur longest)
  from split ys cur lastx have "\<exists>xs ys. closing_days days today = xs @ ys \<and> scoring ys \<and> fst (streaks days today) = int (length ys)
        \<and> (xs \<noteq> [] \<longrightarrow> dr_score (last xs) \<le> 0)" by blast
  with n longest le show ?thesis by blast
qed

subsection \<open>The record board\<close>

text \<open>What a row ought to say of the runs under its label, given latest first.\<close>

definition pb_spec :: "string \<Rightarrow> (int \<times> datetime) list \<Rightarrow> speedrun_pb" where
  "pb_spec label runs = (let best = Min (fst ` set runs) in
     \<lparr>pb_label = label, pb_seconds = best, pb_attempts = int (length runs),
      pb_set_at = Min (snd ` {r \<in> set runs. fst r = best}), pb_recent = take 5 runs\<rparr>)"

definition runs_of :: "string \<Rightarrow> (string \<times> int \<times> datetime) list \<Rightarrow> (int \<times> datetime) list" where
  "runs_of label runs = map snd (filter (\<lambda>r. fst r = label) runs)"

lemma pb_spec_first:
  "pb_row (label, secs, t) \<lparr>pb_label = label, pb_seconds = secs, pb_attempts = 0, pb_set_at = t, pb_recent = []\<rparr> = pb_spec label [(secs, t)]"
proof -
  have "{r. r = (secs, t) \<and> fst r = secs} = {(secs, t)}" by auto
  then show ?thesis by (simp add: pb_row_def pb_spec_def)
qed

lemma pb_spec_next:
  assumes ne: "runs \<noteq> []"
  shows "pb_row (label, secs, t) (pb_spec label runs) = pb_spec label (runs @ [(secs, t)])"
proof -
  let ?best = "Min (fst ` set runs)"
  have fin: "finite (fst ` set runs)" "fst ` set runs \<noteq> {}" using ne by auto
  have best: "Min (fst ` set (runs @ [(secs, t)])) = min ?best secs" using fin by (simp add: min.commute)
  have recent: "take 5 (runs @ [(secs, t)]) = (if length runs < 5 then runs @ [(secs, t)] else take 5 runs)" by simp
  have old: "?best \<le> fst r" if "r \<in> set runs" for r using that fin by simp
  have holder: "\<exists>r \<in> set runs. fst r = ?best" using Min_in [OF fin] by (metis imageE)
  consider "secs < ?best" | "secs = ?best" | "?best < secs" by linarith
  then show ?thesis
  proof cases
    case 1
    then have "{r \<in> set (runs @ [(secs, t)]). fst r = secs} = {(secs, t)}" using old by force
    with 1 recent best show ?thesis by (auto simp: pb_row_def pb_spec_def Let_def simp del: set_append)
  next
    case 2
    let ?at = "Min (snd ` {r \<in> set runs. fst r = ?best})"
    have "{r \<in> set (runs @ [(secs, t)]). fst r = ?best} = insert (secs, t) {r \<in> set runs. fst r = ?best}" using 2 by auto
    then have "snd ` {r \<in> set (runs @ [(secs, t)]). fst r = ?best} = insert t (snd ` {r \<in> set runs. fst r = ?best})" by simp
    moreover have at: "finite (snd ` {r \<in> set runs. fst r = ?best})" "snd ` {r \<in> set runs. fst r = ?best} \<noteq> {}" using holder by auto
    ultimately have "Min (snd ` {r \<in> set (runs @ [(secs, t)]). fst r = ?best}) = min t ?at" using Min_insert [OF at, of t] by presburger
    with 2 recent best show ?thesis by (auto simp: pb_row_def pb_spec_def Let_def simp del: set_append)
  next
    case 3
    then have "{r \<in> set (runs @ [(secs, t)]). fst r = ?best} = {r \<in> set runs. fst r = ?best}" by auto
    with 3 recent best show ?thesis by (auto simp: pb_row_def pb_spec_def Let_def simp del: set_append)
  qed
qed

lemma dict_set_keys: "distinct (map fst d) \<Longrightarrow> distinct (map fst (dict_set d k v))"
  for d :: "(string \<times> 'v) list"
proof (cases "k \<in> fst ` set d")
  case True
  then have "map fst (dict_set d k v) = map fst d" by (auto simp: dict_set_def)
  then show "distinct (map fst d) \<Longrightarrow> ?thesis" by simp
qed (auto simp: dict_set_def)

lemma board_fold:
  "distinct (map fst (foldl (\<lambda>b r. pb_add r b) [] runs)) \<and>
   map_of (foldl (\<lambda>b r. pb_add r b) [] runs) = (\<lambda>l. if runs_of l runs = [] then None else Some (pb_spec l (runs_of l runs)))"
proof (induction runs rule: rev_induct)
  case Nil
  show ?case by (simp add: runs_of_def)
next
  case (snoc r runs)
  obtain label secs t where r: "r = (label, secs, t)" by (metis prod.exhaust)
  let ?b = "foldl (\<lambda>b r. pb_add r b) [] runs"
  have runs: "runs_of l (runs @ [r]) = (if l = label then runs_of l runs @ [(secs, t)] else runs_of l runs)" for l
    by (auto simp: runs_of_def r)
  have "pb_add r ?b = dict_set ?b label (pb_spec label (runs_of label runs @ [(secs, t)]))"
    using snoc.IH pb_spec_first pb_spec_next by (simp add: pb_add_def r)
  with snoc.IH dict_set_keys [of ?b] show ?case by (auto simp: runs fun_eq_iff)
qed

text \<open>C34: the record board is the minimum of the runs behind it. Its labels are those of the user's eligible
  runs, each once and in order; a row counts all runs under its label, shows the best time of any of them,
  dates it to the earliest run at that time, so that tying a record never moves it, and lists the five
  latest runs, latest first.\<close>

theorem pb_board_exact:
  "sorted_wrt (<) (map pb_label (speedrun_pbs db u)) \<and> set (map pb_label (speedrun_pbs db u)) = fst ` set (pb_runs db u)
    \<and> (\<forall>row \<in> set (speedrun_pbs db u). row = pb_spec (pb_label row) (runs_of (pb_label row) (pb_runs db u)))
    \<and> sorted_wrt (\<lambda>r q. snd (snd q) \<le> snd (snd r)) (pb_runs db u)"
proof -
  let ?b = "foldl (\<lambda>b r. pb_add r b) [] (pb_runs db u)"
  note fold = board_fold [of "pb_runs db u"]
  have rows: "(l, row) \<in> set ?b \<longleftrightarrow> runs_of l (pb_runs db u) \<noteq> [] \<and> row = pb_spec l (runs_of l (pb_runs db u))" for l row
    using fold map_of_eq_Some_iff [of ?b l row] by (auto split: if_splits)
  have labels: "map pb_label (map snd ?b) = map fst ?b"
    using rows by (auto simp: pb_spec_def Let_def)
  have board: "set (speedrun_pbs db u) = snd ` set ?b" by (simp add: speedrun_pbs_def)
  have "sorted (map pb_label (speedrun_pbs db u))" by (simp add: speedrun_pbs_def)
  moreover have "distinct (map pb_label (speedrun_pbs db u))"
  proof -
    have "distinct (map pb_label (map snd ?b))" unfolding labels using fold by blast
    then show ?thesis unfolding speedrun_pbs_def distinct_map [of pb_label] by (simp only: distinct_sort set_sort)
  qed
  ultimately have sorted: "sorted_wrt (<) (map pb_label (speedrun_pbs db u))" by (simp add: strict_sorted_iff)
  have "set (map pb_label (speedrun_pbs db u)) = set (map fst ?b)" using labels by (metis board list.set_map)
  also have "\<dots> = fst ` set (pb_runs db u)"
  proof -
    have "l \<in> fst ` set ?b \<longleftrightarrow> runs_of l (pb_runs db u) \<noteq> []" for l using rows by (force simp: image_iff)
    moreover have "runs_of l (pb_runs db u) \<noteq> [] \<longleftrightarrow> l \<in> fst ` set (pb_runs db u)" for l
      by (auto simp: runs_of_def filter_empty_conv image_iff)
    ultimately show ?thesis by auto
  qed
  finally have keys: "set (map pb_label (speedrun_pbs db u)) = fst ` set (pb_runs db u)" .
  have "\<forall>row \<in> set (speedrun_pbs db u). row = pb_spec (pb_label row) (runs_of (pb_label row) (pb_runs db u))"
    unfolding board using rows by (auto simp: pb_spec_def Let_def)
  moreover have "sorted_wrt (\<lambda>r q. snd (snd q) \<le> snd (snd r)) (pb_runs db u)"
  proof -
    have "sorted_wrt (\<lambda>r q. snd (snd r) \<le> snd (snd q)) (sort_key (\<lambda>(label, secs, t). t) xs)" for xs :: "(string \<times> int \<times> datetime) list"
      using sorted_sort_key [of "\<lambda>(label, secs, t). t" xs] by (simp add: sorted_wrt_map case_prod_unfold)
    then show ?thesis unfolding pb_runs_def sorted_wrt_rev .
  qed
  ultimately show ?thesis using sorted keys by simp
qed

subsection \<open>A day with one click and two runs\<close>

definition grid_env :: env where
  "grid_env = \<lparr>e_pf = \<lparr>pow_fn = (\<lambda>_ _. Inr 1), repr_fn = (\<lambda>_. [])\<rparr>, e_now = 737002 * us_per_day + us_per_day div 2,
     e_zone = Map.empty, e_digest = id\<rparr>"

definition grid_run :: "int \<Rightarrow> int \<Rightarrow> datetime \<Rightarrow> session \<times> phase" where
  "grid_run i secs t = (\<lparr>s_id = i, s_user = 1, s_task_id = None, s_mode = ''speedrun'', s_status = S_ENDED,
       activity_label = Some ''desk'', preset = None, pause_budget_count = 0, pause_budget_seconds = 0,
       speedrun = JObj [(''type'', JStr ''beat_best'')], s_started_at = 0, s_ended_at = Some t\<rparr>,
     \<lparr>ph_seq = 0, ph_kind = SPEEDRUN, ph_status = COMPLETED, planned_seconds = 0, actual_seconds = Some secs,
       pause_count = 0, paused_seconds = 0, pause_started_at = None, ph_started_at = Some 0, ph_ended_at = Some t\<rparr>)"

definition grid_db :: db where
  "grid_db = empty_db\<lparr>
     t_events := [\<lparr>ev_user = 1, ev_eid = ''a'', ev_type = ''habit_click'', ev_payload = [], ev_outcome = no_outcome\<lparr>o_scored := Some True\<rparr>,
       ev_ts = 737002 * us_per_day\<rparr>],
     t_sessions := [fst (grid_run 1 120 5), fst (grid_run 2 90 9)],
     t_phases := (\<lambda>i. if i = 1 then [snd (grid_run 1 120 5)] else if i = 2 then [snd (grid_run 2 90 9)] else [])\<rparr>"

lemma grid_parts:
  "resolve_range 737002 (Some 737002) None = Inr (737002, 737002)" "load_activity grid_db = Inr default_activity"
  "event_counts_by_day grid_db 1 (midnight 737002) (midnight 737002 + us_per_day) 737002 = [(''habit_click'', 1)]"
  "minutes_by_day grid_db 1 (midnight 737002) (midnight 737002 + us_per_day) 737002 = None"
  "round2 2 = 2" "tier_for 2 [1, 15, 35, 60] = 1" "date_of (e_now grid_env) = 737002" "round2 0 = 0"
  by (code_simp, code_simp, code_simp, code_simp, code_simp, code_simp, code_simp) (simp add: round2_def round_even_def)

lemma grid_score: "day_score 0 [(''habit_click'', 1)] default_activity = 2"
  by (simp add: day_score_def default_activity_def DEFAULT_WEIGHTS_def fmul_def fadd_def)

lemma grid_value: "get_activity_grid grid_env 1 (Some 737002) None grid_db = Window 737002 737002
  ([\<lparr>dr_date = 737002, dr_score = 2, dr_minutes = 0, dr_events = [(''habit_click'', 1)], dr_tier = 1\<rparr>], [1, 15, 35, 60])"
proof -
  have ladder: "ar_tiers default_activity = [1, 15, 35, 60]" by (simp add: default_activity_def DEFAULT_TIER_THRESHOLDS_def)
  have row: "day_row_of (minutes_by_day grid_db 1 (midnight 737002) (midnight 737002 + us_per_day))
      (event_counts_by_day grid_db 1 (midnight 737002) (midnight 737002 + us_per_day)) default_activity 737002
    = \<lparr>dr_date = 737002, dr_score = 2, dr_minutes = 0, dr_events = [(''habit_click'', 1)], dr_tier = 1\<rparr>"
    unfolding day_row_of_def Let_def grid_parts(3,4) option.case grid_score ladder grid_parts(5,6,8) ..
  show ?thesis
    unfolding get_activity_grid_def grid_parts(1,7) sum.case prod.case day_rows_def grid_parts(2) bind_r_simps Let_def ladder build_days_def
    by (simp add: row upto_single)
qed

theorem grid_exact_witness:
  "(\<Sum>r\<leftarrow>[\<lparr>dr_date = 737002, dr_score = 2, dr_minutes = 0, dr_events = [(''habit_click'', 1)], dr_tier = 1\<rparr>]. row_events r)
    = int (length (window_events grid_db 1 (midnight 737002) (midnight 737002 + us_per_day)))"
  using grid_exact [OF grid_value] by blast

definition grid_week :: "day_row list" where
  "grid_week = map (\<lambda>(d, x). \<lparr>dr_date = d, dr_score = x, dr_minutes = 0, dr_events = [], dr_tier = 0\<rparr>)
     [(1, 3), (2, 1), (3, 0), (4, 2), (5, 0)]"

theorem streaks_exact_witness:
  "streaks grid_week 5 = (1, 2) \<and> (\<exists>n. snd (streaks grid_week 5) = int n \<and> (\<forall>m. streak_in grid_week m \<longrightarrow> m \<le> n))"
proof -
  have "streaks grid_week 5 = (1, 2)" by code_simp
  with streaks_exact [of grid_week 5] show ?thesis by blast
qed

lemma pb_value: "speedrun_pbs grid_db 1 = [\<lparr>pb_label = ''desk'', pb_seconds = 90, pb_attempts = 2, pb_set_at = 9, pb_recent = [(90, 9), (120, 5)]\<rparr>]"
  by code_simp

theorem pb_board_exact_witness:
  "\<lparr>pb_label = ''desk'', pb_seconds = 90, pb_attempts = 2, pb_set_at = 9, pb_recent = [(90, 9), (120, 5)]\<rparr>
    = pb_spec ''desk'' (runs_of ''desk'' (pb_runs grid_db 1))"
  using pb_board_exact [of grid_db 1] by (simp add: pb_value)

end
