(* ===== verification/HabitApi.thy ===== *)
theory HabitApi
  imports CharacterApi Ingest PyStr
begin

text \<open>
  The habit endpoints of \<open>app/api/routers/game_habits.py\<close> with the request validators of
  \<open>app/schemas/game.py\<close>: create under the cap, list, read, patch, delete and the idempotent click.
  A handler answers as in the character endpoints and returns the committed database, with the
  generator where it scores. A request body comes with its fields already typed; what a validator
  refuses is answered 422, whose detail is not modelled.
\<close>

subsection \<open>Validators\<close>

definition unprocessable :: http_error where "unprocessable = HTTP 422 []"

definition TEXT_MAX_LEN :: int where "TEXT_MAX_LEN = 10000"
definition TITLE_MAX_LEN :: int where "TITLE_MAX_LEN = 200"
definition MAX_REMINDERS :: int where "MAX_REMINDERS = 24"
definition MAX_HABITS_PER_USER :: int where "MAX_HABITS_PER_USER = 100"

definition DIFFICULTIES :: "string list" where
  "DIFFICULTIES = [''trivial'', ''easy'', ''medium'', ''hard'']"

text \<open>\<open>Field(min_length=1, max_length=200)\<close> and then \<open>_clean_title\<close>.\<close>

definition clean_title :: "string \<Rightarrow> string option" where
  "clean_title v = (if \<not> (1 \<le> length v \<and> int (length v) \<le> TITLE_MAX_LEN) then None
     else let t = strip v in if t = [] then None else Some t)"

definition blank_to_none :: "string option \<Rightarrow> string option" where
  "blank_to_none v = (case v of None \<Rightarrow> None | Some s \<Rightarrow> let t = strip s in if t = [] then None else Some t)"

definition clean_notes :: "string option \<Rightarrow> string option option" where
  "clean_notes v = (case v of Some s \<Rightarrow> if int (length s) > TEXT_MAX_LEN then None else Some (blank_to_none v)
     | None \<Rightarrow> Some (blank_to_none v))"

definition is_digit :: "char \<Rightarrow> bool" where
  "is_digit c \<longleftrightarrow> (let n = of_char c :: nat in 48 \<le> n \<and> n \<le> 57)"

text \<open>\<open>([01]\d|2[0-3]):[0-5]\d\<close>, the whole string.\<close>

definition reminder_time_ok :: "string \<Rightarrow> bool" where
  "reminder_time_ok s \<longleftrightarrow> (case s of
       [a, b, c, d, e] \<Rightarrow> ((a \<in> set ''01'' \<and> is_digit b) \<or> (a = CHR ''2'' \<and> b \<in> set ''0123''))
          \<and> c = CHR '':'' \<and> d \<in> set ''012345'' \<and> is_digit e
     | _ \<Rightarrow> False)"

definition reminders_ok :: "string list \<Rightarrow> bool" where
  "reminders_ok ts \<longleftrightarrow> int (length ts) \<le> MAX_REMINDERS \<and> list_all reminder_time_ok ts"

definition client_eid_ok :: "string option \<Rightarrow> bool" where
  "client_eid_ok eid \<longleftrightarrow> (case eid of None \<Rightarrow> True
     | Some v \<Rightarrow> 1 \<le> length v \<and> length v \<le> 128 \<and> \<not> starts ''server:'' v)"

record habit_in =
  hi_title :: string
  hi_notes :: "string option"
  hi_direction :: direction
  hi_difficulty :: string
  hi_reminders :: "string list"
  hi_bind :: bool

definition validate_habit_in :: "habit_in \<Rightarrow> habit_in option" where
  "validate_habit_in b = (case (clean_title (hi_title b), clean_notes (hi_notes b)) of
       (Some title, Some notes) \<Rightarrow>
         if hi_difficulty b \<in> set DIFFICULTIES \<and> reminders_ok (hi_reminders b)
         then Some (b\<lparr>hi_title := title, hi_notes := notes\<rparr>) else None
     | _ \<Rightarrow> None)"

text \<open>A partial update: a field is unset, set to null or set to a value.\<close>

datatype 'a field = Unset | Null | Given 'a

record habit_update =
  hu_title :: "string field"
  hu_notes :: "string field"
  hu_direction :: "direction field"
  hu_difficulty :: "string field"
  hu_reminders :: "string list field"
  hu_bind :: "bool field"

definition field_value :: "'a field \<Rightarrow> 'a option" where
  "field_value f = (case f of Given v \<Rightarrow> Some v | _ \<Rightarrow> None)"

text \<open>A required field: null is refused, a given value must pass.\<close>

definition required_ok :: "('a \<Rightarrow> bool) \<Rightarrow> 'a field \<Rightarrow> bool" where
  "required_ok ok f \<longleftrightarrow> (case f of Unset \<Rightarrow> True | Null \<Rightarrow> False | Given v \<Rightarrow> ok v)"

definition clean_field :: "('a \<Rightarrow> 'a option) \<Rightarrow> 'a field \<Rightarrow> 'a field" where
  "clean_field clean f = (case f of Given v \<Rightarrow> (case clean v of Some w \<Rightarrow> Given w | None \<Rightarrow> Null) | _ \<Rightarrow> f)"

definition notes_field_ok :: "string field \<Rightarrow> bool" where
  "notes_field_ok f \<longleftrightarrow> clean_notes (field_value f) \<noteq> None"

text \<open>\<open>field_value\<close> of the notes is what a set field writes: null or the stripped text.\<close>

definition validate_habit_update :: "habit_update \<Rightarrow> habit_update option" where
  "validate_habit_update b =
     (if required_ok (\<lambda>v. clean_title v \<noteq> None) (hu_title b) \<and> notes_field_ok (hu_notes b)
         \<and> required_ok (\<lambda>_. True) (hu_direction b) \<and> required_ok (\<lambda>v. v \<in> set DIFFICULTIES) (hu_difficulty b)
         \<and> required_ok reminders_ok (hu_reminders b) \<and> required_ok (\<lambda>_. True) (hu_bind b)
      then Some (b\<lparr>hu_title := clean_field clean_title (hu_title b),
                   hu_notes := clean_field (\<lambda>v. blank_to_none (Some v)) (hu_notes b)\<rparr>)
      else None)"

subsection \<open>Rows\<close>

definition get_habit :: "db \<Rightarrow> int \<Rightarrow> int \<Rightarrow> habit option" where
  "get_habit db u i = find (\<lambda>h. h_id h = i \<and> h_user h = u) (t_habits db)"

definition set_field :: "'a field \<Rightarrow> 'a \<Rightarrow> 'a" where
  "set_field f old = (case f of Given v \<Rightarrow> v | _ \<Rightarrow> old)"

definition set_nullable :: "'a field \<Rightarrow> 'a option \<Rightarrow> 'a option" where
  "set_nullable f old = (case f of Unset \<Rightarrow> old | _ \<Rightarrow> field_value f)"

definition nothing_given :: "habit_update \<Rightarrow> bool" where
  "nothing_given b \<longleftrightarrow> hu_title b = Unset \<and> hu_notes b = Unset \<and> hu_direction b = Unset
     \<and> hu_difficulty b = Unset \<and> hu_reminders b = Unset \<and> hu_bind b = Unset"

definition patched_habit :: "habit_update \<Rightarrow> habit \<Rightarrow> habit" where
  "patched_habit b h = h\<lparr>h_title := set_field (hu_title b) (h_title h),
     h_notes := set_nullable (hu_notes b) (h_notes h),
     h_direction := set_field (hu_direction b) (h_direction h),
     h_difficulty := set_field (hu_difficulty b) (h_difficulty h),
     h_reminder_times := set_field (hu_reminders b) (h_reminder_times h),
     h_bind_focus := set_field (hu_bind b) (h_bind_focus h)\<rparr>"

definition habit_404 :: http_error where "habit_404 = HTTP 404 ''Habit not found''"

subsection \<open>Endpoints\<close>

definition create_habit :: "int \<Rightarrow> habit_in \<Rightarrow> db \<Rightarrow> habit reply \<times> db" where
  "create_habit u body db =
     (case validate_habit_in body of
        None \<Rightarrow> (Inl unprocessable, db)
      | Some b \<Rightarrow>
          let (p, db1) = get_or_create_profile db u in
          if int (length (list_habits db1 u)) \<ge> MAX_HABITS_PER_USER then (Inl (HTTP 400 ''Habit limit reached''), db)
          else
            let h = \<lparr>h_id = t_next_id db1, h_user = u, h_title = hi_title b, h_direction = hi_direction b,
                     h_difficulty = hi_difficulty b, h_value = 0, h_counter = 0, h_bind_focus = hi_bind b,
                     h_reminder_times = hi_reminders b, h_notes = hi_notes b\<rparr>
            in (Inr h, db1\<lparr>t_habits := t_habits db1 @ [h], t_next_id := t_next_id db1 + 1\<rparr>))"

definition read_habits :: "int \<Rightarrow> db \<Rightarrow> habit list" where
  "read_habits u db = list_habits db u"

definition read_habit :: "int \<Rightarrow> int \<Rightarrow> db \<Rightarrow> habit reply" where
  "read_habit u i db = (case get_habit db u i of None \<Rightarrow> Inl habit_404 | Some h \<Rightarrow> Inr h)"

definition patch_habit :: "int \<Rightarrow> int \<Rightarrow> habit_update \<Rightarrow> db \<Rightarrow> habit reply \<times> db" where
  "patch_habit u i body db =
     (case validate_habit_update body of
        None \<Rightarrow> (Inl unprocessable, db)
      | Some b \<Rightarrow>
          if nothing_given b then (Inl (HTTP 400 ''No fields to update''), db)
          else let (p, db1) = get_or_create_profile db u in
            case get_habit db1 u i of
              None \<Rightarrow> (Inl habit_404, db)
            | Some h \<Rightarrow> (Inr (patched_habit b h), update_habit i (patched_habit b) db1))"

definition delete_habit :: "int \<Rightarrow> int \<Rightarrow> db \<Rightarrow> unit reply \<times> db" where
  "delete_habit u i db =
     (let (p, db1) = get_or_create_profile db u in
      case get_habit db1 u i of
        None \<Rightarrow> (Inl habit_404, db)
      | Some h \<Rightarrow> (Inr (), db1\<lparr>t_habits := filter (\<lambda>r. h_id r \<noteq> i) (t_habits db1)\<rparr>))"

text \<open>\<open>uuid\<close> is the hex string the server mints when the client sent no id; the flush of the commit is
  where the ledger's unique index is checked.\<close>

definition click_habit ::
  "env \<Rightarrow> int \<Rightarrow> int \<Rightarrow> bool \<Rightarrow> string option \<Rightarrow> string \<Rightarrow> db \<Rightarrow> rng \<Rightarrow> (habit \<times> profile_read \<times> status) reply \<times> db \<times> rng" where
  "click_habit env u i positive client_eid uuid db g =
     (if \<not> client_eid_ok client_eid then (Inl unprocessable, db, g)
      else
        let (p, db1) = get_or_create_profile db u; dir = (if positive then ''positive'' else ''negative'') in
        case get_habit db1 u i of
          None \<Rightarrow> (Inl habit_404, db, g)
        | Some h \<Rightarrow> (case load_rates db1 of
            Inl e \<Rightarrow> (Inl (Fault e), db, g)
          | Inr rates \<Rightarrow>
              if (case client_eid of Some k \<Rightarrow> k \<in> existing_event_ids db1 u [k] | None \<Rightarrow> False)
              then (Inr (h, profile_read_of env u db1 rates, Duplicate), db, g)
              else (case check_direction h dir of
                Inl e \<Rightarrow> (Inl (bad_request e), db, g)
              | Inr _ \<Rightarrow>
                  let eid = (case client_eid of Some k \<Rightarrow> k | None \<Rightarrow> ''server:habit:'' @ show_int i @ '':'' @ uuid)
                  in case score_click env i dir rates (date_of (e_now env)) eid (e_now env) [] [] None db1 g of
                       (Inl e, db2, g') \<Rightarrow> (Inl (Fault e), db, g')
                     | (Inr oc, db2, g') \<Rightarrow>
                         let db3 = post_score env u (Some {''habit_click''}) db2
                         in if \<not> ledger_unique db3 then (Inl (Fault IntegrityError), db, g')
                            else (case get_habit db3 u i of
                                None \<Rightarrow> (Inl (Fault InvalidRequestError), db3, g')
                              | Some h' \<Rightarrow> (Inr (h', profile_read_of env u db3 rates, Applied), db3, g')))))"

end
