(* ===== verification/DailyApi.thy ===== *)
theory DailyApi
  imports HabitApi
begin

text \<open>
  The daily endpoints of \<open>app/api/routers/game_dailies.py\<close> with their validators: create under the cap,
  list, read, patch with a full checklist replace, delete with the database's cascades, and the check.
\<close>

subsection \<open>Validators\<close>

definition MAX_DAILIES_PER_USER :: int where "MAX_DAILIES_PER_USER = 100"
definition MAX_ITEMS :: int where "MAX_ITEMS = 30"

text \<open>\<open>RecurrenceIn\<close>; the anchor of an interval rule is unset, null or a day.\<close>

datatype recurrence_in = R_daily | R_weekdays "int list" | R_every int "date field" | R_times int

definition valid_recurrence :: "recurrence_in \<Rightarrow> bool" where
  "valid_recurrence r \<longleftrightarrow> (case r of
       R_daily \<Rightarrow> True
     | R_weekdays ds \<Rightarrow> 1 \<le> length ds \<and> length ds \<le> 7 \<and> list_all (\<lambda>d. 0 \<le> d \<and> d \<le> 6) ds
     | R_every n a \<Rightarrow> 1 \<le> n \<and> n \<le> 365
     | R_times n \<Rightarrow> 1 \<le> n \<and> n \<le> 7)"

text \<open>\<open>model_dump(mode="json")\<close>: create drops nulls, patch keeps what was set.\<close>

definition dump_recurrence :: "bool \<Rightarrow> recurrence_in \<Rightarrow> dict" where
  "dump_recurrence drop_null r = (case r of
       R_daily \<Rightarrow> [(''kind'', JStr ''daily'')]
     | R_weekdays ds \<Rightarrow> [(''kind'', JStr ''weekdays''), (''days'', JArr (map JInt (sort (remdups ds))))]
     | R_every n a \<Rightarrow> [(''kind'', JStr ''every_n_days''), (''interval'', JInt n)]
         @ (case a of Given d \<Rightarrow> [(''anchor'', JStr (isoformat d))]
            | Null \<Rightarrow> if drop_null then [] else [(''anchor'', JNull)] | Unset \<Rightarrow> [])
     | R_times n \<Rightarrow> [(''kind'', JStr ''times_per_week''), (''count'', JInt n)])"

record item_in =
  ii_title :: string
  ii_position :: "int option"

definition clean_item :: "item_in \<Rightarrow> item_in option" where
  "clean_item it = (case clean_title (ii_title it) of None \<Rightarrow> None
     | Some t \<Rightarrow> if (case ii_position it of Some p \<Rightarrow> p < 0 | None \<Rightarrow> False) then None else Some (it\<lparr>ii_title := t\<rparr>))"

definition clean_items :: "item_in list \<Rightarrow> item_in list option" where
  "clean_items its = (if int (length its) > MAX_ITEMS \<or> None \<in> set (map clean_item its) then None
     else Some (List.map_filter clean_item its))"

record daily_in =
  dn_title :: string
  dn_notes :: "string option"
  dn_difficulty :: string
  dn_recurrence :: recurrence_in
  dn_items :: "item_in list"
  dn_reminders :: "string list"

definition validate_daily_in :: "daily_in \<Rightarrow> daily_in option" where
  "validate_daily_in b = (case (clean_title (dn_title b), clean_notes (dn_notes b), clean_items (dn_items b)) of
       (Some title, Some notes, Some items) \<Rightarrow>
         if dn_difficulty b \<in> set DIFFICULTIES \<and> valid_recurrence (dn_recurrence b) \<and> reminders_ok (dn_reminders b)
         then Some (b\<lparr>dn_title := title, dn_notes := notes, dn_items := items\<rparr>) else None
     | _ \<Rightarrow> None)"

record daily_update =
  du_title :: "string field"
  du_notes :: "string field"
  du_difficulty :: "string field"
  du_recurrence :: "recurrence_in field"
  du_items :: "item_in list field"
  du_reminders :: "string list field"
  du_active :: "bool field"

definition validate_daily_update :: "daily_update \<Rightarrow> daily_update option" where
  "validate_daily_update b =
     (if required_ok (\<lambda>v. clean_title v \<noteq> None) (du_title b) \<and> notes_field_ok (du_notes b)
         \<and> required_ok (\<lambda>v. v \<in> set DIFFICULTIES) (du_difficulty b) \<and> required_ok valid_recurrence (du_recurrence b)
         \<and> required_ok (\<lambda>v. clean_items v \<noteq> None) (du_items b) \<and> required_ok reminders_ok (du_reminders b)
         \<and> required_ok (\<lambda>_. True) (du_active b)
      then Some (b\<lparr>du_title := clean_field clean_title (du_title b),
                   du_notes := clean_field (\<lambda>v. blank_to_none (Some v)) (du_notes b),
                   du_items := clean_field clean_items (du_items b)\<rparr>)
      else None)"

subsection \<open>Rows\<close>

definition count_dailies :: "db \<Rightarrow> int \<Rightarrow> int" where
  "count_dailies db u = int (length (filter (\<lambda>d. d_user d = u) (t_dailies db)))"

text \<open>\<open>_item_rows\<close> with the ids the flush hands out.\<close>

definition item_rows :: "int \<Rightarrow> int \<Rightarrow> item_in list \<Rightarrow> daily_item list" where
  "item_rows first did its = map (\<lambda>(i, it). \<lparr>di_id = first + int i, di_daily = did, di_title = ii_title it,
     di_position = (case ii_position it of Some p \<Rightarrow> p | None \<Rightarrow> int i)\<rparr>) (enumerate 0 its)"

definition add_items :: "int \<Rightarrow> item_in list \<Rightarrow> db \<Rightarrow> db" where
  "add_items did its db = db\<lparr>t_daily_items := t_daily_items db @ item_rows (t_next_id db) did its,
     t_next_id := t_next_id db + int (length its)\<rparr>"

text \<open>Deleting the checklist of a daily; the foreign key of the marks cascades.\<close>

definition drop_items :: "int \<Rightarrow> db \<Rightarrow> db" where
  "drop_items did db =
     (let gone = di_id ` set (filter (\<lambda>i. di_daily i = did) (t_daily_items db))
      in db\<lparr>t_daily_items := filter (\<lambda>i. di_daily i \<noteq> did) (t_daily_items db),
            t_daily_checks := filter (\<lambda>c. \<not> (\<exists>i \<in> gone. dc_item c = Some i)) (t_daily_checks db)\<rparr>)"

text \<open>Deleting a daily; its items, marks and misses cascade.\<close>

definition drop_daily :: "int \<Rightarrow> db \<Rightarrow> db" where
  "drop_daily did db =
     (let db1 = drop_items did db
      in db1\<lparr>t_dailies := filter (\<lambda>d. d_id d \<noteq> did) (t_dailies db1),
             t_daily_checks := filter (\<lambda>c. dc_daily c \<noteq> did) (t_daily_checks db1),
             t_daily_misses := filter (\<lambda>m. dm_daily m \<noteq> did) (t_daily_misses db1)\<rparr>)"

text \<open>\<open>DailyRead.from_rows\<close>: the row, its checklist with the day's flags, and the master mark.\<close>

record daily_read =
  dd_row :: daily
  dd_items :: "(daily_item \<times> bool) list"
  dd_completed :: bool

definition daily_read_of :: "db \<Rightarrow> date \<Rightarrow> daily \<Rightarrow> daily_read" where
  "daily_read_of db today d =
     (let done_marks = filter dc_done (list_daily_checks db [d_id d] today today)
      in \<lparr>dd_row = d, dd_items = map (\<lambda>i. (i, \<exists>c \<in> set done_marks. dc_item c = Some (di_id i))) (list_daily_items db (d_id d)),
          dd_completed = (\<exists>c \<in> set done_marks. dc_item c = None)\<rparr>)"

definition daily_404 :: http_error where "daily_404 = HTTP 404 ''Daily not found''"

subsection \<open>Endpoints\<close>

definition create_daily :: "env \<Rightarrow> int \<Rightarrow> daily_in \<Rightarrow> db \<Rightarrow> daily_read reply \<times> db" where
  "create_daily env u body db =
     (case validate_daily_in body of
        None \<Rightarrow> (Inl unprocessable, db)
      | Some b \<Rightarrow>
          let today = date_of (e_now env); (p, db1) = get_or_create_profile db u in
          if count_dailies db1 u \<ge> MAX_DAILIES_PER_USER then (Inl (HTTP 400 ''Daily limit reached''), db)
          else
            let d = \<lparr>d_id = t_next_id db1, d_user = u, d_title = dn_title b, d_difficulty = dn_difficulty b,
                     d_recurrence = JObj (recurrence_for_storage (dump_recurrence True (dn_recurrence b)) today None),
                     d_streak = 0, d_active = True, d_reminder_times = dn_reminders b, d_created_at = e_now env,
                     d_notes = dn_notes b\<rparr>;
                db2 = add_items (d_id d) (dn_items b)
                  (db1\<lparr>t_dailies := t_dailies db1 @ [d], t_next_id := t_next_id db1 + 1\<rparr>)
            in (Inr (daily_read_of db2 today d), db2))"

definition read_dailies :: "env \<Rightarrow> int \<Rightarrow> db \<Rightarrow> daily_read list" where
  "read_dailies env u db = map (daily_read_of db (date_of (e_now env))) (list_dailies db u)"

definition read_daily :: "env \<Rightarrow> int \<Rightarrow> int \<Rightarrow> db \<Rightarrow> daily_read reply" where
  "read_daily env u i db = (case get_daily db u i of None \<Rightarrow> Inl daily_404
     | Some d \<Rightarrow> Inr (daily_read_of db (date_of (e_now env)) d))"

definition nothing_given_daily :: "daily_update \<Rightarrow> bool" where
  "nothing_given_daily b \<longleftrightarrow> du_title b = Unset \<and> du_notes b = Unset \<and> du_difficulty b = Unset
     \<and> du_recurrence b = Unset \<and> du_items b = Unset \<and> du_reminders b = Unset \<and> du_active b = Unset"

definition patched_daily :: "daily_update \<Rightarrow> date \<Rightarrow> daily \<Rightarrow> daily" where
  "patched_daily b today d = d\<lparr>d_title := set_field (du_title b) (d_title d),
     d_notes := set_nullable (du_notes b) (d_notes d),
     d_difficulty := set_field (du_difficulty b) (d_difficulty d),
     d_recurrence := (case du_recurrence b of
         Given r \<Rightarrow> JObj (recurrence_for_storage (dump_recurrence False r) today (Some (d_recurrence d)))
       | _ \<Rightarrow> d_recurrence d),
     d_reminder_times := set_field (du_reminders b) (d_reminder_times d),
     d_active := set_field (du_active b) (d_active d)\<rparr>"

text \<open>The perfect-day badge is re-evaluated over the full history when an edit can shrink a due set.\<close>

definition reopen_badges :: "env \<Rightarrow> int \<Rightarrow> db \<Rightarrow> db" where
  "reopen_badges env u db = snd (evaluate_grants env u (Some {''daily_check''}) True db)"

definition patch_daily :: "env \<Rightarrow> int \<Rightarrow> int \<Rightarrow> daily_update \<Rightarrow> db \<Rightarrow> daily_read reply \<times> db" where
  "patch_daily env u i body db =
     (case validate_daily_update body of
        None \<Rightarrow> (Inl unprocessable, db)
      | Some b \<Rightarrow>
          if nothing_given_daily b then (Inl (HTTP 400 ''No fields to update''), db)
          else let today = date_of (e_now env); (p, db1) = get_or_create_profile db u in
            case get_daily db1 u i of
              None \<Rightarrow> (Inl daily_404, db)
            | Some d \<Rightarrow>
                let db2 = update_daily i (patched_daily b today) db1;
                    db3 = (case du_items b of Given its \<Rightarrow> add_items i its (drop_items i db2) | _ \<Rightarrow> db2);
                    db4 = (if du_recurrence b \<noteq> Unset \<or> du_active b = Given False then reopen_badges env u db3 else db3)
                in (Inr (daily_read_of db4 today (patched_daily b today d)), db4))"

definition delete_daily :: "env \<Rightarrow> int \<Rightarrow> int \<Rightarrow> db \<Rightarrow> unit reply \<times> db" where
  "delete_daily env u i db =
     (let (p, db1) = get_or_create_profile db u in
      case get_daily db1 u i of
        None \<Rightarrow> (Inl daily_404, db)
      | Some d \<Rightarrow> (Inr (), reopen_badges env u (drop_daily i db1)))"

record check_in =
  ck_item :: "int option"
  ck_date :: "date option"
  ck_done :: bool
  ck_eid :: "string option"

definition check_in_ok :: "check_in \<Rightarrow> bool" where
  "check_in_ok b \<longleftrightarrow> (case ck_item b of Some i \<Rightarrow> 1 \<le> i | None \<Rightarrow> True) \<and> client_eid_ok (ck_eid b)"

definition check_daily ::
  "env \<Rightarrow> int \<Rightarrow> int \<Rightarrow> check_in \<Rightarrow> string \<Rightarrow> db \<Rightarrow> rng \<Rightarrow> (daily_read \<times> profile_read \<times> status) reply \<times> db \<times> rng" where
  "check_daily env u i b uuid db g =
     (if \<not> check_in_ok b then (Inl unprocessable, db, g)
      else
        let today = date_of (e_now env); (p, db1) = get_or_create_profile db u in
        case get_daily db1 u i of
          None \<Rightarrow> (Inl daily_404, db, g)
        | Some d \<Rightarrow> (case load_rates db1 of
            Inl e \<Rightarrow> (Inl (Fault e), db, g)
          | Inr rates \<Rightarrow>
              if (case ck_eid b of Some k \<Rightarrow> k \<in> existing_event_ids db1 u [k] | None \<Rightarrow> False)
              then (Inr (daily_read_of db1 today d, profile_read_of env u db1 rates, Duplicate), db, g)
              else
                let day = (case ck_date b of Some x \<Rightarrow> x | None \<Rightarrow> today);
                    eid = (case ck_eid b of Some k \<Rightarrow> k | None \<Rightarrow> ''server:daily:'' @ show_int i @ '':check:'' @ uuid)
                in case score_check env i (list_daily_items db1 i) (ck_item b) day rates today eid (e_now env) []
                          (Some (JBool (ck_done b))) None db1 g of
                     (Inl e, db2, g') \<Rightarrow> (Inl (bad_request e), db, g')
                   | (Inr oc, db2, g') \<Rightarrow>
                       let db3 = post_score env u (Some {''daily_check''}) db2
                       in if \<not> ledger_unique db3 then (Inl (Fault IntegrityError), db, g')
                          else (case get_daily db3 u i of
                              None \<Rightarrow> (Inl (Fault InvalidRequestError), db3, g')
                            | Some d' \<Rightarrow> (Inr (daily_read_of db3 today d', profile_read_of env u db3 rates, Applied), db3, g'))))"

end
