(* ===== verification/EditorFacts.thy ===== *)
theory EditorFacts
  imports DailyApi IngestLaws RecurrenceLaws
begin

text \<open>
  What scoring leaves alone of the rows the editors own: a click changes a habit's value and counter, a
  check a daily's streak and its marks, and nothing else of habits, dailies, checklists and misses moves.
\<close>

subsection \<open>What scoring leaves alone\<close>

definition habit_face :: "habit \<Rightarrow> habit" where
  "habit_face h = h\<lparr>h_value := 0, h_counter := 0\<rparr>"

definition daily_face :: "daily \<Rightarrow> daily" where
  "daily_face d = d\<lparr>d_streak := 0\<rparr>"

text \<open>Marks name a daily and, if any, an item of it; one mark per day and target.\<close>

definition mark_sound :: "db \<Rightarrow> daily_check \<Rightarrow> bool" where
  "mark_sound db c \<longleftrightarrow> dc_daily c \<in> set (map d_id (t_dailies db))
     \<and> (\<forall>n. dc_item c = Some n \<longrightarrow> (n, dc_daily c) \<in> set (map (\<lambda>i. (di_id i, di_daily i)) (t_daily_items db)))"

definition mark_key :: "daily_check \<Rightarrow> int \<times> int option \<times> date" where
  "mark_key c = (dc_daily c, dc_item c, dc_date c)"

definition marks_ok :: "db \<Rightarrow> bool" where
  "marks_ok db \<longleftrightarrow> (\<forall>c \<in> set (t_daily_checks db). mark_sound db c) \<and> distinct (map mark_key (t_daily_checks db))"

definition steady :: "db \<Rightarrow> db \<Rightarrow> bool" where
  "steady a b \<longleftrightarrow> t_next_id a \<le> t_next_id b \<and> map habit_face (t_habits b) = map habit_face (t_habits a)
     \<and> map daily_face (t_dailies b) = map daily_face (t_dailies a)
     \<and> t_daily_items b = t_daily_items a \<and> t_daily_misses b = t_daily_misses a \<and> (marks_ok a \<longrightarrow> marks_ok b)"

named_theorems steady_steps \<open>scoring keeps the editable rows\<close>

lemma steady_refl [simp]: "steady db db"
  by (simp add: steady_def)

lemma steady_trans: "steady a b \<Longrightarrow> steady b c \<Longrightarrow> steady a c"
  by (simp add: steady_def)

text \<open>Most steps leave the tables of the editors alone altogether.\<close>

definition same_rows :: "db \<Rightarrow> db \<Rightarrow> bool" where
  "same_rows a b \<longleftrightarrow> t_next_id a \<le> t_next_id b \<and> t_habits b = t_habits a \<and> t_dailies b = t_dailies a
     \<and> t_daily_items b = t_daily_items a \<and> t_daily_misses b = t_daily_misses a \<and> t_daily_checks b = t_daily_checks a"

lemma same_rows_refl [simp]: "same_rows db db"
  by (simp add: same_rows_def)

lemma same_rows_trans: "same_rows a b \<Longrightarrow> same_rows b c \<Longrightarrow> same_rows a c"
  by (simp add: same_rows_def)

lemma steady_same: "same_rows a b \<Longrightarrow> steady a b"
  by (simp add: same_rows_def steady_def marks_ok_def mark_sound_def)

lemma same_rows_put [steady_steps]: "same_rows db (put_profile u p db)" "same_rows db (add_event e db)"
  by (simp_all add: same_rows_def put_profile_def add_event_def)

lemma same_rows_dispatch [steady_steps]: "same_rows db (dispatch_notification env u k t m url meta ex db)"
  by (auto simp: same_rows_def dispatch_notification_def Let_def)

lemma same_rows_notify [steady_steps]:
  "same_rows db (notify_score_outcome env u h oc db)"
  "same_rows db (notify_phase_end env u ts mins db)"
  by (auto simp: notify_score_outcome_def notify_phase_end_def Let_def
      intro: same_rows_trans same_rows_dispatch split: option.splits)

lemma same_rows_grants [steady_steps]:
  "same_rows db (snd (evaluate_grants env u types full db))" "same_rows db (post_score env u types db)"
proof -
  have seed: "same_rows db (seed_achievements db)" for db
    by (simp add: same_rows_def seed_achievements_def Let_def)
  have grant: "same_rows db (grant u a db)" for a db
    by (simp add: same_rows_def grant_def put_profile_def)
  have loop: "same_rows db (snd (grant_loop env u types full as db))" for types full as db
    by (induction as arbitrary: db) (auto split: prod.splits intro: same_rows_trans [OF grant], metis grant same_rows_trans snd_conv)
  have notify: "same_rows db (notify_grants env u as db)" for as db
    unfolding notify_grants_def
    by (induction as arbitrary: db) (auto intro: same_rows_trans [OF same_rows_dispatch])
  have eval: "same_rows db (snd (evaluate_grants env u types full db))" for types full db
    using same_rows_trans [OF seed same_rows_trans [OF loop notify]]
    by (simp add: evaluate_grants_def Let_def split_beta)
  then show "same_rows db (snd (evaluate_grants env u types full db))" .
  have "same_rows db (auto_distribute u db)" for db by (simp add: auto_distribute_def same_rows_put)
  then show "same_rows db (post_score env u types db)"
    unfolding post_score_def by (rule same_rows_trans [OF _ eval])
qed

lemma same_rows_death [steady_steps]: "resolve_death_gear u oc db g = (oc', db', g') \<Longrightarrow> same_rows db db'"
  by (auto simp: resolve_death_gear_def lose_random_gear_def Let_def same_rows_def split: if_splits prod.splits)

lemma steady_update_habit: "(\<And>h. habit_face (f h) = habit_face h) \<Longrightarrow> steady db (update_habit i f db)"
  by (simp add: steady_def update_habit_def map_update_where marks_ok_def mark_sound_def)

lemma steady_update_daily:
  assumes "\<And>d. daily_face (f d) = daily_face d"
  shows "steady db (update_daily i f db)"
proof -
  have "d_id (f d) = d_id d" for d using arg_cong [OF assms [of d], of d_id] by (simp add: daily_face_def)
  then show ?thesis
    by (simp add: steady_def update_daily_def map_update_where assms marks_ok_def mark_sound_def)
qed

lemma steady_scored:
  assumes "resolve_death_gear u oc (put_profile u p db) g = (oc', db', g')"
  shows "same_rows db (notify_score_outcome env u h oc'' db')"
  by (rule same_rows_trans [OF same_rows_put(1) same_rows_trans [OF same_rows_death [OF assms] same_rows_notify(1)]])

lemma steady_click [steady_steps]:
  assumes "score_click env hid dir rates today eid ts extra sx bs db g = (res, db', g')"
  shows "steady db db'"
proof -
  have face: "habit_face (clicked dir oc h) = habit_face h" for oc h
    by (simp add: clicked_def habit_face_def)
  have step: "steady db (add_event e (update_habit hid (clicked dir oc) (notify_score_outcome env u hp0 oc db1)))"
    if "resolve_death_gear u oc0 (put_profile u p' db) g2 = (oc, db1, g3)" for u e oc oc0 p' g2 db1 g3 hp0
    by (rule steady_trans [OF steady_same [OF steady_scored [OF that]]
          steady_trans [OF steady_update_habit [OF face] steady_same [OF same_rows_put(2)]]])
  show ?thesis
    using assms by (auto simp: score_click_def Let_def intro!: step split: option.splits sum.splits prod.splits)
qed

subsection \<open>Checks\<close>

lemma mark_at_none: "mark_at db did day item = None \<Longrightarrow> (did, item, day) \<notin> mark_key ` set (t_daily_checks db)"
  by (auto simp: mark_at_def find_None_iff list_daily_checks_def mark_key_def)

lemma marks_set: "marks_ok db \<Longrightarrow> marks_ok (set_mark did day item b db)"
  by (auto simp: marks_ok_def set_mark_def mark_sound_def map_update_where mark_key_def dest!: update_where_set)

lemma marks_add:
  assumes "marks_ok db" "mark_at db did day item = None" "did \<in> set (map d_id (t_dailies db))"
    and "\<And>n. item = Some n \<Longrightarrow> (n, did) \<in> set (map (\<lambda>i. (di_id i, di_daily i)) (t_daily_items db))"
  shows "marks_ok (add_mark env did day item db)"
  using assms mark_at_none [OF assms(2)] by (auto simp: marks_ok_def add_mark_def mark_sound_def mark_key_def)

lemma steady_set_mark: "steady db (set_mark did day item b db)"
  using marks_set [of db did day item b] by (simp add: steady_def) (simp add: set_mark_def)

definition markable :: "db \<Rightarrow> int \<Rightarrow> int option \<Rightarrow> bool" where
  "markable db did item \<longleftrightarrow> did \<in> set (map d_id (t_dailies db))
     \<and> (\<forall>n. item = Some n \<longrightarrow> (n, did) \<in> set (map (\<lambda>i. (di_id i, di_daily i)) (t_daily_items db)))"

lemma steady_add_mark: "markable db did item \<Longrightarrow> mark_at db did day item = None \<Longrightarrow> steady db (add_mark env did day item db)"
  using marks_add [of db did day item env] by (auto simp: steady_def markable_def) (simp_all add: add_mark_def)

lemma markable_add: "markable (add_mark env did day item db) did i = markable db did i"
  by (simp add: markable_def add_mark_def)

lemma find_snoc: "\<not> P x \<Longrightarrow> find P (xs @ [x]) = find P xs"
  by (induction xs) auto

lemma mark_at_add: "i \<noteq> item \<Longrightarrow> mark_at (add_mark env did day item db) did day i = mark_at db did day i"
  by (simp add: mark_at_def add_mark_def list_daily_checks_def find_snoc)

lemma find_update_where: "(\<And>r. P (f r) = P r) \<Longrightarrow> find P (update_where R f rows) = None \<longleftrightarrow> find P rows = None"
  by (induction rows) (auto simp: update_where_def)

lemma mark_at_set: "mark_at (set_mark did day item b db) did day i = None \<longleftrightarrow> mark_at db did day i = None"
  by (simp add: mark_at_def list_daily_checks_def set_mark_def filter_update_where find_update_where)

lemma steady_transition:
  assumes "markable db did item"
  shows "steady db (snd (transition_marks env did n item day b db))"
proof -
  have master: "markable db did None" using assms by (simp add: markable_def)
  have two: "steady db (set_mark did day None True (set_mark did day item True db))"
    "steady db (set_mark did day None False (set_mark did day item False db))"
    by (rule steady_trans [OF steady_set_mark steady_set_mark])+
  have add: "steady db (set_mark did day None True (add_mark env did day item db))" if "mark_at db did day item = None"
    by (rule steady_trans [OF steady_add_mark [OF assms that] steady_set_mark])
  have add2: "steady db (add_mark env did day None (add_mark env did day item db))"
    if "mark_at db did day item = None" "mark_at db did day None = None" "item \<noteq> None"
  proof (rule steady_trans [OF steady_add_mark [OF assms that(1)] steady_add_mark])
    show "markable (add_mark env did day item db) did None" by (simp add: markable_add master)
    show "mark_at (add_mark env did day item db) did day None = None" using mark_at_add [of None item] that(2,3) by (cases item) simp_all
  qed
  have mixed: "steady db (add_mark env did day None (set_mark did day item True db))" if "mark_at db did day None = None" "item \<noteq> None"
  proof -
    have "mark_at (set_mark did day item True db) did day None = None"
      using that by (simp add: mark_at_set)
    moreover have "markable (set_mark did day item True db) did None" using master by (simp add: markable_def set_mark_def)
    ultimately show ?thesis using steady_trans [OF steady_set_mark steady_add_mark] by blast
  qed
  show ?thesis
    using steady_add_mark [OF assms] steady_add_mark [OF master] steady_set_mark two add add2 mixed
    by (simp add: transition_marks_def Let_def)
qed

lemma steady_share:
  assumes "apply_share env did sh day rates today bs db g = (res, db', g')"
  shows "same_rows db db'"
  using assms by (auto simp: apply_share_def Let_def intro: steady_scored split: option.splits if_splits prod.splits sum.splits)

lemma steady_check:
  assumes "score_check env did (list_daily_items db did) item day rates today eid ts extra flag bs db g = (res, db', g')"
  shows "steady db db'"
proof (cases "daily_row db did")
  case None
  with assms show ?thesis by (simp add: score_check_def)
next
  case (Some d)
  show ?thesis
  proof (cases "check_guard d (list_daily_items db did) item day today flag")
    case (Inl e)
    with assms Some show ?thesis by (simp add: score_check_def)
  next
    case (Inr is_done)
    have "\<exists>i \<in> set (list_daily_items db did). item = Some (di_id i)" if "item \<noteq> None"
      using Inr that by (auto simp: check_guard_def split: if_splits)
    then have m: "markable db did item"
      using Some by (force simp: markable_def list_daily_items_def daily_row_def find_Some_iff)
    let ?n = "int (length (list_daily_items db did))"
    obtain tr db1 where tr: "transition_marks env did ?n item day is_done db = (tr, db1)" by force
    define db2 where "db2 = (if earns_streak db1 d day (tr_first tr)
      then update_daily did (\<lambda>r. r\<lparr>d_streak := d_streak r + 1\<rparr>) db1 else db1)"
    have "steady db1 db2" by (simp add: db2_def steady_update_daily daily_face_def)
    then have s: "steady db db2" using steady_transition [OF m, of env ?n day is_done] tr steady_trans by simp
    have sh: "steady db db3" if "apply_share env did x day rates today bs db2 g = (r, db3, g3)" for x r db3 g3
      using steady_trans [OF s steady_same [OF steady_share [OF that]]] .
    have ev: "steady db (add_event e x)" if "steady db x" for e x
      using steady_trans [OF that steady_same [OF same_rows_put(2)]] .
    show ?thesis
      using assms Some Inr tr s sh ev
      by (auto simp: score_check_def Let_def db2_def [symmetric] split: option.splits if_splits sum.splits prod.splits)
  qed
qed

subsection \<open>Batches\<close>

lemma steady_auto_clicks:
  "auto_click_loop env rates today src ts sx limit bs hs spent db g = (res, db', g') \<Longrightarrow> steady db db'"
proof (induction hs arbitrary: spent db g)
  case (Cons h hs)
  show ?case
  proof (cases "spent \<ge> limit \<or> \<not> h_bind_focus h \<or> h_direction h = NEGATIVE")
    case False
    obtain r db1 g1 where c: "score_click env (h_id h) ''positive'' rates today (auto_click_eid env (h_id h) src) ts []
        (dict_set sx ''auto'' (JBool True)) (Some bs) db g = (r, db1, g1)"
      using prod_cases3 by blast
    from False Cons.prems c Cons.IH [of "spent + 1" db1 g1] steady_trans [OF steady_click [OF c]] steady_click [OF c]
    show ?thesis by (auto split: sum.splits)
  qed (use Cons in \<open>auto split: if_splits\<close>)
qed simp

lemma steady_one:
  assumes "ingest_one env u habits dailies rates today (idx, e) b = Inr b'"
  shows "steady (b_db b) (b_db b')"
proof -
  have unsc: "steady db (record_unscored u e why db)" for why db
    unfolding record_unscored_def by (rule steady_same [OF same_rows_put(2)])
  have dist: "steady a (auto_distribute u db)" if "steady a db" for a db
    by (rule steady_trans [OF that steady_same]) (simp add: auto_distribute_def same_rows_put)
  have click: "steady (b_db b) db1" if "ingest_habit_click env u e habits rates today bs (b_db b) g = (Inr (oc, db1), g1)" for bs g oc db1 g1
    using that steady_click unsc
    by (auto simp: ingest_habit_click_def split: option.splits json.splits if_splits elim!: or_unscored_cases)
  have check: "steady (b_db b) db1" if "ingest_daily_check env u e dailies rates today bs (b_db b) g = (Inr (oc, db1), g1)" for bs g oc db1 g1
    using that steady_check unsc
    by (auto simp: ingest_daily_check_def Let_def split: option.splits json.splits if_splits elim!: or_unscored_cases)
  have generic: "steady (b_db b) db1" if "apply_generic env u e rates today bs (b_db b) g = (Inr (oc, db1), g1)" for bs g oc db1 g1
    using that steady_same [OF steady_scored] steady_trans [OF steady_same [OF steady_scored] steady_same [OF same_rows_notify(2)]]
    by (auto simp: apply_generic_def Let_def split: prod.splits sum.splits py_error.splits if_splits)
  have fan: "steady (b_db b1) (b_db b2)" if "ingest_fanout env u e habits rates today oc b1 = Inr b2" for oc b1 b2
    using that by (auto simp: ingest_fanout_def Let_def auto_click_bound_def intro: steady_auto_clicks
        split: if_splits prod.splits sum.splits)
  have both: "steady (b_db b) (b_db b2)" if "apply_generic env u e rates today bs (b_db b) g = (Inr (oc, db1), g1)"
    "ingest_fanout env u e habits rates today oc b1 = Inr b2" "b_db b1 = add_event x db1" for bs g oc db1 g1 b1 b2 x
    using steady_trans [OF generic [OF that(1)] steady_trans [OF steady_same [OF same_rows_put(2)]]] fan [OF that(2)] that(3) by simp
  show ?thesis
    using assms dist click check
    by (auto simp: ingest_one_def mark_applied_def Let_def bind_r_def split: if_splits prod.splits sum.splits
        intro!: dist) (erule (1) both, simp)
qed

lemma steady_loop: "ingest_loop env u habits dailies rates today xs b = Inr b' \<Longrightarrow> steady (b_db b) (b_db b')"
proof (induction xs arbitrary: b)
  case (Cons x xs)
  then show ?case by (cases x) (auto simp: bind_r_def split: sum.splits intro: steady_trans dest: steady_one)
qed simp

lemma steady_batch:
  assumes "ingest_events env u events db g = Inr (res, db', g')"
  shows "steady db db'"
proof -
  obtain rates habits dailies today xs b0 b types where "ingest_loop env u habits dailies rates today xs b0 = Inr b"
      "b_db b0 = put_profile u (profile_of db u) db" "db' = b_db b \<or> db' = post_score env u types (b_db b)"
    using assms unfolding ingest_events_def get_or_create_profile_def Let_def prod.case
    by (fastforce simp: bind_r_def split: sum.splits if_splits)
  then have "steady (put_profile u (profile_of db u) db) db'"
    using steady_loop steady_trans steady_same [OF same_rows_grants(2)] by metis
  then show ?thesis by (rule steady_trans [OF steady_same [OF same_rows_put(1)]])
qed

end
