(* ===== verification/EditorRows.thy ===== *)
theory EditorRows
  imports EditorFacts RecurrenceLaws
begin

text \<open>
  The invariant of the habit and daily editors, \<open>rows_ok\<close>: rows the validators accept, ids below the
  next one handed out, caps, and checklists, marks and misses that refer to rows that exist. Scoring
  keeps it because it is steady, and so does each edit of the tables.
\<close>

subsection \<open>Valid rows\<close>

definition habit_valid :: "int \<Rightarrow> habit \<Rightarrow> bool" where
  "habit_valid limit h \<longleftrightarrow> h_id h < limit \<and> h_title h \<noteq> [] \<and> h_difficulty h \<in> set DIFFICULTIES
     \<and> list_all reminder_time_ok (h_reminder_times h)"

definition daily_valid :: "int \<Rightarrow> daily \<Rightarrow> bool" where
  "daily_valid limit d \<longleftrightarrow> d_id d < limit \<and> d_title d \<noteq> [] \<and> d_difficulty d \<in> set DIFFICULTIES
     \<and> list_all reminder_time_ok (d_reminder_times d) \<and> parse_recurrence (d_recurrence d) \<noteq> None"

definition habits_of :: "int \<Rightarrow> habit list \<Rightarrow> nat" where
  "habits_of u hs = length (filter (\<lambda>h. h_user h = u) hs)"

definition dailies_of :: "int \<Rightarrow> daily list \<Rightarrow> nat" where
  "dailies_of u ds = length (filter (\<lambda>d. d_user d = u) ds)"

definition items_of :: "int \<Rightarrow> daily_item list \<Rightarrow> nat" where
  "items_of i is = length (filter (\<lambda>x. di_daily x = i) is)"

definition checklists_ok :: "db \<Rightarrow> bool" where
  "checklists_ok db \<longleftrightarrow> distinct (map di_id (t_daily_items db))
     \<and> (\<forall>x \<in> set (t_daily_items db). di_id x < t_next_id db \<and> di_daily x \<in> set (map d_id (t_dailies db)))
     \<and> (\<forall>i. items_of i (t_daily_items db) \<le> 30)"

definition rows_ok :: "db \<Rightarrow> bool" where
  "rows_ok db \<longleftrightarrow> distinct (map h_id (t_habits db)) \<and> distinct (map d_id (t_dailies db))
     \<and> (\<forall>h \<in> set (t_habits db). habit_valid (t_next_id db) h) \<and> (\<forall>d \<in> set (t_dailies db). daily_valid (t_next_id db) d)
     \<and> (\<forall>u. habits_of u (t_habits db) \<le> 100 \<and> dailies_of u (t_dailies db) \<le> 100)
     \<and> checklists_ok db \<and> marks_ok db
     \<and> (\<forall>m \<in> set (t_daily_misses db). (dm_daily m, dm_user m) \<in> set (map (\<lambda>d. (d_id d, d_user d)) (t_dailies db)))"

text \<open>Everything but the marks reads off the faces of the rows.\<close>

lemma habit_face_simps [simp]:
  "h_id (habit_face h) = h_id h" "h_user (habit_face h) = h_user h" "habit_valid n (habit_face h) = habit_valid n h"
  by (simp_all add: habit_face_def habit_valid_def)

lemma daily_face_simps [simp]:
  "d_id (daily_face d) = d_id d" "d_user (daily_face d) = d_user d" "daily_valid n (daily_face d) = daily_valid n d"
  by (simp_all add: daily_face_def daily_valid_def)

lemma steady_tables:
  assumes "steady a b"
  shows "map h_id (t_habits b) = map h_id (t_habits a)" "map d_id (t_dailies b) = map d_id (t_dailies a)"
    "map (\<lambda>d. (d_id d, d_user d)) (t_dailies b) = map (\<lambda>d. (d_id d, d_user d)) (t_dailies a)"
    "map (habit_valid n) (t_habits b) = map (habit_valid n) (t_habits a)"
    "map (daily_valid n) (t_dailies b) = map (daily_valid n) (t_dailies a)"
    "habits_of u (t_habits b) = habits_of u (t_habits a)" "dailies_of u (t_dailies b) = dailies_of u (t_dailies a)"
proof -
  have "map habit_face (t_habits b) = map habit_face (t_habits a)" using assms by (simp add: steady_def)
  note hf = arg_cong [OF this, of "map f" for f]
  have h: "map f (t_habits b) = map f (t_habits a)" if "\<And>x. f (habit_face x) = f x" for f :: "habit \<Rightarrow> 'x"
    using hf [of f] that by (simp add: comp_def)
  have "map daily_face (t_dailies b) = map daily_face (t_dailies a)" using assms by (simp add: steady_def)
  note df = arg_cong [OF this, of "map f" for f]
  have d: "map f (t_dailies b) = map f (t_dailies a)" if "\<And>x. f (daily_face x) = f x" for f :: "daily \<Rightarrow> 'x"
    using df [of f] that by (simp add: comp_def)
  show "map h_id (t_habits b) = map h_id (t_habits a)" "map (habit_valid n) (t_habits b) = map (habit_valid n) (t_habits a)"
    by (rule h, simp)+
  show "map d_id (t_dailies b) = map d_id (t_dailies a)" "map (daily_valid n) (t_dailies b) = map (daily_valid n) (t_dailies a)"
    "map (\<lambda>d. (d_id d, d_user d)) (t_dailies b) = map (\<lambda>d. (d_id d, d_user d)) (t_dailies a)"
    by (rule d, simp)+
  have owners: "habits_of u hs = length (filter (\<lambda>v. v = u) (map h_user hs))" "dailies_of u ds = length (filter (\<lambda>v. v = u) (map d_user ds))"
    for hs ds by (simp_all add: habits_of_def dailies_of_def filter_map comp_def)
  have "map h_user (t_habits b) = map h_user (t_habits a)" by (rule h) simp
  then show "habits_of u (t_habits b) = habits_of u (t_habits a)"
    by (simp only: owners)
  have "map d_user (t_dailies b) = map d_user (t_dailies a)" by (rule d) simp
  then show "dailies_of u (t_dailies b) = dailies_of u (t_dailies a)"
    by (simp only: owners)
qed

lemma all_map: "map P ys = map P xs \<Longrightarrow> (\<forall>x \<in> set xs. P x) \<longleftrightarrow> (\<forall>y \<in> set ys. P y)"
  using list.pred_map [of id P] by (metis (full_types) image_iff list.set_map)

lemma valid_later: "habit_valid n h \<Longrightarrow> n \<le> m \<Longrightarrow> habit_valid m h" "daily_valid n d \<Longrightarrow> n \<le> m \<Longrightarrow> daily_valid m d"
  by (auto simp: habit_valid_def daily_valid_def)

lemma rows_steady:
  assumes "steady a b" "rows_ok a"
  shows "rows_ok b"
proof -
  note t = steady_tables [OF assms(1)]
  have le: "t_next_id a \<le> t_next_id b" using assms(1) by (simp add: steady_def)
  have "\<forall>h \<in> set (t_habits b). habit_valid (t_next_id a) h" using assms(2) all_map [OF t(4)] by (simp add: rows_ok_def)
  moreover have "\<forall>d \<in> set (t_dailies b). daily_valid (t_next_id a) d" using assms(2) all_map [OF t(5)] by (simp add: rows_ok_def)
  moreover have "checklists_ok b"
    using assms le t(2) by (force simp: rows_ok_def checklists_ok_def steady_def simp del: set_map list.map simp flip: list.set_map)
  ultimately show ?thesis
    using assms t le valid_later by (auto simp: rows_ok_def steady_def simp del: set_map)
qed

subsection \<open>Editing habits\<close>

lemma clean_title_nonempty: "clean_title v = Some t \<Longrightarrow> t \<noteq> []"
  by (auto simp: clean_title_def Let_def split: if_splits)

lemma valid_habit_in: "validate_habit_in body = Some b \<Longrightarrow>
    hi_title b \<noteq> [] \<and> hi_difficulty b \<in> set DIFFICULTIES \<and> list_all reminder_time_ok (hi_reminders b)"
  by (auto simp: validate_habit_in_def reminders_ok_def clean_title_nonempty split: option.splits if_splits)

lemma set_required: "required_ok P f \<Longrightarrow> Q old \<Longrightarrow> (\<And>v. P v \<Longrightarrow> Q v) \<Longrightarrow> Q (set_field f old)"
  by (cases f) (simp_all add: required_ok_def set_field_def)

lemma set_title: "required_ok (\<lambda>v. clean_title v \<noteq> None) f \<Longrightarrow> old \<noteq> [] \<Longrightarrow> set_field (clean_field clean_title f) old \<noteq> []"
  by (cases f) (auto simp: required_ok_def set_field_def clean_field_def clean_title_nonempty)

lemma reminders_all: "reminders_ok ts \<Longrightarrow> list_all reminder_time_ok ts"
  by (simp add: reminders_ok_def)

lemma valid_habit_update:
  assumes "validate_habit_update body = Some b" "habit_valid n h"
  shows "habit_valid n (patched_habit b h)"
proof -
  have v: "required_ok (\<lambda>v. clean_title v \<noteq> None) (hu_title body)" "required_ok (\<lambda>v. v \<in> set DIFFICULTIES) (hu_difficulty body)"
      "required_ok reminders_ok (hu_reminders body)"
    and b: "hu_title b = clean_field clean_title (hu_title body)" "hu_difficulty b = hu_difficulty body" "hu_reminders b = hu_reminders body"
    using assms(1) by (auto simp: validate_habit_update_def split: if_splits)
  show ?thesis
    using assms(2) set_title [OF v(1)] set_required [OF v(2), of "\<lambda>v. v \<in> set DIFFICULTIES"]
      set_required [OF v(3), of "list_all reminder_time_ok"] reminders_all
    by (simp add: habit_valid_def patched_habit_def b)
qed

lemma patched_habit_simps [simp]: "h_id (patched_habit b h) = h_id h" "h_user (patched_habit b h) = h_user h"
  by (simp_all add: patched_habit_def)

lemma rows_put [simp]: "rows_ok (put_profile u p db) = rows_ok db"
  by (simp add: rows_ok_def checklists_ok_def marks_ok_def mark_sound_def put_profile_def)

lemma get_habitD: "get_habit db u i = Some h \<Longrightarrow> h \<in> set (t_habits db) \<and> h_id h = i \<and> h_user h = u"
  by (auto simp: get_habit_def find_Some_iff)

lemma get_habit_put [simp]: "get_habit (put_profile u p db) v i = get_habit db v i"
  by (simp add: get_habit_def put_profile_def)

lemma habits_of_list: "length (list_habits db u) = habits_of u (t_habits db)"
  by (simp add: list_habits_def habits_of_def)

lemma habit_rows_ok:
  assumes "rows_ok db" "t_next_id db \<le> n" "distinct (map h_id hs)" "\<forall>h \<in> set hs. habit_valid n h" "\<forall>u. habits_of u hs \<le> 100"
  shows "rows_ok (db\<lparr>t_habits := hs, t_next_id := n\<rparr>)"
  using assms valid_later by (auto simp: rows_ok_def checklists_ok_def marks_ok_def mark_sound_def simp del: set_map)

lemma rows_add_habit:
  assumes "rows_ok db" "habits_of (h_user h) (t_habits db) < 100" "h_id h = t_next_id db" "habit_valid (t_next_id db + 1) h"
  shows "rows_ok (db\<lparr>t_habits := t_habits db @ [h], t_next_id := t_next_id db + 1\<rparr>)"
proof (rule habit_rows_ok [OF assms(1)])
  show "distinct (map h_id (t_habits db @ [h]))"
    using assms(1,3) by (auto simp: rows_ok_def habit_valid_def)
  show "\<forall>u. habits_of u (t_habits db @ [h]) \<le> 100"
    using assms(1,2) by (auto simp: rows_ok_def habits_of_def Suc_le_eq)
qed (use assms valid_later in \<open>auto simp: rows_ok_def\<close>)

lemma rows_create_habit: "rows_ok db \<Longrightarrow> rows_ok (snd (create_habit u body db))"
  using valid_habit_in [of body]
  by (auto simp: create_habit_def get_or_create_profile_def Let_def habits_of_list MAX_HABITS_PER_USER_def habit_valid_def
      put_profile_def [symmetric] split: option.splits intro!: rows_add_habit)

lemma rows_patch_habit: "rows_ok db \<Longrightarrow> rows_ok (snd (patch_habit u i body db))"
proof (cases "validate_habit_update body")
  case (Some b)
  assume ok: "rows_ok db"
  have "rows_ok (update_habit i (patched_habit b) a)" if "rows_ok a" for a
  proof -
    have "habits_of v (update_where (\<lambda>h. h_id h = i) (patched_habit b) (t_habits a)) = habits_of v (t_habits a)" for v
      by (simp add: habits_of_def filter_update_where)
    then have "rows_ok (a\<lparr>t_habits := update_where (\<lambda>h. h_id h = i) (patched_habit b) (t_habits a), t_next_id := t_next_id a\<rparr>)"
      using that valid_habit_update [OF Some]
      by (intro habit_rows_ok) (auto simp: rows_ok_def map_update_where dest!: update_where_set)
    then show ?thesis by (simp add: update_habit_def)
  qed
  with ok show ?thesis
    by (simp add: patch_habit_def get_or_create_profile_def Let_def Some split: option.split)
qed (simp add: patch_habit_def)

lemma rows_delete_habit: "rows_ok db \<Longrightarrow> rows_ok (snd (delete_habit u i db))"
proof -
  assume ok: "rows_ok db"
  have "rows_ok (a\<lparr>t_habits := filter (\<lambda>r. h_id r \<noteq> i) (t_habits a)\<rparr>)" if "rows_ok a" for a
  proof -
    have "habits_of v (filter (\<lambda>r. h_id r \<noteq> i) (t_habits a)) \<le> 100" for v
      using that length_filter_le [of "\<lambda>r. h_id r \<noteq> i" "filter (\<lambda>h. h_user h = v) (t_habits a)"]
      by (auto simp: rows_ok_def habits_of_def filter_filter conj_commute intro: order_trans)
    then have "rows_ok (a\<lparr>t_habits := filter (\<lambda>r. h_id r \<noteq> i) (t_habits a), t_next_id := t_next_id a\<rparr>)"
      using that by (intro habit_rows_ok) (auto simp: rows_ok_def distinct_map_filter)
    then show ?thesis by simp
  qed
  with ok show ?thesis by (simp add: delete_habit_def get_or_create_profile_def Let_def split: option.split)
qed

subsection \<open>Editing dailies\<close>

lemma dump_parses: "valid_recurrence r \<Longrightarrow> parse_recurrence (JObj (dump_recurrence b r)) \<noteq> None"
proof (cases r)
  case (R_weekdays ds)
  assume "valid_recurrence r"
  then have ds: "1 \<le> length ds" "list_all (\<lambda>d. 0 \<le> d \<and> d \<le> 6) ds" by (auto simp: valid_recurrence_def R_weekdays)
  obtain d where d: "d \<in> set ds" using ds(1) by (cases ds) auto
  then have "0 \<le> d \<and> d \<le> 6" using ds(2) by (auto simp: list_all_iff)
  then have "d \<in> set (clean_days (map JInt (sort (remdups ds))))"
    using d by (force simp: clean_days_def List.map_filter_def)
  then have "clean_days (map JInt (sort (remdups ds))) \<noteq> []" by auto
  then show ?thesis by (simp add: R_weekdays dump_recurrence_def parse_recurrence_def parse_schedule_def dict_get_def)
qed (auto simp: valid_recurrence_def dump_recurrence_def parse_recurrence_def parse_schedule_def dict_get_def split: field.splits)

lemma anchored_parses: "(parse_schedule (dict_set d ''anchor'' v) = None) = (parse_schedule d = None)"
  by (simp add: parse_schedule_def dict_get_def Let_def split: option.splits json.splits)

lemma stored_parses: "(parse_schedule (recurrence_for_storage d today old) = None) = (parse_schedule d = None)"
  by (simp add: recurrence_for_storage_def Let_def anchored_parses split: option.split)

lemma stored_dump_parses:
  assumes "valid_recurrence r"
  shows "parse_recurrence (JObj (recurrence_for_storage (dump_recurrence b r) today old)) \<noteq> None"
  using dump_parses [OF assms, of b] stored_parses [of "dump_recurrence b r" today old] by (simp add: parse_recurrence_def)

lemma clean_items_length: "clean_items its = Some its' \<Longrightarrow> length its' \<le> 30"
proof -
  have "length (List.map_filter f xs) \<le> length xs" for f :: "item_in \<Rightarrow> item_in option" and xs
    by (induction xs) (auto simp: List.map_filter_simps split: option.split)
  then show "clean_items its = Some its' \<Longrightarrow> length its' \<le> 30"
    by (force simp: clean_items_def MAX_ITEMS_def split: if_splits intro: order_trans)
qed

lemma valid_daily_in: "validate_daily_in body = Some b \<Longrightarrow> dn_title b \<noteq> [] \<and> dn_difficulty b \<in> set DIFFICULTIES
    \<and> list_all reminder_time_ok (dn_reminders b) \<and> valid_recurrence (dn_recurrence b) \<and> length (dn_items b) \<le> 30"
  by (auto simp: validate_daily_in_def reminders_ok_def clean_title_nonempty dest: clean_items_length split: option.splits if_splits)

lemma valid_daily_update:
  assumes "validate_daily_update body = Some b"
  shows "daily_valid n d \<Longrightarrow> daily_valid n (patched_daily b today d)" "du_items b = Given its \<Longrightarrow> length its \<le> 30"
proof -
  have v: "required_ok (\<lambda>v. clean_title v \<noteq> None) (du_title body)" "required_ok (\<lambda>v. v \<in> set DIFFICULTIES) (du_difficulty body)"
      "required_ok reminders_ok (du_reminders body)" "required_ok valid_recurrence (du_recurrence body)"
      "required_ok (\<lambda>v. clean_items v \<noteq> None) (du_items body)"
    and b: "du_title b = clean_field clean_title (du_title body)" "du_difficulty b = du_difficulty body"
      "du_reminders b = du_reminders body" "du_recurrence b = du_recurrence body" "du_items b = clean_field clean_items (du_items body)"
    using assms(1) by (auto simp: validate_daily_update_def split: if_splits)
  have rule: "parse_recurrence (d_recurrence (patched_daily b today d)) \<noteq> None" if "parse_recurrence (d_recurrence d) \<noteq> None" for d
    using that v(4) stored_dump_parses by (cases "du_recurrence b") (auto simp: patched_daily_def b required_ok_def)
  show "daily_valid n (patched_daily b today d)" if "daily_valid n d"
    using that rule [of d] set_title [OF v(1)] set_required [OF v(2), of "\<lambda>v. v \<in> set DIFFICULTIES"]
      set_required [OF v(3), of "list_all reminder_time_ok"] reminders_all
    by (simp add: daily_valid_def) (simp add: patched_daily_def b)
  show "length its \<le> 30" if "du_items b = Given its"
    using that v(5) clean_items_length by (cases "du_items body") (auto simp: b clean_field_def required_ok_def split: option.splits)
qed

lemma patched_daily_simps [simp]: "d_id (patched_daily b today d) = d_id d" "d_user (patched_daily b today d) = d_user d"
  by (simp_all add: patched_daily_def)

lemma get_dailyD: "get_daily db u i = Some d \<Longrightarrow> d \<in> set (t_dailies db) \<and> d_id d = i \<and> d_user d = u"
  by (auto simp: get_daily_def find_Some_iff)

text \<open>Adding a daily, appending to an empty checklist, emptying a checklist, dropping a daily.\<close>

lemma rows_add_daily:
  assumes "rows_ok db" "dailies_of (d_user d) (t_dailies db) < 100" "d_id d = t_next_id db" "daily_valid (t_next_id db + 1) d"
  shows "rows_ok (db\<lparr>t_dailies := t_dailies db @ [d], t_next_id := t_next_id db + 1\<rparr>)"
proof -
  have "\<forall>u. dailies_of u (t_dailies db @ [d]) \<le> 100" using assms(1,2) by (auto simp: rows_ok_def dailies_of_def Suc_le_eq)
  moreover have "distinct (map d_id (t_dailies db @ [d]))" using assms(1,3) by (auto simp: rows_ok_def daily_valid_def)
  ultimately show ?thesis
    using assms by (auto simp: rows_ok_def checklists_ok_def marks_ok_def mark_sound_def intro: valid_later(1) [OF _ less_imp_le] valid_later(2) [OF _ less_imp_le])
qed

lemma item_rows_simps:
  "map di_id (item_rows n did its) = [n..n + int (length its) - 1]" "x \<in> set (item_rows n did its) \<Longrightarrow> di_daily x = did"
  "length (item_rows n did its) = length its"
proof -
  have up: "[n..n + int k - 1] = map (\<lambda>i. n + int i) [0..<k]" for k
    by (induction k) (simp_all add: upto_rec2 algebra_simps)
  show "map di_id (item_rows n did its) = [n..n + int (length its) - 1]"
    by (simp add: up item_rows_def comp_def case_prod_unfold enumerate_eq_zip)
       (simp add: map_fst_zip [symmetric] comp_def flip: map_map [of "\<lambda>i. n + int i" fst, unfolded comp_def])
  show "x \<in> set (item_rows n did its) \<Longrightarrow> di_daily x = did" "length (item_rows n did its) = length its"
    by (auto simp: item_rows_def)
qed

lemma rows_add_items:
  assumes "rows_ok db" "did \<in> set (map d_id (t_dailies db))" "items_of did (t_daily_items db) = 0" "length its \<le> 30"
  shows "rows_ok (add_items did its db)"
proof -
  let ?new = "item_rows (t_next_id db) did its"
  have ids: "di_id x \<in> {t_next_id db..<t_next_id db + int (length its)}" if "x \<in> set ?new" for x
  proof -
    have "di_id x \<in> set (map di_id ?new)" using that by simp
    then show ?thesis by (simp add: item_rows_simps(1) del: set_map list.set_map)
  qed
  have none: "items_of i ?new = (if i = did then length its else 0)" for i
    using item_rows_simps(2) [of _ "t_next_id db" did its] by (auto simp: items_of_def item_rows_simps(3) filter_empty_conv
        intro!: arg_cong [of _ _ length] filter_True [THEN arg_cong, of _ _ length, simplified item_rows_simps(3)])
  have "items_of i (t_daily_items db @ ?new) \<le> 30" for i
    using assms(1,3,4) none [of i] by (auto simp: rows_ok_def checklists_ok_def items_of_def)
  moreover have "distinct (map di_id (t_daily_items db @ ?new))"
    using assms(1) ids by (fastforce simp: rows_ok_def checklists_ok_def item_rows_simps(1) simp del: upto.simps)
  moreover have "di_id x < t_next_id db + int (length its) \<and> di_daily x \<in> set (map d_id (t_dailies db))"
    if "x \<in> set (t_daily_items db @ ?new)" for x
    using that assms(1,2) ids item_rows_simps(2) [of x "t_next_id db" did its] by (fastforce simp: rows_ok_def checklists_ok_def)
  ultimately have "checklists_ok (add_items did its db)"
    unfolding checklists_ok_def add_items_def by simp
  moreover have "marks_ok (add_items did its db)" using assms(1) by (auto simp: rows_ok_def marks_ok_def mark_sound_def add_items_def)
  ultimately show ?thesis
    using assms(1) valid_later by (auto simp: rows_ok_def add_items_def)
qed

lemma items_dropped: "items_of did (t_daily_items (drop_items did db)) = 0"
  by (auto simp: items_of_def drop_items_def Let_def filter_empty_conv)

lemma items_of_filter: "items_of i (filter P xs) \<le> items_of i xs"
  unfolding items_of_def filter_filter by (induction xs) auto

lemma rows_drop_items:
  assumes "rows_ok db"
  shows "rows_ok (drop_items did db)"
proof -
  have "mark_sound (drop_items did db) c" if "c \<in> set (t_daily_checks (drop_items did db))" for c
  proof -
    have c: "mark_sound db c" and kept: "dc_item c = Some (di_id x) \<Longrightarrow> x \<in> set (t_daily_items db) \<Longrightarrow> di_daily x \<noteq> did" for x
      using that assms by (auto simp: rows_ok_def marks_ok_def drop_items_def Let_def)
    have "(n, dc_daily c) \<in> set (map (\<lambda>i. (di_id i, di_daily i)) (t_daily_items (drop_items did db)))" if n: "dc_item c = Some n" for n
    proof -
      obtain x where "x \<in> set (t_daily_items db)" "di_id x = n" "di_daily x = dc_daily c"
        using c n by (auto simp: mark_sound_def)
      with kept [of x] n show ?thesis by (force simp: drop_items_def Let_def)
    qed
    with c show ?thesis by (simp add: mark_sound_def) (simp add: drop_items_def)
  qed
  then have "marks_ok (drop_items did db)"
    using assms by (simp add: rows_ok_def marks_ok_def) (simp add: drop_items_def distinct_map_filter)
  moreover have "items_of i (filter P (t_daily_items db)) \<le> 30" for i P
  proof -
    have "items_of i (t_daily_items db) \<le> 30" using assms by (simp add: rows_ok_def checklists_ok_def)
    with items_of_filter [of i P "t_daily_items db"] show ?thesis by linarith
  qed
  then have "checklists_ok (drop_items did db)"
    using assms by (simp add: rows_ok_def checklists_ok_def drop_items_def Let_def distinct_map_filter)
  ultimately show ?thesis using assms by (simp add: rows_ok_def) (simp add: drop_items_def)
qed

lemma rows_drop_daily:
  assumes "rows_ok db"
  shows "rows_ok (drop_daily did db)"
proof -
  let ?a = "drop_items did db"
  have a: "rows_ok ?a" by (rule rows_drop_items [OF assms])
  have clear: "di_daily x \<noteq> did" if "x \<in> set (t_daily_items ?a)" for x using that by (simp add: drop_items_def Let_def)
  have "mark_sound (drop_daily did db) c" if "c \<in> set (t_daily_checks (drop_daily did db))" for c
    using that a by (auto simp: rows_ok_def marks_ok_def mark_sound_def drop_daily_def Let_def)
  then have "marks_ok (drop_daily did db)"
    using a by (simp add: rows_ok_def marks_ok_def) (simp add: drop_daily_def Let_def distinct_map_filter)
  moreover have "checklists_ok (drop_daily did db)"
  proof -
    have "di_daily x \<in> set (map d_id (filter (\<lambda>d. d_id d \<noteq> did) (t_dailies ?a)))" if x: "x \<in> set (t_daily_items ?a)" for x
    proof -
      have "di_daily x \<in> d_id ` set (t_dailies ?a)" using a x by (simp add: rows_ok_def checklists_ok_def)
      with clear [OF x] show ?thesis by auto
    qed
    with a show ?thesis unfolding rows_ok_def checklists_ok_def by (simp add: drop_daily_def Let_def)
  qed
  moreover have "dailies_of u (filter (\<lambda>d. d_id d \<noteq> did) (t_dailies ?a)) \<le> 100" for u
  proof -
    have "dailies_of u (filter P ds) \<le> dailies_of u ds" for P ds
      unfolding dailies_of_def filter_filter by (induction ds) auto
    then show ?thesis using a le_trans unfolding rows_ok_def by blast
  qed
  moreover have "(dm_daily m, dm_user m) \<in> set (map (\<lambda>d. (d_id d, d_user d)) (t_dailies (drop_daily did db)))"
    if "m \<in> set (t_daily_misses (drop_daily did db))" for m
    using that a by (force simp: rows_ok_def drop_daily_def Let_def)
  ultimately show ?thesis
    using a unfolding rows_ok_def by (simp add: drop_daily_def Let_def distinct_map_filter)
qed

end
