(* ===== verification/EditorViews.thy ===== *)
theory EditorViews
  imports EditorRows
begin

text \<open>
  What one user sees, \<open>view_of\<close>: the rows of every table that are theirs, with checklists and marks
  reached through their dailies and phases through their sessions. A step private to \<open>u\<close> leaves the
  view of everybody else alone and only appends rows of \<open>u\<close> to the ledger.
\<close>

subsection \<open>Views\<close>

record user_view =
  w_profile :: "profile option"
  w_ledger :: "event list"
  w_habits :: "habit list"
  w_dailies :: "daily list"
  w_items :: "daily_item list"
  w_checks :: "daily_check list"
  w_misses :: "daily_miss list"
  w_gear :: "user_gear list"
  w_badges :: "user_achievement list"
  w_sessions :: "(session \<times> phase list) list"
  w_inbox :: "notification list"
  w_sends :: "send list"

definition view_of :: "int \<Rightarrow> db \<Rightarrow> user_view" where
  "view_of v db = \<lparr>w_profile = t_profiles db v, w_ledger = filter (\<lambda>e. ev_user e = v) (t_events db),
     w_habits = filter (\<lambda>h. h_user h = v) (t_habits db), w_dailies = filter (\<lambda>d. d_user d = v) (t_dailies db),
     w_items = filter (\<lambda>i. di_daily i \<in> daily_ids_of v db) (t_daily_items db),
     w_checks = filter (\<lambda>c. dc_daily c \<in> daily_ids_of v db) (t_daily_checks db),
     w_misses = filter (\<lambda>m. dm_user m = v) (t_daily_misses db), w_gear = filter (\<lambda>g. ug_user g = v) (t_user_gear db),
     w_badges = filter (\<lambda>g. ua_user g = v) (t_user_achievements db),
     w_sessions = map (\<lambda>s. (s, t_phases db (s_id s))) (filter (\<lambda>s. s_user s = v) (t_sessions db)),
     w_inbox = filter (\<lambda>n. n_user n = v) (t_notifications db), w_sends = filter (\<lambda>s. recipient s = v) (sends db)\<rparr>"

definition own_view :: "int \<Rightarrow> db \<Rightarrow> db \<Rightarrow> bool" where
  "own_view u a b \<longleftrightarrow> (\<forall>v. v \<noteq> u \<longrightarrow> view_of v b = view_of v a)
     \<and> (\<exists>evs. t_events b = t_events a @ evs \<and> (\<forall>e \<in> set evs. ev_user e = u))"

lemma own_view_refl [simp]: "own_view u db db"
  by (simp add: own_view_def)

lemma own_view_trans: "own_view u a b \<Longrightarrow> own_view u b c \<Longrightarrow> own_view u a c"
  unfolding own_view_def by (elim conjE exE, intro conjI) (simp, force)

subsection \<open>Owned steps are private\<close>

lemma filter_mine: "filter (\<lambda>x. f x \<noteq> u) ys = filter (\<lambda>x. f x \<noteq> u) xs \<Longrightarrow> v \<noteq> u \<Longrightarrow>
    filter (\<lambda>x. f x = v) ys = filter (\<lambda>x. f x = v) xs"
proof -
  assume eq: "filter (\<lambda>x. f x \<noteq> u) ys = filter (\<lambda>x. f x \<noteq> u) xs" and v: "v \<noteq> u"
  have "filter (\<lambda>x. f x = v) zs = filter (\<lambda>x. f x = v) (filter (\<lambda>x. f x \<noteq> u) zs)" for zs
    using v by (induction zs) auto
  then show ?thesis using eq by metis
qed

lemma daily_ids_alt: "daily_ids_of v db = d_id ` set (filter (\<lambda>d. d_user d = v) (t_dailies db))"
  by (force simp: daily_ids_of_def)

lemma daily_ids_disjoint: "keys_ok db \<Longrightarrow> v \<noteq> u \<Longrightarrow> i \<in> daily_ids_of v db \<Longrightarrow> i \<notin> daily_ids_of u db"
  by (auto simp: daily_ids_alt keys_ok_def distinct_map inj_on_def)

lemma view_untouched:
  assumes "untouched u a b" "keys_ok a" "keys_ok b" "v \<noteq> u"
  shows "view_of v b = view_of v a"
proof -
  have dailies: "filter (\<lambda>d. d_user d = v) (t_dailies b) = filter (\<lambda>d. d_user d = v) (t_dailies a)"
    using assms(1,4) by (intro filter_mine [of _ u]) (simp_all add: untouched_def)
  then have ids: "daily_ids_of v b = daily_ids_of v a" by (simp add: daily_ids_alt)
  have sess: "filter (\<lambda>s. s_user s = v) (t_sessions b) = filter (\<lambda>s. s_user s = v) (t_sessions a)"
    using assms(1,4) by (intro filter_mine [of _ u]) (simp_all add: untouched_def)
  have theirs: "filter (\<lambda>c. dc_daily c \<in> daily_ids_of v db) cs
      = filter (\<lambda>c. dc_daily c \<in> daily_ids_of v db) (filter (\<lambda>c. dc_daily c \<notin> daily_ids_of u db) cs)" if "keys_ok db" for db cs
    using daily_ids_disjoint [OF that assms(4)] by (induction cs) auto
  have checks: "filter (\<lambda>c. dc_daily c \<in> daily_ids_of v b) (t_daily_checks b) = filter (\<lambda>c. dc_daily c \<in> daily_ids_of v a) (t_daily_checks a)"
    using theirs [OF assms(2)] theirs [OF assms(3)] assms(1) unfolding ids untouched_def by metis
  have phases: "t_phases b (s_id s) = t_phases a (s_id s)" if "s \<in> set (t_sessions b)" "s_user s = v" for s
  proof -
    have "s_id s \<notin> session_ids_of u b"
      using that assms(3,4) by (auto simp: session_ids_of_def keys_ok_def distinct_map inj_on_def)
    then show ?thesis using assms(1) by (simp add: untouched_def)
  qed
  have sessions: "map (\<lambda>s. (s, t_phases b (s_id s))) (filter (\<lambda>s. s_user s = v) (t_sessions b))
      = map (\<lambda>s. (s, t_phases a (s_id s))) (filter (\<lambda>s. s_user s = v) (t_sessions a))"
    unfolding sess [symmetric] by (rule map_cong) (use phases in auto)
  have rest: "filter (\<lambda>e. ev_user e = v) (t_events b) = filter (\<lambda>e. ev_user e = v) (t_events a)"
    "filter (\<lambda>h. h_user h = v) (t_habits b) = filter (\<lambda>h. h_user h = v) (t_habits a)"
    "filter (\<lambda>m. dm_user m = v) (t_daily_misses b) = filter (\<lambda>m. dm_user m = v) (t_daily_misses a)"
    "filter (\<lambda>g. ug_user g = v) (t_user_gear b) = filter (\<lambda>g. ug_user g = v) (t_user_gear a)"
    "filter (\<lambda>g. ua_user g = v) (t_user_achievements b) = filter (\<lambda>g. ua_user g = v) (t_user_achievements a)"
    "filter (\<lambda>n. n_user n = v) (t_notifications b) = filter (\<lambda>n. n_user n = v) (t_notifications a)"
    "filter (\<lambda>s. recipient s = v) (sends b) = filter (\<lambda>s. recipient s = v) (sends a)"
    by (rule filter_mine [OF _ assms(4)], use assms(1) in \<open>simp only: untouched_def\<close>)+
  have "t_profiles b v = t_profiles a v" "t_daily_items b = t_daily_items a"
    using assms(1,4) by (simp_all add: untouched_def)
  then show ?thesis
    unfolding view_of_def rest dailies sessions using checks by (simp add: ids)
qed

lemma own_view_own:
  assumes "own u a b" "keys_ok a"
  shows "own_view u a b"
proof -
  obtain evs where evs: "t_events b = t_events a @ evs" using assms(1) by (auto simp: own_def)
  then have "filter (\<lambda>e. ev_user e \<noteq> u) evs = []" using ownD(1) [OF assms(1)] by (simp add: untouched_def)
  then show ?thesis
    using evs view_untouched [OF ownD(1) [OF assms(1)] assms(2) ownD(3) [OF assms]] by (auto simp: own_view_def filter_empty_conv)
qed

lemma own_view_batch:
  assumes "ingest_events env u events db g = Inr (res, db', g')" "keys_ok db"
  shows "own_view u db db' \<and> keys_ok db'"
  using ingest_events_cases [OF assms] own_view_own assms(2) ownD(3) by metis

subsection \<open>Edits are private\<close>

lemma own_view_put: "own_view u db (put_profile u p db)"
  by (auto simp: own_view_def view_of_def put_profile_def daily_ids_of_def)

lemma own_view_habits: "filter (\<lambda>h. h_user h \<noteq> u) hs = filter (\<lambda>h. h_user h \<noteq> u) (t_habits db) \<Longrightarrow>
    own_view u db (db\<lparr>t_habits := hs, t_next_id := n\<rparr>)"
  using filter_mine [of h_user u hs "t_habits db"] by (simp add: own_view_def view_of_def daily_ids_of_def)

lemma own_view_dailies: "filter (\<lambda>d. d_user d \<noteq> u) ds = filter (\<lambda>d. d_user d \<noteq> u) (t_dailies db) \<Longrightarrow>
    own_view u db (db\<lparr>t_dailies := ds, t_next_id := n\<rparr>)"
  using filter_mine [of d_user u ds "t_dailies db"] by (simp add: own_view_def view_of_def daily_ids_alt)

lemma own_view_checklists:
  assumes "\<And>v. v \<noteq> u \<Longrightarrow> filter (\<lambda>i. di_daily i \<in> daily_ids_of v db) is = filter (\<lambda>i. di_daily i \<in> daily_ids_of v db) (t_daily_items db)"
    "\<And>v. v \<noteq> u \<Longrightarrow> filter (\<lambda>c. dc_daily c \<in> daily_ids_of v db) cs = filter (\<lambda>c. dc_daily c \<in> daily_ids_of v db) (t_daily_checks db)"
    "\<And>v. v \<noteq> u \<Longrightarrow> filter (\<lambda>m. dm_user m = v) ms = filter (\<lambda>m. dm_user m = v) (t_daily_misses db)"
  shows "own_view u db (db\<lparr>t_daily_items := is, t_daily_checks := cs, t_daily_misses := ms, t_next_id := n\<rparr>)"
  using assms by (simp add: own_view_def view_of_def daily_ids_of_def)

end
