(* ===== verification/EditorSteps.thy ===== *)
theory EditorSteps
  imports EditorViews
begin

text \<open>
  The requests of the habit and daily editors as one step relation, and what each does: it keeps the
  rows valid, moves no row of another user, and keeps the keys sound.
\<close>

subsection \<open>Requests\<close>

datatype edit =
    Add_habit habit_in | Patch_habit int habit_update | Remove_habit int | Click_habit int bool "string option" string
  | Add_daily daily_in | Patch_daily int daily_update | Remove_daily int | Check_daily int check_in string
  | Post_events "event_in list"

definition refused_with :: "'a reply \<times> 's \<Rightarrow> http_error option \<times> 's" where
  "refused_with = (\<lambda>(r, s). (case r of Inl e \<Rightarrow> Some e | Inr _ \<Rightarrow> None, s))"

fun serve_edit :: "env \<Rightarrow> int \<Rightarrow> edit \<Rightarrow> db \<times> rng \<Rightarrow> http_error option \<times> db \<times> rng" where
  "serve_edit env u (Add_habit body) (db, g) = map_prod id (\<lambda>db. (db, g)) (refused_with (create_habit u body db))"
| "serve_edit env u (Patch_habit i body) (db, g) = map_prod id (\<lambda>db. (db, g)) (refused_with (patch_habit u i body db))"
| "serve_edit env u (Remove_habit i) (db, g) = map_prod id (\<lambda>db. (db, g)) (refused_with (delete_habit u i db))"
| "serve_edit env u (Click_habit i positive eid uuid) (db, g) = refused_with (click_habit env u i positive eid uuid db g)"
| "serve_edit env u (Add_daily body) (db, g) = map_prod id (\<lambda>db. (db, g)) (refused_with (create_daily env u body db))"
| "serve_edit env u (Patch_daily i body) (db, g) = map_prod id (\<lambda>db. (db, g)) (refused_with (patch_daily env u i body db))"
| "serve_edit env u (Remove_daily i) (db, g) = map_prod id (\<lambda>db. (db, g)) (refused_with (delete_daily env u i db))"
| "serve_edit env u (Check_daily i body uuid) (db, g) = refused_with (check_daily env u i body uuid db g)"
| "serve_edit env u (Post_events events) (db, g) = (case ingest_events env u events db g of
     Inl e \<Rightarrow> (Some (Fault e), db, g) | Inr (res, db', g') \<Rightarrow> (None, db', g'))"

inductive editor_step :: "db \<Rightarrow> db \<Rightarrow> bool" where
  "serve_edit env u req (a, g) = (err, b, g') \<Longrightarrow> editor_step a b"

subsection \<open>Rows through a request\<close>

lemma put_simps [simp]: "get_daily (put_profile u p db) v i = get_daily db v i" "count_dailies (put_profile u p db) v = count_dailies db v"
  "t_next_id (put_profile u p db) = t_next_id db" "list_daily_items (put_profile u p db) i = list_daily_items db i"
  by (simp_all add: get_daily_def count_dailies_def put_profile_def list_daily_items_def)

lemma rows_create_daily:
  assumes "rows_ok db"
  shows "rows_ok (snd (create_daily env u body db))"
proof (cases "validate_daily_in body")
  case (Some b)
  note v = valid_daily_in [OF Some]
  let ?db1 = "put_profile u (profile_of db u) db"
  define d where "d = \<lparr>d_id = t_next_id ?db1, d_user = u, d_title = dn_title b, d_difficulty = dn_difficulty b,
    d_recurrence = JObj (recurrence_for_storage (dump_recurrence True (dn_recurrence b)) (date_of (e_now env)) None),
    d_streak = 0, d_active = True, d_reminder_times = dn_reminders b, d_created_at = e_now env, d_notes = dn_notes b\<rparr>"
  let ?db2 = "?db1\<lparr>t_dailies := t_dailies ?db1 @ [d], t_next_id := t_next_id ?db1 + 1\<rparr>"
  have id: "d_id d = t_next_id ?db1" "d_user d = u" by (simp_all add: d_def)
  have ok1: "rows_ok ?db1" using assms by simp
  have "rows_ok (add_items (d_id d) (dn_items b) ?db2)" if cap: "\<not> count_dailies ?db1 u \<ge> MAX_DAILIES_PER_USER"
  proof (rule rows_add_items)
    show "rows_ok ?db2"
    proof (rule rows_add_daily [OF ok1])
      show "dailies_of (d_user d) (t_dailies ?db1) < 100"
        using cap by (simp add: id count_dailies_def dailies_of_def MAX_DAILIES_PER_USER_def)
      show "daily_valid (t_next_id ?db1 + 1) d"
        using v stored_dump_parses by (simp add: daily_valid_def d_def)
    qed (rule id)
    have "items_of (t_next_id ?db1) (t_daily_items ?db1) = 0"
      using ok1 by (fastforce simp: rows_ok_def checklists_ok_def daily_valid_def items_of_def filter_empty_conv)
    then show "items_of (d_id d) (t_daily_items ?db2) = 0" by (simp add: id)
  qed (use v in simp_all)
  with assms show ?thesis
    by (simp add: create_daily_def Some get_or_create_profile_def Let_def d_def [symmetric] del: put_simps(3))
qed (use assms in \<open>simp add: create_daily_def\<close>)

lemma rows_reopen: "rows_ok db \<Longrightarrow> rows_ok (reopen_badges env u db)"
  unfolding reopen_badges_def by (rule rows_steady [OF steady_same [OF same_rows_grants(1)]])

lemma rows_update_daily:
  assumes "rows_ok db" "\<And>n d. daily_valid n d \<Longrightarrow> daily_valid n (f d)" "\<And>d. d_id (f d) = d_id d" "\<And>d. d_user (f d) = d_user d"
  shows "rows_ok (update_daily i f db)"
proof -
  have "dailies_of v (update_where (\<lambda>d. d_id d = i) f (t_dailies db)) = dailies_of v (t_dailies db)" for v
    by (simp add: dailies_of_def filter_update_where assms(4))
  moreover have "map d_id (t_dailies (update_daily i f db)) = map d_id (t_dailies db)"
    "map (\<lambda>d. (d_id d, d_user d)) (t_dailies (update_daily i f db)) = map (\<lambda>d. (d_id d, d_user d)) (t_dailies db)"
    by (simp_all add: update_daily_def map_update_where assms(3,4))
  moreover have "\<forall>d \<in> set (t_dailies (update_daily i f db)). daily_valid (t_next_id db) d"
    using assms(1,2) by (auto simp: rows_ok_def update_daily_def dest!: update_where_set)
  ultimately show ?thesis
    using assms(1) unfolding rows_ok_def checklists_ok_def marks_ok_def mark_sound_def
    by (simp del: set_map list.set_map) (simp add: update_daily_def del: set_map list.set_map)
qed

lemma rows_patch_daily:
  assumes "rows_ok db"
  shows "rows_ok (snd (patch_daily env u i body db))"
proof (cases "validate_daily_update body")
  case (Some b)
  let ?db1 = "put_profile u (profile_of db u) db"
  let ?db2 = "update_daily i (patched_daily b (date_of (e_now env))) ?db1"
  let ?db3 = "case du_items b of Given its \<Rightarrow> add_items i its (drop_items i ?db2) | _ \<Rightarrow> ?db2"
  have "rows_ok ?db3" if d: "get_daily db u i = Some d" for d
  proof -
    have 2: "rows_ok ?db2" using assms valid_daily_update(1) [OF Some] by (intro rows_update_daily) simp_all
    have "i \<in> set (map d_id (t_dailies (drop_items i ?db2)))"
    proof -
      have "map d_id (t_dailies (drop_items i ?db2)) = map d_id (t_dailies db)"
        by (simp add: drop_items_def Let_def update_daily_def put_profile_def map_update_where)
      with get_dailyD [OF d] show ?thesis by (metis image_eqI list.set_map)
    qed
    with 2 valid_daily_update(2) [OF Some] show ?thesis
      by (auto intro!: rows_add_items rows_drop_items simp: items_dropped simp del: set_map split: field.split)
  qed
  with assms rows_reopen show ?thesis
    by (cases "get_daily db u i") (simp_all add: patch_daily_def Some get_or_create_profile_def Let_def)
qed (use assms in \<open>simp add: patch_daily_def\<close>)

lemma rows_delete_daily: "rows_ok db \<Longrightarrow> rows_ok (snd (delete_daily env u i db))"
  by (simp add: delete_daily_def get_or_create_profile_def Let_def rows_reopen rows_drop_daily split: option.split)

lemma steady_click_request: "click_habit env u i positive eid uuid db g = (r, db', g') \<Longrightarrow> steady db db'"
proof -
  have s: "steady db (post_score env u types db2)" if "score_click env i dir rates today k ts [] [] None (put_profile u p db) g = (r2, db2, g2)"
    for types dir rates today k ts p r2 db2 g2
    using steady_trans [OF steady_same [OF same_rows_put(1)] steady_trans [OF steady_click [OF that] steady_same [OF same_rows_grants(2)]]] .
  show "click_habit env u i positive eid uuid db g = (r, db', g') \<Longrightarrow> steady db db'"
    using s by (auto simp: click_habit_def get_or_create_profile_def Let_def split: if_splits option.splits sum.splits prod.splits)
qed

lemma steady_check_request: "check_daily env u i body uuid db g = (r, db', g') \<Longrightarrow> steady db db'"
proof -
  have s: "steady db (post_score env u types db2)"
    if "score_check env i (list_daily_items db i) item day rates today k ts [] flag None (put_profile u p db) g = (r2, db2, g2)"
    for types item day rates today k ts flag p r2 db2 g2
  proof -
    have "steady (put_profile u p db) db2" using that steady_check [of env i "put_profile u p db"] by simp
    then show ?thesis using steady_trans [OF steady_same [OF same_rows_put(1)]] steady_trans steady_same [OF same_rows_grants(2)] by blast
  qed
  show "check_daily env u i body uuid db g = (r, db', g') \<Longrightarrow> steady db db'"
    using s by (auto simp: check_daily_def get_or_create_profile_def Let_def split: if_splits option.splits sum.splits prod.splits)
qed

subsection \<open>Views through a request\<close>

lemma keys_edit: "keys_ok a \<Longrightarrow> rows_ok b \<Longrightarrow> t_user_gear b = t_user_gear a \<Longrightarrow> t_sessions b = t_sessions a \<Longrightarrow>
    t_phases b = t_phases a \<Longrightarrow> t_next_id a \<le> t_next_id b \<Longrightarrow> keys_ok b"
  by (simp add: keys_ok_def rows_ok_def) (meson order_trans order_less_le_trans)

lemma keys_put: "keys_ok (put_profile u p db) = keys_ok db"
  by (simp add: keys_ok_def put_profile_def)

lemma same_user: "rows_ok db \<Longrightarrow> h \<in> set (t_habits db) \<Longrightarrow> h' \<in> set (t_habits db) \<Longrightarrow> h_id h' = h_id h \<Longrightarrow> h' = h"
  "rows_ok db \<Longrightarrow> d \<in> set (t_dailies db) \<Longrightarrow> d' \<in> set (t_dailies db) \<Longrightarrow> d_id d' = d_id d \<Longrightarrow> d' = d"
  unfolding rows_ok_def distinct_map inj_on_def by blast+

lemma keys_request:
  assumes "rows_ok db" "keys_ok db"
  shows "keys_ok (snd (create_habit u hb db))" "keys_ok (snd (patch_habit u i hu db))" "keys_ok (snd (delete_habit u i db))"
    "keys_ok (snd (create_daily env u dn db))"
proof -
  note e = keys_edit [OF assms(2)]
  show "keys_ok (snd (create_habit u hb db))"
    by (rule e [OF rows_create_habit [OF assms(1)]])
      (auto simp: create_habit_def get_or_create_profile_def Let_def put_profile_def split: option.splits)
  show "keys_ok (snd (patch_habit u i hu db))"
    by (rule e [OF rows_patch_habit [OF assms(1)]])
      (auto simp: patch_habit_def get_or_create_profile_def Let_def put_profile_def update_habit_def split: option.splits)
  show "keys_ok (snd (delete_habit u i db))"
    by (rule e [OF rows_delete_habit [OF assms(1)]])
      (auto simp: delete_habit_def get_or_create_profile_def Let_def put_profile_def split: option.splits)
  show "keys_ok (snd (create_daily env u dn db))"
    by (rule e [OF rows_create_daily [OF assms(1)]])
      (auto simp: create_daily_def get_or_create_profile_def Let_def put_profile_def add_items_def split: option.splits)
qed

lemma view_habits:
  assumes "rows_ok db"
  shows "own_view u db (snd (create_habit u hb db))" "own_view u db (snd (patch_habit u i hu db))"
    "own_view u db (snd (delete_habit u i db))"
proof -
  let ?a = "put_profile u (profile_of db u) db"
  note put = own_view_trans [OF own_view_put [of u db "profile_of db u"]]
  have a: "rows_ok ?a" using assms by simp
  show "own_view u db (snd (create_habit u hb db))"
    by (auto simp: create_habit_def get_or_create_profile_def Let_def split: option.splits intro: put intro!: own_view_habits)
  have mine: "r = h" if "get_habit db u i = Some h" "r \<in> set (t_habits ?a)" "h_id r = i" for h r
    using same_user(1) [OF a, of h r] get_habitD [OF that(1)] that by (simp add: put_profile_def)
  have "own_view u ?a (update_habit i f ?a)" if h: "get_habit db u i = Some h" and f: "\<And>r. h_user (f r) = h_user r" for h f
  proof -
    have "filter (\<lambda>h. h_user h \<noteq> u) (update_where (\<lambda>h. h_id h = i) f (t_habits ?a)) = filter (\<lambda>h. h_user h \<noteq> u) (t_habits ?a)"
      using mine [OF h] get_habitD [OF h] by (intro filter_update_mine) (auto simp: f)
    from own_view_habits [OF this, of "t_next_id ?a"] show ?thesis by (simp add: update_habit_def del: put_simps)
  qed
  then show "own_view u db (snd (patch_habit u i hu db))"
    by (auto simp: patch_habit_def get_or_create_profile_def Let_def split: option.splits intro: put)
  have "own_view u ?a (?a\<lparr>t_habits := filter (\<lambda>r. h_id r \<noteq> i) (t_habits ?a)\<rparr>)" if h: "get_habit db u i = Some h" for h
  proof -
    have "filter (\<lambda>h. h_user h \<noteq> u) (filter (\<lambda>r. h_id r \<noteq> i) (t_habits ?a)) = filter (\<lambda>h. h_user h \<noteq> u) (t_habits ?a)"
      using mine [OF h] get_habitD [OF h] by (auto intro!: filter_cong)
    from own_view_habits [OF this, of "t_next_id ?a"] show ?thesis by (simp del: put_simps)
  qed
  then show "own_view u db (snd (delete_habit u i db))"
    by (auto simp: delete_habit_def get_or_create_profile_def Let_def split: option.splits intro: put)
qed

text \<open>A daily of \<open>u\<close>: nobody else's view contains its checklist or marks.\<close>

definition solely :: "int \<Rightarrow> db \<Rightarrow> int \<Rightarrow> bool" where
  "solely u db i \<longleftrightarrow> (\<forall>v. v \<noteq> u \<longrightarrow> i \<notin> daily_ids_of v db)"

lemma solely_mine:
  assumes "rows_ok db" "get_daily db u i = Some d"
  shows "solely u db i"
proof -
  have "v = u" if "e \<in> set (t_dailies db)" "d_user e = v" "d_id e = i" for e v
    using same_user(2) [OF assms(1), of d e] get_dailyD [OF assms(2)] that by simp
  then show ?thesis unfolding solely_def daily_ids_alt by auto
qed

lemma solely_cong: "map (\<lambda>d. (d_id d, d_user d)) (t_dailies b) = map (\<lambda>d. (d_id d, d_user d)) (t_dailies a) \<Longrightarrow> solely u b i = solely u a i"
  by (simp add: solely_def daily_ids_of_def del: set_map list.set_map)

lemma view_add_items:
  assumes "solely u db did"
  shows "own_view u db (add_items did its db)"
proof -
  have "filter (\<lambda>i. di_daily i \<in> daily_ids_of v db) (t_daily_items db @ item_rows (t_next_id db) did its)
      = filter (\<lambda>i. di_daily i \<in> daily_ids_of v db) (t_daily_items db)" if "v \<noteq> u" for v
    using assms that item_rows_simps(2) by (fastforce simp: solely_def filter_empty_conv)
  from own_view_checklists [of u, OF this refl refl, where n = "t_next_id db + int (length its)"] show ?thesis
    by (simp add: add_items_def)
qed

lemma view_drop_items:
  assumes "solely u db did" "rows_ok db"
  shows "own_view u db (drop_items did db)"
proof -
  let ?gone = "di_id ` set (filter (\<lambda>i. di_daily i = did) (t_daily_items db))"
  have items: "filter (\<lambda>i. di_daily i \<in> daily_ids_of v db) (filter (\<lambda>i. di_daily i \<noteq> did) (t_daily_items db))
      = filter (\<lambda>i. di_daily i \<in> daily_ids_of v db) (t_daily_items db)" if "v \<noteq> u" for v
    using assms(1) that by (auto simp: solely_def intro!: filter_cong)
  have "dc_daily c = did" if c: "c \<in> set (t_daily_checks db)" "dc_item c = Some i" "i \<in> ?gone" for c i
  proof -
    obtain x where x: "x \<in> set (t_daily_items db)" "di_id x = i" "di_daily x = dc_daily c"
    proof -
      have "mark_sound db c" using assms(2) c(1) by (simp add: rows_ok_def marks_ok_def)
      then show ?thesis using c(2) that by (auto simp: mark_sound_def)
    qed
    moreover obtain y where "y \<in> set (t_daily_items db)" "di_id y = i" "di_daily y = did" using c(3) by auto
    ultimately show ?thesis using assms(2) unfolding rows_ok_def checklists_ok_def distinct_map inj_on_def by metis
  qed
  then have checks: "filter (\<lambda>c. dc_daily c \<in> daily_ids_of v db) (filter (\<lambda>c. \<not> (\<exists>i \<in> ?gone. dc_item c = Some i)) (t_daily_checks db))
      = filter (\<lambda>c. dc_daily c \<in> daily_ids_of v db) (t_daily_checks db)" if "v \<noteq> u" for v
    using assms(1) that unfolding solely_def filter_filter by (intro filter_cong) auto
  have "drop_items did db = db\<lparr>t_daily_items := filter (\<lambda>i. di_daily i \<noteq> did) (t_daily_items db),
      t_daily_checks := filter (\<lambda>c. \<not> (\<exists>i \<in> ?gone. dc_item c = Some i)) (t_daily_checks db),
      t_daily_misses := t_daily_misses db, t_next_id := t_next_id db\<rparr>"
    unfolding drop_items_def Let_def by (rule db.equality) simp_all
  then show ?thesis by (elim ssubst) (rule own_view_checklists, erule items, erule checks, rule refl)
qed

lemma view_drop_daily:
  assumes "get_daily db u i = Some d" "rows_ok db"
  shows "own_view u db (drop_daily i db)"
proof -
  let ?a = "drop_items i db"
  have sole: "solely u db i" by (rule solely_mine [OF assms(2,1)])
  have tables: "t_dailies ?a = t_dailies db" "t_daily_misses ?a = t_daily_misses db" by (simp_all add: drop_items_def Let_def)
  have "solely u ?a i = solely u db i" by (rule solely_cong) (simp add: tables)
  then have a: "rows_ok ?a" "solely u ?a i" using rows_drop_items [OF assms(2)] sole by simp_all
  let ?ms = "filter (\<lambda>m. dm_daily m \<noteq> i) (t_daily_misses ?a)"
  let ?cs = "filter (\<lambda>c. dc_daily c \<noteq> i) (t_daily_checks ?a)"
  have owner: "e = d" if "e \<in> set (t_dailies db)" "d_id e = i" for e
    using same_user(2) [OF assms(2), of d e] get_dailyD [OF assms(1)] that by simp
  have checks: "filter (\<lambda>c. dc_daily c \<in> daily_ids_of v ?a) ?cs = filter (\<lambda>c. dc_daily c \<in> daily_ids_of v ?a) (t_daily_checks ?a)" if "v \<noteq> u" for v
    using a(2) that unfolding solely_def filter_filter by (intro filter_cong) auto
  have misses: "filter (\<lambda>m. dm_user m = v) ?ms = filter (\<lambda>m. dm_user m = v) (t_daily_misses ?a)" if "v \<noteq> u" for v
  proof -
    have "dm_user m = u" if "m \<in> set (t_daily_misses ?a)" "dm_daily m = i" for m
    proof -
      have "(dm_daily m, dm_user m) \<in> (\<lambda>d. (d_id d, d_user d)) ` set (t_dailies db)"
        using a(1) that(1) by (simp add: rows_ok_def tables)
      then show ?thesis using owner get_dailyD [OF assms(1)] that(2) by auto
    qed
    with \<open>v \<noteq> u\<close> show ?thesis unfolding filter_filter by (intro filter_cong) auto
  qed
  let ?b = "?a\<lparr>t_daily_items := t_daily_items ?a, t_daily_checks := ?cs, t_daily_misses := ?ms, t_next_id := t_next_id ?a\<rparr>"
  have ab: "own_view u ?a ?b" by (rule own_view_checklists [of u, OF refl checks misses])
  have "filter (\<lambda>d. d_user d \<noteq> u) (filter (\<lambda>d. d_id d \<noteq> i) (t_dailies ?b)) = filter (\<lambda>d. d_user d \<noteq> u) (t_dailies ?b)"
    using owner get_dailyD [OF assms(1)] unfolding filter_filter by (intro filter_cong) (auto simp: tables)
  from own_view_dailies [OF this, of "t_next_id ?b"] ab view_drop_items [OF sole assms(2)]
  have "own_view u db (?b\<lparr>t_dailies := filter (\<lambda>d. d_id d \<noteq> i) (t_dailies ?b), t_next_id := t_next_id ?b\<rparr>)"
    using own_view_trans by blast
  moreover have "drop_daily i db = ?b\<lparr>t_dailies := filter (\<lambda>d. d_id d \<noteq> i) (t_dailies ?b), t_next_id := t_next_id ?b\<rparr>"
    unfolding drop_daily_def Let_def by (rule db.equality) simp_all
  ultimately show ?thesis by simp
qed

lemma view_update_daily:
  assumes "get_daily db u i = Some d" "rows_ok db" "\<And>d. d_user (f d) = d_user d"
  shows "own_view u db (update_daily i f db)"
proof -
  have "filter (\<lambda>d. d_user d \<noteq> u) (update_where (\<lambda>d. d_id d = i) f (t_dailies db)) = filter (\<lambda>d. d_user d \<noteq> u) (t_dailies db)"
    using same_user(2) [OF assms(2), of d] get_dailyD [OF assms(1)] by (intro filter_update_mine) (auto simp: assms(3))
  from own_view_dailies [OF this, of "t_next_id db"] show ?thesis by (simp add: update_daily_def)
qed

lemma own_reopen: "own u db (reopen_badges env u db)"
proof -
  have "own u db (snd (evaluate_grants env u types full db))" for types full
    using own_trans [OF own_seed own_trans [OF own_grant_loop own_notify_grants]]
    by (simp add: evaluate_grants_def Let_def split_beta)
  then show ?thesis by (simp add: reopen_badges_def)
qed

lemma view_create_daily:
  assumes "rows_ok db"
  shows "own_view u db (snd (create_daily env u body db))"
proof -
  let ?a = "put_profile u (profile_of db u) db"
  have "own_view u db (add_items (d_id d) its (?a\<lparr>t_dailies := t_dailies ?a @ [d], t_next_id := t_next_id ?a + 1\<rparr>))"
    if d: "d_id d = t_next_id ?a" "d_user d = u" for d its
  proof -
    let ?b = "?a\<lparr>t_dailies := t_dailies ?a @ [d], t_next_id := t_next_id ?a + 1\<rparr>"
    have 1: "own_view u ?a ?b" by (rule own_view_dailies) (simp add: d)
    have "rows_ok ?a" using assms by simp
    then have "\<forall>e \<in> set (t_dailies ?a). d_id e < t_next_id ?a" unfolding rows_ok_def daily_valid_def by blast
    then have "solely u ?b (d_id d)" by (auto simp: solely_def daily_ids_alt d simp del: put_simps)
    from own_view_trans [OF own_view_put own_view_trans [OF 1 view_add_items [OF this]]] show ?thesis .
  qed
  then show ?thesis
    by (auto simp: create_daily_def get_or_create_profile_def Let_def simp del: put_simps split: option.splits)
qed

lemma view_patch_daily:
  assumes "rows_ok db" "keys_ok db"
  shows "own_view u db (snd (patch_daily env u i body db)) \<and> keys_ok (snd (patch_daily env u i body db))"
proof (cases "validate_daily_update body")
  case (Some b)
  let ?a = "put_profile u (profile_of db u) db"
  let ?b = "update_daily i (patched_daily b (date_of (e_now env))) ?a"
  define c where "c = (case du_items b of Given its \<Rightarrow> add_items i its (drop_items i ?b) | _ \<Rightarrow> ?b)"
  have a: "rows_ok ?a" using assms by simp
  have b: "rows_ok ?b" using a valid_daily_update(1) [OF Some] by (intro rows_update_daily) simp_all
  have "own_view u db c \<and> keys_ok c" if d: "get_daily db u i = Some d" for d
  proof -
    have d1: "get_daily ?a u i = Some d" using d by simp
    have 1: "own_view u db ?b"
      by (rule own_view_trans [OF own_view_put view_update_daily [OF d1 a]]) simp
    have same: "map (\<lambda>d. (d_id d, d_user d)) (t_dailies ?b) = map (\<lambda>d. (d_id d, d_user d)) (t_dailies ?a)"
      "t_dailies (drop_items i ?b) = t_dailies ?b"
      by (simp_all add: update_daily_def map_update_where drop_items_def Let_def)
    have "solely u ?b i = solely u ?a i" by (rule solely_cong [OF same(1)])
    then have sole: "solely u ?b i" using solely_mine [OF a d1] by simp
    have "solely u (drop_items i ?b) i = solely u ?b i" by (rule solely_cong) (simp only: same(2))
    then have 2: "own_view u db (add_items i its (drop_items i ?b))" for its
      using own_view_trans [OF 1 own_view_trans [OF view_drop_items [OF sole b] view_add_items]] sole by simp
    have "i \<in> set (map d_id (t_dailies (drop_items i ?b)))"
    proof -
      have "map d_id (t_dailies (drop_items i ?b)) = map d_id (t_dailies db)"
        by (simp add: same(2)) (simp add: update_daily_def put_profile_def map_update_where)
      with get_dailyD [OF d] show ?thesis by (metis image_eqI list.set_map)
    qed
    then have rows: "rows_ok c" using b valid_daily_update(2) [OF Some]
      by (auto intro!: rows_add_items rows_drop_items simp: items_dropped c_def simp del: set_map split: field.split)
    have "keys_ok c"
      by (rule keys_edit [OF assms(2) rows])
        (simp_all add: c_def add_items_def drop_items_def Let_def update_daily_def put_profile_def split: field.split)
    with 1 2 rows show ?thesis by (simp add: c_def split: field.split)
  qed
  then have "own_view u db c' \<and> keys_ok c'" if "get_daily db u i = Some d" "c' = c \<or> c' = reopen_badges env u c" for d c'
    using that own_view_trans [OF _ own_view_own [OF own_reopen]] ownD(3) [OF own_reopen] by blast
  then show ?thesis
    by (cases "get_daily db u i") (simp_all add: patch_daily_def Some get_or_create_profile_def Let_def c_def [symmetric] assms(2))
qed (use assms in \<open>simp add: patch_daily_def\<close>)

lemma view_delete_daily:
  assumes "rows_ok db" "keys_ok db"
  shows "own_view u db (snd (delete_daily env u i db)) \<and> keys_ok (snd (delete_daily env u i db))"
proof (cases "get_daily db u i")
  case (Some d)
  let ?a = "put_profile u (profile_of db u) db"
  have a: "rows_ok ?a" "get_daily ?a u i = Some d" using assms Some by simp_all
  have drop: "own_view u db (drop_daily i ?a)" by (rule own_view_trans [OF own_view_put view_drop_daily [OF a(2,1)]])
  have "keys_ok (drop_daily i ?a)"
    by (rule keys_edit [OF assms(2) rows_drop_daily [OF a(1)]]) (simp_all add: drop_daily_def drop_items_def Let_def put_profile_def)
  with own_view_trans [OF drop own_view_own [OF own_reopen]] ownD(3) [OF own_reopen]
  show ?thesis by (simp add: delete_daily_def get_or_create_profile_def Let_def Some)
qed (use assms in \<open>simp add: delete_daily_def get_or_create_profile_def Let_def\<close>)

lemma owns_get: "get_habit db u i = Some h \<Longrightarrow> owns_habit u db i" "get_daily db u i = Some d \<Longrightarrow> owns_daily u db i"
  by (force dest: get_habitD get_dailyD simp: owns_habit_def owns_daily_def owners_def)+

lemma own_click_request:
  assumes "click_habit env u i positive eid uuid db g = (r, db', g')" "keys_ok db"
  shows "own u db db'"
proof -
  let ?a = "put_profile u (profile_of db u) db"
  have k: "keys_ok ?a" using assms(2) by (simp add: keys_put)
  have s: "own u db (post_score env u types db2)"
    if "score_click env i dir rates today key ts [] [] None ?a g = (r2, db2, g2)" "get_habit db u i = Some h"
    for types dir rates today key ts r2 db2 g2 h
  proof -
    have "owns_habit u ?a i" using owns_get(1) [of ?a u i h] that(2) by simp
    from own_trans [OF own_put_profile own_trans [OF own_score_click [OF that(1) this k] own_post_score(2)]] show ?thesis .
  qed
  show ?thesis
    using assms(1) s by (auto simp: click_habit_def get_or_create_profile_def Let_def split: if_splits option.splits sum.splits prod.splits)
qed

lemma own_check_request:
  assumes "check_daily env u i body uuid db g = (r, db', g')" "keys_ok db"
  shows "own u db db'"
proof -
  let ?a = "put_profile u (profile_of db u) db"
  have k: "keys_ok ?a" using assms(2) by (simp add: keys_put)
  have s: "own u db (post_score env u types db2)"
    if "score_check env i items item day rates today key ts [] flag None ?a g = (r2, db2, g2)" "get_daily db u i = Some d"
    for types items item day rates today key ts flag r2 db2 g2 d
  proof -
    have "owns_daily u ?a i" using owns_get(2) [of ?a u i d] that(2) by simp
    from own_trans [OF own_put_profile own_trans [OF own_score_check [OF that(1) this k] own_post_score(2)]] show ?thesis .
  qed
  show ?thesis
    using assms(1) s by (auto simp: check_daily_def get_or_create_profile_def Let_def split: if_splits option.splits sum.splits prod.splits)
qed

subsection \<open>One request\<close>

lemma request_kept:
  assumes "serve_edit env u req (a, g) = (err, b, g')" "rows_ok a" "keys_ok a"
  shows "rows_ok b \<and> keys_ok b \<and> own_view u a b"
proof (cases req)
  case (Add_habit body)
  then have "b = snd (create_habit u body a)" using assms(1) by (cases "create_habit u body a") (auto simp: refused_with_def)
  then show ?thesis using rows_create_habit keys_request(1) view_habits(1) assms(2,3) by simp
next
  case (Patch_habit i body)
  then have "b = snd (patch_habit u i body a)" using assms(1) by (cases "patch_habit u i body a") (auto simp: refused_with_def)
  then show ?thesis using rows_patch_habit keys_request(2) view_habits(2) assms(2,3) by simp
next
  case (Remove_habit i)
  then have "b = snd (delete_habit u i a)" using assms(1) by (cases "delete_habit u i a") (auto simp: refused_with_def)
  then show ?thesis using rows_delete_habit keys_request(3) view_habits(3) assms(2,3) by simp
next
  case (Click_habit i positive eid uuid)
  obtain r b1 g1 where c: "click_habit env u i positive eid uuid a g = (r, b1, g1)" using prod_cases3 by blast
  then have "b = b1" using assms(1) Click_habit by (auto simp: refused_with_def)
  with c show ?thesis
    using rows_steady [OF steady_click_request [OF c] assms(2)] own_click_request [OF c assms(3)] own_view_own ownD(3) assms(3) by blast
next
  case (Add_daily body)
  then have "b = snd (create_daily env u body a)" using assms(1) by (cases "create_daily env u body a") (auto simp: refused_with_def)
  then show ?thesis using rows_create_daily keys_request(4) view_create_daily assms(2,3) by simp
next
  case (Patch_daily i body)
  then have "b = snd (patch_daily env u i body a)" using assms(1) by (cases "patch_daily env u i body a") (auto simp: refused_with_def)
  then show ?thesis using rows_patch_daily view_patch_daily assms(2,3) by simp
next
  case (Remove_daily i)
  then have "b = snd (delete_daily env u i a)" using assms(1) by (cases "delete_daily env u i a") (auto simp: refused_with_def)
  then show ?thesis using rows_delete_daily view_delete_daily assms(2,3) by simp
next
  case (Check_daily i body uuid)
  obtain r b1 g1 where c: "check_daily env u i body uuid a g = (r, b1, g1)" using prod_cases3 by blast
  then have "b = b1" using assms(1) Check_daily by (auto simp: refused_with_def)
  with c show ?thesis
    using rows_steady [OF steady_check_request [OF c] assms(2)] own_check_request [OF c assms(3)] own_view_own ownD(3) assms(3) by blast
next
  case (Post_events events)
  then show ?thesis
    using assms own_view_batch rows_steady [OF steady_batch] by (auto split: sum.splits)
qed

end
