(* ===== verification/EditorLaws.thy ===== *)
theory EditorLaws
  imports EditorSteps SweepLaws
begin

text \<open>
  What the habit and daily editors guarantee, alone and interleaved with clicks, checks, event batches
  and the daily-miss sweep: the rows stay valid and refer to rows that exist, the caps hold, nobody
  else's rows move, a refused request writes nothing, and a retried click or check is settled once.
\<close>

subsection \<open>The sweep\<close>

lemma keys_same: "keys_ok a \<Longrightarrow> same_rows a b \<Longrightarrow> distinct (map ug_id (t_user_gear b)) \<Longrightarrow> t_sessions b = t_sessions a \<Longrightarrow>
    t_phases b = t_phases a \<Longrightarrow> keys_ok b"
  by (simp add: keys_ok_def same_rows_def) (meson order_trans order_less_le_trans)

lemma death_gear:
  "resolve_death_gear u oc db g = (oc', db', g') \<Longrightarrow> distinct (map ug_id (t_user_gear db)) \<Longrightarrow>
     distinct (map ug_id (t_user_gear db')) \<and> t_sessions db' = t_sessions db \<and> t_phases db' = t_phases db"
  by (auto simp: resolve_death_gear_def lose_random_gear_def Let_def distinct_map_filter split: if_splits prod.splits)

lemma score_miss_keeps:
  assumes "score_miss env d rates today db g = (Inr (db', oc), g')" "keys_ok db"
  shows "same_rows db db' \<and> keys_ok db'"
proof -
  have put: "same_rows db (put_profile u p db)" "keys_ok (put_profile u p db)" for u p
    using assms(2) by (simp_all add: same_rows_put keys_put)
  have death: "same_rows db db1 \<and> keys_ok db1" if "resolve_death_gear u oc0 (put_profile u p db) g0 = (oc1, db1, g1)" for u p oc0 g0 oc1 db1 g1
    using same_rows_trans [OF put(1) same_rows_death [OF that]] death_gear [OF that]
      keys_same [OF put(2) same_rows_death [OF that]] put(2) by (auto simp: keys_ok_def)
  show ?thesis
    using assms by (auto simp: score_miss_def Let_def split: option.splits prod.splits sum.splits dest: death)
qed

lemma miss_notified:
  "keys_ok (notify_miss env d unit frozen h oc db) = keys_ok db" "rows_ok (notify_miss env d unit frozen h oc db) = rows_ok db"
  by (simp_all add: keys_ok_def rows_ok_def checklists_ok_def marks_ok_def mark_sound_def same_game_fields [OF notify_miss_same_game])

lemma rows_miss:
  assumes "rows_ok db" "(dm_daily m, dm_user m) \<in> set (map (\<lambda>d. (d_id d, d_user d)) (t_dailies db))"
  shows "rows_ok (db\<lparr>t_daily_misses := t_daily_misses db @ [m]\<rparr>)"
  using assms by (auto simp: rows_ok_def checklists_ok_def marks_ok_def mark_sound_def simp del: set_map)

definition tables_ok :: "db \<Rightarrow> bool" where
  "tables_ok db \<longleftrightarrow> rows_ok db \<and> keys_ok db"

lemma evaluate_unit_tables:
  assumes "evaluate_unit env did u rec anchor missed rates today db g = (res, db', g')" "tables_ok db"
  shows "tables_ok db'"
proof -
  have rec: "tables_ok (record_miss env d u frozen h oc db1)"
    if g: "unit_guard did u rec anchor db = Inr d" and s: "score_miss env d rates today db g = (Inr (db1, oc), g1)" for d db1 oc g1 frozen h
  proof -
    have d: "d \<in> set (t_dailies db)"
      using g by (auto simp: unit_guard_def Let_def daily_row_def find_Some_iff split: if_splits option.splits)
    note k = score_miss_keeps [OF s]
    have 1: "rows_ok db1" "keys_ok db1" "t_dailies db1 = t_dailies db"
      using k assms(2) rows_steady [OF steady_same] by (auto simp: tables_ok_def same_rows_def)
    define m where "m = (claim_row d u)\<lparr>dm_frozen := frozen, dm_hp_lost := or_zero (o_hp_lost oc)\<rparr>"
    let ?a = "db1\<lparr>t_daily_misses := t_daily_misses db1 @ [m]\<rparr>"
    let ?b = "update_daily (d_id d) (\<lambda>r. r\<lparr>d_streak := if frozen then d_streak d else 0\<rparr>) ?a"
    have "(dm_daily m, dm_user m) \<in> set (map (\<lambda>d. (d_id d, d_user d)) (t_dailies db1))"
      using d by (simp add: 1(3) m_def claim_row_def)
    then have a: "rows_ok ?a" using rows_miss [OF 1(1)] by simp
    have b: "rows_ok (add_event e ?b)" for e
      by (rule rows_steady [OF steady_trans [OF steady_update_daily steady_same [OF same_rows_put(2)]] a]) (simp add: daily_face_def)
    have "keys_ok (add_event e ?b)" for e
      by (rule keys_edit [OF 1(2) b]) (simp_all add: add_event_def update_daily_def)
    with b show ?thesis by (simp add: tables_ok_def record_miss_def Let_def miss_notified m_def [symmetric])
  qed
  show ?thesis
    using assms rec by (auto simp: evaluate_unit_def Let_def split: sum.splits prod.splits if_splits)
qed

lemma evaluate_queue_tables:
  "evaluate_queue env did rec anchor rates today us missed done_days n db g = (res, db', g') \<Longrightarrow> tables_ok db \<Longrightarrow> tables_ok db'"
proof (induction us arbitrary: missed done_days n db g)
  case (Cons u us)
  from Cons.prems(1) show ?case
    by (cases rule: queue_cases) (use Cons evaluate_unit_tables in blast)+
qed simp

lemma sweep_page_tables:
  "sweep_page env rates today ids n db g = (n', db', g') \<Longrightarrow> tables_ok db \<Longrightarrow> tables_ok db'"
proof (induction ids arbitrary: n db g)
  case (Cons i ids)
  from Cons.prems(1) show ?case
  proof (cases rule: sweep_page_cons)
    case (ran d res a h)
    then have "tables_ok a" using Cons.prems(2) evaluate_queue_tables
      by (fastforce simp: evaluate_daily_def Let_def split: option.splits if_splits)
    with Cons.IH ran(3) show ?thesis by blast
  qed (use Cons in blast)
qed simp

lemma sweep_tables:
  assumes "run_daily_miss_sweep env db g = Inr (n, db', g')" "tables_ok db"
  shows "tables_ok db'"
proof -
  from assms(1) obtain rates where "sweep_pages env rates (date_of (e_now env)) 0 0 db g = (n, db', g')"
    by (auto simp: run_daily_miss_sweep_def bind_r_def split: sum.splits)
  moreover have "distinct (map d_id (t_dailies db))" using assms(2) by (simp add: tables_ok_def keys_ok_def)
  ultimately show ?thesis using sweep_page_tables assms(2) by (simp add: sweep_pages_page)
qed

subsection \<open>Any interleaving\<close>

inductive editor_world :: "db \<Rightarrow> db \<Rightarrow> bool" where
  request: "serve_edit env u req (a, g) = (err, b, g') \<Longrightarrow> editor_world a b"
| tick: "run_daily_miss_sweep env a g = Inr (n, b, g') \<Longrightarrow> editor_world a b"

lemma world_tables: "editor_world a b \<Longrightarrow> tables_ok a \<Longrightarrow> tables_ok b"
  by (cases rule: editor_world.cases) (use request_kept sweep_tables in \<open>auto simp: tables_ok_def\<close>)

lemma world_run: "editor_world\<^sup>*\<^sup>* a b \<Longrightarrow> tables_ok a \<Longrightarrow> tables_ok b"
  by (induction rule: rtranclp_induct) (auto dest: world_tables)

text \<open>C2: the tables of the editors stay sound. Start from sound tables and run any interleaving of habit
  and daily requests of any users (create, patch, delete, click, check), event batches and sweep ticks, each
  accepted or refused: ids stay unique and below the next one handed out; every habit and daily has a title,
  a known difficulty and well-formed reminder times, every daily a rule the sweep can parse; nobody has more
  than 100 habits or 100 dailies, no checklist more than 30 items; no item, mark or miss outlives the row it
  names; and a day of a daily has at most one mark per item and one for the whole.\<close>

theorem editor_runs:
  assumes "editor_world\<^sup>*\<^sup>* a b" and "tables_ok a"
  shows "tables_ok b \<and> (\<forall>u. length (list_habits b u) \<le> 100 \<and> count_dailies b u \<le> 100)"
proof -
  have "tables_ok b" by (rule world_run [OF assms])
  then show ?thesis by (simp add: tables_ok_def rows_ok_def habits_of_list count_dailies_def dailies_of_def)
qed

text \<open>C17: one user's requests never reach another's rows. Whatever a habit or daily request or a batch of
  \<open>u\<close> does, accepted or refused, what anybody else sees is as before (profile, ledger, habits, dailies,
  checklists, marks, misses, gear, badges, sessions, inbox and sends), and the ledger only gains rows of \<open>u\<close>.\<close>

theorem edits_isolated:
  assumes "serve_edit env u req (a, g) = (err, b, g')" and "tables_ok a" and "v \<noteq> u"
  shows "view_of v b = view_of v a \<and> (\<exists>evs. t_events b = t_events a @ evs \<and> (\<forall>e \<in> set evs. ev_user e = u))"
  using request_kept [OF assms(1)] assms(2,3) by (simp add: tables_ok_def own_view_def)

subsection \<open>Refusals\<close>

lemma habit_stays: "steady a b \<Longrightarrow> get_habit a u i \<noteq> None \<Longrightarrow> get_habit b u i \<noteq> None"
proof -
  have key: "get_habit db u i \<noteq> None \<longleftrightarrow> (i, u) \<in> set (map (\<lambda>h. (h_id h, h_user h)) (map habit_face (t_habits db)))" for db
    by (auto simp: get_habit_def find_None_iff)
  show "steady a b \<Longrightarrow> get_habit a u i \<noteq> None \<Longrightarrow> get_habit b u i \<noteq> None"
    unfolding key by (simp add: steady_def del: set_map list.set_map list.map_comp)
qed

lemma daily_stays: "steady a b \<Longrightarrow> get_daily a u i \<noteq> None \<Longrightarrow> get_daily b u i \<noteq> None"
proof -
  have key: "get_daily db u i \<noteq> None \<longleftrightarrow> (i, u) \<in> set (map (\<lambda>d. (d_id d, d_user d)) (map daily_face (t_dailies db)))" for db
    by (auto simp: get_daily_def find_None_iff)
  show "steady a b \<Longrightarrow> get_daily a u i \<noteq> None \<Longrightarrow> get_daily b u i \<noteq> None"
    unfolding key by (simp add: steady_def del: set_map list.set_map list.map_comp)
qed

lemma click_refused: "click_habit env u i positive eid uuid db g = (Inl e, db', g') \<Longrightarrow> db' = db"
proof -
  let ?a = "put_profile u (profile_of db u) db"
  have stays: "get_habit (post_score env u types db2) u i \<noteq> None"
    if "score_click env i dir rates today k ts [] [] None ?a g = (r, db2, g2)" "get_habit db u i = Some h" for types dir rates today k ts r db2 g2 h
    using habit_stays [OF steady_trans [OF steady_click [OF that(1)] steady_same [OF same_rows_grants(2)]], of u i env u types] that(2) by simp
  show "click_habit env u i positive eid uuid db g = (Inl e, db', g') \<Longrightarrow> db' = db"
    by (auto simp: click_habit_def get_or_create_profile_def Let_def dest: stays split: if_splits option.splits sum.splits prod.splits)
qed

lemma check_refused: "check_daily env u i body uuid db g = (Inl e, db', g') \<Longrightarrow> db' = db"
proof -
  let ?a = "put_profile u (profile_of db u) db"
  have stays: "get_daily (post_score env u types db2) u i \<noteq> None"
    if "score_check env i (list_daily_items db i) item day rates today k ts [] flag None ?a g = (r, db2, g2)" "get_daily db u i = Some d"
    for types item day rates today k ts flag r db2 g2 d
  proof -
    have "steady ?a db2" using that(1) steady_check [of env i ?a] by simp
    then show ?thesis
      using daily_stays [OF steady_trans [OF _ steady_same [OF same_rows_grants(2)]], of ?a db2 u i env u types] that(2) by simp
  qed
  show "check_daily env u i body uuid db g = (Inl e, db', g') \<Longrightarrow> db' = db"
    by (auto simp: check_daily_def get_or_create_profile_def Let_def dest: stays split: if_splits option.splits sum.splits prod.splits)
qed

text \<open>C38: a request that is answered with an error changed nothing: validation, the caps, an unknown or
  foreign id, a direction the habit does not take, a check outside the daily's life, corrupt rates and a
  clash in the ledger all leave every table as it was.\<close>

theorem refused_edit:
  assumes "serve_edit env u req (a, g) = (Some e, b, g')"
  shows "b = a"
proof (cases req)
  case (Click_habit i positive eid uuid)
  with assms show ?thesis by (cases "click_habit env u i positive eid uuid a g") (auto simp: refused_with_def dest: click_refused split: sum.splits)
next
  case (Check_daily i body uuid)
  with assms show ?thesis by (cases "check_daily env u i body uuid a g") (auto simp: refused_with_def dest: check_refused split: sum.splits)
qed (use assms in \<open>auto simp: refused_with_def create_habit_def patch_habit_def delete_habit_def create_daily_def patch_daily_def
    delete_daily_def get_or_create_profile_def Let_def split: option.splits if_splits sum.splits\<close>)

subsection \<open>Retries\<close>

lemma evaluate_unit_events:
  assumes "evaluate_unit env did u rec anchor missed rates today db g = (res, db', g')"
  shows "set (t_events db) \<subseteq> set (t_events db')"
proof -
  have death: "t_events b = t_events a" if "resolve_death_gear u oc a h = (oc', b, h')" for u oc a h oc' b h'
    using that by (auto simp: resolve_death_gear_def lose_random_gear_def Let_def split: if_splits prod.splits)
  have miss: "t_events db1 = t_events db" if "score_miss env d rates today db g = (Inr (db1, oc), g1)" for d db1 oc g1
    using that by (auto simp: score_miss_def Let_def put_profile_def dest!: death split: option.splits prod.splits sum.splits)
  have "set (t_events db1) \<subseteq> set (t_events (record_miss env d u frozen h oc db1))" for d frozen h oc db1
    by (simp add: record_miss_def Let_def same_game_fields [OF notify_miss_same_game]) (auto simp: add_event_def update_daily_def)
  with assms miss show ?thesis
    by (fastforce simp: evaluate_unit_def Let_def split: sum.splits prod.splits if_splits)
qed

lemma evaluate_queue_events:
  "evaluate_queue env did rec anchor rates today us missed done_days n db g = (res, db', g') \<Longrightarrow> set (t_events db) \<subseteq> set (t_events db')"
proof (induction us arbitrary: missed done_days n db g)
  case (Cons u us)
  from Cons.prems(1) show ?case
    by (cases rule: queue_cases) (use Cons.IH evaluate_unit_events in blast)+
qed simp

lemma sweep_page_events: "sweep_page env rates today ids n db g = (n', db', g') \<Longrightarrow> set (t_events db) \<subseteq> set (t_events db')"
proof (induction ids arbitrary: n db g)
  case (Cons i ids)
  from Cons.prems(1) show ?case
  proof (cases rule: sweep_page_cons)
    case (ran d res a h)
    then have "set (t_events db) \<subseteq> set (t_events a)" using evaluate_queue_events
      by (fastforce simp: evaluate_daily_def Let_def split: option.splits if_splits)
    with Cons.IH ran(3) show ?thesis by blast
  qed (use Cons in blast)
qed simp

lemma world_events: "editor_world a b \<Longrightarrow> tables_ok a \<Longrightarrow> set (t_events a) \<subseteq> set (t_events b)"
proof (induction rule: editor_world.cases)
  case (request env u req db g err db' g')
  then show ?case using request_kept [OF request(3)] by (auto simp: tables_ok_def own_view_def)
next
  case (tick env db g n db' g')
  from tick(3) obtain rates where "sweep_pages env rates (date_of (e_now env)) 0 0 db g = (n, db', g')"
    by (auto simp: run_daily_miss_sweep_def bind_r_def split: sum.splits)
  moreover have "distinct (map d_id (t_dailies db))" using tick by (simp add: tables_ok_def keys_ok_def)
  ultimately show ?case using sweep_page_events tick(1,2) by (simp add: sweep_pages_page)
qed

lemma world_run_events: "editor_world\<^sup>*\<^sup>* a b \<Longrightarrow> tables_ok a \<Longrightarrow> set (t_events a) \<subseteq> set (t_events b)"
  by (induction rule: rtranclp_induct) (use world_run world_events in blast)+

text \<open>The client ids a request brings.\<close>

fun request_ids :: "edit \<Rightarrow> string set" where
  "request_ids (Click_habit i positive eid uuid) = set_option eid"
| "request_ids (Check_daily i body uuid) = set_option (ck_eid body)"
| "request_ids (Post_events events) = ei_eid ` set events"
| "request_ids req = {}"

lemma known_add: "eid \<in> eids u db \<Longrightarrow> eid \<in> eids u (post_score env v types db)"
  by (simp add: eids_def)

lemma known_existing: "eid \<in> existing_event_ids db u ks \<Longrightarrow> eid \<in> eids u db"
  by (simp add: existing_eids)

lemma batch_ids:
  assumes "ingest_events env u events db g = Inr (res, db', g')" "keys_ok db"
  shows "ei_eid ` set events \<subseteq> eids u db'"
proof -
  obtain rates habits dailies start b where
    c: "ingest_loop env u habits dailies rates (date_of (e_now env)) (order_events events) start = Inr b"
      "\<forall>h \<in> set habits. owns_habit u (b_db start) (h_id h)" "\<forall>d \<in> set dailies. owns_daily u (b_db start) (d_id d)"
      "keys_ok (b_db start)" "b_seen start \<subseteq> eids u (b_db start)"
    and o: "own u (b_db b) db'"
    using ingest_events_cases [OF assms] by metis
  have "ei_eid ` set events \<subseteq> eids u (b_db b)"
    using ingest_loop_steps [OF c] order_events_facts(4) [of events] by (auto simp: image_comp [symmetric])
  with eids_own [OF o] show ?thesis by blast
qed

lemma request_recorded:
  assumes "serve_edit env u req (a, g) = (None, b, g')" "eid \<in> request_ids req" "keys_ok a"
  shows "eid \<in> eids u b"
proof (cases req)
  case (Click_habit i positive k uuid)
  let ?a = "put_profile u (profile_of a u) a"
  have ka: "keys_ok ?a" using assms(3) by (simp add: keys_put)
  have known: "eid \<in> eids u a" if "eid \<in> existing_event_ids ?a u [eid]"
    using known_existing [OF that] by (simp add: eids_def put_profile_def)
  have scored: "eid \<in> eids u db2"
    if "score_click env i dir rates today eid ts [] [] None ?a g = (Inr oc, db2, g2)" "get_habit a u i = Some h" for dir rates today ts oc db2 g2 h
    using score_click_eid [OF that(1) _ ka] owns_get(1) [of ?a u i h] that(2) by simp
  show ?thesis
    using assms(1,2) known known_add [OF scored] Click_habit
    by (auto simp: click_habit_def get_or_create_profile_def Let_def refused_with_def split: if_splits option.splits sum.splits prod.splits)
next
  case (Check_daily i body uuid)
  let ?a = "put_profile u (profile_of a u) a"
  have ka: "keys_ok ?a" using assms(3) by (simp add: keys_put)
  have known: "eid \<in> eids u a" if "eid \<in> existing_event_ids ?a u [eid]"
    using known_existing [OF that] by (simp add: eids_def put_profile_def)
  have scored: "eid \<in> eids u db2"
    if "score_check env i items item day rates today eid ts [] flag None ?a g = (Inr oc, db2, g2)" "get_daily a u i = Some d"
    for items item day rates today ts flag oc db2 g2 d
    using score_check_eid [OF that(1) _ ka] owns_get(2) [of ?a u i d] that(2) by simp
  show ?thesis
    using assms(1,2) known known_add [OF scored] Check_daily
    by (auto simp: check_daily_def get_or_create_profile_def Let_def refused_with_def split: if_splits option.splits sum.splits prod.splits)
next
  case (Post_events events)
  then show ?thesis using assms batch_ids by (fastforce split: sum.splits)
qed (use assms(2) in simp_all)

text \<open>C15: an accepted id is settled for good. Once a click, a check or a batch of a user that carries the id
  was accepted, and after any further requests of anybody and any sweep ticks, a click or a check with that
  id, of whatever habit or daily, applies nothing: the database and the generator stay as they are.\<close>

theorem retry_settled:
  assumes "serve_edit env u req (a, g) = (None, b, g')" and "eid \<in> request_ids req" and "tables_ok a"
    and "editor_world\<^sup>*\<^sup>* b c" and "ck_eid body = Some eid"
  shows "(\<exists>r. click_habit env2 u i positive (Some eid) uuid c h = (r, c, h) \<and> (\<forall>x p. r \<noteq> Inr (x, p, Applied)))
    \<and> (\<exists>r. check_daily env2 u j body uuid c h = (r, c, h) \<and> (\<forall>x p. r \<noteq> Inr (x, p, Applied)))"
proof -
  have b: "tables_ok b" using request_kept [OF assms(1)] assms(3) by (simp add: tables_ok_def)
  have "eid \<in> eids u b" using request_recorded [OF assms(1,2)] assms(3) by (simp add: tables_ok_def)
  with world_run_events [OF assms(4) b] have "eid \<in> eids u (put_profile u (profile_of c u) c)"
    by (auto simp: eids_def put_profile_def)
  then have "eid \<in> existing_event_ids (put_profile u (profile_of c u) c) u [eid]" by (simp add: existing_eids)
  then show ?thesis
    using assms(5) by (auto simp: click_habit_def check_daily_def get_or_create_profile_def Let_def split: option.split sum.split)
qed

subsection \<open>Unhandled exceptions\<close>








end
