(* ===== verification/EditorWitnesses.thy ===== *)
theory EditorWitnesses
  imports EditorLaws
begin

text \<open>The properties of the editors at a user who adds a habit to empty tables.\<close>

definition walk :: habit_in where
  "walk = \<lparr>hi_title = '' walk '', hi_notes = None, hi_direction = BOTH, hi_difficulty = ''easy'',
     hi_reminders = [''07:30''], hi_bind = False\<rparr>"

definition walk_row :: habit where
  "walk_row = \<lparr>h_id = 1, h_user = 1, h_title = ''walk'', h_direction = BOTH, h_difficulty = ''easy'', h_value = 0,
     h_counter = 0, h_bind_focus = False, h_reminder_times = [''07:30''], h_notes = None\<rparr>"

definition walk_db :: db where
  "walk_db = empty_db\<lparr>t_profiles := [1 \<mapsto> new_profile], t_habits := [walk_row], t_next_id := 2\<rparr>"

lemma empty_ok: "tables_ok empty_db"
  by (simp add: tables_ok_def rows_ok_def keys_ok_def checklists_ok_def marks_ok_def habits_of_def dailies_of_def items_of_def empty_db_def)

lemma walk_valid: "validate_habit_in walk = Some (walk\<lparr>hi_title := ''walk''\<rparr>)"
  by (simp add: validate_habit_in_def walk_def) code_simp

lemma walk_created: "create_habit 1 walk empty_db = (Inr walk_row, walk_db)"
  by (simp add: create_habit_def walk_valid get_or_create_profile_def Let_def list_habits_def MAX_HABITS_PER_USER_def put_profile_def)
    (simp add: empty_db_def walk_row_def walk_db_def profile_of_def walk_def)

lemma walk_request: "serve_edit env 1 (Add_habit walk) (empty_db, g) = (None, walk_db, g)"
  by (simp add: walk_created refused_with_def)

lemma walk_world: "editor_world empty_db walk_db"
  by (rule editor_world.request [OF walk_request])

theorem editor_runs_witness:
  "editor_world\<^sup>*\<^sup>* empty_db walk_db \<and> list_habits walk_db 1 = [walk_row] \<and> tables_ok walk_db \<and> length (list_habits walk_db 2) \<le> 100"
proof -
  have "editor_world\<^sup>*\<^sup>* empty_db walk_db" using walk_world by blast
  with editor_runs [OF this empty_ok] show ?thesis
    by (simp add: list_habits_def walk_db_def walk_row_def)
qed

theorem edits_isolated_witness:
  "view_of 2 walk_db = view_of 2 empty_db \<and> view_of 1 walk_db \<noteq> view_of 1 empty_db"
proof -
  have "w_habits (view_of 1 walk_db) \<noteq> w_habits (view_of 1 empty_db)"
    by (simp add: view_of_def walk_db_def walk_row_def empty_db_def)
  moreover have "view_of 2 walk_db = view_of 2 empty_db"
    using edits_isolated [OF walk_request [of sample_env "sample_gen 0"] empty_ok, of 2] by simp
  ultimately show ?thesis by metis
qed

lemma foreign_click: "serve_edit sample_env 2 (Click_habit 1 True None ''0'') (walk_db, sample_gen 0) = (Some habit_404, walk_db, sample_gen 0)"
  by (simp add: click_habit_def client_eid_ok_def refused_with_def get_or_create_profile_def Let_def)
    (simp add: get_habit_def walk_db_def walk_row_def)

theorem refused_edit_witness:
  "serve_edit sample_env 2 (Click_habit 1 True None ''0'') (walk_db, sample_gen 0) = (Some habit_404, walk_db, sample_gen 0)
     \<and> snd (serve_edit sample_env 2 (Click_habit 1 True None ''0'') (walk_db, sample_gen 0)) = (walk_db, sample_gen 0)"
  using foreign_click refused_edit [OF foreign_click] by simp

definition stray_check :: check_in where
  "stray_check = \<lparr>ck_item = None, ck_date = None, ck_done = True, ck_eid = Some ''a''\<rparr>"

theorem retry_settled_witness:
  "\<exists>b g'. serve_edit sample_env 1 (Post_events sample_batch) (two_users, sample_gen 0) = (None, b, g')
     \<and> snd (click_habit sample_env 1 7 True (Some ''a'') ''0'' b g') = (b, g')
     \<and> snd (check_daily sample_env 1 7 stray_check ''0'' b g') = (b, g')"
proof -
  obtain b g' where i: "ingest_events sample_env 1 sample_batch two_users (sample_gen 0)
     = Inr ([(''a'', Some Duplicate), (''a'', Some Applied), (''b'', Some Applied)], b, g')" using sample_ingest by blast
  then have s: "serve_edit sample_env 1 (Post_events sample_batch) (two_users, sample_gen 0) = (None, b, g')" by simp
  have id: "''a'' \<in> request_ids (Post_events sample_batch)" by (simp add: sample_batch_def stray_click_def)
  have ok: "tables_ok two_users"
    using empty_ok by (simp add: two_users_def tables_ok_def rows_ok_def keys_ok_def checklists_ok_def marks_ok_def mark_sound_def empty_db_def)
  have "ck_eid stray_check = Some ''a''" by (simp add: stray_check_def)
  from retry_settled [OF s id ok rtranclp.rtrancl_refl this, of sample_env 7 True "''0''" g' 7] s show ?thesis by auto
qed


end
