(* ===== verification/Spec2Isabelle.thy ===== *)
theory Spec2Isabelle
  imports EngineWitnesses SessionWitnesses RecurrenceLaws Reminders IngestLaws SessionServiceLaws SyncSpec CharacterRuns AchievementLaws DailyLaws SweepLaws BudgetLaws IdempotencyLaws TrackingLaws EditorWitnesses
begin

text \<open>
  Verification of the Task Buddy backend: the gamified-focus layer of \<open>app/game\<close> with its endpoints,
  offline sync, the token budget of the language-model endpoints and the idempotency middleware.

  \<^bold>\<open>The program.\<close> A user has one game profile (level, XP, gold, HP, stats). Everything that scores ends
  in \<open>engine.apply_event\<close>, which books one event on the profile, and leaves one row in an append-only
  ledger whose key is the user and a client event id. Events come from a batch of an offline client
  (\<open>service.ingest_events\<close>), from a click on a habit, from a check on a daily, from a focus session
  replayed against the wall clock (\<open>session_service\<close> over \<open>session_engine\<close>), and from the periodic sweep
  that charges missed dailies. After scoring, \<open>character_service.post_score\<close> distributes stat points and
  grants achievements, and the notification hooks dispatch messages. Every endpoint takes the row lock of
  the profile first, so the requests of one user run one after the other; the model runs each request as
  one function on the whole database and interleaves requests, ticks and batches as steps.

  \<^bold>\<open>The value model.\<close>
    \<^item> \<open>Prelude\<close>: exceptions as a datatype, results \<open>error + 'a\<close>, the collections \<open>inv_intros\<close> and \<open>frame\<close>.
    \<^item> \<open>PyFloat\<close>: a float is the rational it denotes, each operation rounds once to 53 bits, ties to even
      (locale \<open>rounding\<close>, interpreted on \<open>b64\<close>). \<open>PyJson\<close>: JSON values and dicts in insertion order.
      \<open>PyStr\<close>, \<open>PyTime\<close>, \<open>PyDate\<close>: the string methods, instants and calendar the code uses.
    \<^item> \<open>GameDb\<close>: the rows of \<open>app/models/game.py\<close>, one list per table in insertion order, and the queries of
      \<open>app/crud/game.py\<close>. The record \<open>env\<close> holds what a request takes from outside: the clock, read once,
      the time zones, the digest function, and the platform's \<open>pow\<close> (which may raise) and \<open>repr\<close>.

  \<^bold>\<open>Components and theories.\<close>
    \<^item> \<open>GameRates\<close>, \<open>Engine\<close>: \<open>app/game/engine.py\<close>, every handler of \<open>apply_event\<close>. \<open>EngineFacts\<close> and
      \<open>EngineLaws\<close>: the daily caps of XP and gold over any run of events (gold within one unit in
      the last place of a cap whose significand is odd, exactly for any other); the profile's
      ranges; the level-up bookkeeping; which exceptions a payload can cause. \<open>EngineWitnesses\<close>.
    \<^item> \<open>SessionEngine\<close>: \<open>app/game/session_engine.py\<close>. \<open>SessionFacts\<close>, \<open>SessionVerbs\<close> (locale
      \<open>session_verb\<close>, interpreted on each of the six verbs), \<open>SessionClosing\<close> (locale \<open>closing_verb\<close>, which
      extends it: what the steps of a verb say of the phases it closes), \<open>SessionLaws\<close>: the ledger of a
      session over any run of verbs and polls, independence from the polling instants, verdicts. \<open>SessionWitnesses\<close>.
    \<^item> \<open>SessionService\<close>: \<open>app/game/session_service.py\<close>. \<open>SessionServiceLaws\<close>: stored sessions stay sound and
      at most one per user is active through any interleaving with event batches; a second view at one
      instant writes nothing.
    \<^item> \<open>Recurrence\<close>: the rules of \<open>app/game/daily_service.py\<close>. \<open>RecurrenceLaws\<close>: units of a range, the
      capped walk back, what a stored rule reads back as.
    \<^item> \<open>HabitService\<close>, \<open>DailyService\<close>: \<open>app/game/habit_service.py\<close> and the marks and payouts of
      \<open>app/game/daily_service.py\<close>. \<open>DailyLaws\<close>: the shares paid for a day add up to at most one check.
    \<^item> \<open>Ingest\<close>: \<open>app/game/service.py\<close>. \<open>Ownership\<close>, \<open>IngestLaws\<close>: verdict per event, replay, isolation.
    \<^item> \<open>Sweep\<close>: \<open>app/game/daily_sweep.py\<close>. \<open>SweepLaws\<close>: one pass over every active daily, each unit charged
      at most once, freezes at least seven units apart, whatever raises on the way.
    \<^item> \<open>Notifications\<close>, \<open>Reminders\<close>: \<open>app/game/notifications.py\<close>, dispatch and the reminder tick.
    \<^item> \<open>Achievements\<close>: \<open>app/game/achievements.py\<close>. \<open>AchievementLaws\<close>: what a grant pass grants.
    \<^item> \<open>Character\<close>, \<open>CharacterApi\<close>: \<open>app/game/character_service.py\<close> and \<open>app/api/routers/game_character.py\<close>.
      \<open>CharacterLaws\<close>, \<open>Wardrobe\<close> (locale \<open>slot_flag\<close>, interpreted on worn and shown), \<open>CharacterRuns\<close>:
      stat points are conserved, one worn and one shown item per slot, profiles stay in range.
    \<^item> \<open>HabitApi\<close>, \<open>DailyApi\<close>: \<open>app/api/routers/game_habits.py\<close> and \<open>game_dailies.py\<close> with their validators
      from \<open>app/schemas/game.py\<close>. \<open>EditorFacts\<close> (what scoring leaves alone), \<open>EditorRows\<close> (the row
      invariant), \<open>EditorViews\<close> (what one user sees), \<open>EditorSteps\<close> (requests as steps), \<open>EditorLaws\<close>: caps,
      references and validity through any interleaving of requests, batches and sweep ticks; isolation;
      refusals; retries. \<open>EditorWitnesses\<close>.
    \<^item> \<open>Tracking\<close>: \<open>app/game/tracking.py\<close>, \<open>app/crud/game_tracking.py\<close>, \<open>app/api/routers/game_tracking.py\<close>.
      \<open>TrackingLaws\<close>: the grid counts every event once, streaks, the record board.
    \<^item> \<open>Sync\<close>: \<open>app/sync/lww.py\<close> and \<open>app/api/routers/sync.py\<close>. \<open>SyncLaws\<close>, \<open>SyncSpec\<close>: the conditional
      writes refine registers moved by the pure \<open>decide_apply\<close>; replay, isolation, the answer to each
      change, what the delta is sure to deliver.
    \<^item> \<open>Budget\<close>: \<open>app/knowledge/budget.py\<close> and the five endpoints that spend tokens. \<open>BudgetLaws\<close>: the
      counters as an exact ledger over the requests of one day, streams settled once.
    \<^item> \<open>Idempotency\<close>: \<open>app/middleware/idempotency.py\<close>. \<open>IdempotencyLaws\<close>: requests as threads over the
      cache and the clock free to pass any lock; \<open>overran\<close> says that a run outlived its lock, and
      while none of a key has, its runs are apart; a replay is always a stored response of an equal request.

  \<^bold>\<open>Loops and bounds.\<close> Loops over data are structural recursion. The level-up loop, the distribution of
  points and the evaluation of a session recurse on measures proved to fall. The walk back over scheduled
  days carries the code's own cap of 2200 days (\<open>SCAN_CAP\<close>); \<open>prior_units_spec\<close> shows that for the up to
  six earlier units the sweep asks for the cap loses none, whatever the rule.

  The engine lemmas \<open>economy_row_safe\<close> and \<open>apply_event_errors\<close> record when a stored rate or a payload
  number that no double can hold raises \<open>OverflowError\<close> instead of falling back or being refused.

  \<^bold>\<open>Assumptions.\<close> Unique indexes are checked where the code flushes or commits. A query without an order
  returns rows in insertion order, its groups in the order of their first row, and a float sum adds in that
  order. Floats above \<open>2 ^ 1024\<close>, which would be infinite, are not values of the arithmetic (\<open>pow\<close> raises
  there, as in Python), and seconds between instants are exact. A database session commits at once or
  not at all: what a handler had not committed when it raised is gone, and a stream is cut off between its
  events, never inside a commit. A call to Redis that raises has had no effect. Strings are lists of
  8-bit code points. The generator is a parameter that hands out its next draw. Of the sync component, which ISO strings parse, which tasks other tables hold on
  to and what the driver makes of a bound value are parameters; of the middleware, the token library and
  the digest; of clicks and checks without a client id, the fresh hex string.

  \<^bold>\<open>Not modelled.\<close> Authentication, rate limits, response serialization and the detail of a 422; timestamps
  the handlers only echo, and 32-bit column widths; the bound of 24 hours on how far ahead a synced change
  may be stamped (the sync theorems hold for any stamp); finished speedrun phases without an end time,
  which nothing writes; the schedulers around the sweep and the reminder tick;
  the push and mail transports, which are a log of sends. The diary, timeline and notification-preference
  endpoints, the planner heuristics and the language-model prompts, the task, project and user endpoints,
  object storage, migrations and scripts: single-row reads and writes through the ORM, or calls into
  packages that are not part of the repository.
\<close>

end
